(* ===== verification/Prelude.thy ===== *)
theory Prelude
  imports Main "HOL-Library.Word" "HOL-Library.Multiset"
begin

text \<open>
  Shared vocabulary of the development: byte strings and the C string functions the sources
  call, the pthread monitor (a critical section that either waits on a condition variable or
  leaves with a result and its notifications), return codes, and the lemma collections.

  A C \<open>char\<close> is an Isabelle \<open>char\<close> (eight bits), a buffer is a \<open>bytes\<close> list and a
  NUL-terminated string is the list of its characters before the NUL.
\<close>

section \<open>Lemma collections\<close>

named_theorems wf_intros \<open>preservation of component invariants\<close>
named_theorems cstring_simps \<open>equations of the C string functions\<close>

section \<open>Byte strings\<close>

type_synonym bytes = "char list"
type_synonym u32 = "32 word"
type_synonym u64 = "64 word"

abbreviation NUL :: char where
  "NUL \<equiv> CHR 0x00"

abbreviation LF :: char where
  "LF \<equiv> CHR 0x0A"

text \<open>The string a NUL-terminated buffer holds.\<close>

definition cstr :: "bytes \<Rightarrow> string" where
  "cstr b = takeWhile (\<lambda>c. c \<noteq> NUL) b"

text \<open>\<open>snprintf(buf, n, ...)\<close>, and \<open>strncpy(buf, s, n - 1); buf[n - 1] = 0\<close>: the text cut to
  the \<open>n - 1\<close> bytes that fit before the terminator.\<close>

definition fit :: "nat \<Rightarrow> string \<Rightarrow> string" where
  "fit n s = take (n - 1) s"

text \<open>\<open>strncmp(s, pat, strlen(pat)) == 0\<close>.\<close>

definition starts_with :: "string \<Rightarrow> string \<Rightarrow> bool" where
  "starts_with pat s \<longleftrightarrow> take (length pat) s = pat"

text \<open>\<open>strchr\<close> as the offset of the first occurrence.\<close>

fun strchr :: "char \<Rightarrow> string \<Rightarrow> nat option" where
  "strchr c [] = None"
| "strchr c (x # xs) = (if x = c then Some 0 else map_option Suc (strchr c xs))"

text \<open>\<open>strstr\<close> as the offset of the first occurrence.\<close>

fun strstr :: "string \<Rightarrow> string \<Rightarrow> nat option" where
  "strstr pat [] = (if pat = [] then Some 0 else None)"
| "strstr pat (x # xs) =
     (if starts_with pat (x # xs) then Some 0 else map_option Suc (strstr pat xs))"

text \<open>The value of a (signed, as gcc has it on x86) \<open>char\<close> promoted to \<open>int\<close>.\<close>

definition char_int :: "char \<Rightarrow> int" where
  "char_int c = (let v = int (of_char c) in if v < 128 then v else v - 256)"

lemma cstr_no_nul [simp]: "NUL \<notin> set (cstr b)"
  by (auto simp: cstr_def dest: set_takeWhileD)

lemma cstr_id [cstring_simps]: "NUL \<notin> set s \<Longrightarrow> cstr s = s"
  by (induction s) (auto simp: cstr_def)

lemma cstr_append_nul [cstring_simps]: "NUL \<notin> set s \<Longrightarrow> cstr (s @ NUL # r) = s"
  by (induction s) (auto simp: cstr_def)

lemma cstr_line: "NUL \<notin> set l \<Longrightarrow> cstr (l @ LF # r) = l @ LF # cstr r"
  by (induction l) (auto simp: cstr_def)

lemma length_cstr_le: "length (cstr b) \<le> length b"
  by (simp add: cstr_def length_takeWhile_le)

lemma length_fit [simp]: "length (fit n s) = min (n - 1) (length s)"
  by (simp add: fit_def min.commute)

lemma fit_short [cstring_simps]: "length s < n \<Longrightarrow> fit n s = s"
  by (simp add: fit_def)

lemma set_fit: "c \<in> set (fit n s) \<Longrightarrow> c \<in> set s"
  by (auto simp: fit_def dest: in_set_takeD)

lemma strchr_None [cstring_simps]: "strchr c s = None \<longleftrightarrow> c \<notin> set s"
  by (induction s) auto

lemma strchr_append [cstring_simps]: "c \<notin> set s \<Longrightarrow> strchr c (s @ c # r) = Some (length s)"
  by (induction s) auto

lemma strchr_SomeD: "strchr c s = Some i \<Longrightarrow> i < length s \<and> s ! i = c \<and> c \<notin> set (take i s)"
  by (induction s arbitrary: i) (auto split: if_splits)

lemma starts_with_append [cstring_simps]: "starts_with pat (pat @ s)"
  by (simp add: starts_with_def)

lemma starts_with_fits: "length pat \<le> length s \<Longrightarrow> starts_with pat (s @ t) = starts_with pat s"
  by (simp add: starts_with_def)

lemma strstr_length: "strstr pat s = Some i \<Longrightarrow> i + length pat \<le> length s"
proof (induction s arbitrary: i)
  case (Cons x xs)
  have "length pat \<le> Suc (length xs)" if "starts_with pat (x # xs)"
    using arg_cong [OF that [unfolded starts_with_def], of length] by simp
  with Cons show ?case by (auto split: if_splits)
qed (simp split: if_splits)

lemma strstr_append: "strstr pat s = Some i \<Longrightarrow> strstr pat (s @ t) = Some i"
proof (induction s arbitrary: i)
  case Nil
  then show ?case by (cases t) (auto simp: starts_with_def split: if_splits)
next
  case (Cons x xs)
  have "length pat \<le> length (x # xs)" using strstr_length [OF Cons.prems] by simp
  from starts_with_fits [OF this, of t] Cons show ?case by (auto split: if_splits)
qed

section \<open>Monitors\<close>

text \<open>
  A function that runs under a pthread mutex and may block in \<open>pthread_cond_wait\<close> is modelled by
  one pass over its critical section: it either finds its \<open>while\<close> guard true and goes to sleep on
  a condition variable, releasing the mutex and leaving the state as it is, or it leaves with its
  return value, the new state and the notifications it sent.
\<close>

datatype condvar = Not_empty | Not_full | Resp_cv

datatype notify = Signal condvar | Broadcast condvar

datatype ('r, 's) monitor =
    Wait condvar
  | Leave (returned: 'r) (left_state: 's) (notified: "notify list")

text \<open>The values of \<open>errno\<close> the sources tell apart (\<open>EWOULDBLOCK\<close> is \<open>EAGAIN\<close> on Linux); any other
  value is \<open>EOTHER\<close>.\<close>

datatype errno =
  EINTR | EAGAIN | EPIPE | ENOENT | EACCES | EPERM | ENOSPC | ENAMETOOLONG | EISDIR | ENOTDIR
| EOTHER int

text \<open>What an initialiser acquires and a destructor releases. Destroying what is not held (a second
  \<open>free\<close>, a \<open>pthread_mutex_destroy\<close> of a destroyed mutex) is undefined in C; here it leaves a mark
  among the things held, which no later step removes.\<close>

datatype resource = Res_buffer | Res_mutex | Res_cond condvar | Res_twice resource

definition release :: "('a \<Rightarrow> 'a) \<Rightarrow> 'a \<Rightarrow> 'a list \<Rightarrow> 'a list" where
  "release twice x live = (if x \<in> set live then remove1 x live else twice x # live)"

abbreviation release_res :: "resource \<Rightarrow> resource list \<Rightarrow> resource list" where
  "release_res \<equiv> release Res_twice"

lemma fold_release:
  "distinct xs \<Longrightarrow> set xs \<subseteq> set live \<Longrightarrow> fold (release twice) xs live = fold remove1 xs live"
proof (induction xs arbitrary: live)
  case (Cons x xs)
  have "set xs \<subseteq> set (remove1 x live)"
  proof
    fix y assume "y \<in> set xs"
    with Cons.prems have "y \<noteq> x" "y \<in> set live" by auto
    then show "y \<in> set (remove1 x live)" by simp
  qed
  with Cons show ?case by (simp add: release_def)
qed simp

abbreviation INT_MAX :: int where
  "INT_MAX \<equiv> 2147483647"

section \<open>Lists\<close>

lemma length_filter_update:
  assumes "i < length xs"
  shows "length (filter P (xs[i := y])) + (if P (xs ! i) then 1 else 0)
    = length (filter P xs) + (if P y then 1 else 0)"
proof -
  have "length (filter P xs) = length (filter P (take i xs @ xs ! i # drop (Suc i) xs))"
    using assms by (simp add: id_take_nth_drop [symmetric])
  then show ?thesis using assms by (simp add: upd_conv_take_nth_drop)
qed

lemma nth_update_if: "xs[i := y] ! j = (if i = j \<and> i < length xs then y else xs ! j)"
  by (cases "i < length xs") (auto simp: nth_list_update list_update_beyond)

lemma filter_length_pos: "i < length xs \<Longrightarrow> P (xs ! i) \<Longrightarrow> 0 < length (filter P xs)"
  by (auto simp: filter_empty_conv intro: nth_mem)

section \<open>Circular buffers\<close>

text \<open>
  The elements a circular buffer holds, oldest first: \<open>n\<close> slots from index \<open>h\<close> on, modulo the
  capacity \<open>c\<close>. Both queues of the server are such buffers.
\<close>

definition ring_items :: "'a list \<Rightarrow> int \<Rightarrow> int \<Rightarrow> int \<Rightarrow> 'a list" where
  "ring_items xs h n c = map (\<lambda>k. xs ! nat ((h + int k) mod c)) [0..<nat n]"

lemma length_ring_items [simp]: "length (ring_items xs h n c) = nat n"
  by (simp add: ring_items_def)

lemma mod_add_inj:
  fixes h i j c :: int
  assumes "0 \<le> i" "i < c" "0 \<le> j" "j < c" "(h + i) mod c = (h + j) mod c"
  shows "i = j"
proof -
  have "c dvd (h + i) - (h + j)" using assms(5) by (simp add: mod_eq_dvd_iff)
  then have "c dvd i - j" by simp
  then have "i mod c = j mod c" by (simp add: mod_eq_dvd_iff)
  with assms show ?thesis by simp
qed

lemma ring_items_push:
  assumes "0 \<le> n" "n < c" "length xs = nat c"
  shows "ring_items (xs[nat ((h + n) mod c) := x]) h (n + 1) c = ring_items xs h n c @ [x]"
proof (rule nth_equalityI)
  show "length (ring_items (xs[nat ((h + n) mod c) := x]) h (n + 1) c)
    = length (ring_items xs h n c @ [x])"
    using assms by simp
next
  fix i assume "i < length (ring_items (xs[nat ((h + n) mod c) := x]) h (n + 1) c)"
  then have i: "int i < n + 1" using assms(1) by simp
  have pos: "0 < c" using assms by linarith
  have ne: "nat ((h + int i) mod c) \<noteq> nat ((h + n) mod c)" if "int i < n"
    using mod_add_inj [of "int i" c n h] that assms pos by (auto simp: eq_nat_nat_iff)
  have lt: "nat ((h + n) mod c) < length xs"
    using pos assms(3) by (simp add: nat_less_iff)
  show "ring_items (xs[nat ((h + n) mod c) := x]) h (n + 1) c ! i = (ring_items xs h n c @ [x]) ! i"
  proof (cases "int i < n")
    case True
    then have "i < nat n" "i < nat (n + 1)" by linarith+
    with True ne show ?thesis by (simp add: ring_items_def nth_append)
  next
    case False
    with i have "int i = n" by simp
    then have "i = nat n" "i < nat (n + 1)" by linarith+
    with lt \<open>int i = n\<close> show ?thesis by (simp add: ring_items_def nth_append)
  qed
qed

lemma ring_items_pop:
  assumes "0 < n" "0 < c" "0 \<le> h" "h < c"
  shows "ring_items xs h n c = xs ! nat h # ring_items xs ((h + 1) mod c) (n - 1) c"
proof -
  have n: "nat n = Suc (nat (n - 1))" using assms(1) by linarith
  have "ring_items xs h n c
    = xs ! nat (h mod c) # map (\<lambda>k. xs ! nat ((h + int (Suc k)) mod c)) [0..<nat (n - 1)]"
    unfolding ring_items_def n by (subst map_upt_Suc) simp
  moreover have "(h + int (Suc k)) mod c = ((h + 1) mod c + int k) mod c" for k
    by (simp add: mod_simps algebra_simps)
  ultimately show ?thesis using assms by (simp add: ring_items_def)
qed

text \<open>The tail index the code keeps is the head index plus the size.\<close>

lemma ring_tail_push:
  fixes h n c :: int
  shows "((h + n) mod c + 1) mod c = (h + (n + 1)) mod c"
  by (simp add: mod_simps add.assoc)

lemma ring_tail_pop:
  fixes h n c :: int
  shows "((h + 1) mod c + (n - 1)) mod c = (h + n) mod c"
proof -
  have "((h + 1) mod c + (n - 1)) mod c = ((h + 1) + (n - 1)) mod c" by (rule mod_add_left_eq)
  then show ?thesis by simp
qed

section \<open>Decimal numbers\<close>

text \<open>\<open>printf("%zu")\<close>.\<close>

definition digit :: "nat \<Rightarrow> char" where
  "digit n = char_of (48 + n)"

fun show_nat :: "nat \<Rightarrow> string" where
  "show_nat n = (if n < 10 then [digit n] else show_nat (n div 10) @ [digit (n mod 10)])"

declare show_nat.simps [simp del]

lemma of_char_digit [simp]: "n < 10 \<Longrightarrow> of_char (digit n) = 48 + n"
  by (simp add: digit_def)

text \<open>\<open>printf("%ld")\<close>.\<close>

definition show_int :: "int \<Rightarrow> string" where
  "show_int n = (if n < 0 then CHR ''-'' # show_nat (nat (- n)) else show_nat (nat n))"

lemma length_show_nat: "n < 10 ^ k \<Longrightarrow> 0 < k \<Longrightarrow> length (show_nat n) \<le> k"
proof (induction n arbitrary: k rule: show_nat.induct)
  case (1 n)
  show ?case
  proof (cases "n < 10")
    case True
    with "1.prems" show ?thesis by (simp add: show_nat.simps [of n])
  next
    case False
    with "1.prems" have k: "0 < k - 1" "k = Suc (k - 1)" by (cases "k = 1"; simp)+
    then have "n div 10 < 10 ^ (k - 1)" using "1.prems"(1) by (metis less_mult_imp_div_less mult.commute power_Suc)
    with "1.IH" [OF False this k(1)] False k show ?thesis by (simp add: show_nat.simps [of n])
  qed
qed

end
