(* ===== verification/Queue_Interface.thy ===== *)
theory Queue_Interface
  imports Prelude
begin

text \<open>
  What \<open>client_queue.c\<close> and \<open>task_queue.c\<close> both promise: a bounded, closable FIFO whose operations
  are monitor sections. The locale states the contract; its lemmas (FIFO order and conservation over
  any run of calls, draining after shutdown, no lost wake-up among sleeping threads) are proved once
  and hold for each queue by interpretation. The runs and the thread system themselves are ordinary
  definitions over the operations.
\<close>

section \<open>Runs of calls\<close>

datatype 'a qcall = Push 'a | Pop | Shutdown

text \<open>
  A run of calls by any number of threads: a call that must wait leaves the queue as it is. The run
  collects the values whose push was accepted (returned 0) and the results of the completed pops.
\<close>

fun qrun ::
  "('q \<Rightarrow> 'a \<Rightarrow> (int, 'q) monitor) \<Rightarrow> ('q \<Rightarrow> ('r, 'q) monitor) \<Rightarrow> ('q \<Rightarrow> (unit, 'q) monitor) \<Rightarrow>
   'q \<Rightarrow> 'a qcall list \<Rightarrow> 'q \<times> 'a list \<times> 'r list" where
  "qrun push pop shut q [] = (q, [], [])"
| "qrun push pop shut q (Push x # cs) =
     (case push q x of
        Wait c \<Rightarrow> qrun push pop shut q cs
      | Leave r q' ns \<Rightarrow>
          (let (q'', acc, rets) = qrun push pop shut q' cs
           in (q'', if r = 0 then x # acc else acc, rets)))"
| "qrun push pop shut q (Pop # cs) =
     (case pop q of
        Wait c \<Rightarrow> qrun push pop shut q cs
      | Leave r q' ns \<Rightarrow>
          (let (q'', acc, rets) = qrun push pop shut q' cs in (q'', acc, r # rets)))"
| "qrun push pop shut q (Shutdown # cs) =
     (case shut q of
        Wait c \<Rightarrow> qrun push pop shut q cs
      | Leave r q' ns \<Rightarrow> qrun push pop shut q' cs)"

section \<open>Threads at the monitor\<close>

text \<open>
  The threads inside a queue's operations: those ready to test their guard (just arrived, woken, or
  not yet scheduled) and those asleep on a condition variable, as multisets of their calls.
\<close>

datatype 'a request = Req_push 'a | Req_pop

fun waits_on :: "'a request \<Rightarrow> condvar" where
  "waits_on (Req_push x) = Not_full"
| "waits_on Req_pop = Not_empty"

fun is_push :: "'a request \<Rightarrow> bool" where
  "is_push (Req_push x) = True"
| "is_push Req_pop = False"

record ('q, 'a) qthreads =
  mq :: 'q
  ready :: "'a request multiset"
  asleep :: "'a request multiset"

text \<open>\<open>pthread_cond_signal\<close> wakes some sleeper of the variable if there is one,
  \<open>pthread_cond_broadcast\<close> all of them.\<close>

inductive wakes ::
  "notify list \<Rightarrow> 'a request multiset \<Rightarrow> 'a request multiset \<Rightarrow>
   'a request multiset \<Rightarrow> 'a request multiset \<Rightarrow> bool" where
  wakes_done: "wakes [] rd sl rd sl"
| wakes_none: "filter_mset (\<lambda>r. waits_on r = c) sl = {#} \<Longrightarrow> wakes ns rd sl rd' sl' \<Longrightarrow>
     wakes (Signal c # ns) rd sl rd' sl'"
| wakes_one: "r \<in># sl \<Longrightarrow> waits_on r = c \<Longrightarrow>
     wakes ns (add_mset r rd) (sl - {#r#}) rd' sl' \<Longrightarrow> wakes (Signal c # ns) rd sl rd' sl'"
| wakes_all: "wakes ns (rd + filter_mset (\<lambda>r. waits_on r = c) sl)
       (filter_mset (\<lambda>r. waits_on r \<noteq> c) sl) rd' sl' \<Longrightarrow>
     wakes (Broadcast c # ns) rd sl rd' sl'"

inductive_cases wakes_NilE: "wakes [] rd sl rd' sl'"
inductive_cases wakes_SignalE: "wakes (Signal c # ns) rd sl rd' sl'"
inductive_cases wakes_BroadcastE: "wakes (Broadcast c # ns) rd sl rd' sl'"

text \<open>One step of the threads: a call arrives, a ready thread runs its section (and sleeps or
  leaves), shutdown is signalled, or a sleeper wakes spuriously, as POSIX allows.\<close>

inductive qthread_step ::
  "('q \<Rightarrow> 'a \<Rightarrow> (int, 'q) monitor) \<Rightarrow> ('q \<Rightarrow> ('r, 'q) monitor) \<Rightarrow> ('q \<Rightarrow> (unit, 'q) monitor) \<Rightarrow>
   ('q, 'a) qthreads \<Rightarrow> ('q, 'a) qthreads \<Rightarrow> bool"
  for push pop shut where
  arrive: "qthread_step push pop shut s (s\<lparr>ready := add_mset r (ready s)\<rparr>)"
| push_sleeps: "Req_push x \<in># ready s \<Longrightarrow> push (mq s) x = Wait c \<Longrightarrow>
     qthread_step push pop shut s
       (s\<lparr>ready := ready s - {#Req_push x#}, asleep := add_mset (Req_push x) (asleep s)\<rparr>)"
| push_leaves: "Req_push x \<in># ready s \<Longrightarrow> push (mq s) x = Leave ret q' ns \<Longrightarrow>
     wakes ns (ready s - {#Req_push x#}) (asleep s) rd sl \<Longrightarrow>
     qthread_step push pop shut s \<lparr>mq = q', ready = rd, asleep = sl\<rparr>"
| pop_sleeps: "Req_pop \<in># ready s \<Longrightarrow> pop (mq s) = Wait c \<Longrightarrow>
     qthread_step push pop shut s
       (s\<lparr>ready := ready s - {#Req_pop#}, asleep := add_mset Req_pop (asleep s)\<rparr>)"
| pop_leaves: "Req_pop \<in># ready s \<Longrightarrow> pop (mq s) = Leave v q' ns \<Longrightarrow>
     wakes ns (ready s - {#Req_pop#}) (asleep s) rd sl \<Longrightarrow>
     qthread_step push pop shut s \<lparr>mq = q', ready = rd, asleep = sl\<rparr>"
| shuts: "shut (mq s) = Leave u q' ns \<Longrightarrow> wakes ns (ready s) (asleep s) rd sl \<Longrightarrow>
     qthread_step push pop shut s \<lparr>mq = q', ready = rd, asleep = sl\<rparr>"
| spurious: "r \<in># asleep s \<Longrightarrow>
     qthread_step push pop shut s
       (s\<lparr>ready := add_mset r (ready s), asleep := asleep s - {#r#}\<rparr>)"

text \<open>The states the threads reach from a fresh queue that nobody uses yet.\<close>

inductive qthreads_reach ::
  "('q \<Rightarrow> 'a \<Rightarrow> (int, 'q) monitor) \<Rightarrow> ('q \<Rightarrow> ('r, 'q) monitor) \<Rightarrow> ('q \<Rightarrow> (unit, 'q) monitor) \<Rightarrow>
   'q \<Rightarrow> ('q, 'a) qthreads \<Rightarrow> bool"
  for push pop shut q0 where
  qthreads_start: "qthreads_reach push pop shut q0 \<lparr>mq = q0, ready = {#}, asleep = {#}\<rparr>"
| qthreads_step: "qthreads_reach push pop shut q0 s \<Longrightarrow> qthread_step push pop shut s t \<Longrightarrow>
     qthreads_reach push pop shut q0 t"

lemma wakes_not_empty:
  assumes "wakes [Signal Not_empty] rd sl rd' sl'"
  obtains (nobody) "Req_pop \<notin># sl" "rd' = rd" "sl' = sl"
  | (woken) "Req_pop \<in># sl" "rd' = add_mset Req_pop rd" "sl' = sl - {#Req_pop#}"
proof -
  have key: "waits_on r = Not_empty \<longleftrightarrow> r = Req_pop" for r :: "'a request" by (cases r) auto
  from assms show thesis
    by (elim wakes_SignalE wakes_NilE) (auto simp: key intro: nobody woken)
qed

lemma wakes_not_full:
  assumes "wakes [Signal Not_full] rd sl rd' sl'"
  obtains (nobody) "\<And>x. Req_push x \<notin># sl" "rd' = rd" "sl' = sl"
  | (woken) x where "Req_push x \<in># sl" "rd' = add_mset (Req_push x) rd" "sl' = sl - {#Req_push x#}"
proof -
  from assms consider "\<forall>r \<in># sl. waits_on r \<noteq> Not_full" "rd' = rd" "sl' = sl"
    | r where "r \<in># sl" "waits_on r = Not_full" "rd' = add_mset r rd" "sl' = sl - {#r#}"
    by (elim wakes_SignalE wakes_NilE) auto
  then show thesis
  proof cases
    case 1
    then have "Req_push x \<notin># sl" for x by force
    with 1 nobody show thesis by blast
  next
    case (2 r)
    with woken show thesis by (cases r) auto
  qed
qed

lemma wakes_everyone:
  assumes "wakes [Broadcast Not_empty, Broadcast Not_full] rd sl rd' sl'"
  shows "rd' = rd + sl \<and> sl' = {#}"
proof -
  have 1: "waits_on r \<noteq> Not_empty \<longleftrightarrow> waits_on r = Not_full" for r :: "'a request" by (cases r) auto
  have 2: "filter_mset (\<lambda>r. waits_on r = Not_empty) sl + filter_mset (\<lambda>r. waits_on r = Not_full) sl = sl"
    using multiset_partition [of sl "\<lambda>r. waits_on r = Not_empty"] by (simp add: 1)
  from assms show ?thesis
    by (elim wakes_BroadcastE wakes_NilE) (use 2 in \<open>auto simp: 1 filter_filter_mset add.assoc\<close>)
qed

section \<open>The contract\<close>

locale bounded_queue =
  fixes wf :: "'q \<Rightarrow> bool"
    and cap :: "'q \<Rightarrow> nat"
    and items :: "'q \<Rightarrow> 'a list"
    and closed :: "'q \<Rightarrow> bool"
    and push :: "'q \<Rightarrow> 'a \<Rightarrow> (int, 'q) monitor"
    and pop :: "'q \<Rightarrow> ('r, 'q) monitor"
    and shut :: "'q \<Rightarrow> (unit, 'q) monitor"
    and got :: "'a \<Rightarrow> 'r"
    and nothing :: 'r
  assumes items_le_cap: "wf q \<Longrightarrow> length (items q) \<le> cap q"
    and cap_pos: "wf q \<Longrightarrow> 0 < cap q"
    and push_waits: "wf q \<Longrightarrow> \<not> closed q \<Longrightarrow> length (items q) = cap q \<Longrightarrow> push q x = Wait Not_full"
    and push_closed: "wf q \<Longrightarrow> closed q \<Longrightarrow> push q x = Leave (- 1) q []"
    and push_accepts: "wf q \<Longrightarrow> \<not> closed q \<Longrightarrow> length (items q) < cap q \<Longrightarrow>
      \<exists>q'. push q x = Leave 0 q' [Signal Not_empty] \<and> wf q' \<and> cap q' = cap q \<and>
        \<not> closed q' \<and> items q' = items q @ [x]"
    and pop_waits: "wf q \<Longrightarrow> \<not> closed q \<Longrightarrow> items q = [] \<Longrightarrow> pop q = Wait Not_empty"
    and pop_closed: "wf q \<Longrightarrow> closed q \<Longrightarrow> items q = [] \<Longrightarrow> pop q = Leave nothing q []"
    and pop_takes: "wf q \<Longrightarrow> items q = x # xs \<Longrightarrow>
      \<exists>q'. pop q = Leave (got x) q' [Signal Not_full] \<and> wf q' \<and> cap q' = cap q \<and>
        closed q' = closed q \<and> items q' = xs"
    and shut_closes: "wf q \<Longrightarrow>
      \<exists>q'. shut q = Leave () q' [Broadcast Not_empty, Broadcast Not_full] \<and> wf q' \<and>
        cap q' = cap q \<and> closed q' \<and> items q' = items q"
begin

lemma push_cases:
  assumes "wf q"
  obtains (full) "\<not> closed q" "length (items q) = cap q" "push q x = Wait Not_full"
  | (shut) "closed q" "push q x = Leave (- 1) q []"
  | (room) q' where "\<not> closed q" "push q x = Leave 0 q' [Signal Not_empty]" "wf q'"
      "cap q' = cap q" "\<not> closed q'" "items q' = items q @ [x]"
  using assms items_le_cap [of q] push_waits [of q x] push_closed [of q x] push_accepts [of q x]
  by (metis le_neq_implies_less)

lemma pop_cases:
  assumes "wf q"
  obtains (empty) "\<not> closed q" "items q = []" "pop q = Wait Not_empty"
  | (shut) "closed q" "items q = []" "pop q = Leave nothing q []"
  | (took) x q' where "pop q = Leave (got x) q' [Signal Not_full]" "wf q'" "cap q' = cap q"
      "closed q' = closed q" "items q = x # items q'"
  using assms pop_waits [of q] pop_closed [of q] pop_takes [of q]
  by (cases "items q"; cases "closed q") fastforce+

subsection \<open>FIFO and conservation\<close>

text \<open>
  Nothing is lost, duplicated or reordered: what was in the queue and what was accepted is what the
  pops returned followed by what is still there. A pop that found the queue closed and empty
  returned \<open>nothing\<close>; values are told from it by \<open>got x \<noteq> nothing\<close>.
\<close>

lemma qrun_fifo:
  assumes "wf q" "qrun push pop shut q cs = (q', acc, rets)"
    and "\<And>x. x \<in> set (items q) \<union> {x. Push x \<in> set cs} \<Longrightarrow> got x \<noteq> nothing"
  shows "wf q' \<and> cap q' = cap q \<and>
    map got (items q @ acc) = filter (\<lambda>r. r \<noteq> nothing) rets @ map got (items q')"
  using assms
proof (induction cs arbitrary: q q' acc rets)
  case Nil
  then show ?case by simp
next
  case (Cons c cs)
  note ne = Cons.prems(3)
  show ?case
  proof (cases c)
    case (Push x)
    from \<open>wf q\<close> show ?thesis
    proof (cases rule: push_cases [of q x])
      case full
      with Push Cons.prems show ?thesis by (intro Cons.IH) auto
    next
      case shut
      with Push Cons.prems show ?thesis
        by (intro Cons.IH) (auto split: prod.splits)
    next
      case (room q1)
      obtain q2 acc2 rets2 where run: "qrun push pop shut q1 cs = (q2, acc2, rets2)"
        by (cases "qrun push pop shut q1 cs") auto
      have "wf q2 \<and> cap q2 = cap q1 \<and>
        map got (items q1 @ acc2) = filter (\<lambda>r. r \<noteq> nothing) rets2 @ map got (items q2)"
        using room run ne Push by (intro Cons.IH) auto
      with room run Push Cons.prems(2) show ?thesis by auto
    qed
  next
    case Pop
    from \<open>wf q\<close> show ?thesis
    proof (cases rule: pop_cases [of q])
      case empty
      with Pop Cons.prems show ?thesis by (intro Cons.IH) auto
    next
      case shut
      obtain q2 acc2 rets2 where run: "qrun push pop shut q cs = (q2, acc2, rets2)"
        by (cases "qrun push pop shut q cs") auto
      have "wf q2 \<and> cap q2 = cap q \<and>
        map got (items q @ acc2) = filter (\<lambda>r. r \<noteq> nothing) rets2 @ map got (items q2)"
        using run ne Cons.prems by (intro Cons.IH) auto
      with shut run Pop Cons.prems(2) show ?thesis by auto
    next
      case (took x q1)
      obtain q2 acc2 rets2 where run: "qrun push pop shut q1 cs = (q2, acc2, rets2)"
        by (cases "qrun push pop shut q1 cs") auto
      have "wf q2 \<and> cap q2 = cap q1 \<and>
        map got (items q1 @ acc2) = filter (\<lambda>r. r \<noteq> nothing) rets2 @ map got (items q2)"
        using took run ne Pop by (intro Cons.IH) auto
      moreover have "got x \<noteq> nothing" using ne took by auto
      ultimately show ?thesis using took run Pop Cons.prems(2) by auto
    qed
  next
    case Shutdown
    from shut_closes [OF \<open>wf q\<close>] obtain q1 where
      "shut q = Leave () q1 [Broadcast Not_empty, Broadcast Not_full]" "wf q1"
      "cap q1 = cap q" "items q1 = items q" by blast
    moreover from this have "wf q' \<and> cap q' = cap q1 \<and>
      map got (items q1 @ acc) = filter (\<lambda>r. r \<noteq> nothing) rets @ map got (items q')"
      using ne Shutdown Cons.prems(2) by (intro Cons.IH) auto
    ultimately show ?thesis by simp
  qed
qed

subsection \<open>Draining\<close>

text \<open>A closed queue hands out everything it still holds, in order, and then \<open>nothing\<close>.\<close>

lemma drain:
  assumes "wf q" "closed q"
  shows "\<exists>q'. qrun push pop shut q (replicate (length (items q) + n) Pop)
      = (q', [], map got (items q) @ replicate n nothing) \<and> items q' = [] \<and> closed q' \<and> wf q'"
  using assms
proof (induction "items q" arbitrary: q)
  case Nil
  then have "pop q = Leave nothing q []" by (simp add: pop_closed)
  then have "qrun push pop shut q (replicate n Pop) = (q, [], replicate n nothing)" for n
    by (induction n) auto
  with Nil show ?case by (metis add_0 append_Nil list.map(1) list.size(3))
next
  case (Cons x xs)
  from pop_takes [OF Cons.prems(1) Cons.hyps(2) [symmetric]] obtain q1 where
    q1: "pop q = Leave (got x) q1 [Signal Not_full]" "wf q1" "closed q1 = closed q" "items q1 = xs"
    by blast
  with Cons.hyps(1) [of q1] Cons.prems(2) obtain q2 where
    "qrun push pop shut q1 (replicate (length (items q1) + n) Pop)
      = (q2, [], map got (items q1) @ replicate n nothing)" "items q2 = []" "closed q2" "wf q2"
    by auto
  with q1 Cons.hyps(2) [symmetric] show ?case by auto
qed

end

section \<open>No lost wake-up\<close>

text \<open>
  The code signals one sleeper per transfer instead of broadcasting. That is enough: while a popper
  sleeps, every element in the queue has an awake popper about to take it, and dually for pushers
  and free slots.
\<close>

context bounded_queue begin

definition awake_inv :: "('q, 'a) qthreads \<Rightarrow> bool" where
  "awake_inv s \<longleftrightarrow> wf (mq s) \<and> (closed (mq s) \<longrightarrow> asleep s = {#}) \<and>
     (Req_pop \<in># asleep s \<longrightarrow> length (items (mq s)) \<le> count (ready s) Req_pop) \<and>
     (\<forall>x. Req_push x \<in># asleep s \<longrightarrow>
        cap (mq s) - length (items (mq s)) \<le> size (filter_mset is_push (ready s)))"

lemma awake_inv_push_leaves:
  assumes inv: "awake_inv s" and r: "Req_push x \<in># ready s"
    and p: "push (mq s) x = Leave ret q' ns"
    and w: "wakes ns (ready s - {#Req_push x#}) (asleep s) rd sl"
  shows "awake_inv \<lparr>mq = q', ready = rd, asleep = sl\<rparr>"
proof -
  from inv have wf: "wf (mq s)" by (simp add: awake_inv_def)
  from r obtain R where R: "ready s = add_mset (Req_push x) R" by (blast dest: multi_member_split)
  from wf show ?thesis
  proof (cases rule: push_cases [of "mq s" x])
    case full
    with p show ?thesis by simp
  next
    case shut
    with p w inv show ?thesis by (auto simp: awake_inv_def elim: wakes_NilE)
  next
    case (room q1)
    with p have q': "q' = q1" "ns = [Signal Not_empty]" by auto
    with w R have w': "wakes [Signal Not_empty] R (asleep s) rd sl" by simp
    from w' show ?thesis
    proof (cases rule: wakes_not_empty)
      case nobody
      with inv room q' R show ?thesis by (auto simp: awake_inv_def)
    next
      case woken
      with inv room q' R show ?thesis by (fastforce simp: awake_inv_def dest: in_diffD)
    qed
  qed
qed

lemma awake_inv_pop_leaves:
  assumes inv: "awake_inv s" and r: "Req_pop \<in># ready s"
    and p: "pop (mq s) = Leave ret q' ns"
    and w: "wakes ns (ready s - {#Req_pop#}) (asleep s) rd sl"
  shows "awake_inv \<lparr>mq = q', ready = rd, asleep = sl\<rparr>"
proof -
  from inv have wf: "wf (mq s)" by (simp add: awake_inv_def)
  from r obtain R where R: "ready s = add_mset Req_pop R" by (blast dest: multi_member_split)
  from wf show ?thesis
  proof (cases rule: pop_cases [of "mq s"])
    case empty
    with p show ?thesis by simp
  next
    case shut
    with p w inv show ?thesis by (auto simp: awake_inv_def elim: wakes_NilE)
  next
    case (took x q1)
    with p have q': "q' = q1" "ns = [Signal Not_full]" by auto
    with w R have w': "wakes [Signal Not_full] R (asleep s) rd sl" by simp
    from w' show ?thesis
    proof (cases rule: wakes_not_full)
      case nobody
      with inv took q' R show ?thesis by (auto simp: awake_inv_def)
    next
      case (woken y)
      with inv took q' R show ?thesis by (fastforce simp: awake_inv_def dest: in_diffD)
    qed
  qed
qed

lemma awake_inv_step:
  assumes "qthread_step push pop shut s t" "awake_inv s"
  shows "awake_inv t"
  using assms
proof (cases rule: qthread_step.cases)
  case (arrive r)
  with assms(2) show ?thesis by (cases r) (auto simp: awake_inv_def le_SucI)
next
  case (push_sleeps x c)
  from assms(2) have wf: "wf (mq s)" by (simp add: awake_inv_def)
  from push_sleeps wf have full: "\<not> closed (mq s)" "length (items (mq s)) = cap (mq s)"
    by (auto elim: push_cases [of "mq s" x])
  have "count (ready s - {#Req_push x#}) Req_pop = count (ready s) Req_pop" by simp
  with assms(2) push_sleeps full show ?thesis by (auto simp: awake_inv_def)
next
  case (push_leaves x ret q' ns rd sl)
  with assms(2) show ?thesis by (auto intro: awake_inv_push_leaves)
next
  case (pop_sleeps c)
  from assms(2) have wf: "wf (mq s)" by (simp add: awake_inv_def)
  from pop_sleeps wf have empty: "\<not> closed (mq s)" "items (mq s) = []"
    by (auto elim: pop_cases [of "mq s"])
  have "filter_mset is_push (ready s - {#Req_pop#}) = filter_mset is_push (ready s)"
    using pop_sleeps multi_member_split by fastforce
  with assms(2) pop_sleeps empty show ?thesis by (auto simp: awake_inv_def)
next
  case (pop_leaves v q' ns rd sl)
  with assms(2) show ?thesis by (auto intro: awake_inv_pop_leaves)
next
  case (shuts u q' ns rd sl)
  from assms(2) have "wf (mq s)" by (simp add: awake_inv_def)
  from shut_closes [OF this] shuts have "ns = [Broadcast Not_empty, Broadcast Not_full]" "wf q'"
    by auto
  with shuts wakes_everyone have "sl = {#}" by blast
  with shuts \<open>wf q'\<close> show ?thesis by (simp add: awake_inv_def)
next
  case (spurious r)
  with assms(2) show ?thesis by (cases r) (fastforce simp: awake_inv_def dest: in_diffD)+
qed

lemma awake_inv_reach:
  "qthreads_reach push pop shut q0 s \<Longrightarrow> wf q0 \<Longrightarrow> awake_inv s"
proof (induction rule: qthreads_reach.induct)
  case qthreads_start
  then show ?case by (simp add: awake_inv_def)
next
  case (qthreads_step s t)
  then show ?case by (blast intro: awake_inv_step)
qed

text \<open>When no thread is ready, a sleeping popper has nothing to take, a sleeping pusher has no room,
  and nobody sleeps on a closed queue.\<close>

lemma no_lost_wakeup:
  assumes "qthreads_reach push pop shut q0 s" "wf q0" "ready s = {#}"
  shows "(Req_pop \<in># asleep s \<longrightarrow> items (mq s) = []) \<and>
    (Req_push x \<in># asleep s \<longrightarrow> length (items (mq s)) = cap (mq s)) \<and>
    (closed (mq s) \<longrightarrow> asleep s = {#})"
proof -
  from assms(1,2) have inv: "awake_inv s" by (rule awake_inv_reach)
  then have "length (items (mq s)) \<le> cap (mq s)" by (auto simp: awake_inv_def items_le_cap)
  with inv assms(3) show ?thesis by (fastforce simp: awake_inv_def)
qed

end

end
