(* ===== verification/Client_Queue.thy ===== *)
theory Client_Queue
  imports Queue_Interface
begin

text \<open>
  \<open>src/queue/client_queue.c\<close>: the queue of accepted socket descriptors between the accept loop and
  the client threads. The pointer \<open>q\<close> is always the address of the global \<open>client_queue\<close>, so the
  \<open>!q\<close> guards cannot fire and the state is passed directly. The return codes of \<open>calloc\<close> and of the
  pthread initialisers are arguments of \<open>client_queue_init\<close>, which also reports what it holds when it
  returns.
\<close>

section \<open>The code\<close>

record ClientQueue =
  cq_fds :: "int list"
  cq_capacity :: int
  cq_head :: int
  cq_tail :: int
  cq_size :: int
  cq_shutdown :: bool

definition client_queue_init ::
  "bool \<Rightarrow> int \<Rightarrow> int \<Rightarrow> int \<Rightarrow> int \<Rightarrow> int \<times> ClientQueue option \<times> resource list" where
  "client_queue_init calloc_ok mtx_rc ne_rc nf_rc capacity =
     (if capacity \<le> 0 then (- 1, None, [])
      else if \<not> calloc_ok then (- 1, None, [])
      else
        let q = \<lparr>cq_fds = replicate (nat capacity) 0, cq_capacity = capacity, cq_head = 0,
                 cq_tail = 0, cq_size = 0, cq_shutdown = False\<rparr>;
            live = [Res_buffer]
        in if mtx_rc \<noteq> 0 then (- 1, None, release_res Res_buffer live)
           else let live = Res_mutex # live
           in if ne_rc \<noteq> 0 then (- 1, None, release_res Res_buffer (release_res Res_mutex live))
           else let live = Res_cond Not_empty # live
           in if nf_rc \<noteq> 0 then
                (- 1, None, release_res Res_buffer (release_res Res_mutex (release_res (Res_cond Not_empty) live)))
           else (0, Some q, Res_cond Not_full # live))"

definition client_queue_destroy ::
  "ClientQueue \<Rightarrow> resource list \<Rightarrow> ClientQueue \<times> notify list \<times> resource list" where
  "client_queue_destroy q live =
     (q\<lparr>cq_shutdown := True, cq_fds := []\<rparr>, [Broadcast Not_empty, Broadcast Not_full],
      release_res Res_buffer (release_res Res_mutex
        (release_res (Res_cond Not_full) (release_res (Res_cond Not_empty) live))))"

definition client_queue_push :: "ClientQueue \<Rightarrow> int \<Rightarrow> (int, ClientQueue) monitor" where
  "client_queue_push q fd =
     (if cq_size q = cq_capacity q \<and> \<not> cq_shutdown q then Wait Not_full
      else if cq_shutdown q then Leave (- 1) q []
      else Leave 0
        (q\<lparr>cq_fds := (cq_fds q)[nat (cq_tail q) := fd],
           cq_tail := (cq_tail q + 1) mod cq_capacity q,
           cq_size := cq_size q + 1\<rparr>)
        [Signal Not_empty])"

definition client_queue_pop :: "ClientQueue \<Rightarrow> (int, ClientQueue) monitor" where
  "client_queue_pop q =
     (if cq_size q = 0 \<and> \<not> cq_shutdown q then Wait Not_empty
      else if cq_size q = 0 \<and> cq_shutdown q then Leave (- 1) q []
      else Leave (cq_fds q ! nat (cq_head q))
        (q\<lparr>cq_head := (cq_head q + 1) mod cq_capacity q,
           cq_size := cq_size q - 1\<rparr>)
        [Signal Not_full])"

definition client_queue_signal_shutdown :: "ClientQueue \<Rightarrow> (unit, ClientQueue) monitor" where
  "client_queue_signal_shutdown q =
     Leave () (q\<lparr>cq_shutdown := True\<rparr>) [Broadcast Not_empty, Broadcast Not_full]"

lemmas client_queue_defs =
  client_queue_push_def client_queue_pop_def client_queue_signal_shutdown_def

section \<open>Invariant and abstraction\<close>

text \<open>The indices stay inside the buffer (so \<open>tail + 1\<close> and \<open>head + 1\<close> stay inside \<open>int\<close>), and the
  three of them agree.\<close>

definition cq_wf :: "ClientQueue \<Rightarrow> bool" where
  "cq_wf q \<longleftrightarrow> 0 < cq_capacity q \<and> cq_capacity q \<le> INT_MAX \<and>
     length (cq_fds q) = nat (cq_capacity q) \<and>
     0 \<le> cq_head q \<and> cq_head q < cq_capacity q \<and>
     0 \<le> cq_size q \<and> cq_size q \<le> cq_capacity q \<and>
     cq_tail q = (cq_head q + cq_size q) mod cq_capacity q"

definition cq_items :: "ClientQueue \<Rightarrow> int list" where
  "cq_items q = ring_items (cq_fds q) (cq_head q) (cq_size q) (cq_capacity q)"

abbreviation cq_cap :: "ClientQueue \<Rightarrow> nat" where
  "cq_cap q \<equiv> nat (cq_capacity q)"

lemma length_cq_items [simp]: "length (cq_items q) = nat (cq_size q)"
  by (simp add: cq_items_def)

lemma cq_size_items: "cq_wf q \<Longrightarrow> cq_size q = int (length (cq_items q))"
  by (simp add: cq_wf_def)

lemma client_queue_push_room:
  assumes "cq_wf q" "\<not> cq_shutdown q" "length (cq_items q) < cq_cap q"
  shows "\<exists>q'. client_queue_push q fd = Leave 0 q' [Signal Not_empty] \<and> cq_wf q' \<and>
    cq_cap q' = cq_cap q \<and> \<not> cq_shutdown q' \<and> cq_items q' = cq_items q @ [fd]"
proof -
  from assms have lt: "cq_size q < cq_capacity q" "0 \<le> cq_size q" by (auto simp: cq_wf_def)
  with assms(1) have "ring_items ((cq_fds q)[nat (cq_tail q) := fd]) (cq_head q) (cq_size q + 1)
      (cq_capacity q) = cq_items q @ [fd]"
    by (simp add: cq_items_def cq_wf_def ring_items_push)
  with assms lt show ?thesis
    by (auto simp: client_queue_push_def cq_wf_def cq_items_def ring_tail_push)
qed

lemma client_queue_pop_some:
  assumes "cq_wf q" "cq_items q = x # xs"
  shows "\<exists>q'. client_queue_pop q = Leave x q' [Signal Not_full] \<and> cq_wf q' \<and>
    cq_cap q' = cq_cap q \<and> cq_shutdown q' = cq_shutdown q \<and> cq_items q' = xs"
proof -
  from assms(2) have "nat (cq_size q) = Suc (length xs)" by (metis length_cq_items length_Cons)
  then have pos: "0 < cq_size q" by linarith
  with assms have "x # xs = cq_fds q ! nat (cq_head q)
      # ring_items (cq_fds q) ((cq_head q + 1) mod cq_capacity q) (cq_size q - 1) (cq_capacity q)"
    by (simp add: cq_items_def cq_wf_def ring_items_pop)
  with assms(1) pos show ?thesis
    by (auto simp: client_queue_pop_def cq_wf_def cq_items_def ring_tail_pop)
qed

interpretation cq: bounded_queue cq_wf cq_cap cq_items cq_shutdown client_queue_push
  client_queue_pop client_queue_signal_shutdown "\<lambda>fd. fd" "- 1"
proof unfold_locales
  fix q x assume "cq_wf q" "\<not> cq_shutdown q" "length (cq_items q) < cq_cap q"
  then show "\<exists>q'. client_queue_push q x = Leave 0 q' [Signal Not_empty] \<and> cq_wf q' \<and>
      cq_cap q' = cq_cap q \<and> \<not> cq_shutdown q' \<and> cq_items q' = cq_items q @ [x]"
    by (rule client_queue_push_room)
next
  fix q x xs assume "cq_wf q" "cq_items q = x # xs"
  then show "\<exists>q'. client_queue_pop q = Leave x q' [Signal Not_full] \<and> cq_wf q' \<and>
      cq_cap q' = cq_cap q \<and> cq_shutdown q' = cq_shutdown q \<and> cq_items q' = xs"
    by (rule client_queue_pop_some)
next
  fix q assume "cq_wf q" "\<not> cq_shutdown q" "cq_items q = []"
  then have "cq_size q = 0" by (simp add: cq_size_items)
  then show "client_queue_pop q = Wait Not_empty"
    using \<open>\<not> cq_shutdown q\<close> by (simp add: client_queue_pop_def)
next
  fix q assume "cq_wf q" "cq_shutdown q" "cq_items q = []"
  then have "cq_size q = 0" by (simp add: cq_size_items)
  then show "client_queue_pop q = Leave (- 1) q []"
    using \<open>cq_shutdown q\<close> by (simp add: client_queue_pop_def)
qed (auto simp: cq_wf_def client_queue_defs cq_items_def)

lemma client_queue_init_wf [wf_intros]:
  "client_queue_init ok m e f c = (0, Some q, live) \<Longrightarrow> c \<le> INT_MAX \<Longrightarrow>
     cq_wf q \<and> cq_items q = [] \<and> \<not> cq_shutdown q \<and> cq_capacity q = c"
  by (auto simp: client_queue_init_def Let_def cq_wf_def cq_items_def ring_items_def split: if_splits)

section \<open>Properties\<close>

text \<open>
  C31: The client queue never loses a wake-up although it signals one waiter at a time. In every state
  the threads reach from a successfully initialised queue, when no thread is left running: a thread
  asleep in pop means the queue is empty, a thread asleep in push means it is full, and after
  shutdown no thread is asleep at all.
\<close>

theorem client_queue_no_lost_wakeup:
  assumes "client_queue_init ok m e f c = (0, Some q0, live)" and "c \<le> INT_MAX"
    and "qthreads_reach client_queue_push client_queue_pop client_queue_signal_shutdown q0 s"
    and "ready s = {#}"
  shows "(Req_pop \<in># asleep s \<longrightarrow> cq_items (mq s) = []) \<and>
    (Req_push fd \<in># asleep s \<longrightarrow> length (cq_items (mq s)) = cq_cap (mq s)) \<and>
    (cq_shutdown (mq s) \<longrightarrow> asleep s = {#})"
  using client_queue_init_wf [OF assms(1,2)] cq.no_lost_wakeup [OF assms(3) _ assms(4)] by blast

theorem client_queue_no_lost_wakeup_witness:
  "\<exists>q0 live s. client_queue_init True 0 0 0 2 = (0, Some q0, live) \<and>
     qthreads_reach client_queue_push client_queue_pop client_queue_signal_shutdown q0 s \<and>
     ready s = {#} \<and> Req_pop \<in># asleep s \<and> cq_items (mq s) = []"
proof -
  let ?R = "qthreads_reach client_queue_push client_queue_pop client_queue_signal_shutdown"
  let ?S = "qthread_step client_queue_push client_queue_pop client_queue_signal_shutdown"
  define q0 where "q0 = \<lparr>cq_fds = replicate (nat 2) 0, cq_capacity = 2, cq_head = 0, cq_tail = 0,
    cq_size = 0, cq_shutdown = False\<rparr>"
  define s0 :: "(ClientQueue, int) qthreads" where "s0 = \<lparr>mq = q0, ready = {#}, asleep = {#}\<rparr>"
  define s1 where "s1 = s0\<lparr>ready := add_mset Req_pop (ready s0)\<rparr>"
  define s2 where
    "s2 = s1\<lparr>ready := ready s1 - {#Req_pop#}, asleep := add_mset Req_pop (asleep s1)\<rparr>"
  have init: "client_queue_init True 0 0 0 2
      = (0, Some q0, [Res_cond Not_full, Res_cond Not_empty, Res_mutex, Res_buffer])"
    by (simp add: client_queue_init_def q0_def)
  have "?R q0 s0" unfolding s0_def by (rule qthreads_start)
  moreover have "?S s0 s1" unfolding s1_def by (rule qthread_step.arrive)
  moreover have "?S s1 s2" unfolding s2_def
    by (rule qthread_step.pop_sleeps [where c = Not_empty])
       (simp_all add: s1_def s0_def q0_def client_queue_pop_def)
  ultimately have reach: "?R q0 s2" by (blast intro: qthreads_step)
  have s2: "ready s2 = {#}" "Req_pop \<in># asleep s2" by (simp_all add: s2_def s1_def s0_def)
  have "cq_items (mq s2) = []"
    using client_queue_no_lost_wakeup [OF init _ reach s2(1)] s2(2) by simp
  with init reach s2 show ?thesis by blast
qed

text \<open>
  A full queue makes the accept loop wait; it never turns a connection away. The push of a
  descriptor returns -1 exactly when the queue has been shut down, whatever its fill level, so the
  branch of \<open>main\<close> that reports "Client queue full, rejecting connection" is a shutdown branch.
\<close>

theorem client_queue_push_rejects_iff_shutdown:
  assumes "cq_wf q"
  shows "((\<exists>q' ns. client_queue_push q fd = Leave (- 1) q' ns) \<longleftrightarrow> cq_shutdown q) \<and>
    (client_queue_push q fd = Wait Not_full \<longleftrightarrow>
       \<not> cq_shutdown q \<and> length (cq_items q) = cq_cap q)"
  using assms
proof (cases rule: cq.push_cases [of q fd])
  case (room q')
  then have "length (cq_items q) < cq_cap q" using cq.items_le_cap [of q']
    by (simp del: length_cq_items)
  with room show ?thesis by (simp del: length_cq_items)
qed auto

theorem client_queue_push_rejects_iff_shutdown_witness:
  "\<exists>q. cq_wf q \<and> length (cq_items q) = cq_cap q \<and> client_queue_push q 5 = Wait Not_full"
proof -
  define q where "q = \<lparr>cq_fds = [3, 4], cq_capacity = 2, cq_head = 0, cq_tail = 0, cq_size = 2,
    cq_shutdown = False\<rparr>"
  have wf: "cq_wf q" by (simp add: q_def cq_wf_def)
  with client_queue_push_rejects_iff_shutdown [OF wf, of 5] show ?thesis
    by (intro exI [of _ q]) (auto simp: q_def)
qed

text \<open>
  Initialising and destroying the client queue never leaks. Whatever the outcomes of \<open>calloc\<close>
  and of the three pthread initialisers, a failing \<open>client_queue_init\<close> returns -1 holding nothing, and
  a successful one returns a well-formed empty queue whose four resources
  \<open>client_queue_destroy\<close> releases completely.
\<close>

theorem client_queue_init_no_leak:
  assumes "client_queue_init ok m e f c = (rc, qo, live)" and "c \<le> INT_MAX"
  shows "(rc = - 1 \<and> qo = None \<and> live = []) \<or>
    (rc = 0 \<and> (\<exists>q. qo = Some q \<and> cq_wf q \<and> cq_items q = [] \<and> length live = 4 \<and>
       snd (snd (client_queue_destroy q live)) = []))"
proof (cases qo)
  case None
  with assms show ?thesis by (auto simp: client_queue_init_def Let_def release_def split: if_splits)
next
  case (Some q)
  with assms(1) have rc: "rc = 0"
    and live: "live = [Res_cond Not_full, Res_cond Not_empty, Res_mutex, Res_buffer]"
    by (auto simp: client_queue_init_def Let_def release_def split: if_splits)
  have "cq_wf q \<and> cq_items q = []" using client_queue_init_wf assms Some rc by blast
  with rc live Some show ?thesis by (simp add: client_queue_destroy_def release_def)
qed

theorem client_queue_init_no_leak_witness:
  "fst (client_queue_init True 0 0 12 64) = - 1 \<and> snd (snd (client_queue_init True 0 0 12 64)) = []"
proof -
  obtain rc qo live where i: "client_queue_init True 0 0 12 64 = (rc, qo, live)"
    by (metis prod_cases3)
  have "rc \<noteq> 0" using i by (auto simp: client_queue_init_def Let_def)
  with client_queue_init_no_leak [OF i] i show ?thesis by auto
qed

end
