(* ===== verification/Task_Queue.thy ===== *)
theory Task_Queue
  imports Queue_Interface
begin

text \<open>
  \<open>src/queue/task_queue.c\<close>: the queue of tasks between the client threads and the workers, over the
  \<open>Task\<close> structure of \<open>task_queue.h\<close>. The pointers \<open>q\<close>, \<open>t\<close> and \<open>out\<close> are always addresses of
  globals and locals, so their \<open>NULL\<close> guards cannot fire. Strings are what the fixed arrays hold up
  to the terminator; \<open>data_buffer\<close> is the upload data or \<open>None\<close> for \<open>NULL\<close>. A pop yields the
  return code and what it stored in \<open>*out\<close>.
\<close>

section \<open>The code\<close>

datatype task_type = TASK_UPLOAD | TASK_DOWNLOAD | TASK_DELETE | TASK_LIST

record Task =
  t_type :: task_type
  t_session_id :: u64
  t_username :: string
  t_filename :: string
  t_temp_path :: string
  t_filesize :: u64
  t_data_buffer :: "bytes option"

text \<open>\<open>calloc\<close> and \<open>memset(&t, 0, sizeof(t))\<close>: all bits zero, so the type is the first enumerator.\<close>

definition zero_task :: Task where
  "zero_task = \<lparr>t_type = TASK_UPLOAD, t_session_id = 0, t_username = '''', t_filename = '''',
     t_temp_path = '''', t_filesize = 0, t_data_buffer = None\<rparr>"

record TaskQueue =
  tq_tasks :: "Task list"
  tq_capacity :: int
  tq_head :: int
  tq_tail :: int
  tq_size :: int
  tq_shutdown :: bool

text \<open>The return codes of the three pthread initialisers are not looked at: the code goes on, and later destroys,
  as if each had succeeded, so what it holds is the same whatever they are.\<close>

definition task_queue_init ::
  "bool \<Rightarrow> int \<Rightarrow> int \<Rightarrow> int \<Rightarrow> int \<Rightarrow> int \<times> TaskQueue option \<times> resource list" where
  "task_queue_init calloc_ok mtx_rc ne_rc nf_rc capacity =
     (if capacity \<le> 0 then (- 1, None, [])
      else if \<not> calloc_ok then (- 1, None, [])
      else (0,
        Some \<lparr>tq_tasks = replicate (nat capacity) zero_task, tq_capacity = capacity, tq_head = 0,
              tq_tail = 0, tq_size = 0, tq_shutdown = False\<rparr>,
        [Res_cond Not_full, Res_cond Not_empty, Res_mutex, Res_buffer]))"

definition task_queue_destroy ::
  "TaskQueue \<Rightarrow> resource list \<Rightarrow> TaskQueue \<times> notify list \<times> resource list" where
  "task_queue_destroy q live =
     (q\<lparr>tq_shutdown := True, tq_tasks := []\<rparr>, [Broadcast Not_empty, Broadcast Not_full],
      release_res Res_buffer (release_res (Res_cond Not_full)
        (release_res (Res_cond Not_empty) (release_res Res_mutex live))))"

definition task_queue_push :: "TaskQueue \<Rightarrow> Task \<Rightarrow> (int, TaskQueue) monitor" where
  "task_queue_push q t =
     (if tq_size q = tq_capacity q \<and> \<not> tq_shutdown q then Wait Not_full
      else if tq_shutdown q then Leave (- 1) q []
      else Leave 0
        (q\<lparr>tq_tasks := (tq_tasks q)[nat (tq_tail q) := t],
           tq_tail := (tq_tail q + 1) mod tq_capacity q,
           tq_size := tq_size q + 1\<rparr>)
        [Signal Not_empty])"

definition task_queue_pop :: "TaskQueue \<Rightarrow> (int \<times> Task option, TaskQueue) monitor" where
  "task_queue_pop q =
     (if tq_size q = 0 \<and> \<not> tq_shutdown q then Wait Not_empty
      else if tq_size q = 0 \<and> tq_shutdown q then Leave (- 1, None) q []
      else Leave (0, Some (tq_tasks q ! nat (tq_head q)))
        (q\<lparr>tq_head := (tq_head q + 1) mod tq_capacity q,
           tq_size := tq_size q - 1\<rparr>)
        [Signal Not_full])"

definition task_queue_signal_shutdown :: "TaskQueue \<Rightarrow> (unit, TaskQueue) monitor" where
  "task_queue_signal_shutdown q =
     Leave () (q\<lparr>tq_shutdown := True\<rparr>) [Broadcast Not_empty, Broadcast Not_full]"

lemmas task_queue_defs =
  task_queue_push_def task_queue_pop_def task_queue_signal_shutdown_def

section \<open>Invariant and abstraction\<close>

definition tq_wf :: "TaskQueue \<Rightarrow> bool" where
  "tq_wf q \<longleftrightarrow> 0 < tq_capacity q \<and> tq_capacity q \<le> INT_MAX \<and>
     length (tq_tasks q) = nat (tq_capacity q) \<and>
     0 \<le> tq_head q \<and> tq_head q < tq_capacity q \<and>
     0 \<le> tq_size q \<and> tq_size q \<le> tq_capacity q \<and>
     tq_tail q = (tq_head q + tq_size q) mod tq_capacity q"

definition tq_items :: "TaskQueue \<Rightarrow> Task list" where
  "tq_items q = ring_items (tq_tasks q) (tq_head q) (tq_size q) (tq_capacity q)"

abbreviation tq_cap :: "TaskQueue \<Rightarrow> nat" where
  "tq_cap q \<equiv> nat (tq_capacity q)"

lemma length_tq_items [simp]: "length (tq_items q) = nat (tq_size q)"
  by (simp add: tq_items_def)

lemma tq_size_items: "tq_wf q \<Longrightarrow> tq_size q = int (length (tq_items q))"
  by (simp add: tq_wf_def)

lemma task_queue_push_room:
  assumes "tq_wf q" "\<not> tq_shutdown q" "length (tq_items q) < tq_cap q"
  shows "\<exists>q'. task_queue_push q t = Leave 0 q' [Signal Not_empty] \<and> tq_wf q' \<and>
    tq_cap q' = tq_cap q \<and> \<not> tq_shutdown q' \<and> tq_items q' = tq_items q @ [t]"
proof -
  from assms have lt: "tq_size q < tq_capacity q" "0 \<le> tq_size q" by (auto simp: tq_wf_def)
  with assms(1) have "ring_items ((tq_tasks q)[nat (tq_tail q) := t]) (tq_head q) (tq_size q + 1)
      (tq_capacity q) = tq_items q @ [t]"
    by (simp add: tq_items_def tq_wf_def ring_items_push)
  with assms lt show ?thesis
    by (auto simp: task_queue_push_def tq_wf_def tq_items_def ring_tail_push)
qed

lemma task_queue_pop_some:
  assumes "tq_wf q" "tq_items q = x # xs"
  shows "\<exists>q'. task_queue_pop q = Leave (0, Some x) q' [Signal Not_full] \<and> tq_wf q' \<and>
    tq_cap q' = tq_cap q \<and> tq_shutdown q' = tq_shutdown q \<and> tq_items q' = xs"
proof -
  from assms(2) have "nat (tq_size q) = Suc (length xs)" by (metis length_tq_items length_Cons)
  then have pos: "0 < tq_size q" by linarith
  with assms have "x # xs = tq_tasks q ! nat (tq_head q)
      # ring_items (tq_tasks q) ((tq_head q + 1) mod tq_capacity q) (tq_size q - 1) (tq_capacity q)"
    by (simp add: tq_items_def tq_wf_def ring_items_pop)
  with assms(1) pos show ?thesis
    by (auto simp: task_queue_pop_def tq_wf_def tq_items_def ring_tail_pop)
qed

interpretation tq: bounded_queue tq_wf tq_cap tq_items tq_shutdown task_queue_push
  task_queue_pop task_queue_signal_shutdown "\<lambda>t. (0, Some t)" "(- 1, None)"
proof unfold_locales
  fix q x assume "tq_wf q" "\<not> tq_shutdown q" "length (tq_items q) < tq_cap q"
  then show "\<exists>q'. task_queue_push q x = Leave 0 q' [Signal Not_empty] \<and> tq_wf q' \<and>
      tq_cap q' = tq_cap q \<and> \<not> tq_shutdown q' \<and> tq_items q' = tq_items q @ [x]"
    by (rule task_queue_push_room)
next
  fix q x xs assume "tq_wf q" "tq_items q = x # xs"
  then show "\<exists>q'. task_queue_pop q = Leave (0, Some x) q' [Signal Not_full] \<and> tq_wf q' \<and>
      tq_cap q' = tq_cap q \<and> tq_shutdown q' = tq_shutdown q \<and> tq_items q' = xs"
    by (rule task_queue_pop_some)
next
  fix q assume "tq_wf q" "\<not> tq_shutdown q" "tq_items q = []"
  then have "tq_size q = 0" by (simp add: tq_size_items)
  then show "task_queue_pop q = Wait Not_empty"
    using \<open>\<not> tq_shutdown q\<close> by (simp add: task_queue_pop_def)
next
  fix q assume "tq_wf q" "tq_shutdown q" "tq_items q = []"
  then have "tq_size q = 0" by (simp add: tq_size_items)
  then show "task_queue_pop q = Leave (- 1, None) q []"
    using \<open>tq_shutdown q\<close> by (simp add: task_queue_pop_def)
qed (auto simp: tq_wf_def task_queue_defs tq_items_def)

lemma task_queue_init_wf [wf_intros]:
  "task_queue_init ok m e f c = (0, Some q, live) \<Longrightarrow> c \<le> INT_MAX \<Longrightarrow>
     tq_wf q \<and> tq_items q = [] \<and> \<not> tq_shutdown q \<and> tq_capacity q = c"
  by (auto simp: task_queue_init_def tq_wf_def tq_items_def ring_items_def split: if_splits)

section \<open>Properties\<close>

text \<open>
  C30: The task queue is a FIFO that loses, duplicates and reorders nothing. Over any run of calls by
  any threads, starting from any well-formed queue, the tasks already queued followed by the tasks
  whose push returned 0 are, in order, the tasks the pops handed out followed by the tasks still
  queued; and the queue stays well formed with the capacity it had.
\<close>

theorem task_queue_fifo:
  assumes "tq_wf q"
    and "qrun task_queue_push task_queue_pop task_queue_signal_shutdown q cs = (q', acc, rets)"
  shows "tq_wf q' \<and> tq_cap q' = tq_cap q \<and>
    map (\<lambda>t. (0, Some t)) (tq_items q @ acc)
      = filter (\<lambda>r. r \<noteq> (- 1, None)) rets @ map (\<lambda>t. (0, Some t)) (tq_items q')"
  by (rule tq.qrun_fifo [OF assms]) auto

theorem task_queue_fifo_witness:
  "\<exists>q q' acc rets. tq_wf q \<and>
     qrun task_queue_push task_queue_pop task_queue_signal_shutdown q
       [Push zero_task, Push (zero_task\<lparr>t_session_id := 7\<rparr>), Pop, Push zero_task, Pop]
       = (q', acc, rets) \<and> length acc = 3 \<and>
     map (\<lambda>t. (0, Some t)) (tq_items q @ acc)
       = filter (\<lambda>r. r \<noteq> (- 1, None)) rets @ map (\<lambda>t. (0, Some t)) (tq_items q')"
proof -
  define q where "q = \<lparr>tq_tasks = [zero_task, zero_task], tq_capacity = 2, tq_head = 1,
    tq_tail = 1, tq_size = 0, tq_shutdown = False\<rparr>"
  let ?cs = "[Push zero_task, Push (zero_task\<lparr>t_session_id := 7\<rparr>), Pop, Push zero_task, Pop]"
  obtain q' acc rets where
    run: "qrun task_queue_push task_queue_pop task_queue_signal_shutdown q ?cs = (q', acc, rets)"
    by (metis prod_cases3)
  have wf: "tq_wf q" by (simp add: q_def tq_wf_def)
  from run have "length acc = 3"
    by (auto simp: q_def task_queue_defs numeral_2_eq_2)
  with run wf task_queue_fifo [OF wf run] show ?thesis by blast
qed

text \<open>
  After shutdown the workers still drain the queue. From any well-formed queue that is shut
  down, as many pops as there are queued tasks return exactly those tasks in order, every further
  pop returns -1, and no push is accepted any more: a task accepted before shutdown is never dropped.
\<close>

theorem task_queue_drains:
  assumes "tq_wf q" "tq_shutdown q"
  shows "(\<exists>q'. qrun task_queue_push task_queue_pop task_queue_signal_shutdown q
       (replicate (length (tq_items q) + n) Pop)
       = (q', [], map (\<lambda>t. (0, Some t)) (tq_items q) @ replicate n (- 1, None)) \<and>
       tq_items q' = []) \<and>
     task_queue_push q t = Leave (- 1) q []"
  using tq.drain [OF assms] tq.push_closed [OF assms] by blast

theorem task_queue_drains_witness:
  "\<exists>q. tq_wf q \<and> tq_shutdown q \<and> tq_items q = [zero_task\<lparr>t_session_id := 9\<rparr>] \<and>
     task_queue_push q zero_task = Leave (- 1) q []"
proof -
  define q where "q = \<lparr>tq_tasks = [zero_task, zero_task\<lparr>t_session_id := 9\<rparr>], tq_capacity = 2,
    tq_head = 1, tq_tail = 0, tq_size = 1, tq_shutdown = True\<rparr>"
  have "tq_wf q" "tq_shutdown q" by (simp_all add: q_def tq_wf_def)
  moreover have "tq_items q = [zero_task\<lparr>t_session_id := 9\<rparr>]"
    by (simp add: q_def tq_items_def ring_items_def)
  ultimately show ?thesis
    using task_queue_drains [of q 0 zero_task] by blast
qed

end
