(* ===== verification/Net_Utils.thy ===== *)
theory Net_Utils
  imports Prelude
begin

text \<open>
  \<open>src/utils/network_utils.c\<close>. A socket is a script of what successive \<open>recv\<close> calls find (a
  segment of data, an error, the peer's close), a script of how much successive \<open>send\<close> calls take
  or how they fail, and the bytes sent so far. A call that finds its script empty blocks for good and
  the function that made it returns \<open>None\<close>. Any kernel behaviour over a finite execution is such a
  script. The buffers are never \<open>NULL\<close> and the lengths are those of allocated objects, so they are
  \<open>nat\<close> and fit in \<open>ssize_t\<close>.
\<close>

section \<open>Sockets\<close>

datatype rx_event = Rx_data bytes | Rx_error errno | Rx_eof

datatype tx_event = Tx_room nat | Tx_error errno

record sock =
  rx :: "rx_event list"
  tx :: "tx_event list"
  sent :: bytes

text \<open>\<open>recv(fd, buf, n, 0)\<close>: at most \<open>n\<close> bytes of the next segment; no bytes mean end of stream.\<close>

definition recv_sys :: "nat \<Rightarrow> sock \<Rightarrow> ((errno + bytes) \<times> sock) option" where
  "recv_sys n s =
     (case rx s of
        [] \<Rightarrow> None
      | Rx_error e # r \<Rightarrow> Some (Inl e, s\<lparr>rx := r\<rparr>)
      | Rx_eof # r \<Rightarrow> Some (Inr [], s)
      | Rx_data b # r \<Rightarrow>
          if length b \<le> n then Some (Inr b, s\<lparr>rx := r\<rparr>)
          else Some (Inr (take n b), s\<lparr>rx := Rx_data (drop n b) # r\<rparr>))"

text \<open>\<open>send(fd, buf, len, 0)\<close>: the kernel takes a prefix.\<close>

definition send_sys :: "bytes \<Rightarrow> sock \<Rightarrow> ((errno + nat) \<times> sock) option" where
  "send_sys b s =
     (case tx s of
        [] \<Rightarrow> None
      | Tx_error e # t \<Rightarrow> Some (Inl e, s\<lparr>tx := t\<rparr>)
      | Tx_room k # t \<Rightarrow> Some (Inr (min k (length b)), s\<lparr>tx := t, sent := sent s @ take k b\<rparr>))"

section \<open>The code\<close>

definition retryable :: "errno \<Rightarrow> bool" where
  "retryable e \<longleftrightarrow> e = EINTR \<or> e = EAGAIN"

text \<open>The loop of \<open>recv_full\<close>, with the number of bytes still missing and those received.\<close>

function recv_loop :: "nat \<Rightarrow> sock \<Rightarrow> bytes \<Rightarrow> (bytes \<times> sock) option" where
  "recv_loop missing s acc =
     (if missing = 0 then Some (acc, s)
      else case recv_sys missing s of
        None \<Rightarrow> None
      | Some (Inl e, s') \<Rightarrow> if retryable e then recv_loop missing s' acc else Some (acc, s')
      | Some (Inr b, s') \<Rightarrow>
          if b = [] then Some (acc, s')
          else recv_loop (missing - length b) s' (acc @ b))"
  by pat_completeness auto
termination
  by (relation "measure (\<lambda>(missing, s, acc). missing + length (rx s))")
    (auto simp: recv_sys_def split: list.splits rx_event.splits if_splits)

declare recv_loop.simps [simp del]

text \<open>The result: the return value, the bytes stored in the buffer, the socket.\<close>

definition recv_full :: "nat \<Rightarrow> sock \<Rightarrow> (int \<times> bytes \<times> sock) option" where
  "recv_full len s =
     (if len = 0 then Some (- 1, [], s)
      else case recv_loop len s [] of
        None \<Rightarrow> None
      | Some (b, s') \<Rightarrow> Some (int (length b), b, s'))"

function send_loop :: "bytes \<Rightarrow> nat \<Rightarrow> sock \<Rightarrow> (nat \<times> sock) option" where
  "send_loop buf sent_len s =
     (if length buf \<le> sent_len then Some (sent_len, s)
      else case send_sys (drop sent_len buf) s of
        None \<Rightarrow> None
      | Some (Inl e, s') \<Rightarrow>
          if retryable e then send_loop buf sent_len s'
          else if e = EPIPE then Some (sent_len, s')
          else Some (sent_len, s')
      | Some (Inr n, s') \<Rightarrow> send_loop buf (sent_len + n) s')"
  by pat_completeness auto
termination
  by (relation "measure (\<lambda>(buf, sent_len, s). length (tx s))")
    (auto simp: send_sys_def split: list.splits tx_event.splits)

declare send_loop.simps [simp del]

definition send_full :: "bytes \<Rightarrow> sock \<Rightarrow> (int \<times> sock) option" where
  "send_full buf s =
     (if length buf = 0 then Some (- 1, s)
      else case send_loop buf 0 s of
        None \<Rightarrow> None
      | Some (sent_len, s') \<Rightarrow> Some (int sent_len, s'))"

definition send_error :: "string \<Rightarrow> sock \<Rightarrow> (int \<times> sock) option" where
  "send_error emsg s =
     (case send_full emsg s of
        None \<Rightarrow> None
      | Some (n, s') \<Rightarrow> if n \<noteq> int (length emsg) then Some (- 1, s') else Some (0, s'))"

definition send_success :: "string \<Rightarrow> sock \<Rightarrow> (int \<times> sock) option" where
  "send_success smsg s =
     (case send_full smsg s of
        None \<Rightarrow> None
      | Some (n, s') \<Rightarrow> if n \<noteq> int (length smsg) then Some (- 1, s') else Some (0, s'))"

section \<open>Reception\<close>

text \<open>The bytes the peer's stream still delivers before its end or a hard error, and the scripts
  without empty segments (TCP has none: an empty read is the end of the stream).\<close>

fun stream_of :: "rx_event list \<Rightarrow> bytes" where
  "stream_of [] = []"
| "stream_of (Rx_data b # r) = b @ stream_of r"
| "stream_of (Rx_error e # r) = (if retryable e then stream_of r else [])"
| "stream_of (Rx_eof # r) = []"

definition no_empty_segment :: "rx_event list \<Rightarrow> bool" where
  "no_empty_segment r \<longleftrightarrow> Rx_data [] \<notin> set r"

lemma recv_sys_blocks: "recv_sys n s = None \<longleftrightarrow> rx s = []"
  by (auto simp: recv_sys_def split: list.splits rx_event.splits)

lemma recv_sys_cases:
  assumes "recv_sys n s = Some res" "0 < n" "no_empty_segment (rx s)"
  obtains (err) e s' where "res = (Inl e, s')" "rx s = Rx_error e # rx s'" "no_empty_segment (rx s')"
      "sent s' = sent s" "tx s' = tx s"
  | (eof) "res = (Inr [], s)" "stream_of (rx s) = []" "\<exists>r. rx s = Rx_eof # r"
  | (data) b s' where "res = (Inr b, s')" "b \<noteq> []" "length b \<le> n" "no_empty_segment (rx s')"
      "stream_of (rx s) = b @ stream_of (rx s')" "sent s' = sent s" "tx s' = tx s"
proof (cases "rx s")
  case Nil
  with assms show ?thesis by (simp add: recv_sys_def)
next
  case (Cons e r)
  show ?thesis
  proof (cases e)
    case (Rx_data b)
    show ?thesis
    proof (cases "length b \<le> n")
      case True
      with Rx_data Cons assms data [of b "s\<lparr>rx := r\<rparr>"] show ?thesis
        by (auto simp: recv_sys_def no_empty_segment_def)
    next
      case False
      with Rx_data Cons assms data [of "take n b" "s\<lparr>rx := Rx_data (drop n b) # r\<rparr>"] show ?thesis
        by (auto simp: recv_sys_def no_empty_segment_def)
    qed
  next
    case (Rx_error x)
    with Cons assms err [of x "s\<lparr>rx := r\<rparr>"] show ?thesis
      by (auto simp: recv_sys_def no_empty_segment_def)
  next
    case Rx_eof
    with Cons assms eof show ?thesis by (auto simp: recv_sys_def)
  qed
qed

lemma recv_loop_enough:
  assumes "n \<le> length (stream_of (rx s))" "no_empty_segment (rx s)"
  shows "\<exists>s'. recv_loop n s acc = Some (acc @ take n (stream_of (rx s)), s') \<and>
    stream_of (rx s') = drop n (stream_of (rx s)) \<and> no_empty_segment (rx s') \<and>
    sent s' = sent s \<and> tx s' = tx s"
  using assms
proof (induction n s acc rule: recv_loop.induct)
  case (1 n s acc)
  show ?case
  proof (cases "n = 0")
    case True
    with "1.prems" show ?thesis by (simp add: recv_loop.simps)
  next
    case False
    then have pos: "0 < n" by simp
    from "1.prems" False have "rx s \<noteq> []" by auto
    then obtain res where res: "recv_sys n s = Some res"
      using recv_sys_blocks [of n s] by (cases "recv_sys n s") auto
    from res pos "1.prems"(2) show ?thesis
    proof (cases rule: recv_sys_cases)
      case (err e s')
      with False "1.prems" have "retryable e" "stream_of (rx s) = stream_of (rx s')"
        by (auto split: if_splits)
      with "1.IH"(1) [OF False res [unfolded err(1)]] err False res "1.prems" show ?thesis
        by (simp add: recv_loop.simps [of n s acc])
    next
      case eof
      with False "1.prems" show ?thesis by simp
    next
      case (data b s')
      with "1.IH"(2) [OF False res [unfolded data(1)]] False res "1.prems" show ?thesis
        by (simp add: recv_loop.simps [of n s acc] add.commute)
    qed
  qed
qed

lemma recv_loop_prefix:
  assumes "recv_loop n s acc = Some (b, s')" "no_empty_segment (rx s)"
  shows "\<exists>c. b = acc @ c \<and> length c \<le> n \<and> c = take (length c) (stream_of (rx s)) \<and>
    (length c < n \<longrightarrow> c = stream_of (rx s)) \<and> sent s' = sent s \<and> tx s' = tx s"
  using assms
proof (induction n s acc arbitrary: b s' rule: recv_loop.induct)
  case (1 n s acc)
  show ?case
  proof (cases "n = 0")
    case True
    with "1.prems" show ?thesis by (simp add: recv_loop.simps)
  next
    case False
    then have pos: "0 < n" by simp
    from "1.prems" False obtain res where res: "recv_sys n s = Some res"
      by (auto simp: recv_loop.simps [of n s acc] split: option.splits)
    from res pos "1.prems"(2) show ?thesis
    proof (cases rule: recv_sys_cases)
      case (err e s1)
      with "1.IH"(1) [OF False res [unfolded err(1)]] False res "1.prems" show ?thesis
        by (cases "retryable e") (auto simp: recv_loop.simps [of n s acc])
    next
      case eof
      with False res "1.prems" show ?thesis by (auto simp: recv_loop.simps [of n s acc])
    next
      case (data d s1)
      with False res "1.prems"(1) have rest: "recv_loop (n - length d) s1 (acc @ d) = Some (b, s')"
        by (simp add: recv_loop.simps [of n s acc])
      from "1.IH"(2) [OF False res [unfolded data(1)] refl refl data(2) rest data(4)] obtain c where
        "b = acc @ d @ c" "length c \<le> n - length d" "c = take (length c) (stream_of (rx s1))"
        "length c < n - length d \<longrightarrow> c = stream_of (rx s1)" "sent s' = sent s1" "tx s' = tx s1"
        by auto
      with data show ?thesis by (intro exI [of _ "d @ c"]) auto
    qed
  qed
qed

section \<open>Transmission\<close>

lemma send_loop_sent:
  assumes "send_loop buf n s = Some (m, s')" "n \<le> length buf"
  shows "n \<le> m \<and> m \<le> length buf \<and> sent s' = sent s @ take (m - n) (drop n buf) \<and> rx s' = rx s"
  using assms
proof (induction buf n s arbitrary: m s' rule: send_loop.induct)
  case (1 buf n s)
  show ?case
  proof (cases "length buf \<le> n")
    case True
    with "1.prems" show ?thesis by (auto simp: send_loop.simps [of buf n s])
  next
    case False
    with "1.prems"(1) obtain res s1 where res: "send_sys (drop n buf) s = Some (res, s1)"
      by (auto simp: send_loop.simps [of buf n s] split: option.splits)
    show ?thesis
    proof (cases res)
      case (Inl e)
      with res have s1: "sent s1 = sent s" "rx s1 = rx s"
        by (auto simp: send_sys_def split: list.splits tx_event.splits)
      show ?thesis
      proof (cases "retryable e")
        case True
        with False res Inl "1.prems"(1) have "send_loop buf n s1 = Some (m, s')"
          by (simp add: send_loop.simps [of buf n s])
        from "1.IH"(1) [OF False res refl Inl True this "1.prems"(2)] s1 show ?thesis by simp
      next
        case nr: False
        with False res Inl "1.prems" s1 show ?thesis
          by (auto simp: send_loop.simps [of buf n s] split: if_splits)
      qed
    next
      case (Inr k)
      with res have k: "k \<le> length buf - n" and s1: "sent s1 = sent s @ take k (drop n buf)" "rx s1 = rx s"
        by (auto simp: send_sys_def min_def split: list.splits tx_event.splits)
      from False res Inr "1.prems"(1) have rest: "send_loop buf (n + k) s1 = Some (m, s')"
        by (simp add: send_loop.simps [of buf n s])
      have "n + k \<le> length buf" using k False by simp
      from "1.IH"(2) [OF False res refl Inr rest this]
      have ih: "n + k \<le> m" "m \<le> length buf"
        "sent s' = sent s1 @ take (m - (n + k)) (drop (n + k) buf)" "rx s' = rx s1" by auto
      moreover have "take (m - n) (drop n buf)
          = take k (drop n buf) @ take (m - (n + k)) (drop (n + k) buf)"
        using ih(1) take_add [of k "m - (n + k)" "drop n buf"] by (simp add: add.commute)
      ultimately show ?thesis using s1 by simp
    qed
  qed
qed

lemma send_full_sent:
  assumes "send_full buf s = Some (r, s')" "buf \<noteq> []"
  shows "0 \<le> r \<and> r \<le> int (length buf) \<and> sent s' = sent s @ take (nat r) buf \<and> rx s' = rx s"
  using assms send_loop_sent [of buf 0 s]
  by (auto simp: send_full_def split: option.splits prod.splits)

lemma send_full_empty: "send_full [] s = Some (- 1, s)"
  by (simp add: send_full_def)

lemma send_success_sent:
  assumes "send_success m s = Some (r, s')"
  shows "r \<in> {0, - 1} \<and> rx s' = rx s \<and> (r = 0 \<longrightarrow> sent s' = sent s @ m) \<and>
    (\<exists>k. sent s' = sent s @ take k m)"
proof (cases "m = []")
  case True
  with assms show ?thesis by (auto simp: send_success_def send_full_def)
next
  case False
  with assms obtain n where n: "send_full m s = Some (n, s')"
    "r = (if n \<noteq> int (length m) then - 1 else 0)"
    by (auto simp: send_success_def split: option.splits prod.splits if_splits)
  from send_full_sent [OF n(1) False] have "sent s' = sent s @ take (nat n) m" "rx s' = rx s"
    by auto
  with n(2) show ?thesis by (auto split: if_splits intro: exI [of _ "length m"])
qed

lemma send_error_eq_success: "send_error m s = send_success m s"
  by (simp add: send_error_def send_success_def)

section \<open>Properties\<close>

text \<open>
  C32: \<open>recv_full\<close> does not depend on how the network cuts the stream. When the peer's stream still
  holds at least \<open>len > 0\<close> bytes, however they are split into segments and however often the calls
  are interrupted or told to retry, \<open>recv_full\<close> returns \<open>len\<close> with exactly the next \<open>len\<close> bytes and
  leaves exactly the rest of the stream.
\<close>

theorem recv_full_exact:
  assumes "0 < len" "len \<le> length (stream_of (rx s))" "no_empty_segment (rx s)"
  shows "\<exists>s'. recv_full len s = Some (int len, take len (stream_of (rx s)), s') \<and>
    stream_of (rx s') = drop len (stream_of (rx s)) \<and> sent s' = sent s"
  using recv_loop_enough [OF assms(2,3), of "[]"] assms by (auto simp: recv_full_def min_def)

theorem recv_full_exact_witness:
  "\<exists>s'. recv_full 3 \<lparr>rx = [Rx_data ''ab'', Rx_error EINTR, Rx_data ''cd''], tx = [], sent = []\<rparr>
     = Some (3, ''abc'', s') \<and> stream_of (rx s') = ''d''"
  using recv_full_exact [of 3 "\<lparr>rx = [Rx_data ''ab'', Rx_error EINTR, Rx_data ''cd''], tx = [],
    sent = []\<rparr>"] by (auto simp: retryable_def no_empty_segment_def eval_nat_numeral)

text \<open>
  A short \<open>recv_full\<close> is never reported as negative and never invents bytes. For \<open>len > 0\<close> every
  returned value is the number of bytes stored, between 0 and \<open>len\<close>; those bytes are a prefix of the
  stream; and if fewer than \<open>len\<close> came back they are all the stream had before its end or its error.
  So the caller's \<open>bytes < 0\<close> branch cannot be taken and only the length test detects a failure.
\<close>

theorem recv_full_bounds:
  assumes "0 < len" "recv_full len s = Some (r, b, s')" "no_empty_segment (rx s)"
  shows "r = int (length b) \<and> 0 \<le> r \<and> r \<le> int len \<and> b = take (length b) (stream_of (rx s)) \<and>
    (r \<noteq> int len \<longrightarrow> b = stream_of (rx s))"
proof -
  from assms have "recv_loop len s [] = Some (b, s')" "r = int (length b)"
    by (auto simp: recv_full_def split: option.splits)
  with recv_loop_prefix [OF this(1) assms(3)] show ?thesis by auto
qed

theorem recv_full_bounds_witness:
  "\<exists>s'. recv_full 5 \<lparr>rx = [Rx_data ''ab'', Rx_eof], tx = [], sent = []\<rparr> = Some (2, ''ab'', s') \<and>
     (0::int) \<le> 2"
proof -
  let ?s = "\<lparr>rx = [Rx_data ''ab'', Rx_eof], tx = [], sent = []\<rparr>"
  have run: "recv_full 5 ?s = Some (2, ''ab'', \<lparr>rx = [Rx_eof], tx = [], sent = []\<rparr>)"
    by (simp add: recv_full_def recv_loop.simps recv_sys_def)
  have "no_empty_segment (rx ?s)" by (simp add: no_empty_segment_def)
  from recv_full_bounds [OF _ run this] run show ?thesis by simp
qed

text \<open>
  \<open>send_full\<close> puts on the wire exactly the prefix it reports. For a non-empty buffer the returned
  count lies between 0 and the length, and the bytes sent are that many leading bytes of the buffer,
  whatever partial writes and errors happened. A failure shows as a short count, never as a negative
  value: the client thread's test \<open>send_full(...) < 0\<close> on the response message never fires.
\<close>

theorem send_full_reports_prefix:
  assumes "buf \<noteq> []" "send_full buf s = Some (r, s')"
  shows "0 \<le> r \<and> r \<le> int (length buf) \<and> sent s' = sent s @ take (nat r) buf"
  using send_full_sent [OF assms(2,1)] by blast

theorem send_full_reports_prefix_witness:
  "\<exists>s'. send_full ''abcd'' \<lparr>rx = [], tx = [Tx_room 1, Tx_error EINTR, Tx_room 2, Tx_error EPIPE],
      sent = ''>''\<rparr> = Some (3, s') \<and> sent s' = ''>abc''"
proof -
  let ?s = "\<lparr>rx = [], tx = [Tx_room 1, Tx_error EINTR, Tx_room 2, Tx_error EPIPE], sent = ''>''\<rparr>"
  have run: "send_full ''abcd'' ?s = Some (3, \<lparr>rx = [], tx = [], sent = ''>abc''\<rparr>)"
    by (simp add: send_full_def send_loop.simps send_sys_def retryable_def)
  with send_full_reports_prefix [OF _ run] show ?thesis by simp
qed

end
