(* ===== verification/Probing.thy ===== *)
theory Probing
  imports Prelude
begin

text \<open>
  Linear probing, which both the session table and the file-lock table use. All their loops have one
  shape: from a home slot on, step by one modulo the capacity until a slot stops the search or as many
  slots as the table has were tried. The locale states what the two tables have in common (a key per
  slot and a home per key) and carries the facts about probe chains: a stored key is found while every
  slot between its home and its place is occupied, inserting at the first free slot keeps that so, and
  removing a key keeps it for the keys whose chain does not pass its slot.
\<close>

section \<open>The probing loop\<close>

function linear_probe :: "(nat \<Rightarrow> bool) \<Rightarrow> nat \<Rightarrow> nat \<Rightarrow> nat \<Rightarrow> nat \<times> nat" where
  "linear_probe stop cap index tried =
     (if tried < cap \<and> \<not> stop index
      then linear_probe stop cap ((index + 1) mod cap) (tried + 1)
      else (index, tried))"
  by pat_completeness auto
termination
  by (relation "measure (\<lambda>(stop, cap, index, tried). cap - tried)") auto

declare linear_probe.simps [simp del]

lemma linear_probe_stopped: "stop i \<Longrightarrow> linear_probe stop cap i c = (i, c)"
  by (simp add: linear_probe.simps)

lemma linear_probe_result:
  assumes "i < cap" "c \<le> cap"
  shows "\<exists>k. c + k \<le> cap \<and> linear_probe stop cap i c = ((i + k) mod cap, c + k) \<and>
    (\<forall>j<k. \<not> stop ((i + j) mod cap)) \<and> (c + k < cap \<longrightarrow> stop ((i + k) mod cap))"
  using assms
proof (induction stop cap i c rule: linear_probe.induct)
  case (1 stop cap i c)
  show ?case
  proof (cases "c < cap \<and> \<not> stop i")
    case True
    moreover from True "1.prems" have "(i + 1) mod cap < cap" by simp
    ultimately obtain k where k: "c + 1 + k \<le> cap"
      "linear_probe stop cap ((i + 1) mod cap) (c + 1) = (((i + 1) mod cap + k) mod cap, c + 1 + k)"
      "\<forall>j<k. \<not> stop (((i + 1) mod cap + j) mod cap)"
      "c + 1 + k < cap \<longrightarrow> stop (((i + 1) mod cap + k) mod cap)"
      using "1.IH" by auto
    have shift: "(Suc i mod cap + j) mod cap = Suc (i + j) mod cap" for j
      by (simp add: mod_simps)
    have "\<forall>j<Suc k. \<not> stop ((i + j) mod cap)"
      using k(3) True "1.prems"(1) by (auto simp: shift less_Suc_eq_0_disj)
    with k True show ?thesis
      by (intro exI [of _ "Suc k"]) (auto simp: linear_probe.simps [of stop cap i c] shift)
  next
    case False
    with "1.prems" show ?thesis
      by (intro exI [of _ 0]) (auto simp: linear_probe.simps [of stop cap i c])
  qed
qed

lemma linear_probe_stops:
  assumes "i < cap" "k < cap" "\<forall>j<k. \<not> stop ((i + j) mod cap)" "stop ((i + k) mod cap)"
  shows "linear_probe stop cap i 0 = ((i + k) mod cap, k)"
proof -
  from linear_probe_result [of i cap 0 stop] assms(1) obtain m where m: "m \<le> cap"
    "linear_probe stop cap i 0 = ((i + m) mod cap, m)"
    "\<forall>j<m. \<not> stop ((i + j) mod cap)" "m < cap \<longrightarrow> stop ((i + m) mod cap)"
    by auto
  have "\<not> m < k" using m(4) assms(2,3) by (meson order.strict_trans)
  moreover have "\<not> k < m" using m(3) assms(4) by blast
  ultimately show ?thesis using m(2) by simp
qed

lemma linear_probe_full:
  assumes "i < cap" "\<forall>j<cap. \<not> stop j"
  shows "snd (linear_probe stop cap i 0) = cap"
proof -
  from linear_probe_result [of i cap 0 stop] assms(1) obtain m where
    "m \<le> cap" "linear_probe stop cap i 0 = ((i + m) mod cap, m)"
    "m < cap \<longrightarrow> stop ((i + m) mod cap)" by auto
  moreover have "(i + m) mod cap < cap" using assms(1) by simp
  ultimately show ?thesis using assms(2) by fastforce
qed

lemma linear_probe_cong:
  assumes "\<And>i. i < cap \<Longrightarrow> P i = Q i" "i < cap"
  shows "linear_probe P cap i c = linear_probe Q cap i c"
  using assms
proof (induction P cap i c rule: linear_probe.induct)
  case (1 P cap i c)
  then have "(i + 1) mod cap < cap" "P i = Q i" by simp_all
  with 1 show ?case by (simp add: linear_probe.simps [of _ cap i c])
qed

text \<open>How far a slot is along the chain that starts at a home slot.\<close>

definition chain_pos :: "nat \<Rightarrow> nat \<Rightarrow> nat \<Rightarrow> nat" where
  "chain_pos cap h i = (if h \<le> i then i - h else i + cap - h)"

lemma chain_pos_less: "h < cap \<Longrightarrow> i < cap \<Longrightarrow> chain_pos cap h i < cap"
  by (auto simp: chain_pos_def)

lemma chain_pos_slot: "h < cap \<Longrightarrow> i < cap \<Longrightarrow> (h + chain_pos cap h i) mod cap = i"
  by (auto simp: chain_pos_def)

lemma chain_pos_unique:
  assumes "h < cap" "k < cap"
  shows "chain_pos cap h ((h + k) mod cap) = k"
proof (cases "h + k < cap")
  case True
  then show ?thesis by (simp add: chain_pos_def)
next
  case False
  then have "(h + k) mod cap = h + k - cap" using assms by (simp add: mod_if le_mod_geq)
  with False assms show ?thesis by (auto simp: chain_pos_def)
qed

section \<open>Tables with probe chains\<close>

locale probe_table =
  fixes wf :: "'t \<Rightarrow> bool"
    and cap :: "'t \<Rightarrow> nat"
    and key_at :: "'t \<Rightarrow> nat \<Rightarrow> 'k option"
    and home :: "'t \<Rightarrow> 'k \<Rightarrow> nat"
  assumes home_less: "wf t \<Longrightarrow> home t k < cap t"
begin

definition chained :: "'t \<Rightarrow> 'k \<Rightarrow> nat \<Rightarrow> bool" where
  "chained t k i \<longleftrightarrow>
     (\<forall>j < chain_pos (cap t) (home t k) i. key_at t ((home t k + j) mod cap t) \<noteq> None)"

definition all_chained :: "'t \<Rightarrow> bool" where
  "all_chained t \<longleftrightarrow> (\<forall>i < cap t. \<forall>k. key_at t i = Some k \<longrightarrow> chained t k i)"

definition unique_keys :: "'t \<Rightarrow> bool" where
  "unique_keys t \<longleftrightarrow>
     (\<forall>i < cap t. \<forall>j < cap t. \<forall>k. key_at t i = Some k \<longrightarrow> key_at t j = Some k \<longrightarrow> i = j)"

lemma unique_keysD:
  "unique_keys t \<Longrightarrow> i < cap t \<Longrightarrow> j < cap t \<Longrightarrow> key_at t i = Some k \<Longrightarrow> key_at t j = Some k \<Longrightarrow> i = j"
  by (auto simp: unique_keys_def)

text \<open>The search that stops at a free slot or at the key finds a key at the end of an unbroken chain.\<close>

lemma probe_finds:
  assumes "wf t" "i < cap t" "key_at t i = Some k" "unique_keys t" "chained t k i"
  shows "linear_probe (\<lambda>i. key_at t i = None \<or> key_at t i = Some k) (cap t) (home t k) 0
    = (i, chain_pos (cap t) (home t k) i)"
proof -
  let ?h = "home t k" and ?c = "cap t"
  have h: "?h < ?c" using assms(1) by (rule home_less)
  have "key_at t ((?h + j) mod ?c) \<noteq> Some k" if "j < chain_pos ?c ?h i" for j
  proof
    assume eq: "key_at t ((?h + j) mod ?c) = Some k"
    have "(?h + j) mod ?c < ?c" using h by simp
    with eq have "(?h + j) mod ?c = i" using assms by (blast intro: unique_keysD)
    moreover have "j < ?c" using that chain_pos_less [OF h assms(2)] by simp
    ultimately have "chain_pos ?c ?h i = j" using chain_pos_unique [OF h] by blast
    with that show False by simp
  qed
  with assms(5) have "\<forall>j<chain_pos ?c ?h i.
      \<not> (key_at t ((?h + j) mod ?c) = None \<or> key_at t ((?h + j) mod ?c) = Some k)"
    by (auto simp: chained_def)
  then show ?thesis
    using linear_probe_stops [OF h chain_pos_less [OF h assms(2)], of
        "\<lambda>i. key_at t i = None \<or> key_at t i = Some k"] assms(3) chain_pos_slot [OF h assms(2)]
    by simp
qed

text \<open>A chain with a gap hides the key: the search stops at the gap.\<close>

lemma probe_misses:
  assumes "wf t" "i < cap t" "key_at t i = Some k" "unique_keys t" "\<not> chained t k i"
  shows "\<exists>g n. linear_probe (\<lambda>i. key_at t i = None \<or> key_at t i = Some k) (cap t) (home t k) 0 = (g, n) \<and>
    n < cap t \<and> g < cap t \<and> key_at t g = None"
proof -
  let ?h = "home t k" and ?c = "cap t"
  let ?stop = "\<lambda>i. key_at t i = None \<or> key_at t i = Some k"
  have h: "?h < ?c" using assms(1) by (rule home_less)
  from linear_probe_result [of ?h ?c 0 ?stop] h obtain m where m: "m \<le> ?c"
    "linear_probe ?stop ?c ?h 0 = ((?h + m) mod ?c, m)"
    "\<forall>j<m. \<not> ?stop ((?h + j) mod ?c)" "m < ?c \<longrightarrow> ?stop ((?h + m) mod ?c)" by auto
  from assms(5) obtain j where j: "j < chain_pos ?c ?h i" "key_at t ((?h + j) mod ?c) = None"
    by (auto simp: chained_def)
  have pos: "chain_pos ?c ?h i < ?c" by (rule chain_pos_less [OF h assms(2)])
  have mj: "m \<le> j" using m(3) j(2) by (meson not_le_imp_less)
  have slot: "(?h + m) mod ?c < ?c" using h by simp
  have "key_at t ((?h + m) mod ?c) \<noteq> Some k"
  proof
    assume "key_at t ((?h + m) mod ?c) = Some k"
    with slot have "(?h + m) mod ?c = i" using assms by (blast intro: unique_keysD)
    moreover have "m < ?c" using mj j(1) pos by simp
    ultimately have "chain_pos ?c ?h i = m" using chain_pos_unique [OF h] by blast
    with mj j(1) show False by simp
  qed
  moreover have "m < ?c" using mj j(1) pos by simp
  ultimately show ?thesis using m slot by auto
qed

text \<open>The search for a free slot ends at one if there is one, with an unbroken chain before it.\<close>

lemma probe_free:
  assumes "wf t" "linear_probe (\<lambda>i. key_at t i = None) (cap t) (home t k) 0 = (i, n)" "n < cap t"
  shows "i < cap t \<and> key_at t i = None \<and> chained t k i"
proof -
  let ?h = "home t k" and ?c = "cap t"
  have h: "?h < ?c" using assms(1) by (rule home_less)
  from linear_probe_result [of ?h ?c 0 "\<lambda>i. key_at t i = None"] h assms(2) have
    n: "i = (?h + n) mod ?c" "\<forall>j<n. key_at t ((?h + j) mod ?c) \<noteq> None"
    "n < ?c \<longrightarrow> key_at t ((?h + n) mod ?c) = None" by auto
  have "chain_pos ?c ?h i = n" unfolding n(1) by (rule chain_pos_unique [OF h assms(3)])
  with n assms(3) h show ?thesis by (auto simp: chained_def)
qed

lemma probe_free_exists:
  assumes "wf t" "j < cap t" "key_at t j = None"
  shows "snd (linear_probe (\<lambda>i. key_at t i = None) (cap t) (home t k) 0) < cap t"
proof -
  let ?h = "home t k" and ?c = "cap t"
  have h: "?h < ?c" using assms(1) by (rule home_less)
  from linear_probe_result [of ?h ?c 0 "\<lambda>i. key_at t i = None"] h obtain m where m: "m \<le> ?c"
    "linear_probe (\<lambda>i. key_at t i = None) ?c ?h 0 = ((?h + m) mod ?c, m)"
    "\<forall>l<m. key_at t ((?h + l) mod ?c) \<noteq> None" by auto
  have "\<not> chain_pos ?c ?h j < m"
    using m(3) assms(3) chain_pos_slot [OF h assms(2)] by auto
  with chain_pos_less [OF h assms(2)] m(2) show ?thesis by simp
qed

subsection \<open>Changing the table\<close>

lemma chained_put:
  assumes "cap t' = cap t" "home t' = home t"
    and "\<And>j. j < cap t \<Longrightarrow> key_at t j \<noteq> None \<Longrightarrow> key_at t' j \<noteq> None"
    and "wf t" "chained t k i"
  shows "chained t' k i"
proof -
  have "(home t k + j) mod cap t < cap t" for j using home_less [OF assms(4), of k] by simp
  with assms show ?thesis by (auto simp: chained_def)
qed

lemma all_chained_insert:
  assumes "wf t" "all_chained t" "i < cap t" "chained t k i" "cap t' = cap t" "home t' = home t"
    and "key_at t' i = Some k" "\<And>j. j < cap t \<Longrightarrow> j \<noteq> i \<Longrightarrow> key_at t' j = key_at t j"
  shows "all_chained t'"
proof -
  have keep: "key_at t' j \<noteq> None" if "j < cap t" "key_at t j \<noteq> None" for j
    using that assms(7,8) by (cases "j = i") auto
  show ?thesis
    unfolding all_chained_def
  proof (intro allI impI)
    fix l k' assume l: "l < cap t'" "key_at t' l = Some k'"
    show "chained t' k' l"
    proof (cases "l = i")
      case True
      with l assms(7) have "k' = k" by simp
      with True chained_put [OF assms(5,6) keep assms(1,4)] show ?thesis by simp
    next
      case False
      with l assms have "chained t k' l" by (auto simp: all_chained_def)
      with chained_put [OF assms(5,6) keep assms(1)] show ?thesis by simp
    qed
  qed
qed

text \<open>Removing the key of slot \<open>i\<close> is harmless for a key whose chain ends before \<open>i\<close>.\<close>

lemma chained_remove:
  assumes "wf t" "chained t k l" "l < cap t" "i < cap t" "cap t' = cap t" "home t' = home t"
    and "\<And>j. j < cap t \<Longrightarrow> j \<noteq> i \<Longrightarrow> key_at t' j = key_at t j"
    and "chain_pos (cap t) (home t k) l \<le> chain_pos (cap t) (home t k) i"
  shows "chained t' k l"
proof -
  let ?h = "home t k" and ?c = "cap t"
  have h: "?h < ?c" using assms(1) by (rule home_less)
  have "(?h + j) mod ?c \<noteq> i" if "j < chain_pos ?c ?h l" for j
  proof
    assume "(?h + j) mod ?c = i"
    moreover have "j < ?c" using that chain_pos_less [OF h assms(3)] by simp
    ultimately have "chain_pos ?c ?h i = j" using chain_pos_unique [OF h] by blast
    with that assms(8) show False by simp
  qed
  with assms(2,5,6,7) h show ?thesis by (auto simp: chained_def)
qed

end

end
