(* ===== verification/File_Locks.thy ===== *)
theory File_Locks
  imports Probing
begin

text \<open>
  \<open>src/sync/file_locks.c\<close>: the table of per-file locks. \<open>fl_owner\<close> is the thread that holds the slot's
  \<open>pthread_mutex_t\<close>. \<open>file_lock_acquire\<close> runs in two sections, which other threads can come between:
  \<open>acquire_slot\<close>, under the manager mutex, finds or makes the slot of the file and counts the reference;
  \<open>lock_slot\<close> then takes the slot's mutex, or blocks. \<open>file_lock_release\<close> likewise unlocks the slot and
  then, under the manager mutex, drops the reference. The pointer arguments are never \<open>NULL\<close> at the call
  sites. The array has \<open>MAX_FILE_LOCKS\<close> elements, of which the first \<open>capacity\<close> are used.
\<close>

section \<open>The code\<close>

definition MAX_FILE_LOCKS :: int where "MAX_FILE_LOCKS = 1024"

definition MAX_FILEPATH_LEN :: nat where "MAX_FILEPATH_LEN = 320"

record FileLock =
  fl_filepath :: string
  fl_owner :: "nat option"
  fl_ref_count :: int
  fl_in_use :: bool

record FileLockManager =
  lm_locks :: "FileLock list"
  lm_capacity :: int

text \<open>djb2 over 32-bit unsigned arithmetic; a \<open>char\<close> is promoted with its sign.\<close>

fun hash_loop :: "u32 \<Rightarrow> string \<Rightarrow> u32" where
  "hash_loop hash [] = hash"
| "hash_loop hash (c # cs) = hash_loop ((push_bit 5 hash + hash) + word_of_int (char_int c)) cs"

definition hash_filepath :: "string \<Rightarrow> int \<Rightarrow> nat" where
  "hash_filepath filepath capacity = unat (hash_loop 5381 filepath mod word_of_int capacity)"

definition unused_lock :: FileLock where
  "unused_lock = \<lparr>fl_filepath = '''', fl_owner = None, fl_ref_count = 0, fl_in_use = False\<rparr>"

text \<open>The mutexes of the manager. \<open>mtx_rc i\<close> is what initialising the one of slot \<open>i\<close> returns,
  \<open>mgr_rc\<close> the manager's; the last component is what is initialised and not destroyed, with the mark of a mutex
  that is destroyed without being initialised.\<close>

datatype lock_mutex = Slot_mtx nat | Manager_mtx | Mtx_twice lock_mutex

definition destroy_slots :: "nat \<Rightarrow> lock_mutex list \<Rightarrow> lock_mutex list" where
  "destroy_slots n live = fold (release Mtx_twice) (map Slot_mtx [0..<n]) live"

fun init_slots :: "(nat \<Rightarrow> int) \<Rightarrow> nat list \<Rightarrow> lock_mutex list \<Rightarrow> int \<times> lock_mutex list" where
  "init_slots mtx_rc [] live = (0, live)"
| "init_slots mtx_rc (i # is) live =
     (if mtx_rc i \<noteq> 0 then (- 1, destroy_slots i live)
      else init_slots mtx_rc is (Slot_mtx i # live))"

definition file_lock_manager_init ::
  "(nat \<Rightarrow> int) \<Rightarrow> int \<Rightarrow> int \<Rightarrow> int \<times> FileLockManager option \<times> lock_mutex list" where
  "file_lock_manager_init mtx_rc mgr_rc capacity =
     (if capacity \<le> 0 then (- 1, None, [])
      else let (rc, live) = init_slots mtx_rc [0..<nat capacity] []
      in if rc \<noteq> 0 then (- 1, None, live)
      else if mgr_rc \<noteq> 0 then (- 1, None, destroy_slots (nat capacity) live)
      else (0, Some \<lparr>lm_locks = replicate (nat capacity) unused_lock, lm_capacity = capacity\<rparr>,
            Manager_mtx # live))"

definition file_lock_manager_destroy :: "FileLockManager \<Rightarrow> lock_mutex list \<Rightarrow> lock_mutex list" where
  "file_lock_manager_destroy manager live =
     release Mtx_twice Manager_mtx (destroy_slots (nat (lm_capacity manager)) live)"

text \<open>The key of a file.\<close>

definition lock_key :: "string \<Rightarrow> string \<Rightarrow> string" where
  "lock_key username filename = fit MAX_FILEPATH_LEN (username @ ''/'' @ filename)"

text \<open>The section of \<open>file_lock_acquire\<close> under the manager mutex: the slot, or \<open>None\<close> when the
  table is full.\<close>

definition acquire_slot :: "FileLockManager \<Rightarrow> string \<Rightarrow> nat option \<times> FileLockManager" where
  "acquire_slot manager filepath =
     (let locks = lm_locks manager;
          cap = nat (lm_capacity manager);
          found = (\<lambda>i. fl_in_use (locks ! i) \<and> fl_filepath (locks ! i) = filepath);
          (index, attempts) =
            linear_probe (\<lambda>i. found i \<or> \<not> fl_in_use (locks ! i)) cap
              (hash_filepath filepath (lm_capacity manager)) 0
      in if attempts < cap then
           if found index then
             let lock = locks ! index
             in (Some index, manager\<lparr>lm_locks :=
                   locks[index := lock\<lparr>fl_ref_count := fl_ref_count lock + 1\<rparr>]\<rparr>)
           else
             let lock = locks ! index
             in (Some index, manager\<lparr>lm_locks :=
                   locks[index := lock\<lparr>fl_filepath := fit MAX_FILEPATH_LEN filepath,
                                       fl_ref_count := 1, fl_in_use := True\<rparr>]\<rparr>)
         else (None, manager))"

text \<open>\<open>pthread_mutex_lock(&lock->mtx)\<close> by thread \<open>me\<close>; \<open>None\<close> while another thread (or the same one,
  the mutex not being recursive) holds it.\<close>

definition lock_slot :: "nat \<Rightarrow> nat \<Rightarrow> FileLockManager \<Rightarrow> FileLockManager option" where
  "lock_slot me index manager =
     (let lock = lm_locks manager ! index
      in case fl_owner lock of
           Some _ \<Rightarrow> None
         | None \<Rightarrow> Some (manager\<lparr>lm_locks := (lm_locks manager)[index := lock\<lparr>fl_owner := Some me\<rparr>]\<rparr>))"

definition unlock_slot :: "nat \<Rightarrow> FileLockManager \<Rightarrow> FileLockManager" where
  "unlock_slot index manager =
     (let lock = lm_locks manager ! index
      in manager\<lparr>lm_locks := (lm_locks manager)[index := lock\<lparr>fl_owner := None\<rparr>]\<rparr>)"

text \<open>The section of \<open>file_lock_release\<close> under the manager mutex.\<close>

definition release_slot :: "nat \<Rightarrow> FileLockManager \<Rightarrow> FileLockManager" where
  "release_slot index manager =
     (let lock = lm_locks manager ! index;
          lock = lock\<lparr>fl_ref_count := fl_ref_count lock - 1\<rparr>;
          lock = (if fl_ref_count lock \<le> 0
                  then lock\<lparr>fl_in_use := False, fl_filepath := ''''\<rparr> else lock)
      in manager\<lparr>lm_locks := (lm_locks manager)[index := lock]\<rparr>)"

text \<open>The two functions as one thread runs them undisturbed: the outer \<open>None\<close> of an acquire is a thread
  that blocks, the inner one is the \<open>NULL\<close> it returns when the table is full.\<close>

definition file_lock_acquire ::
  "nat \<Rightarrow> FileLockManager \<Rightarrow> string \<Rightarrow> string \<Rightarrow> (nat option \<times> FileLockManager) option" where
  "file_lock_acquire me manager username filename =
     (case acquire_slot manager (lock_key username filename) of
        (None, manager) \<Rightarrow> Some (None, manager)
      | (Some index, manager) \<Rightarrow>
          (case lock_slot me index manager of
             None \<Rightarrow> None
           | Some manager \<Rightarrow> Some (Some index, manager)))"

definition file_lock_release :: "FileLockManager \<Rightarrow> nat \<Rightarrow> FileLockManager" where
  "file_lock_release manager index = release_slot index (unlock_slot index manager)"

section \<open>Invariant\<close>

definition fl_ok :: "FileLock \<Rightarrow> bool" where
  "fl_ok l \<longleftrightarrow> (fl_in_use l \<longleftrightarrow> 0 < fl_ref_count l) \<and>
     (\<not> fl_in_use l \<longrightarrow> fl_ref_count l = 0 \<and> fl_owner l = None \<and> fl_filepath l = '''') \<and>
     length (fl_filepath l) < MAX_FILEPATH_LEN"

definition lm_wf :: "FileLockManager \<Rightarrow> bool" where
  "lm_wf m \<longleftrightarrow> 0 < lm_capacity m \<and> lm_capacity m \<le> MAX_FILE_LOCKS \<and>
     length (lm_locks m) = nat (lm_capacity m) \<and>
     (\<forall>i < nat (lm_capacity m). fl_ok (lm_locks m ! i))"

abbreviation lm_cap :: "FileLockManager \<Rightarrow> nat" where
  "lm_cap m \<equiv> nat (lm_capacity m)"

definition lock_at :: "FileLockManager \<Rightarrow> nat \<Rightarrow> string option" where
  "lock_at m i = (if fl_in_use (lm_locks m ! i) then Some (fl_filepath (lm_locks m ! i)) else None)"

abbreviation lock_home :: "FileLockManager \<Rightarrow> string \<Rightarrow> nat" where
  "lock_home m p \<equiv> hash_filepath p (lm_capacity m)"

lemma lock_home_less: "lm_wf m \<Longrightarrow> lock_home m p < lm_cap m"
proof -
  assume wf: "lm_wf m"
  then obtain n where n: "lm_capacity m = int n" "0 < n" "n \<le> 1024"
    by (metis MAX_FILE_LOCKS_def lm_wf_def zero_less_imp_eq_int of_nat_le_iff of_nat_numeral)
  have "unat (of_nat n :: u32) = n" using n by (simp add: unat_of_nat take_bit_nat_eq_self)
  then show ?thesis using n by (simp add: hash_filepath_def unat_mod_distrib)
qed

interpretation fl: probe_table lm_wf lm_cap lock_at lock_home
  by unfold_locales (rule lock_home_less)

section \<open>Initialisation\<close>

lemma mset_fold_remove1: "mset (fold remove1 xs ys) = mset ys - mset xs"
  by (induction xs arbitrary: ys) auto

lemma destroy_slots_all: "mset live = mset (map Slot_mtx [0..<n]) \<Longrightarrow> destroy_slots n live = []"
proof -
  assume m: "mset live = mset (map Slot_mtx [0..<n])"
  have "distinct (map Slot_mtx [0..<n])" by (simp add: distinct_map inj_on_def)
  moreover have "set (map Slot_mtx [0..<n]) \<subseteq> set live" using mset_eq_setD [OF m] by simp
  ultimately have "destroy_slots n live = fold remove1 (map Slot_mtx [0..<n]) live"
    unfolding destroy_slots_def by (rule fold_release)
  moreover have "mset (fold remove1 (map Slot_mtx [0..<n]) live) = {#}" using m by (simp add: mset_fold_remove1)
  ultimately show ?thesis by simp
qed

lemma destroy_slots_and_manager:
  assumes "mset live = mset (map Slot_mtx [0..<n])"
  shows "release Mtx_twice Manager_mtx (destroy_slots n (Manager_mtx # live)) = []"
proof -
  have "distinct (map Slot_mtx [0..<n])" by (simp add: distinct_map inj_on_def)
  moreover have "set (map Slot_mtx [0..<n]) \<subseteq> set (Manager_mtx # live)" using mset_eq_setD [OF assms] by auto
  ultimately have "destroy_slots n (Manager_mtx # live) = fold remove1 (map Slot_mtx [0..<n]) (Manager_mtx # live)"
    unfolding destroy_slots_def by (rule fold_release)
  moreover have "mset (fold remove1 (map Slot_mtx [0..<n]) (Manager_mtx # live)) = {#Manager_mtx#}"
    using assms by (simp add: mset_fold_remove1)
  ultimately have "destroy_slots n (Manager_mtx # live) = [Manager_mtx]" by simp
  then show ?thesis by (simp add: release_def)
qed

lemma init_slots_outcome:
  assumes "init_slots mtx_rc [k..<n] live = (rc, live')" "mset live = mset (map Slot_mtx [0..<k])" "k \<le> n"
  shows "(rc = 0 \<and> mset live' = mset (map Slot_mtx [0..<n])) \<or> (rc = - 1 \<and> live' = [])"
  using assms
proof (induction "n - k" arbitrary: k live)
  case (Suc d)
  then have k: "[k..<n] = k # [Suc k..<n]" by (simp add: upt_conv_Cons)
  show ?case
  proof (cases "mtx_rc k = 0")
    case True
    with Suc k have "init_slots mtx_rc [Suc k..<n] (Slot_mtx k # live) = (rc, live')" by simp
    with Suc.hyps(1) [of "Suc k" "Slot_mtx k # live"] Suc.hyps(2) Suc.prems(2) show ?thesis by auto
  next
    case False
    with Suc.prems k destroy_slots_all [of live k] show ?thesis by auto
  qed
qed simp

lemma init_slots_ok: "\<forall>i \<in> set is. mtx_rc i = 0 \<Longrightarrow> fst (init_slots mtx_rc is live) = 0"
  by (induction "is" arbitrary: live) auto

lemma file_lock_manager_init_ok [simp]:
  assumes "0 < c"
  shows "fst (snd (file_lock_manager_init (\<lambda>_. 0) 0 c)) =
    Some \<lparr>lm_locks = replicate (nat c) unused_lock, lm_capacity = c\<rparr>"
  using assms init_slots_ok [of "[0..<nat c]" "\<lambda>_. 0" "[]"]
  by (auto simp: file_lock_manager_init_def Let_def split: prod.splits)

text \<open>Setting the lock manager up and tearing it down never leaks a mutex. Whichever of the
  initialisers fails, \<open>file_lock_manager_init\<close> returns \<open>- 1\<close> with every mutex it had initialised
  destroyed again; when it returns 0, \<open>file_lock_manager_destroy\<close> releases all of them.\<close>

theorem file_lock_manager_no_leak:
  assumes "file_lock_manager_init mtx_rc mgr_rc capacity = (rc, m, live)"
  shows "rc = - 1 \<and> m = None \<and> live = [] \<or>
    (\<exists>manager. rc = 0 \<and> m = Some manager \<and> 0 < capacity \<and> length live = nat capacity + 1 \<and>
      file_lock_manager_destroy manager live = [])"
proof (cases "0 < capacity")
  case True
  obtain r l where i: "init_slots mtx_rc [0..<nat capacity] [] = (r, l)" by fastforce
  from init_slots_outcome [OF i] have
    "r = 0 \<and> mset l = mset (map Slot_mtx [0..<nat capacity]) \<or> r = - 1 \<and> l = []" by simp
  moreover have "length l = nat capacity \<and> destroy_slots (nat capacity) l = [] \<and>
      release Mtx_twice Manager_mtx (destroy_slots (nat capacity) (Manager_mtx # l)) = []"
    if m: "mset l = mset (map Slot_mtx [0..<nat capacity])"
    using arg_cong [OF m, of size] destroy_slots_all [OF m] destroy_slots_and_manager [OF m] by simp
  ultimately show ?thesis
    using assms True i by (auto simp: file_lock_manager_init_def file_lock_manager_destroy_def split: if_splits)
qed (use assms in \<open>auto simp: file_lock_manager_init_def\<close>)

lemma file_lock_manager_no_leak_witness:
  "snd (snd (file_lock_manager_init (\<lambda>i. if i = 2 then 12 else 0) 0 4)) = []"
proof -
  obtain rc m live where f: "file_lock_manager_init (\<lambda>i. if i = 2 then 12 else 0) 0 4 = (rc, m, live)"
    by (metis prod_cases3)
  have "[0..<4] = [0, 1, 2, 3 :: nat]" by (simp add: upt_rec)
  then have "rc = - 1" using f by (simp add: file_lock_manager_init_def)
  with file_lock_manager_no_leak [OF f] f show ?thesis by auto
qed

end
