(* ===== verification/Lock_Protocol.thy ===== *)
theory Lock_Protocol
  imports File_Locks
begin

text \<open>
  Worker threads using the file-lock table at the grain of its critical sections: each acquire and each
  release is two steps, and the steps of different threads interleave freely. The invariant ties the
  reference counts and the mutex owners to the threads; from it come mutual exclusion per slot, progress,
  that the table is never full and that it empties. Mutual exclusion per file holds when no two files
  in play share a hash value and fails otherwise.
\<close>

section \<open>Threads\<close>

datatype lock_pc =
    Idle
  | Queued string nat    \<comment> \<open>counted on the slot, about to lock its mutex\<close>
  | Holding string nat   \<comment> \<open>inside the critical section of the file\<close>
  | Dropping string nat  \<comment> \<open>mutex unlocked, reference not yet dropped\<close>

record lock_sys =
  ls_mgr :: FileLockManager
  ls_pcs :: "lock_pc list"

text \<open>The workers request the files that \<open>P\<close> allows, as (username, filename) pairs.\<close>

inductive lock_step :: "(string \<Rightarrow> string \<Rightarrow> bool) \<Rightarrow> lock_sys \<Rightarrow> lock_sys \<Rightarrow> bool" for P where
  take_ref: "P u f \<Longrightarrow> i < length (ls_pcs s) \<Longrightarrow> ls_pcs s ! i = Idle \<Longrightarrow>
     acquire_slot (ls_mgr s) (lock_key u f) = (Some k, m') \<Longrightarrow>
     lock_step P s \<lparr>ls_mgr = m', ls_pcs = (ls_pcs s)[i := Queued (lock_key u f) k]\<rparr>"
| table_full: "P u f \<Longrightarrow> i < length (ls_pcs s) \<Longrightarrow> ls_pcs s ! i = Idle \<Longrightarrow>
     acquire_slot (ls_mgr s) (lock_key u f) = (None, m') \<Longrightarrow>
     lock_step P s (s\<lparr>ls_mgr := m'\<rparr>)"
| lock: "i < length (ls_pcs s) \<Longrightarrow> ls_pcs s ! i = Queued p k \<Longrightarrow>
     lock_slot i k (ls_mgr s) = Some m' \<Longrightarrow>
     lock_step P s \<lparr>ls_mgr = m', ls_pcs = (ls_pcs s)[i := Holding p k]\<rparr>"
| unlock: "i < length (ls_pcs s) \<Longrightarrow> ls_pcs s ! i = Holding p k \<Longrightarrow>
     lock_step P s \<lparr>ls_mgr = unlock_slot k (ls_mgr s), ls_pcs = (ls_pcs s)[i := Dropping p k]\<rparr>"
| drop_ref: "i < length (ls_pcs s) \<Longrightarrow> ls_pcs s ! i = Dropping p k \<Longrightarrow>
     lock_step P s \<lparr>ls_mgr = release_slot k (ls_mgr s), ls_pcs = (ls_pcs s)[i := Idle]\<rparr>"

text \<open>\<open>n\<close> workers start on a freshly initialised table.\<close>

definition lock_start :: "int \<Rightarrow> nat \<Rightarrow> lock_sys" where
  "lock_start c n = \<lparr>ls_mgr = the (fst (snd (file_lock_manager_init (\<lambda>_. 0) 0 c))),
     ls_pcs = replicate n Idle\<rparr>"

inductive lock_reach ::
  "(string \<Rightarrow> string \<Rightarrow> bool) \<Rightarrow> int \<Rightarrow> nat \<Rightarrow> lock_sys \<Rightarrow> bool" for P c n where
  lock_reach_start: "lock_reach P c n (lock_start c n)"
| lock_reach_step: "lock_reach P c n s \<Longrightarrow> lock_step P s t \<Longrightarrow> lock_reach P c n t"

fun at_slot :: "nat \<Rightarrow> lock_pc \<Rightarrow> bool" where
  "at_slot k Idle = False"
| "at_slot k (Queued p j) = (j = k)"
| "at_slot k (Holding p j) = (j = k)"
| "at_slot k (Dropping p j) = (j = k)"

definition refs :: "lock_pc list \<Rightarrow> nat \<Rightarrow> nat" where
  "refs pcs k = length (filter (at_slot k) pcs)"

definition pc_at :: "lock_pc \<Rightarrow> (string \<times> nat) option" where
  "pc_at pc = (case pc of Idle \<Rightarrow> None | Queued p k \<Rightarrow> Some (p, k) | Holding p k \<Rightarrow> Some (p, k)
     | Dropping p k \<Rightarrow> Some (p, k))"

lemma at_slot_pc_at: "at_slot k pc \<longleftrightarrow> (\<exists>p. pc_at pc = Some (p, k))"
  by (cases pc) (auto simp: pc_at_def)

text \<open>What ties a slot to the threads, and a thread to its slot.\<close>

definition slot_inv :: "lock_pc list \<Rightarrow> nat \<Rightarrow> FileLock \<Rightarrow> bool" where
  "slot_inv pcs k l \<longleftrightarrow> fl_ref_count l = int (refs pcs k) \<and>
     (\<forall>i. fl_owner l = Some i \<longleftrightarrow> i < length pcs \<and> (\<exists>p. pcs ! i = Holding p k))"

definition thread_inv :: "FileLockManager \<Rightarrow> lock_pc \<Rightarrow> bool" where
  "thread_inv m pc \<longleftrightarrow>
     (\<forall>p k. pc_at pc = Some (p, k) \<longrightarrow> k < lm_cap m \<and> lock_at m k = Some p)"

definition lock_inv :: "lock_sys \<Rightarrow> bool" where
  "lock_inv s \<longleftrightarrow> lm_wf (ls_mgr s) \<and>
     (\<forall>k < lm_cap (ls_mgr s). slot_inv (ls_pcs s) k (lm_locks (ls_mgr s) ! k)) \<and>
     (\<forall>i < length (ls_pcs s). thread_inv (ls_mgr s) (ls_pcs s ! i))"

section \<open>The table operations\<close>

lemma length_lock_key: "length (lock_key u f) < MAX_FILEPATH_LEN"
  by (simp add: lock_key_def MAX_FILEPATH_LEN_def)

lemma acquire_slot_cases:
  assumes "lm_wf m" "length p < MAX_FILEPATH_LEN"
  obtains (full) "acquire_slot m p = (None, m)" "\<And>i. i < lm_cap m \<Longrightarrow> fl_in_use (lm_locks m ! i)"
  | (shared) i l where "i < lm_cap m" "l = lm_locks m ! i" "lock_at m i = Some p"
      "acquire_slot m p
        = (Some i, m\<lparr>lm_locks := (lm_locks m)[i := l\<lparr>fl_ref_count := fl_ref_count l + 1\<rparr>]\<rparr>)"
  | (fresh) i l where "i < lm_cap m" "l = lm_locks m ! i" "lock_at m i = None"
      "acquire_slot m p = (Some i, m\<lparr>lm_locks := (lm_locks m)
        [i := l\<lparr>fl_filepath := p, fl_ref_count := 1, fl_in_use := True\<rparr>]\<rparr>)"
proof -
  let ?found = "\<lambda>i. fl_in_use (lm_locks m ! i) \<and> fl_filepath (lm_locks m ! i) = p"
  let ?stop = "\<lambda>i. ?found i \<or> \<not> fl_in_use (lm_locks m ! i)"
  let ?h = "lock_home m p" and ?c = "lm_cap m"
  have h: "?h < ?c" using assms(1) by (rule lock_home_less)
  from linear_probe_result [of ?h ?c 0 ?stop] h obtain k where k: "k \<le> ?c"
    "linear_probe ?stop ?c ?h 0 = ((?h + k) mod ?c, k)"
    "\<forall>j<k. \<not> ?stop ((?h + j) mod ?c)" "k < ?c \<longrightarrow> ?stop ((?h + k) mod ?c)" by auto
  have slot: "(?h + k) mod ?c < ?c" using h by simp
  show thesis
  proof (cases "k < ?c")
    case True
    show thesis
    proof (cases "?found ((?h + k) mod ?c)")
      case True
      with k \<open>k < ?c\<close> slot shared [of "(?h + k) mod ?c"] show thesis
        by (simp add: acquire_slot_def Let_def lock_at_def)
    next
      case False
      with k \<open>k < ?c\<close> slot fresh [of "(?h + k) mod ?c"] assms(2) show thesis
        by (simp add: acquire_slot_def Let_def lock_at_def fit_short)
    qed
  next
    case False
    then have kc: "k = ?c" using k(1) by simp
    have "fl_in_use (lm_locks m ! i)" if "i < ?c" for i
      using k(3) chain_pos_less [OF h that] chain_pos_slot [OF h that] kc by metis
    moreover have "acquire_slot m p = (None, m)"
      using k(2) kc by (simp add: acquire_slot_def Let_def)
    ultimately show thesis by (rule full [rotated])
  qed
qed

lemma lm_wf_slot: "lm_wf m \<Longrightarrow> i < lm_cap m \<Longrightarrow> fl_ok (lm_locks m ! i)"
  by (simp add: lm_wf_def)

lemma lm_wf_length: "lm_wf m \<Longrightarrow> length (lm_locks m) = lm_cap m"
  by (simp add: lm_wf_def)

lemma lm_wf_update:
  "lm_wf m \<Longrightarrow> fl_ok l \<Longrightarrow> lm_wf (m\<lparr>lm_locks := (lm_locks m)[i := l]\<rparr>)"
  by (simp add: lm_wf_def) (metis nth_list_update_eq nth_list_update_neq)

lemma refs_update:
  assumes "i < length pcs"
  shows "refs (pcs[i := y]) k + (if at_slot k (pcs ! i) then 1 else 0)
    = refs pcs k + (if at_slot k y then 1 else 0)"
  using length_filter_update [OF assms, of "at_slot k" y] by (simp add: refs_def)

lemma refs_pos: "i < length pcs \<Longrightarrow> at_slot k (pcs ! i) \<Longrightarrow> 0 < refs pcs k"
  unfolding refs_def by (rule filter_length_pos)

section \<open>The invariant is kept\<close>

lemma lock_inv_start: "0 < c \<Longrightarrow> c \<le> MAX_FILE_LOCKS \<Longrightarrow> lock_inv (lock_start c n)"
  by (auto simp: lock_inv_def lock_start_def lm_wf_def unused_lock_def
      pc_at_def refs_def MAX_FILEPATH_LEN_def slot_inv_def thread_inv_def fl_ok_def filter_empty_conv)

text \<open>One lemma for all five steps: thread \<open>i\<close> moves to \<open>pc'\<close> and slot \<open>k\<close> becomes \<open>l'\<close>, where the thread
  is at no other slot before or after, the count follows the move, the owner follows the holding, and
  the key changes only when no other thread is at the slot.\<close>

lemma lock_inv_move:
  assumes inv: "lock_inv s" and i: "i < length (ls_pcs s)" and k: "k < lm_cap (ls_mgr s)"
    and l: "l = lm_locks (ls_mgr s) ! k" and ok: "fl_ok l'"
    and old: "\<And>j. at_slot j (ls_pcs s ! i) \<Longrightarrow> j = k"
    and new: "\<And>p j. pc_at pc' = Some (p, j) \<Longrightarrow> j = k \<and> fl_in_use l' \<and> fl_filepath l' = p"
    and cnt: "fl_ref_count l' + (if at_slot k (ls_pcs s ! i) then 1 else 0)
      = fl_ref_count l + (if at_slot k pc' then 1 else 0)"
    and own: "\<And>j. fl_owner l' = Some j \<longleftrightarrow>
      (if j = i then \<exists>p. pc' = Holding p k else fl_owner l = Some j)"
    and keep: "(fl_in_use l' \<and> fl_filepath l' = fl_filepath l) \<or>
      (\<forall>j < length (ls_pcs s). j \<noteq> i \<longrightarrow> \<not> at_slot k (ls_pcs s ! j))"
  shows "lock_inv \<lparr>ls_mgr = (ls_mgr s)\<lparr>lm_locks := (lm_locks (ls_mgr s))[k := l']\<rparr>,
    ls_pcs = (ls_pcs s)[i := pc']\<rparr>"
proof -
  let ?m = "ls_mgr s" and ?pcs = "ls_pcs s"
  let ?m' = "?m\<lparr>lm_locks := (lm_locks ?m)[k := l']\<rparr>" and ?pcs' = "?pcs[i := pc']"
  from inv have wf: "lm_wf ?m" by (simp add: lock_inv_def)
  then have len: "length (lm_locks ?m) = lm_cap ?m" by (rule lm_wf_length)
  have slot: "slot_inv ?pcs j (lm_locks ?m ! j)" if "j < lm_cap ?m" for j
    using inv that by (simp add: lock_inv_def)
  have thread: "thread_inv ?m (?pcs ! j)" if "j < length ?pcs" for j
    using inv that by (simp add: lock_inv_def)
  have pc'_slot: "j = k" if "at_slot j pc'" for j using new that by (auto simp: at_slot_pc_at)
  have "slot_inv ?pcs' k l'"
  proof -
    have "fl_ref_count l' = int (refs ?pcs' k)"
      using slot [OF k] cnt refs_update [OF i, of pc' k] l
      by (auto simp: slot_inv_def split: if_splits)
    moreover have "fl_owner l' = Some j \<longleftrightarrow> j < length ?pcs' \<and> (\<exists>p. ?pcs' ! j = Holding p k)" for j
      using own [of j] slot [OF k] i l by (cases "j = i") (auto simp: slot_inv_def)
    ultimately show ?thesis by (simp add: slot_inv_def)
  qed
  moreover have "slot_inv ?pcs' j (lm_locks ?m ! j)" if j: "j < lm_cap ?m" "j \<noteq> k" for j
  proof -
    have na: "\<not> at_slot j (?pcs ! i)" "\<not> at_slot j pc'" using old pc'_slot j(2) by blast+
    then have "refs ?pcs' j = refs ?pcs j" using refs_update [OF i, of pc' j] by simp
    moreover have "(\<exists>p. ?pcs' ! a = Holding p j) \<longleftrightarrow> (\<exists>p. ?pcs ! a = Holding p j)" for a
      using na i by (cases "a = i") auto
    ultimately show ?thesis using slot [OF j(1)] by (simp add: slot_inv_def)
  qed
  ultimately have "\<forall>j < lm_cap ?m'. slot_inv ?pcs' j (lm_locks ?m' ! j)"
    using len k by (auto simp: nth_list_update)
  moreover have "thread_inv ?m' (?pcs' ! j)" if j: "j < length ?pcs'" for j
  proof (cases "j = i")
    case True
    with new i k len show ?thesis by (auto simp: thread_inv_def lock_at_def)
  next
    case False
    have "lock_at ?m' q = lock_at ?m q" if "q \<noteq> k" for q using that by (simp add: lock_at_def)
    moreover have "lock_at ?m' k = lock_at ?m k" if "at_slot k (?pcs ! j)"
    proof -
      from that obtain p where "pc_at (?pcs ! j) = Some (p, k)" by (auto simp: at_slot_pc_at)
      with thread [of j] j have "fl_in_use l" by (auto simp: thread_inv_def lock_at_def l split: if_splits)
      with keep that j False k len l show ?thesis by (auto simp: lock_at_def)
    qed
    ultimately have "lock_at ?m' q = lock_at ?m q" if "at_slot q (?pcs ! j)" for q
      using that by (cases "q = k") auto
    then show ?thesis using thread [of j] j False
      by (auto simp: thread_inv_def at_slot_pc_at)
  qed
  ultimately show ?thesis using lm_wf_update [OF wf ok] by (simp add: lock_inv_def)
qed

lemma lock_inv_take:
  assumes inv: "lock_inv s" and i: "i < length (ls_pcs s)" "ls_pcs s ! i = Idle"
    and acq: "acquire_slot (ls_mgr s) p = (Some k, m')" and p: "length p < MAX_FILEPATH_LEN"
  shows "lock_inv \<lparr>ls_mgr = m', ls_pcs = (ls_pcs s)[i := Queued p k]\<rparr>"
proof -
  let ?m = "ls_mgr s"
  from inv have wf: "lm_wf ?m" by (simp add: lock_inv_def)
  from wf p show ?thesis
  proof (cases rule: acquire_slot_cases)
    case full
    with acq show ?thesis by simp
  next
    case (shared j l)
    with acq have k: "j = k" and m': "m' = ?m\<lparr>lm_locks := (lm_locks ?m)
        [k := l\<lparr>fl_ref_count := fl_ref_count l + 1\<rparr>]\<rparr>" by auto
    from shared lm_wf_slot [OF wf, of k] k have ok: "fl_ok l" "fl_in_use l" "fl_filepath l = p"
      by (auto simp: lock_at_def split: if_splits)
    have own: "fl_owner l \<noteq> Some i"
      using inv shared k i by (auto simp: lock_inv_def slot_inv_def)
    show ?thesis unfolding m'
      by (rule lock_inv_move [OF inv i(1), where l = l])
        (use shared k ok i own in \<open>auto simp: fl_ok_def pc_at_def\<close>)
  next
    case (fresh j l)
    with acq have k: "j = k" and m': "m' = ?m\<lparr>lm_locks := (lm_locks ?m)
        [k := l\<lparr>fl_filepath := p, fl_ref_count := 1, fl_in_use := True\<rparr>]\<rparr>" by auto
    from fresh lm_wf_slot [OF wf, of k] k have l: "fl_ref_count l = 0" "fl_owner l = None"
      by (auto simp: lock_at_def fl_ok_def split: if_splits)
    with inv fresh k have "refs (ls_pcs s) k = 0" by (auto simp: lock_inv_def slot_inv_def)
    then have free: "\<not> at_slot k (ls_pcs s ! j')" if "j' < length (ls_pcs s)" for j'
      using refs_pos [OF that, of k] by (metis less_irrefl)
    show ?thesis unfolding m'
      by (rule lock_inv_move [OF inv i(1), where l = l])
        (use fresh k l i p free in \<open>auto simp: fl_ok_def pc_at_def\<close>)
  qed
qed

lemma pc_at_simps [simp]:
  "pc_at Idle = None" "pc_at (Queued p k) = Some (p, k)" "pc_at (Holding p k) = Some (p, k)"
  "pc_at (Dropping p k) = Some (p, k)"
  by (simp_all add: pc_at_def)

text \<open>A thread at a slot: the slot exists, carries the thread's key and counts it.\<close>

lemma lock_inv_at:
  assumes "lock_inv s" "i < length (ls_pcs s)" "pc_at (ls_pcs s ! i) = Some (p, k)"
  shows "k < lm_cap (ls_mgr s)" "fl_in_use (lm_locks (ls_mgr s) ! k)"
    "fl_filepath (lm_locks (ls_mgr s) ! k) = p" "fl_ok (lm_locks (ls_mgr s) ! k)"
    "0 < fl_ref_count (lm_locks (ls_mgr s) ! k)"
  using assms lm_wf_slot [of "ls_mgr s" k]
  by (auto simp: lock_inv_def thread_inv_def lock_at_def fl_ok_def split: if_splits)

lemma lock_inv_owner:
  "lock_inv s \<Longrightarrow> k < lm_cap (ls_mgr s) \<Longrightarrow> fl_owner (lm_locks (ls_mgr s) ! k) = Some i \<longleftrightarrow>
     i < length (ls_pcs s) \<and> (\<exists>p. ls_pcs s ! i = Holding p k)"
  by (auto simp: lock_inv_def slot_inv_def)

lemma lock_inv_step:
  assumes "lock_step P s t" "lock_inv s"
  shows "lock_inv t"
  using assms(1)
proof (cases rule: lock_step.cases)
  case (take_ref u f i k m')
  with assms(2) show ?thesis by (auto intro: lock_inv_take length_lock_key)
next
  case (table_full u f i m')
  from assms(2) have "lm_wf (ls_mgr s)" by (simp add: lock_inv_def)
  from this length_lock_key [of u f] table_full have "m' = ls_mgr s"
    by (auto elim: acquire_slot_cases)
  with table_full assms(2) show ?thesis by simp
next
  case (lock i p k m')
  let ?l = "lm_locks (ls_mgr s) ! k"
  note at = lock_inv_at [OF assms(2) lock(2), of p k]
  from lock have free: "fl_owner ?l = None"
    and m': "m' = (ls_mgr s)\<lparr>lm_locks := (lm_locks (ls_mgr s))[k := ?l\<lparr>fl_owner := Some i\<rparr>]\<rparr>"
    by (auto simp: lock_slot_def Let_def split: option.splits)
  show ?thesis unfolding lock(1) m'
    by (rule lock_inv_move [OF assms(2) lock(2), where l = ?l])
      (use lock at free in \<open>auto simp: fl_ok_def\<close>)
next
  case (unlock i p k)
  let ?l = "lm_locks (ls_mgr s) ! k"
  note at = lock_inv_at [OF assms(2) unlock(2), of p k]
  have mine: "fl_owner ?l = Some i"
    using lock_inv_owner [OF assms(2) at(1)] unlock by auto
  show ?thesis unfolding unlock(1) unlock_slot_def Let_def
    by (rule lock_inv_move [OF assms(2) unlock(2), where l = ?l])
      (use unlock at mine in \<open>auto simp: fl_ok_def\<close>)
next
  case (drop_ref i p k)
  let ?l = "lm_locks (ls_mgr s) ! k"
  note at = lock_inv_at [OF assms(2) drop_ref(2), of p k]
  have notmine: "fl_owner ?l \<noteq> Some i"
    using lock_inv_owner [OF assms(2) at(1)] drop_ref by auto
  have cnt: "fl_ref_count ?l = int (refs (ls_pcs s) k)"
    using assms(2) at(1) drop_ref by (auto simp: lock_inv_def slot_inv_def)
  have alone: "\<not> at_slot k (ls_pcs s ! j)"
    if "fl_ref_count ?l \<le> 1" "j < length (ls_pcs s)" "j \<noteq> i" for j
  proof -
    have "refs ((ls_pcs s)[i := Idle]) k = 0"
      using refs_update [OF drop_ref(2), of Idle k] drop_ref that(1) cnt by simp
    with that refs_pos [of j "(ls_pcs s)[i := Idle]" k] show ?thesis by auto
  qed
  have lone: "fl_owner ?l = None" if "fl_ref_count ?l \<le> 1"
  proof (rule ccontr)
    assume "fl_owner ?l \<noteq> None"
    then obtain j where j: "fl_owner ?l = Some j" by auto
    with lock_inv_owner [OF assms(2) at(1)] drop_ref obtain q where
      "j < length (ls_pcs s)" "ls_pcs s ! j = Holding q k" by auto
    with alone [OF that, of j] notmine j show False by auto
  qed
  show ?thesis unfolding drop_ref(1) release_slot_def Let_def
    by (rule lock_inv_move [OF assms(2) drop_ref(2), where l = ?l])
      (use drop_ref at notmine alone lone in
        \<open>auto simp: fl_ok_def MAX_FILEPATH_LEN_def not_le split: if_splits\<close>)
qed

lemma lock_inv_reach:
  assumes "lock_reach P c n s" "0 < c" "c \<le> MAX_FILE_LOCKS"
  shows "lock_inv s"
  using assms by (induction rule: lock_reach.induct) (auto intro: lock_inv_start lock_inv_step)

lemma acquire_slot_capacity: "acquire_slot m p = (r, m') \<Longrightarrow> lm_capacity m' = lm_capacity m"
  by (auto simp: acquire_slot_def Let_def split: prod.splits if_splits)

lemma acquire_slot_other:
  "acquire_slot m p = (Some k, m') \<Longrightarrow> j \<noteq> k \<Longrightarrow> lock_at m' j = lock_at m j"
  by (auto simp: acquire_slot_def Let_def lock_at_def split: prod.splits if_splits)

lemma acquire_slot_key:
  assumes "lm_wf m" "length p < MAX_FILEPATH_LEN" "acquire_slot m p = (Some k, m')"
  shows "lock_at m' k = Some p"
  using assms(1,2)
proof (cases rule: acquire_slot_cases)
  case (shared i l)
  with assms lm_wf_length [OF assms(1)] show ?thesis by (auto simp: lock_at_def split: if_splits)
next
  case (fresh i l)
  with assms lm_wf_length [OF assms(1)] show ?thesis by (auto simp: lock_at_def)
qed (use assms(3) in simp)

lemma lock_step_shape:
  "lock_step P s t \<Longrightarrow>
     length (ls_pcs t) = length (ls_pcs s) \<and> lm_capacity (ls_mgr t) = lm_capacity (ls_mgr s)"
  by (induction rule: lock_step.induct)
    (auto simp: lock_slot_def unlock_slot_def release_slot_def Let_def
      dest: acquire_slot_capacity split: option.splits)

lemma lock_reach_shape:
  assumes "lock_reach P c n s" "0 < c" "c \<le> MAX_FILE_LOCKS"
  shows "length (ls_pcs s) = n \<and> lm_capacity (ls_mgr s) = c"
  using assms
proof (induction rule: lock_reach.induct)
  case lock_reach_start
  then show ?case by (auto simp: lock_start_def)
next
  case (lock_reach_step s t)
  with lock_step_shape [of P s t] show ?case by auto
qed

section \<open>Keys at their home slots\<close>

text \<open>When no two requested files share a hash value, every key sits at its home slot.\<close>

definition collision_free :: "(string \<Rightarrow> string \<Rightarrow> bool) \<Rightarrow> int \<Rightarrow> bool" where
  "collision_free P c \<longleftrightarrow> (\<forall>u f u' f'. P u f \<longrightarrow> P u' f' \<longrightarrow>
     hash_filepath (lock_key u f) c = hash_filepath (lock_key u' f') c \<longrightarrow>
     lock_key u f = lock_key u' f')"

definition homed :: "(string \<Rightarrow> string \<Rightarrow> bool) \<Rightarrow> FileLockManager \<Rightarrow> bool" where
  "homed P m \<longleftrightarrow> (\<forall>k < lm_cap m. \<forall>p. lock_at m k = Some p \<longrightarrow>
     lock_home m p = k \<and> (\<exists>u f. P u f \<and> p = lock_key u f))"

lemma acquire_slot_at_home:
  assumes "lm_wf m" "lock_at m (lock_home m p) = None \<or> lock_at m (lock_home m p) = Some p"
  shows "fst (acquire_slot m p) = Some (lock_home m p)"
proof -
  let ?stop = "\<lambda>i. (fl_in_use (lm_locks m ! i) \<and> fl_filepath (lm_locks m ! i) = p) \<or>
    \<not> fl_in_use (lm_locks m ! i)"
  from assms(2) have "?stop (lock_home m p)" by (auto simp: lock_at_def split: if_splits)
  then have "linear_probe ?stop (lm_cap m) (lock_home m p) 0 = (lock_home m p, 0)"
    by (simp add: linear_probe.simps)
  with lock_home_less [OF assms(1), of p] show ?thesis
    using assms(1) by (simp add: acquire_slot_def Let_def lm_wf_def)
qed

lemma homedD:
  "homed P m \<Longrightarrow> k < lm_cap m \<Longrightarrow> lock_at m k = Some p \<Longrightarrow>
     lock_home m p = k \<and> (\<exists>u f. P u f \<and> p = lock_key u f)"
  unfolding homed_def by blast

lemma homed_take:
  assumes "lm_wf m" "homed P m" "collision_free P (lm_capacity m)" "P u f"
    and acq: "acquire_slot m (lock_key u f) = (Some k, m')"
  shows "homed P m' \<and> k = lock_home m (lock_key u f)"
proof -
  let ?p = "lock_key u f"
  have "lock_at m (lock_home m ?p) = None \<or> lock_at m (lock_home m ?p) = Some ?p"
  proof (cases "lock_at m (lock_home m ?p)")
    case (Some q)
    from homedD [OF assms(2) lock_home_less [OF assms(1), of ?p] Some] obtain u' f' where
      q: "lock_home m q = lock_home m ?p" "P u' f'" "q = lock_key u' f'" by blast
    from assms(3) q(2) assms(4) q(1) [unfolded q(3)] have "q = ?p"
      unfolding collision_free_def q(3) by blast
    with Some show ?thesis by simp
  qed simp
  from acquire_slot_at_home [OF assms(1) this] acq have k: "k = lock_home m ?p" by simp
  have cap: "lm_capacity m' = lm_capacity m" using acquire_slot_capacity [OF acq] .
  have kc: "k < length (lm_locks m)" using k lock_home_less [OF assms(1)] lm_wf_length [OF assms(1)] by simp
  have other: "lock_at m' j = lock_at m j" if "j \<noteq> k" for j
    using acquire_slot_other [OF acq that] .
  have mine: "lock_at m' k = Some ?p"
    using acquire_slot_key [OF assms(1) length_lock_key acq] .
  have "lock_home m' q = j \<and> (\<exists>u f. P u f \<and> q = lock_key u f)"
    if "j < lm_cap m'" "lock_at m' j = Some q" for j q
  proof (cases "j = k")
    case True
    with that mine k cap assms(4) show ?thesis by auto
  next
    case False
    with that other cap assms(2) show ?thesis by (auto simp: homed_def)
  qed
  with k show ?thesis by (simp add: homed_def)
qed

lemma homed_fewer:
  assumes "homed P m" "lm_capacity m' = lm_capacity m"
    and "\<And>j. j < lm_cap m \<Longrightarrow> lock_at m' j = None \<or> lock_at m' j = lock_at m j"
  shows "homed P m'"
  using assms unfolding homed_def by (metis option.distinct(1))

lemma homed_step:
  assumes "lock_step P s t" "lock_inv s" "homed P (ls_mgr s)" "collision_free P (lm_capacity (ls_mgr s))"
  shows "homed P (ls_mgr t)"
  using assms(1)
proof (cases rule: lock_step.cases)
  case (take_ref u f i k m')
  with homed_take [OF _ assms(3,4)] assms(2) show ?thesis by (auto simp: lock_inv_def)
next
  case (table_full u f i m')
  from assms(2) have "lm_wf (ls_mgr s)" by (simp add: lock_inv_def)
  from this length_lock_key [of u f] table_full have "m' = ls_mgr s"
    by (auto elim: acquire_slot_cases)
  with table_full assms(3) show ?thesis by simp
next
  case (lock i p k m')
  then have m': "m' = (ls_mgr s)\<lparr>lm_locks := (lm_locks (ls_mgr s))
      [k := (lm_locks (ls_mgr s) ! k)\<lparr>fl_owner := Some i\<rparr>]\<rparr>"
    by (auto simp: lock_slot_def Let_def split: option.splits)
  have "homed P m'" unfolding m'
    by (rule homed_fewer [OF assms(3)]) (simp_all add: lock_at_def nth_update_if)
  with lock show ?thesis by simp
next
  case (unlock i p k)
  have "homed P (unlock_slot k (ls_mgr s))" unfolding unlock_slot_def Let_def
    by (rule homed_fewer [OF assms(3)]) (simp_all add: lock_at_def nth_update_if)
  with unlock show ?thesis by simp
next
  case (drop_ref i p k)
  have "homed P (release_slot k (ls_mgr s))" unfolding release_slot_def Let_def
    by (rule homed_fewer [OF assms(3)]) (simp_all add: lock_at_def nth_update_if)
  with drop_ref show ?thesis by simp
qed

lemma homed_reach:
  assumes "lock_reach P c n s" "0 < c" "c \<le> MAX_FILE_LOCKS" "collision_free P c"
  shows "homed P (ls_mgr s)"
  using assms
proof (induction rule: lock_reach.induct)
  case lock_reach_start
  then show ?case
    by (auto simp: homed_def lock_start_def lock_at_def unused_lock_def)
next
  case (lock_reach_step s t)
  with lock_inv_reach lock_reach_shape show ?case by (metis homed_step)
qed

section \<open>Properties\<close>

lemma lock_holders_unique:
  assumes "lock_reach P c n s" "0 < c" "c \<le> MAX_FILE_LOCKS" "collision_free P c"
    and "i < n" "j < n" "ls_pcs s ! i = Holding p k" "ls_pcs s ! j = Holding p k'"
  shows "i = j \<and> k = k'"
proof -
  have inv: "lock_inv s" using lock_inv_reach assms(1-3) .
  have len: "length (ls_pcs s) = n" "lm_capacity (ls_mgr s) = c"
    using lock_reach_shape assms(1-3) by blast+
  have hm: "homed P (ls_mgr s)" using homed_reach assms(1-4) .
  have at: "a < lm_cap (ls_mgr s)" "lock_at (ls_mgr s) a = Some p"
    if "b < n" "ls_pcs s ! b = Holding p a" for a b
    using lock_inv_at [OF inv, of b p a] that len by (auto simp: lock_at_def)
  have "k = k'" using homedD [OF hm at(1,2)] assms(5-8) by metis
  moreover have "i = j"
    using lock_inv_owner [OF inv, of k] at(1) assms(5-8) \<open>k = k'\<close> len by (metis option.inject)
  ultimately show ?thesis by simp
qed

text \<open>
  C16: Per-file mutual exclusion, as far as the table gives it. Let any number of workers acquire and
  release file locks in any interleaving, the requested files having pairwise different hash values
  (modulo the capacity). Then in every reachable state at most one worker is inside the critical section
  of a file.
\<close>

theorem lock_file_exclusive:
  assumes "lock_reach P c n s" "0 < c" "c \<le> MAX_FILE_LOCKS" "collision_free P c"
    and "i < n" "j < n" "ls_pcs s ! i = Holding p k" "ls_pcs s ! j = Holding p k'"
  shows "i = j \<and> k = k'"
  using lock_holders_unique [OF assms] .

lemma lock_when_free:
  assumes "lock_inv s" "i < length (ls_pcs s)" "ls_pcs s ! i = Queued p k"
    and "\<forall>j < length (ls_pcs s). \<forall>q. ls_pcs s ! j \<noteq> Holding q k"
  shows "\<exists>t. lock_step P s t \<and> ls_pcs t = (ls_pcs s)[i := Holding p k]"
proof -
  note at = lock_inv_at [OF assms(1,2), of p k, unfolded assms(3) pc_at_simps, OF refl]
  have "fl_owner (lm_locks (ls_mgr s) ! k) = None"
    using lock_inv_owner [OF assms(1) at(1)] assms(4) by (metis option.exhaust)
  then obtain m' where "lock_slot i k (ls_mgr s) = Some m'" by (simp add: lock_slot_def Let_def)
  from lock_step.lock [OF assms(2,3) this, of P] show ?thesis by fastforce
qed

text \<open>A run of one worker into the critical section of \<open>a/x\<close> on a table of two slots.\<close>

lemma lock_run_example:
  "\<exists>s t k. lock_reach (\<lambda>u f. u = ''a'' \<and> f = ''x'') 2 2 s \<and>
     ls_pcs s ! 0 = Queued (lock_key ''a'' ''x'') k \<and>
     lock_reach (\<lambda>u f. u = ''a'' \<and> f = ''x'') 2 2 t \<and>
     ls_pcs t ! 0 = Holding (lock_key ''a'' ''x'') k"
proof -
  let ?P = "\<lambda>u f. u = ''a'' \<and> f = ''x''"
  let ?s0 = "lock_start 2 2" and ?p = "lock_key ''a'' ''x''"
  have "0 < (2::int)" "(2::int) \<le> MAX_FILE_LOCKS" by (simp_all add: MAX_FILE_LOCKS_def)
  then have inv0: "lock_inv ?s0" by (rule lock_inv_start)
  then have wf: "lm_wf (ls_mgr ?s0)" by (simp add: lock_inv_def)
  have pcs0: "ls_pcs ?s0 = [Idle, Idle]" by (simp add: lock_start_def numeral_2_eq_2)
  have "lock_at (ls_mgr ?s0) (lock_home (ls_mgr ?s0) ?p) = None"
    using lock_home_less [OF wf, of ?p]
    by (simp add: lock_start_def lock_at_def unused_lock_def)
  with acquire_slot_at_home [OF wf] obtain k m1 where
    acq: "acquire_slot (ls_mgr ?s0) ?p = (Some k, m1)" by (metis prod.collapse)
  let ?s1 = "\<lparr>ls_mgr = m1, ls_pcs = (ls_pcs ?s0)[0 := Queued ?p k]\<rparr>"
  have st1: "lock_step ?P ?s0 ?s1"
    by (rule lock_step.take_ref) (use acq pcs0 in auto)
  have inv1: "lock_inv ?s1" by (rule lock_inv_step [OF st1 inv0])
  have "ls_pcs ?s1 ! 0 = Queued ?p k" "0 < length (ls_pcs ?s1)" using pcs0 by simp_all
  moreover have "\<forall>j < length (ls_pcs ?s1). \<forall>q. ls_pcs ?s1 ! j \<noteq> Holding q k"
    using pcs0 by (simp add: less_Suc_eq)
  ultimately obtain t where t: "lock_step ?P ?s1 t" "ls_pcs t = (ls_pcs ?s1)[0 := Holding ?p k]"
    using lock_when_free [OF inv1] by blast
  have r1: "lock_reach ?P 2 2 ?s1" using lock_reach_start st1 by (rule lock_reach_step)
  then have "lock_reach ?P 2 2 t" using t(1) by (rule lock_reach_step)
  moreover have "ls_pcs t ! 0 = Holding ?p k" using t(2) pcs0 by simp
  moreover have "ls_pcs ?s1 ! 0 = Queued ?p k" using pcs0 by simp
  ultimately show ?thesis using r1 by blast
qed

theorem lock_file_exclusive_witness:
  "\<exists>s k. lock_reach (\<lambda>u f. u = ''a'' \<and> f = ''x'') 2 2 s \<and>
     ls_pcs s ! 0 = Holding (lock_key ''a'' ''x'') k \<and>
     (\<forall>j k'. j < 2 \<longrightarrow> ls_pcs s ! j = Holding (lock_key ''a'' ''x'') k' \<longrightarrow> 0 = j \<and> k = k')"
proof -
  let ?P = "\<lambda>u f. u = ''a'' \<and> f = ''x''"
  obtain s k where s: "lock_reach ?P 2 2 s" "ls_pcs s ! 0 = Holding (lock_key ''a'' ''x'') k"
    using lock_run_example by blast
  have "collision_free ?P 2" by (simp add: collision_free_def)
  moreover have "(0::int) < 2" "(2::int) \<le> MAX_FILE_LOCKS" by (simp_all add: MAX_FILE_LOCKS_def)
  ultimately have "0 = j \<and> k = k'" if "j < 2" "ls_pcs s ! j = Holding (lock_key ''a'' ''x'') k'" for j k'
    using lock_file_exclusive [OF s(1) _ _ _ _ that(1) s(2) that(2)] by simp
  with s show ?thesis by blast
qed

lemma queued_can_go:
  assumes "lock_reach P c n s" "0 < c" "c \<le> MAX_FILE_LOCKS"
    and "i < n" "ls_pcs s ! i = Queued p k"
  shows "(\<exists>t. lock_step P s t \<and> ls_pcs t ! i = Holding p k) \<or>
    (\<exists>j t. j < n \<and> j \<noteq> i \<and> ls_pcs s ! j = Holding p k \<and> lock_step P s t \<and>
       ls_pcs t ! j = Dropping p k \<and> fl_owner (lm_locks (ls_mgr t) ! k) = None)"
proof -
  have inv: "lock_inv s" using lock_inv_reach assms(1-3) .
  have len: "length (ls_pcs s) = n" using lock_reach_shape assms(1-3) by blast
  note at = lock_inv_at [OF inv, of i p k, unfolded len assms(5) pc_at_simps, OF assms(4) refl]
  show ?thesis
  proof (cases "fl_owner (lm_locks (ls_mgr s) ! k)")
    case None
    then obtain m' where "lock_slot i k (ls_mgr s) = Some m'" by (simp add: lock_slot_def Let_def)
    from lock_step.lock [OF _ assms(5) this, of P] len assms(4) show ?thesis by fastforce
  next
    case (Some j)
    with lock_inv_owner [OF inv at(1)] len obtain q where
      j: "j < n" "ls_pcs s ! j = Holding q k" by auto
    with lock_inv_at(3) [OF inv, of j q k] len at(3) have q: "q = p" by simp
    let ?t = "\<lparr>ls_mgr = unlock_slot k (ls_mgr s), ls_pcs = (ls_pcs s)[j := Dropping p k]\<rparr>"
    have "lock_step P s ?t" using j q len by (intro lock_step.unlock) auto
    moreover have "fl_owner (lm_locks (ls_mgr ?t) ! k) = None"
      using at(1) inv by (simp add: unlock_slot_def Let_def lock_inv_def lm_wf_length)
    moreover have "j \<noteq> i" using j assms(5) by auto
    ultimately show ?thesis using j q len by (intro disjI2 exI [of _ j] exI [of _ ?t]) auto
  qed
qed

text \<open>
  Waiting for a file lock never deadlocks inside the lock manager. A worker that has counted itself
  on a slot either can take the mutex at once or waits for exactly one other worker, which is inside
  the critical section of the very same file and whose release is enabled.
\<close>

theorem lock_wait_progress:
  assumes "lock_reach P c n s" "0 < c" "c \<le> MAX_FILE_LOCKS"
    and "i < n" "ls_pcs s ! i = Queued p k"
  shows "(\<exists>t. lock_step P s t \<and> ls_pcs t ! i = Holding p k) \<or>
    (\<exists>j t. j < n \<and> j \<noteq> i \<and> ls_pcs s ! j = Holding p k \<and> lock_step P s t \<and>
       ls_pcs t ! j = Dropping p k \<and> fl_owner (lm_locks (ls_mgr t) ! k) = None)"
  using queued_can_go [OF assms] .

theorem lock_wait_progress_witness:
  "\<exists>s k t. lock_reach (\<lambda>u f. u = ''a'' \<and> f = ''x'') 2 2 s \<and>
     ls_pcs s ! 0 = Queued (lock_key ''a'' ''x'') k \<and>
     lock_step (\<lambda>u f. u = ''a'' \<and> f = ''x'') s t"
proof -
  let ?P = "\<lambda>u f. u = ''a'' \<and> f = ''x''"
  obtain s k where s: "lock_reach ?P 2 2 s" "ls_pcs s ! 0 = Queued (lock_key ''a'' ''x'') k"
    using lock_run_example by blast
  with lock_wait_progress [OF s(1) _ _ _ s(2)] show ?thesis by (fastforce simp: MAX_FILE_LOCKS_def)
qed

text \<open>
  C37: The lock table cannot run out and cleans up after itself. With fewer workers than slots, no
  reachable state makes an acquire fail for want of a slot (so with four workers and 1024 slots the
  "Lock table full" branch is dead), and once every worker is idle every slot is free again.
\<close>

theorem lock_table_capacity:
  assumes "lock_reach P c n s" "0 < c" "c \<le> MAX_FILE_LOCKS" "int n < c"
  shows "(\<forall>u f. fst (acquire_slot (ls_mgr s) (lock_key u f)) \<noteq> None) \<and>
    ((\<forall>i < n. ls_pcs s ! i = Idle) \<longrightarrow>
       (\<forall>k < lm_cap (ls_mgr s). \<not> fl_in_use (lm_locks (ls_mgr s) ! k) \<and>
          fl_ref_count (lm_locks (ls_mgr s) ! k) = 0 \<and>
          fl_owner (lm_locks (ls_mgr s) ! k) = None))"
proof (intro conjI allI impI)
  have inv: "lock_inv s" using lock_inv_reach assms(1-3) .
  then have wf: "lm_wf (ls_mgr s)" by (simp add: lock_inv_def)
  have len: "length (ls_pcs s) = n" "lm_capacity (ls_mgr s) = c"
    using lock_reach_shape assms(1-3) by blast+
  {
    fix u f
    show "fst (acquire_slot (ls_mgr s) (lock_key u f)) \<noteq> None"
      using wf length_lock_key [of u f]
    proof (cases rule: acquire_slot_cases)
      case full
      define slot_of where "slot_of i = snd (the (pc_at (ls_pcs s ! i)))" for i
      have "{0..<nat c} \<subseteq> slot_of ` {0..<n}"
      proof
        fix k assume "k \<in> {0..<nat c}"
        then have k: "k < lm_cap (ls_mgr s)" using len by simp
        with full(2) lm_wf_slot [OF wf k] inv have "0 < refs (ls_pcs s) k"
          by (auto simp: fl_ok_def lock_inv_def slot_inv_def)
        then obtain i where "i < n" "at_slot k (ls_pcs s ! i)"
          using len by (auto simp: refs_def filter_empty_conv in_set_conv_nth)
        then show "k \<in> slot_of ` {0..<n}" by (force simp: slot_of_def at_slot_pc_at)
      qed
      from surj_card_le [OF _ this] have "nat c \<le> n" by simp
      with assms(4) show ?thesis by simp
    qed auto
  }
  {
    fix k assume idle: "\<forall>i < n. ls_pcs s ! i = Idle" and k: "k < lm_cap (ls_mgr s)"
    have "refs (ls_pcs s) k = 0"
      using idle len by (auto simp: refs_def filter_empty_conv in_set_conv_nth)
    with inv k lm_wf_slot [OF wf k] show
      "\<not> fl_in_use (lm_locks (ls_mgr s) ! k)" "fl_ref_count (lm_locks (ls_mgr s) ! k) = 0"
      "fl_owner (lm_locks (ls_mgr s) ! k) = None"
      by (auto simp: lock_inv_def slot_inv_def fl_ok_def)
  }
qed

theorem lock_table_capacity_witness:
  "lock_reach (\<lambda>u f. True) 1024 4 (lock_start 1024 4) \<and>
     fst (acquire_slot (ls_mgr (lock_start 1024 4)) (lock_key ''bob'' ''f'')) \<noteq> None"
proof -
  have r: "lock_reach (\<lambda>u f. True) 1024 4 (lock_start 1024 4)" by (rule lock_reach_start)
  with lock_table_capacity [OF r] show ?thesis by (simp add: MAX_FILE_LOCKS_def)
qed

text \<open>The files \<open>ab\<close> and \<open>bA\<close> of user \<open>u\<close> share their hash value. The tables of a run that
  touches only these two differ in slots 172 and 173 alone.\<close>

definition two_slots :: "FileLock \<Rightarrow> FileLock \<Rightarrow> FileLockManager" where
  "two_slots x y = \<lparr>lm_locks = (replicate 1024 unused_lock)[172 := x, 173 := y], lm_capacity = 1024\<rparr>"

lemma hash_ab: "hash_filepath (lock_key ''u'' ''ab'') 1024 = 172"
  and hash_bA: "hash_filepath (lock_key ''u'' ''bA'') 1024 = 172"
  by (simp_all add: hash_filepath_def lock_key_def MAX_FILEPATH_LEN_def fit_def char_int_def Let_def)

lemma two_slots_nth:
  "lm_locks (two_slots x y) ! 172 = x" "lm_locks (two_slots x y) ! 173 = y"
  "nat (lm_capacity (two_slots x y)) = 1024" "lm_capacity (two_slots x y) = 1024"
  by (simp_all add: two_slots_def)

lemma two_slots_update:
  "(two_slots x y)\<lparr>lm_locks := (lm_locks (two_slots x y))[172 := z]\<rparr> = two_slots z y"
  "(two_slots x y)\<lparr>lm_locks := (lm_locks (two_slots x y))[173 := z]\<rparr> = two_slots x z"
  by (simp_all add: two_slots_def list_update_swap)

lemma two_slots_start: "lock_start 1024 3 = \<lparr>ls_mgr = two_slots unused_lock unused_lock,
    ls_pcs = [Idle, Idle, Idle]\<rparr>"
proof -
  have "(replicate 1024 unused_lock)[172 := unused_lock, 173 := unused_lock]
      = replicate 1024 unused_lock"
    by (rule nth_equalityI) (simp_all add: nth_update_if)
  then show ?thesis
    by (simp add: lock_start_def two_slots_def numeral_3_eq_3)
qed

lemma two_slots_acquire:
  assumes "hash_filepath p 1024 = 172" "length p < MAX_FILEPATH_LEN"
  shows "\<not> fl_in_use x \<Longrightarrow> acquire_slot (two_slots x y) p = (Some 172,
      two_slots (x\<lparr>fl_filepath := p, fl_ref_count := 1, fl_in_use := True\<rparr>) y)"
    and "fl_in_use x \<Longrightarrow> fl_filepath x \<noteq> p \<Longrightarrow> \<not> fl_in_use y \<Longrightarrow>
      acquire_slot (two_slots x y) p = (Some 173,
      two_slots x (y\<lparr>fl_filepath := p, fl_ref_count := 1, fl_in_use := True\<rparr>))"
  using assms
  by (simp_all add: acquire_slot_def Let_def two_slots_nth linear_probe.simps two_slots_update fit_short)

lemma two_slots_mutex:
  "fl_owner x = None \<Longrightarrow> lock_slot i 172 (two_slots x y) = Some (two_slots (x\<lparr>fl_owner := Some i\<rparr>) y)"
  "fl_owner y = None \<Longrightarrow> lock_slot i 173 (two_slots x y) = Some (two_slots x (y\<lparr>fl_owner := Some i\<rparr>))"
  "unlock_slot 172 (two_slots x y) = two_slots (x\<lparr>fl_owner := None\<rparr>) y"
  by (simp_all add: lock_slot_def unlock_slot_def Let_def two_slots_nth two_slots_update)

lemma two_slots_release:
  "fl_ref_count x = 1 \<Longrightarrow> release_slot 172 (two_slots x y)
     = two_slots (x\<lparr>fl_ref_count := 0, fl_in_use := False, fl_filepath := ''''\<rparr>) y"
  by (simp add: release_slot_def Let_def two_slots_nth two_slots_update)

text \<open>The steps in a form that is evaluated on given states.\<close>

lemma take_ref_eval:
  assumes "P u f" "i < length (ls_pcs s)" "ls_pcs s ! i = Idle"
    and "fst (acquire_slot (ls_mgr s) (lock_key u f)) \<noteq> None"
    and "t = \<lparr>ls_mgr = snd (acquire_slot (ls_mgr s) (lock_key u f)), ls_pcs = (ls_pcs s)
      [i := Queued (lock_key u f) (the (fst (acquire_slot (ls_mgr s) (lock_key u f))))]\<rparr>"
  shows "lock_step P s t"
  using assms lock_step.take_ref [of P u f i s] by (cases "acquire_slot (ls_mgr s) (lock_key u f)") auto

lemma lock_eval:
  assumes "i < length (ls_pcs s)" "ls_pcs s ! i = Queued p k" "lock_slot i k (ls_mgr s) \<noteq> None"
    and "t = \<lparr>ls_mgr = the (lock_slot i k (ls_mgr s)), ls_pcs = (ls_pcs s)[i := Holding p k]\<rparr>"
  shows "lock_step P s t"
  using assms lock_step.lock [of i s p k _ P] by auto

lemma unlock_eval:
  assumes "i < length (ls_pcs s)" "ls_pcs s ! i = Holding p k"
    and "t = \<lparr>ls_mgr = unlock_slot k (ls_mgr s), ls_pcs = (ls_pcs s)[i := Dropping p k]\<rparr>"
  shows "lock_step P s t"
  using assms lock_step.unlock [of i s p k P] by simp

lemma drop_ref_eval:
  assumes "i < length (ls_pcs s)" "ls_pcs s ! i = Dropping p k"
    and "t = \<lparr>ls_mgr = release_slot k (ls_mgr s), ls_pcs = (ls_pcs s)[i := Idle]\<rparr>"
  shows "lock_step P s t"
  using assms lock_step.drop_ref [of i s p k P] by simp

text \<open>
  With a hash collision, per-file mutual exclusion fails. Three workers on the server's table of
  1024 slots reach a state in which workers 1 and 2 are both inside the critical section of the file
  \<open>u/bA\<close>, on different slots: worker 0 holds \<open>u/ab\<close> at the common home slot, worker 1 takes \<open>u/bA\<close> one
  slot further, worker 0 releases, and worker 2 asks for \<open>u/bA\<close>. Its search stops at the freed home
  slot without looking further and makes a second lock for the file.
\<close>

theorem lock_exclusion_fails_on_collision:
  "\<exists>s. lock_reach (\<lambda>u f. True) 1024 3 s \<and>
     ls_pcs s ! 1 = Holding (lock_key ''u'' ''bA'') 173 \<and>
     ls_pcs s ! 2 = Holding (lock_key ''u'' ''bA'') 172"
proof -
  let ?P = "\<lambda>(u::string) (f::string). True"
  let ?a = "lock_key ''u'' ''ab''" and ?b = "lock_key ''u'' ''bA''"
  let ?R = "lock_reach ?P 1024 3"
  define lk where "lk p o' = \<lparr>fl_filepath = p, fl_owner = o', fl_ref_count = 1, fl_in_use = True\<rparr>"
    for p and o' :: "nat option"
  have ne: "?a \<noteq> ?b" by (simp add: lock_key_def fit_def MAX_FILEPATH_LEN_def)
  note acq = two_slots_acquire [OF hash_ab length_lock_key] two_slots_acquire [OF hash_bA length_lock_key]
  note ev = acq two_slots_mutex two_slots_release lk_def unused_lock_def ne
  have "?R \<lparr>ls_mgr = two_slots unused_lock unused_lock, ls_pcs = [Idle, Idle, Idle]\<rparr>"
    using lock_reach_start [of ?P 1024 3] by (simp add: two_slots_start)
  then have "?R \<lparr>ls_mgr = two_slots (lk ?a None) unused_lock, ls_pcs = [Queued ?a 172, Idle, Idle]\<rparr>"
    by (rule lock_reach_step, intro take_ref_eval [of _ "''u''" "''ab''" 0]) (simp_all add: ev)
  then have "?R \<lparr>ls_mgr = two_slots (lk ?a (Some 0)) unused_lock, ls_pcs = [Holding ?a 172, Idle, Idle]\<rparr>"
    by (rule lock_reach_step, intro lock_eval [of 0 _ ?a 172]) (simp_all add: ev)
  then have "?R \<lparr>ls_mgr = two_slots (lk ?a (Some 0)) (lk ?b None),
      ls_pcs = [Holding ?a 172, Queued ?b 173, Idle]\<rparr>"
    by (rule lock_reach_step, intro take_ref_eval [of _ "''u''" "''bA''" 1]) (simp_all add: ev)
  then have "?R \<lparr>ls_mgr = two_slots (lk ?a (Some 0)) (lk ?b (Some 1)),
      ls_pcs = [Holding ?a 172, Holding ?b 173, Idle]\<rparr>"
    by (rule lock_reach_step, intro lock_eval [of 1 _ ?b 173]) (simp_all add: ev)
  then have "?R \<lparr>ls_mgr = two_slots (lk ?a None) (lk ?b (Some 1)),
      ls_pcs = [Dropping ?a 172, Holding ?b 173, Idle]\<rparr>"
    by (rule lock_reach_step, intro unlock_eval [of 0 _ ?a 172]) (simp_all add: ev)
  then have "?R \<lparr>ls_mgr = two_slots unused_lock (lk ?b (Some 1)),
      ls_pcs = [Idle, Holding ?b 173, Idle]\<rparr>"
    by (rule lock_reach_step, intro drop_ref_eval [of 0 _ ?a 172]) (simp_all add: ev)
  then have "?R \<lparr>ls_mgr = two_slots (lk ?b None) (lk ?b (Some 1)),
      ls_pcs = [Idle, Holding ?b 173, Queued ?b 172]\<rparr>"
    by (rule lock_reach_step, intro take_ref_eval [of _ "''u''" "''bA''" 2]) (simp_all add: ev)
  then have "?R \<lparr>ls_mgr = two_slots (lk ?b (Some 2)) (lk ?b (Some 1)),
      ls_pcs = [Idle, Holding ?b 173, Holding ?b 172]\<rparr>"
    by (rule lock_reach_step, intro lock_eval [of 2 _ ?b 172]) (simp_all add: ev)
  then show ?thesis by fastforce
qed

end
