(* ===== verification/Response_Queue.thy ===== *)
theory Response_Queue
  imports Prelude
begin

text \<open>
  \<open>src/session/response_queue.c\<close>: the one-slot mailbox through which a worker answers the client thread
  of a session. The message is the string in the 512-byte array; the data pointer is the block it points
  to (\<open>None\<close> for \<open>NULL\<close>), owned by the response. The result codes of the pthread initialisers are
  arguments. The waiting side is a monitor section on the condition variable \<open>cv\<close>.
\<close>

section \<open>The code\<close>

datatype response_status =
  RESPONSE_SUCCESS | RESPONSE_ERROR | RESPONSE_FILE_NOT_FOUND | RESPONSE_QUOTA_EXCEEDED
| RESPONSE_PERMISSION_DENIED

fun status_code :: "response_status \<Rightarrow> int" where
  "status_code RESPONSE_SUCCESS = 0"
| "status_code RESPONSE_ERROR = - 1"
| "status_code RESPONSE_FILE_NOT_FOUND = - 2"
| "status_code RESPONSE_QUOTA_EXCEEDED = - 3"
| "status_code RESPONSE_PERMISSION_DENIED = - 4"

record Response =
  r_status :: response_status
  r_message :: string
  r_data :: "bytes option"
  r_data_size :: nat
  r_ready :: bool

definition empty_response :: Response where
  "empty_response = \<lparr>r_status = RESPONSE_SUCCESS, r_message = '''', r_data = None,
     r_data_size = 0, r_ready = False\<rparr>"

text \<open>\<open>response_init\<close>: the return code, the fields it wrote and what it holds.\<close>

definition response_init :: "int \<Rightarrow> int \<Rightarrow> int \<times> Response \<times> resource list" where
  "response_init mtx_rc cv_rc =
     (if mtx_rc \<noteq> 0 then (- 1, empty_response, [])
      else if cv_rc \<noteq> 0 then (- 1, empty_response, release_res Res_mutex [Res_mutex])
      else (0, empty_response, [Res_cond Resp_cv, Res_mutex]))"

text \<open>\<open>response_destroy\<close> frees the data it holds, then the mutex and the condition variable.\<close>

definition response_destroy :: "Response \<Rightarrow> Response" where
  "response_destroy resp = (if r_data resp \<noteq> None then resp\<lparr>r_data := None\<rparr> else resp)"

definition response_set ::
  "Response \<Rightarrow> response_status \<Rightarrow> string option \<Rightarrow> bytes option \<Rightarrow> nat \<Rightarrow> (unit, Response) monitor" where
  "response_set resp status message data data_size =
     (let resp = resp\<lparr>r_status := status\<rparr>;
          resp = (case message of None \<Rightarrow> resp | Some m \<Rightarrow> resp\<lparr>r_message := fit 512 m\<rparr>);
          resp = resp\<lparr>r_data := data, r_data_size := data_size, r_ready := True\<rparr>
      in Leave () resp [Signal Resp_cv])"

definition response_wait :: "Response \<Rightarrow> (int, Response) monitor" where
  "response_wait resp = (if \<not> r_ready resp then Wait Resp_cv else Leave 0 resp [])"

section \<open>Facts\<close>

text \<open>What a waiter finds after a set: the message cut to 511 bytes, the data, and no wait.\<close>

lemma response_set_some:
  "response_set resp st (Some m) d n =
     Leave () \<lparr>r_status = st, r_message = fit 512 m, r_data = d, r_data_size = n, r_ready = True,
       \<dots> = Response.more resp\<rparr> [Signal Resp_cv]"
  by (simp add: response_set_def Let_def)

lemma response_wait_set:
  "response_wait (left_state (response_set resp st m d n)) =
     Leave 0 (left_state (response_set resp st m d n)) []"
  by (cases m) (simp_all add: response_set_def response_wait_def Let_def)

lemma response_wait_blocks_iff:
  "(\<exists>c. response_wait resp = Wait c) \<longleftrightarrow> \<not> r_ready resp"
  by (simp add: response_wait_def)

lemma response_set_ready [simp]: "r_ready (left_state (response_set resp st m d n))"
  by (cases m) (simp_all add: response_set_def Let_def)

lemma response_destroy_data [simp]: "r_data (response_destroy resp) = None"
  by (simp add: response_destroy_def)

end
