(* ===== verification/Session_Manager.thy ===== *)
theory Session_Manager
  imports Response_Queue Probing
begin

text \<open>
  \<open>src/session/session_manager.c\<close>: the table of client sessions. Sessions are heap objects that client
  threads and workers hold pointers to, so the model has an explicit store: \<open>sm_heap\<close> maps the addresses of
  allocated \<open>Session\<close> objects to their contents, the table holds addresses, and using an address that was
  freed has the result \<open>None\<close>. \<open>sm_closed\<close> logs the descriptors the manager closed. The outcomes of
  \<open>calloc\<close>, of the pthread initialisers and of \<open>time\<close> are arguments. \<open>mgr\<close> is always the address of the
  global \<open>session_manager\<close>.
\<close>

section \<open>The code\<close>

definition MAX_SESSIONS :: nat where "MAX_SESSIONS = 256"

definition MAX_USERNAME_LEN :: nat where "MAX_USERNAME_LEN = 64"

record Session =
  se_id :: u64
  se_socket :: int
  se_username :: string
  se_auth :: bool
  se_active :: bool
  se_response :: Response
  se_created_at :: int
  se_authenticated_at :: int
  se_last_activity :: int
  se_ops :: u64

record SessionManager =
  sm_sessions :: "nat option list"
  sm_next :: u64
  sm_total :: u64
  sm_active :: u64
  sm_peak :: u64
  sm_heap :: "nat \<Rightarrow> Session option"
  sm_closed :: "int list"

definition hash_session_id :: "u64 \<Rightarrow> nat" where
  "hash_session_id session_id = unat (session_id mod of_nat MAX_SESSIONS)"

text \<open>\<open>mgr->sessions[i]->session_id\<close>, if the slot is taken.\<close>

definition id_at :: "SessionManager \<Rightarrow> nat \<Rightarrow> u64 option" where
  "id_at mgr i = (case sm_sessions mgr ! i of None \<Rightarrow> None | Some a \<Rightarrow> map_option se_id (sm_heap mgr a))"

definition session_manager_init :: "int \<Rightarrow> int \<times> SessionManager option" where
  "session_manager_init mtx_rc =
     (if mtx_rc \<noteq> 0 then (- 1, None)
      else (0, Some \<lparr>sm_sessions = replicate MAX_SESSIONS None, sm_next = 1, sm_total = 0,
        sm_active = 0, sm_peak = 0, sm_heap = Map.empty, sm_closed = []\<rparr>))"

text \<open>One turn of the loop of \<open>session_manager_destroy\<close>, and the loop.\<close>

definition destroy_slot :: "nat \<Rightarrow> SessionManager \<Rightarrow> SessionManager" where
  "destroy_slot i mgr =
     (case sm_sessions mgr ! i of
        None \<Rightarrow> mgr
      | Some a \<Rightarrow>
          (let mgr = (case sm_heap mgr a of
                 None \<Rightarrow> mgr
               | Some s \<Rightarrow> if 0 \<le> se_socket s
                          then mgr\<lparr>sm_closed := sm_closed mgr @ [se_socket s]\<rparr> else mgr)
           in mgr\<lparr>sm_heap := (sm_heap mgr)(a := None),
                  sm_sessions := (sm_sessions mgr)[i := None]\<rparr>))"

definition session_manager_destroy :: "SessionManager \<Rightarrow> SessionManager" where
  "session_manager_destroy mgr = fold destroy_slot [0..<MAX_SESSIONS] mgr"

text \<open>\<open>alloc\<close> is the block \<open>calloc\<close> returns, \<open>now\<close> what \<open>time(NULL)\<close> returns, the rest the result codes
  of the response's and the session's initialisers.\<close>

definition session_create ::
  "SessionManager \<Rightarrow> int \<Rightarrow> int \<Rightarrow> nat option \<Rightarrow> int \<Rightarrow> int \<Rightarrow> int \<Rightarrow> u64 \<times> SessionManager" where
  "session_create mgr socket_fd now alloc resp_mtx_rc resp_cv_rc mtx_rc =
     (if socket_fd < 0 then (0, mgr)
      else case alloc of
        None \<Rightarrow> (0, mgr)
      | Some a \<Rightarrow>
          (let session_id = sm_next mgr;
               mgr = mgr\<lparr>sm_next := session_id + 1\<rparr>;
               (index, probe_count) =
                 linear_probe (\<lambda>i. sm_sessions mgr ! i = None) MAX_SESSIONS
                   (hash_session_id session_id) 0
           in if MAX_SESSIONS \<le> probe_count then (0, mgr)
              else let (rc, response, live) = response_init resp_mtx_rc resp_cv_rc
              in if rc \<noteq> 0 then (0, mgr)
              else if mtx_rc \<noteq> 0 then (0, mgr)
              else
                let s = \<lparr>se_id = session_id, se_socket = socket_fd, se_username = '''',
                         se_auth = False, se_active = True, se_response = response,
                         se_created_at = now, se_authenticated_at = 0, se_last_activity = now,
                         se_ops = 0\<rparr>;
                    mgr = mgr\<lparr>sm_heap := (sm_heap mgr)(a \<mapsto> s),
                              sm_sessions := (sm_sessions mgr)[index := Some a]\<rparr>;
                    mgr = mgr\<lparr>sm_total := sm_total mgr + 1, sm_active := sm_active mgr + 1\<rparr>;
                    mgr = (if sm_peak mgr < sm_active mgr then mgr\<lparr>sm_peak := sm_active mgr\<rparr> else mgr)
                in (session_id, mgr)))"

text \<open>The lookup loop that \<open>session_get\<close>, \<open>session_mark_inactive\<close> and \<open>session_destroy\<close> share: it
  stops at an empty slot or at the session.\<close>

definition find_slot :: "SessionManager \<Rightarrow> u64 \<Rightarrow> nat option" where
  "find_slot mgr session_id =
     (let (index, probe_count) =
            linear_probe (\<lambda>i. sm_sessions mgr ! i = None \<or> id_at mgr i = Some session_id)
              MAX_SESSIONS (hash_session_id session_id) 0
      in if probe_count < MAX_SESSIONS \<and> sm_sessions mgr ! index \<noteq> None then Some index else None)"

definition session_get :: "SessionManager \<Rightarrow> u64 \<Rightarrow> nat option" where
  "session_get mgr session_id =
     (if session_id = 0 then None
      else case find_slot mgr session_id of
        None \<Rightarrow> None
      | Some index \<Rightarrow>
          (case sm_sessions mgr ! index of
             None \<Rightarrow> None
           | Some a \<Rightarrow> (case sm_heap mgr a of
               None \<Rightarrow> None
             | Some s \<Rightarrow> if se_active s then Some a else None)))"

definition session_mark_inactive :: "SessionManager \<Rightarrow> u64 \<Rightarrow> SessionManager" where
  "session_mark_inactive mgr session_id =
     (if session_id = 0 then mgr
      else case find_slot mgr session_id of
        None \<Rightarrow> mgr
      | Some index \<Rightarrow>
          (case sm_sessions mgr ! index of
             None \<Rightarrow> mgr
           | Some a \<Rightarrow> (case sm_heap mgr a of
               None \<Rightarrow> mgr
             | Some s \<Rightarrow> mgr\<lparr>sm_heap := (sm_heap mgr)(a \<mapsto> s\<lparr>se_active := False\<rparr>)\<rparr>)))"

definition session_destroy :: "SessionManager \<Rightarrow> u64 \<Rightarrow> SessionManager" where
  "session_destroy mgr session_id =
     (if session_id = 0 then mgr
      else case find_slot mgr session_id of
        None \<Rightarrow> mgr
      | Some index \<Rightarrow>
          (case sm_sessions mgr ! index of
             None \<Rightarrow> mgr
           | Some a \<Rightarrow> (case sm_heap mgr a of
               None \<Rightarrow> mgr
             | Some s \<Rightarrow>
                 (let mgr = (if 0 \<le> se_socket s
                             then mgr\<lparr>sm_closed := sm_closed mgr @ [se_socket s]\<rparr> else mgr);
                      mgr = (if 0 < sm_active mgr then mgr\<lparr>sm_active := sm_active mgr - 1\<rparr> else mgr)
                  in mgr\<lparr>sm_heap := (sm_heap mgr)(a := None),
                         sm_sessions := (sm_sessions mgr)[index := None]\<rparr>))))"

text \<open>Operations through a session pointer: \<open>None\<close> when the object was freed.\<close>

definition on_session :: "nat \<Rightarrow> (Session \<Rightarrow> Session) \<Rightarrow> SessionManager \<Rightarrow> SessionManager option" where
  "on_session a f mgr =
     (case sm_heap mgr a of
        None \<Rightarrow> None
      | Some s \<Rightarrow> Some (mgr\<lparr>sm_heap := (sm_heap mgr)(a \<mapsto> f s)\<rparr>))"

definition session_set_username ::
  "nat \<Rightarrow> string \<Rightarrow> int \<Rightarrow> SessionManager \<Rightarrow> SessionManager option" where
  "session_set_username session username now =
     on_session session (\<lambda>s. s\<lparr>se_username := fit MAX_USERNAME_LEN username, se_auth := True,
       se_authenticated_at := now, se_last_activity := now\<rparr>)"

definition session_update_activity :: "nat \<Rightarrow> int \<Rightarrow> SessionManager \<Rightarrow> SessionManager option" where
  "session_update_activity session now = on_session session (\<lambda>s. s\<lparr>se_last_activity := now\<rparr>)"

definition session_increment_operations :: "nat \<Rightarrow> int \<Rightarrow> SessionManager \<Rightarrow> SessionManager option" where
  "session_increment_operations session now =
     on_session session (\<lambda>s. s\<lparr>se_ops := se_ops s + 1, se_last_activity := now\<rparr>)"

definition session_get_statistics :: "SessionManager \<Rightarrow> u64 \<times> u64 \<times> u64" where
  "session_get_statistics mgr = (sm_active mgr, sm_total mgr, sm_peak mgr)"

text \<open>The sessions \<open>session_print_active\<close> lists, with the fields it prints: identifier, user name
  (or the placeholder), socket, age, idle time and operation count.\<close>

definition session_print_active :: "SessionManager \<Rightarrow> int \<Rightarrow> (u64 \<times> string \<times> int \<times> int \<times> int \<times> u64) list" where
  "session_print_active mgr now =
     concat (map (\<lambda>i. case Option.bind (sm_sessions mgr ! i) (sm_heap mgr) of
         None \<Rightarrow> []
       | Some s \<Rightarrow> if se_active s
           then [(se_id s, if se_auth s then se_username s else ''<not authenticated>'',
                  se_socket s, now - se_created_at s, now - se_last_activity s, se_ops s)]
           else []) [0..<MAX_SESSIONS])"

definition session_is_idle :: "Session option \<Rightarrow> int \<Rightarrow> int \<Rightarrow> bool" where
  "session_is_idle session timeout_seconds now =
     (case session of None \<Rightarrow> True | Some s \<Rightarrow> timeout_seconds < now - se_last_activity s)"

section \<open>Invariant\<close>

text \<open>The table has its size; its entries are allocated, distinct, and all there is; the identifiers
  are distinct, positive and below the next one.\<close>

definition sm_wf :: "SessionManager \<Rightarrow> bool" where
  "sm_wf m \<longleftrightarrow> length (sm_sessions m) = MAX_SESSIONS \<and> 0 < unat (sm_next m) \<and>
     (\<forall>i < MAX_SESSIONS. \<forall>a. sm_sessions m ! i = Some a \<longrightarrow>
        (\<exists>s. sm_heap m a = Some s \<and> 0 < unat (se_id s) \<and> unat (se_id s) < unat (sm_next m))) \<and>
     (\<forall>i < MAX_SESSIONS. \<forall>j < MAX_SESSIONS. \<forall>k. id_at m i = Some k \<longrightarrow> id_at m j = Some k \<longrightarrow> i = j) \<and>
     (\<forall>a. sm_heap m a \<noteq> None \<longrightarrow> (\<exists>i < MAX_SESSIONS. sm_sessions m ! i = Some a))"

lemma sm_wf_len: "sm_wf m \<Longrightarrow> length (sm_sessions m) = MAX_SESSIONS"
  by (simp add: sm_wf_def)

lemma sm_wf_owned:
  "sm_wf m \<Longrightarrow> sm_heap m a \<noteq> None \<Longrightarrow> \<exists>i < MAX_SESSIONS. sm_sessions m ! i = Some a"
  unfolding sm_wf_def by blast

lemma sm_wf_entry:
  "sm_wf m \<Longrightarrow> i < MAX_SESSIONS \<Longrightarrow> sm_sessions m ! i = Some a \<Longrightarrow>
     \<exists>s. sm_heap m a = Some s \<and> 0 < unat (se_id s) \<and> unat (se_id s) < unat (sm_next m)"
  unfolding sm_wf_def by blast

lemma hash_session_less: "hash_session_id k < MAX_SESSIONS"
proof -
  have "unat (k mod 256) < 256" by (simp add: unat_mod_distrib)
  then show ?thesis by (simp add: hash_session_id_def MAX_SESSIONS_def)
qed

interpretation st: probe_table sm_wf "\<lambda>_. MAX_SESSIONS" id_at "\<lambda>_. hash_session_id"
  by unfold_locales (rule hash_session_less)

lemma id_at_None: "sm_wf m \<Longrightarrow> i < MAX_SESSIONS \<Longrightarrow> id_at m i = None \<longleftrightarrow> sm_sessions m ! i = None"
  using sm_wf_entry [of m i] by (cases "sm_sessions m ! i") (auto simp: id_at_def)

lemma sm_wf_unique: "sm_wf m \<Longrightarrow> st.unique_keys m"
  unfolding sm_wf_def st.unique_keys_def by blast

lemma id_at_Some:
  assumes "sm_wf m" "i < MAX_SESSIONS" "id_at m i = Some k"
  obtains a s where "sm_sessions m ! i = Some a" "sm_heap m a = Some s" "se_id s = k"
    "0 < unat k" "unat k < unat (sm_next m)"
proof -
  from assms(3) obtain a s where "sm_sessions m ! i = Some a" "sm_heap m a = Some s" "se_id s = k"
    by (auto simp: id_at_def split: option.splits)
  with sm_wf_entry [OF assms(1,2), of a] that show thesis by auto
qed

section \<open>Lookups\<close>

lemma find_slot_probe:
  assumes "sm_wf m"
  shows "find_slot m k =
    (let (index, n) = linear_probe (\<lambda>i. id_at m i = None \<or> id_at m i = Some k)
          MAX_SESSIONS (hash_session_id k) 0
     in if n < MAX_SESSIONS \<and> sm_sessions m ! index \<noteq> None then Some index else None)"
proof -
  have "linear_probe (\<lambda>i. sm_sessions m ! i = None \<or> id_at m i = Some k) MAX_SESSIONS (hash_session_id k) 0
    = linear_probe (\<lambda>i. id_at m i = None \<or> id_at m i = Some k) MAX_SESSIONS (hash_session_id k) 0"
    by (rule linear_probe_cong) (simp_all add: id_at_None [OF assms] hash_session_less)
  then show ?thesis by (simp add: find_slot_def)
qed

text \<open>The lookups find a session exactly when no slot of its probe chain is empty.\<close>

lemma find_slot_iff:
  assumes wf: "sm_wf m"
  shows "find_slot m k = Some i \<longleftrightarrow> i < MAX_SESSIONS \<and> id_at m i = Some k \<and> st.chained m k i"
proof
  assume f: "find_slot m k = Some i"
  let ?stop = "\<lambda>i. id_at m i = None \<or> id_at m i = Some k"
  from f obtain n where n: "linear_probe ?stop MAX_SESSIONS (hash_session_id k) 0 = (i, n)"
    "n < MAX_SESSIONS" "sm_sessions m ! i \<noteq> None"
    by (auto simp: find_slot_probe [OF wf] split: prod.splits if_splits)
  from linear_probe_result [OF hash_session_less [of k], of 0 ?stop] n(1,2) have i: "i < MAX_SESSIONS"
    and stop: "?stop i"
    using hash_session_less [of k] by auto
  from n(3) id_at_None [OF wf i] have "id_at m i \<noteq> None" by simp
  with stop have k: "id_at m i = Some k" by simp
  have "st.chained m k i"
  proof (rule ccontr)
    assume "\<not> st.chained m k i"
    from st.probe_misses [OF wf i k sm_wf_unique [OF wf] this] n(1) k show False by auto
  qed
  with i k show "i < MAX_SESSIONS \<and> id_at m i = Some k \<and> st.chained m k i" by blast
next
  assume h: "i < MAX_SESSIONS \<and> id_at m i = Some k \<and> st.chained m k i"
  with st.probe_finds [OF wf _ _ sm_wf_unique [OF wf], of i k] have
    "linear_probe (\<lambda>i. id_at m i = None \<or> id_at m i = Some k) MAX_SESSIONS (hash_session_id k) 0
      = (i, chain_pos MAX_SESSIONS (hash_session_id k) i)" by blast
  moreover have "chain_pos MAX_SESSIONS (hash_session_id k) i < MAX_SESSIONS"
    using h by (intro chain_pos_less hash_session_less) blast
  moreover have "sm_sessions m ! i \<noteq> None" using h id_at_None [OF wf, of i] by auto
  ultimately show "find_slot m k = Some i" by (simp add: find_slot_probe [OF wf])
qed

lemma find_slot_None:
  "sm_wf m \<Longrightarrow> find_slot m k = None \<longleftrightarrow>
     (\<forall>i < MAX_SESSIONS. id_at m i = Some k \<longrightarrow> \<not> st.chained m k i)"
  using find_slot_iff [of m k] by (metis not_None_eq)

section \<open>Creation\<close>

text \<open>The new session, and the state after a successful creation in slot \<open>i\<close> at address \<open>a\<close>.\<close>

definition new_session :: "u64 \<Rightarrow> int \<Rightarrow> int \<Rightarrow> Session" where
  "new_session k fd now = \<lparr>se_id = k, se_socket = fd, se_username = '''', se_auth = False,
     se_active = True, se_response = empty_response, se_created_at = now, se_authenticated_at = 0,
     se_last_activity = now, se_ops = 0\<rparr>"

definition created :: "SessionManager \<Rightarrow> nat \<Rightarrow> nat \<Rightarrow> int \<Rightarrow> int \<Rightarrow> SessionManager" where
  "created m i a fd now =
     m\<lparr>sm_next := sm_next m + 1, sm_heap := (sm_heap m)(a \<mapsto> new_session (sm_next m) fd now),
       sm_sessions := (sm_sessions m)[i := Some a], sm_total := sm_total m + 1,
       sm_active := sm_active m + 1, sm_peak := max (sm_peak m) (sm_active m + 1)\<rparr>"

lemma session_create_cases:
  assumes wf: "sm_wf m" and fd: "0 \<le> fd"
  obtains (full) "session_create m fd now (Some a) 0 0 0 = (0, m\<lparr>sm_next := sm_next m + 1\<rparr>)"
      "\<And>i. i < MAX_SESSIONS \<Longrightarrow> sm_sessions m ! i \<noteq> None"
  | (made) i where "i < MAX_SESSIONS" "sm_sessions m ! i = None" "st.chained m (sm_next m) i"
      "session_create m fd now (Some a) 0 0 0 = (sm_next m, created m i a fd now)"
proof -
  let ?h = "hash_session_id (sm_next m)"
  obtain i n where p: "linear_probe (\<lambda>i. sm_sessions m ! i = None) MAX_SESSIONS ?h 0 = (i, n)"
    by fastforce
  have eq: "linear_probe (\<lambda>i. sm_sessions m ! i = None) MAX_SESSIONS ?h 0
    = linear_probe (\<lambda>i. id_at m i = None) MAX_SESSIONS ?h 0"
    by (rule linear_probe_cong) (simp_all add: id_at_None [OF wf] hash_session_less)
  show thesis
  proof (cases "n < MAX_SESSIONS")
    case True
    with st.probe_free [OF wf, of "sm_next m"] p eq have
      "i < MAX_SESSIONS" "id_at m i = None" "st.chained m (sm_next m) i" by auto
    moreover from this have "sm_sessions m ! i = None" using id_at_None [OF wf] by blast
    ultimately show thesis using p True fd
      by (intro made [of i]) (auto simp: session_create_def Let_def response_init_def new_session_def created_def
          max_def not_less)
  next
    case False
    have "sm_sessions m ! j \<noteq> None" if "j < MAX_SESSIONS" for j
      using st.probe_free_exists [OF wf that, of "sm_next m"] id_at_None [OF wf that] p eq False by auto
    moreover have "session_create m fd now (Some a) 0 0 0 = (0, m\<lparr>sm_next := sm_next m + 1\<rparr>)"
      using p False fd by (simp add: session_create_def Let_def)
    ultimately show thesis by (rule full [rotated])
  qed
qed

lemma unat_next: "unat (sm_next m) < 2 ^ 64 - 1 \<Longrightarrow> unat (sm_next m + 1) = unat (sm_next m) + 1"
  by (simp add: unat_word_ariths)

lemma id_at_created:
  assumes "sm_wf m" "sm_heap m a = None" "i < MAX_SESSIONS" "j < MAX_SESSIONS"
  shows "id_at (created m i a fd now) j = (if j = i then Some (sm_next m) else id_at m j)"
proof (cases "j = i")
  case True
  with assms show ?thesis by (simp add: id_at_def created_def new_session_def sm_wf_len)
next
  case False
  have "sm_sessions m ! j \<noteq> Some a" using sm_wf_entry [OF assms(1,4), of a] assms(2) by auto
  with False show ?thesis by (auto simp: id_at_def created_def split: option.splits)
qed

lemma id_at_less: "sm_wf m \<Longrightarrow> i < MAX_SESSIONS \<Longrightarrow> id_at m i = Some k \<Longrightarrow> unat k < unat (sm_next m)"
  by (elim id_at_Some)

lemma created_wf [wf_intros]:
  assumes wf: "sm_wf m" and a: "sm_heap m a = None" and i: "i < MAX_SESSIONS" "sm_sessions m ! i = None"
    and n: "unat (sm_next m) < 2 ^ 64 - 1"
  shows "sm_wf (created m i a fd now)"
proof -
  let ?m = "created m i a fd now"
  have len: "length (sm_sessions m) = MAX_SESSIONS" and pos: "0 < unat (sm_next m)"
    using wf by (auto simp: sm_wf_def)
  have nx: "unat (sm_next ?m) = unat (sm_next m) + 1" using unat_next [OF n] by (simp add: created_def)
  have entry: "\<exists>s. sm_heap ?m b = Some s \<and> 0 < unat (se_id s) \<and> unat (se_id s) < unat (sm_next ?m)"
    if "j < MAX_SESSIONS" "sm_sessions ?m ! j = Some b" for j b
  proof (cases "j = i")
    case True
    with that len i pos nx show ?thesis by (simp add: created_def new_session_def)
  next
    case False
    with that have "sm_sessions m ! j = Some b" by (simp add: created_def)
    from sm_wf_entry [OF wf that(1) this] obtain s where
      "sm_heap m b = Some s" "0 < unat (se_id s)" "unat (se_id s) < unat (sm_next m)" by blast
    with a nx show ?thesis by (cases "b = a") (auto simp: created_def)
  qed
  have uniq: "j = l" if "j < MAX_SESSIONS" "l < MAX_SESSIONS" "id_at ?m j = Some k" "id_at ?m l = Some k"
    for j l k
  proof -
    have "id_at m x \<noteq> Some (sm_next m)" if "x < MAX_SESSIONS" for x
      using id_at_less [OF wf that] by blast
    with that show ?thesis using st.unique_keysD [OF sm_wf_unique [OF wf] that(1,2)]
      by (auto simp: id_at_created [OF wf a i(1)] split: if_splits)
  qed
  have owned: "\<exists>j < MAX_SESSIONS. sm_sessions ?m ! j = Some b" if "sm_heap ?m b \<noteq> None" for b
  proof (cases "b = a")
    case True
    with i len show ?thesis by (intro exI [of _ i]) (simp add: created_def)
  next
    case False
    with that have "sm_heap m b \<noteq> None" by (simp add: created_def)
    from sm_wf_owned [OF wf this] obtain j where "j < MAX_SESSIONS" "sm_sessions m ! j = Some b"
      by blast
    with i show ?thesis by (intro exI [of _ j]) (auto simp: created_def nth_update_if)
  qed
  from len have "length (sm_sessions ?m) = MAX_SESSIONS" by (simp add: created_def)
  with pos nx entry uniq owned show ?thesis unfolding sm_wf_def by auto
qed

text \<open>Sessions keep their chains when another is created.\<close>

lemma created_chained:
  assumes "sm_wf m" "sm_heap m a = None" "i < MAX_SESSIONS" "st.chained m k j"
  shows "st.chained (created m i a fd now) k j"
  by (rule st.chained_put [OF _ _ _ assms(1,4)]) (auto simp: id_at_created [OF assms(1-3)])

section \<open>Destruction\<close>

definition destroyed :: "SessionManager \<Rightarrow> nat \<Rightarrow> nat \<Rightarrow> Session \<Rightarrow> SessionManager" where
  "destroyed m i a s =
     m\<lparr>sm_closed := sm_closed m @ (if 0 \<le> se_socket s then [se_socket s] else []),
       sm_active := (if 0 < sm_active m then sm_active m - 1 else sm_active m),
       sm_heap := (sm_heap m)(a := None), sm_sessions := (sm_sessions m)[i := None]\<rparr>"

lemma session_destroy_found:
  assumes "find_slot m k = Some i" "k \<noteq> 0" "sm_sessions m ! i = Some a" "sm_heap m a = Some s"
  shows "session_destroy m k = destroyed m i a s"
  using assms by (simp add: session_destroy_def destroyed_def Let_def)

lemma session_destroy_missing: "find_slot m k = None \<Longrightarrow> session_destroy m k = m"
  by (simp add: session_destroy_def)

lemma sm_sessions_inj:
  assumes "sm_wf m" "i < MAX_SESSIONS" "j < MAX_SESSIONS"
    "sm_sessions m ! i = Some a" "sm_sessions m ! j = Some a"
  shows "i = j"
proof -
  from sm_wf_entry [OF assms(1,2,4)] obtain s where "sm_heap m a = Some s" by blast
  with assms have "id_at m i = Some (se_id s)" "id_at m j = Some (se_id s)"
    by (simp_all add: id_at_def)
  with assms show ?thesis by (blast intro: st.unique_keysD sm_wf_unique)
qed

lemma id_at_destroyed:
  assumes "sm_wf m" "i < MAX_SESSIONS" "j < MAX_SESSIONS" "sm_sessions m ! i = Some a"
  shows "id_at (destroyed m i a s) j = (if j = i then None else id_at m j)"
proof (cases "j = i")
  case True
  with assms show ?thesis by (simp add: id_at_def destroyed_def sm_wf_len)
next
  case False
  with sm_sessions_inj [OF assms(1-3,4)] have "sm_sessions m ! j \<noteq> Some a" by auto
  with False show ?thesis by (auto simp: id_at_def destroyed_def split: option.splits)
qed

lemma destroyed_wf [wf_intros]:
  assumes wf: "sm_wf m" and i: "i < MAX_SESSIONS" "sm_sessions m ! i = Some a"
  shows "sm_wf (destroyed m i a s)"
proof -
  let ?m = "destroyed m i a s"
  have len: "length (sm_sessions m) = MAX_SESSIONS" and pos: "0 < unat (sm_next m)"
    using wf by (auto simp: sm_wf_def)
  have entry: "\<exists>s. sm_heap ?m b = Some s \<and> 0 < unat (se_id s) \<and> unat (se_id s) < unat (sm_next ?m)"
    if "j < MAX_SESSIONS" "sm_sessions ?m ! j = Some b" for j b
  proof -
    from that i len have j: "j \<noteq> i" "sm_sessions m ! j = Some b"
      by (auto simp: destroyed_def nth_update_if split: if_splits)
    with sm_sessions_inj [OF wf i(1) that(1) i(2)] have "b \<noteq> a" by auto
    moreover from sm_wf_entry [OF wf that(1) j(2)] obtain s where
      "sm_heap m b = Some s" "0 < unat (se_id s)" "unat (se_id s) < unat (sm_next m)" by blast
    ultimately show ?thesis by (simp add: destroyed_def)
  qed
  have uniq: "j = l" if "j < MAX_SESSIONS" "l < MAX_SESSIONS" "id_at ?m j = Some k" "id_at ?m l = Some k"
    for j l k
    using that st.unique_keysD [OF sm_wf_unique [OF wf] that(1,2)]
    by (auto simp: id_at_destroyed [OF wf i(1) _ i(2)] split: if_splits)
  have owned: "\<exists>j < MAX_SESSIONS. sm_sessions ?m ! j = Some b" if "sm_heap ?m b \<noteq> None" for b
  proof -
    from that have b: "b \<noteq> a" "sm_heap m b \<noteq> None" by (auto simp: destroyed_def split: if_splits)
    from sm_wf_owned [OF wf b(2)] obtain j where "j < MAX_SESSIONS" "sm_sessions m ! j = Some b" by blast
    with b i show ?thesis by (intro exI [of _ j]) (auto simp: destroyed_def nth_update_if)
  qed
  have "length (sm_sessions ?m) = MAX_SESSIONS" "sm_next ?m = sm_next m"
    using len by (simp_all add: destroyed_def)
  with pos entry uniq owned show ?thesis unfolding sm_wf_def by auto
qed

text \<open>Destroying another session keeps a chain that does not pass its slot.\<close>

lemma destroyed_chained:
  assumes "sm_wf m" "i < MAX_SESSIONS" "sm_sessions m ! i = Some a" "st.chained m k l"
    "l < MAX_SESSIONS" "chain_pos MAX_SESSIONS (hash_session_id k) l \<le> chain_pos MAX_SESSIONS (hash_session_id k) i"
  shows "st.chained (destroyed m i a s) k l"
  by (rule st.chained_remove [OF assms(1,4,5,2) refl refl _ assms(6)])
    (simp add: id_at_destroyed [OF assms(1,2) _ assms(3)])

section \<open>Updates through a pointer\<close>

text \<open>An update of a session object that keeps its identifier.\<close>

definition touched :: "SessionManager \<Rightarrow> nat \<Rightarrow> (Session \<Rightarrow> Session) \<Rightarrow> SessionManager" where
  "touched m a f = m\<lparr>sm_heap := (sm_heap m)(a := map_option f (sm_heap m a))\<rparr>"

definition keeps_id :: "(Session \<Rightarrow> Session) \<Rightarrow> bool" where
  "keeps_id f \<longleftrightarrow> (\<forall>s. se_id (f s) = se_id s)"

lemma touched_simps [simp]:
  "sm_sessions (touched m a f) = sm_sessions m" "sm_next (touched m a f) = sm_next m"
  "sm_total (touched m a f) = sm_total m" "sm_active (touched m a f) = sm_active m"
  "sm_peak (touched m a f) = sm_peak m" "sm_closed (touched m a f) = sm_closed m"
  by (simp_all add: touched_def)

lemma touched_heap: "sm_heap (touched m a f) b = (if b = a then map_option f (sm_heap m a) else sm_heap m b)"
  by (simp add: touched_def)

lemma id_at_touched [simp]: "keeps_id f \<Longrightarrow> id_at (touched m a f) i = id_at m i"
  by (auto simp: id_at_def touched_heap keeps_id_def option.map_comp split: option.splits
      intro!: option.map_cong)

lemma touched_wf [wf_intros]:
  assumes "sm_wf m" "keeps_id f"
  shows "sm_wf (touched m a f)"
proof -
  have "\<exists>s. sm_heap (touched m a f) b = Some s \<and> 0 < unat (se_id s) \<and> unat (se_id s) < unat (sm_next m)"
    if "i < MAX_SESSIONS" "sm_sessions m ! i = Some b" for i b
    using sm_wf_entry [OF assms(1) that] assms(2) by (auto simp: touched_heap keeps_id_def)
  moreover have "\<exists>i<MAX_SESSIONS. sm_sessions m ! i = Some b" if "sm_heap (touched m a f) b \<noteq> None" for b
    using that sm_wf_owned [OF assms(1), of b] by (auto simp: touched_heap split: if_splits)
  ultimately show ?thesis
    using assms unfolding sm_wf_def by (auto simp del: id_at_def)
qed

lemma on_session_touched:
  "on_session a f m = (if sm_heap m a = None then None else Some (touched m a f))"
  by (auto simp: on_session_def touched_def split: option.splits)

lemma touched_Some: "sm_heap m a = Some s \<Longrightarrow> m\<lparr>sm_heap := (sm_heap m)(a \<mapsto> f s)\<rparr> = touched m a f"
  by (simp add: touched_def)

lemma keeps_id_fields [simp]:
  "keeps_id (\<lambda>s. s\<lparr>se_active := b s\<rparr>)" "keeps_id (\<lambda>s. s\<lparr>se_last_activity := n s\<rparr>)"
  "keeps_id (\<lambda>s. s\<lparr>se_ops := p s, se_last_activity := n s\<rparr>)"
  "keeps_id (\<lambda>s. s\<lparr>se_username := u s, se_auth := b s, se_authenticated_at := n s, se_last_activity := q s\<rparr>)"
  by (simp_all add: keeps_id_def)

lemma session_mark_inactive_touch:
  "session_mark_inactive m k =
     (case Option.bind (if k = 0 then None else find_slot m k) (\<lambda>i. sm_sessions m ! i) of
        None \<Rightarrow> m
      | Some a \<Rightarrow> touched m a (\<lambda>s. s\<lparr>se_active := False\<rparr>))"
  by (auto simp: session_mark_inactive_def touched_def fun_upd_idem split: option.splits)

lemma session_mark_inactive_wf [wf_intros]: "sm_wf m \<Longrightarrow> sm_wf (session_mark_inactive m k)"
  by (auto simp: session_mark_inactive_touch intro: touched_wf split: option.split)

section \<open>Runs of the manager\<close>

text \<open>The slots of live sessions are within one table length of the next identifier.\<close>

definition window :: "SessionManager \<Rightarrow> bool" where
  "window m \<longleftrightarrow> (\<forall>i < MAX_SESSIONS. \<forall>k. id_at m i = Some k \<longrightarrow> unat (sm_next m) < unat k + MAX_SESSIONS)"

text \<open>The states the global manager reaches through its operations, in any order; with \<open>w\<close>, only
  runs in which a session is created while every live identifier is in the window. \<open>calloc\<close> returns
  a block that is not in use. The identifier counter is not run to its wrap-around at \<open>2^64\<close>.\<close>

inductive sm_reach :: "bool \<Rightarrow> SessionManager \<Rightarrow> bool" for w :: bool where
  init: "session_manager_init 0 = (0, Some m) \<Longrightarrow> sm_reach w m"
| create: "sm_reach w m \<Longrightarrow> (\<forall>a. alloc = Some a \<longrightarrow> sm_heap m a = None) \<Longrightarrow> w \<longrightarrow> window m \<Longrightarrow>
    unat (sm_next m) < 2 ^ 64 - 1 \<Longrightarrow>
    sm_reach w (snd (session_create m fd now alloc rm rc mr))"
| destroy: "sm_reach w m \<Longrightarrow> sm_reach w (session_destroy m k)"
| inactive: "sm_reach w m \<Longrightarrow> sm_reach w (session_mark_inactive m k)"
| username: "sm_reach w m \<Longrightarrow> session_set_username a u now m = Some m' \<Longrightarrow> sm_reach w m'"
| activity: "sm_reach w m \<Longrightarrow> session_update_activity a now m = Some m' \<Longrightarrow> sm_reach w m'"
| operations: "sm_reach w m \<Longrightarrow> session_increment_operations a now m = Some m' \<Longrightarrow> sm_reach w m'"

text \<open>Every operation leaves the table as it was, counts an identifier, adds a session, removes one or
  touches one: the cases a proof about all of them has to look at.\<close>

lemma session_create_outcome:
  assumes wf: "sm_wf m"
  obtains "snd (session_create m fd now alloc rm rc mr) = m"
  | "snd (session_create m fd now alloc rm rc mr) = m\<lparr>sm_next := sm_next m + 1\<rparr>"
  | a i where "alloc = Some a" "i < MAX_SESSIONS" "sm_sessions m ! i = None" "st.chained m (sm_next m) i"
      "session_create m fd now alloc rm rc mr = (sm_next m, created m i a fd now)" "0 \<le> fd"
proof (cases "0 \<le> fd \<and> alloc \<noteq> None \<and> rm = 0 \<and> rc = 0 \<and> mr = 0")
  case True
  then obtain a where a: "alloc = Some a" by blast
  show thesis
    by (rule session_create_cases [OF wf, of fd now a]) (use True a that in auto)
next
  case False
  then have "snd (session_create m fd now alloc rm rc mr) \<in> {m, m\<lparr>sm_next := sm_next m + 1\<rparr>}"
    by (auto simp: session_create_def response_init_def Let_def split: option.split prod.split)
  with that show thesis by blast
qed

lemma session_destroy_outcome:
  assumes wf: "sm_wf m"
  obtains "session_destroy m k = m"
  | i a s where "i < MAX_SESSIONS" "sm_sessions m ! i = Some a" "sm_heap m a = Some s" "se_id s = k"
      "id_at m i = Some k" "find_slot m k = Some i" "session_destroy m k = destroyed m i a s"
proof (cases "k = 0 \<or> find_slot m k = None")
  case True
  with that show thesis by (auto simp: session_destroy_def)
next
  case False
  then obtain i where f: "find_slot m k = Some i" by blast
  with find_slot_iff [OF wf] have i: "i < MAX_SESSIONS" "id_at m i = Some k" by blast+
  from id_at_Some [OF wf i] obtain a s where "sm_sessions m ! i = Some a" "sm_heap m a = Some s" "se_id s = k"
    by blast
  with f i False that show thesis using session_destroy_found [OF f, of a s] by blast
qed

lemma id_at_next [simp]: "id_at (m\<lparr>sm_next := n\<rparr>) i = id_at m i"
  by (simp add: id_at_def split: option.split)

lemma next_wf [wf_intros]:
  assumes "sm_wf m" "unat (sm_next m) < 2 ^ 64 - 1"
  shows "sm_wf (m\<lparr>sm_next := sm_next m + 1\<rparr>)"
proof -
  let ?m = "m\<lparr>sm_next := sm_next m + 1\<rparr>"
  have nx: "unat (sm_next ?m) = unat (sm_next m) + 1" using unat_next [OF assms(2)] by simp
  have "\<exists>s. sm_heap m a = Some s \<and> 0 < unat (se_id s) \<and> unat (se_id s) < unat (sm_next ?m)"
    if "i < MAX_SESSIONS" "sm_sessions m ! i = Some a" for i a
    using sm_wf_entry [OF assms(1) that] nx by auto
  then show ?thesis using assms(1) nx unfolding sm_wf_def by simp
qed

end
