(* ===== verification/Session_Protocol.thy ===== *)
theory Session_Protocol
  imports Session_Manager
begin

text \<open>
  What the session manager guarantees over whole runs: the well-formed table, its statistics, lookups
  of sessions, and how far removals disturb them.
\<close>

section \<open>Invariants of every run\<close>

text \<open>The table part of the counters: \<open>sm_active\<close> counts the occupied slots.\<close>

definition occupied :: "SessionManager \<Rightarrow> nat" where
  "occupied m = length (filter (\<lambda>e. e \<noteq> None) (sm_sessions m))"

definition stats_ok :: "SessionManager \<Rightarrow> bool" where
  "stats_ok m \<longleftrightarrow> unat (sm_active m) = occupied m \<and> unat (sm_active m) \<le> unat (sm_peak m) \<and>
     unat (sm_peak m) \<le> unat (sm_total m) \<and> unat (sm_total m) < unat (sm_next m)"

definition sessions_homed :: "SessionManager \<Rightarrow> bool" where
  "sessions_homed m \<longleftrightarrow> (\<forall>i < MAX_SESSIONS. \<forall>k. id_at m i = Some k \<longrightarrow> hash_session_id k = i)"

lemma init_state:
  "session_manager_init 0 = (0, Some m) \<Longrightarrow>
     m = \<lparr>sm_sessions = replicate MAX_SESSIONS None, sm_next = 1, sm_total = 0,
        sm_active = 0, sm_peak = 0, sm_heap = Map.empty, sm_closed = []\<rparr>"
  by (simp add: session_manager_init_def)

lemma init_wf: "session_manager_init 0 = (0, Some m) \<Longrightarrow> sm_wf m"
  by (drule init_state) (simp add: sm_wf_def id_at_def)

lemma init_stats: "session_manager_init 0 = (0, Some m) \<Longrightarrow> stats_ok m"
  by (drule init_state) (simp add: stats_ok_def occupied_def)

lemma occupied_created:
  assumes "sm_wf m" "i < MAX_SESSIONS" "sm_sessions m ! i = None"
  shows "occupied (created m i a fd now) = occupied m + 1"
  using length_filter_update [of i "sm_sessions m" "\<lambda>e. e \<noteq> None" "Some a"] assms
  by (simp add: occupied_def created_def sm_wf_len)

lemma occupied_destroyed:
  assumes "sm_wf m" "i < MAX_SESSIONS" "sm_sessions m ! i = Some a"
  shows "occupied (destroyed m i a s) + 1 = occupied m"
  using length_filter_update [of i "sm_sessions m" "\<lambda>e. e \<noteq> None" None] assms
  by (simp add: occupied_def destroyed_def sm_wf_len)

lemma occupied_pos:
  "sm_wf m \<Longrightarrow> i < MAX_SESSIONS \<Longrightarrow> sm_sessions m ! i = Some a \<Longrightarrow> 0 < occupied m"
  using filter_length_pos [of i "sm_sessions m" "\<lambda>e. e \<noteq> None"] by (simp add: occupied_def sm_wf_len)

lemma unat_succ: "unat x < y \<Longrightarrow> y \<le> 2 ^ 64 - 1 \<Longrightarrow> unat ((x :: u64) + 1) = unat x + 1"
  by (simp add: unat_word_ariths)

lemma unat_max: "unat (max x y) = max (unat x) (unat (y :: u64))"
  by (auto simp: max_def word_le_nat_alt)

lemma created_stats:
  assumes "sm_wf m" "stats_ok m" "i < MAX_SESSIONS" "sm_sessions m ! i = None"
    "unat (sm_next m) < 2 ^ 64 - 1"
  shows "stats_ok (created m i a fd now)"
proof -
  have le: "unat (sm_active m) < unat (sm_next m)" "unat (sm_total m) < unat (sm_next m)"
    using assms(2) by (auto simp: stats_ok_def)
  have "unat (sm_active m + 1) = unat (sm_active m) + 1" "unat (sm_total m + 1) = unat (sm_total m) + 1"
    "unat (sm_next m + 1) = unat (sm_next m) + 1"
    using unat_succ [OF le(1)] unat_succ [OF le(2)] unat_next assms(5) by simp_all
  then show ?thesis using assms occupied_created [OF assms(1,3,4), of a fd now]
    by (auto simp: stats_ok_def created_def unat_max)
qed

lemma destroyed_stats:
  assumes "sm_wf m" "stats_ok m" "i < MAX_SESSIONS" "sm_sessions m ! i = Some a"
  shows "stats_ok (destroyed m i a s)"
proof -
  have pos: "0 < unat (sm_active m)"
    using assms(2) occupied_pos [OF assms(1,3,4)] by (simp add: stats_ok_def)
  then have "0 < sm_active m" by (simp add: word_less_nat_alt)
  moreover from this pos have "unat (sm_active m - 1) + 1 = unat (sm_active m)"
    by (simp add: unat_sub word_le_nat_alt Suc_le_eq)
  ultimately show ?thesis
    using assms(2) occupied_destroyed [OF assms(1,3,4), of s] by (auto simp: stats_ok_def destroyed_def)
qed

lemma next_stats:
  "stats_ok m \<Longrightarrow> unat (sm_next m) < 2 ^ 64 - 1 \<Longrightarrow> stats_ok (m\<lparr>sm_next := sm_next m + 1\<rparr>)"
  using unat_next [of m] by (simp add: stats_ok_def occupied_def)

lemma touched_stats [simp]: "stats_ok (touched m a f) = stats_ok m"
  by (simp add: stats_ok_def occupied_def)

text \<open>The induction every run invariant goes by: the initial state, and the four effects an
  operation can have.\<close>

lemma sm_reach_invariant:
  assumes reach: "sm_reach w m"
    and init: "\<And>m. session_manager_init 0 = (0, Some m) \<Longrightarrow> P m"
    and counted: "\<And>m. sm_wf m \<Longrightarrow> P m \<Longrightarrow> unat (sm_next m) < 2 ^ 64 - 1 \<Longrightarrow> P (m\<lparr>sm_next := sm_next m + 1\<rparr>)"
    and create: "\<And>m a i fd now. sm_wf m \<Longrightarrow> P m \<Longrightarrow> i < MAX_SESSIONS \<Longrightarrow> sm_sessions m ! i = None \<Longrightarrow>
      st.chained m (sm_next m) i \<Longrightarrow> sm_heap m a = None \<Longrightarrow> w \<longrightarrow> window m \<Longrightarrow>
      unat (sm_next m) < 2 ^ 64 - 1 \<Longrightarrow> P (created m i a fd now)"
    and destroy: "\<And>m i a s. sm_wf m \<Longrightarrow> P m \<Longrightarrow> i < MAX_SESSIONS \<Longrightarrow> sm_sessions m ! i = Some a \<Longrightarrow>
      sm_heap m a = Some s \<Longrightarrow> P (destroyed m i a s)"
    and touch: "\<And>m a f. sm_wf m \<Longrightarrow> P m \<Longrightarrow> keeps_id f \<Longrightarrow> P (touched m a f)"
  shows "sm_wf m \<and> P m"
  using reach
proof induction
  case (init m)
  then show ?case using init_wf assms(2) by blast
next
  case (create m alloc fd now rm rc mr)
  then have wf: "sm_wf m" and P: "P m" by simp_all
  show ?case
  proof (rule session_create_outcome [OF wf, of fd now alloc rm rc mr])
    fix a i assume "alloc = Some a" "i < MAX_SESSIONS" "sm_sessions m ! i = None"
      "st.chained m (sm_next m) i" "session_create m fd now alloc rm rc mr = (sm_next m, created m i a fd now)"
    with create.hyps wf P show ?thesis by (auto intro: created_wf assms(4))
  qed (use wf P create.hyps in \<open>auto intro: next_wf counted\<close>)
next
  case (destroy m k)
  then have wf: "sm_wf m" and P: "P m" by simp_all
  show ?case
    by (rule session_destroy_outcome [OF wf, of k]) (use wf P in \<open>auto intro: destroyed_wf assms(5)\<close>)
next
  case (inactive m k)
  then show ?case
    by (auto simp: session_mark_inactive_touch intro: touched_wf touch split: option.split)
qed (auto simp: session_set_username_def session_update_activity_def session_increment_operations_def
    on_session_touched intro: touched_wf touch split: if_splits)

lemma sm_reach_wf: "sm_reach w m \<Longrightarrow> sm_wf m"
  using sm_reach_invariant [of w m "\<lambda>_. True"] by blast

lemma sm_reach_stats: "sm_reach w m \<Longrightarrow> stats_ok m"
  using sm_reach_invariant [of w m stats_ok] init_stats next_stats created_stats destroyed_stats
  by auto

section \<open>Lookups inside the window\<close>

lemma chained_home: "st.chained m k (hash_session_id k)"
  by (simp add: st.chained_def chain_pos_def)

lemma chained_at_free_home:
  assumes "i < MAX_SESSIONS" "st.chained m k i" "id_at m (hash_session_id k) = None"
  shows "i = hash_session_id k"
proof (rule ccontr)
  assume "i \<noteq> hash_session_id k"
  with assms(1) have "0 < chain_pos MAX_SESSIONS (hash_session_id k) i"
    using hash_session_less [of k] by (auto simp: chain_pos_def)
  with assms(2) have "id_at m ((hash_session_id k + 0) mod MAX_SESSIONS) \<noteq> None"
    unfolding st.chained_def by blast
  with assms(3) hash_session_less [of k] show False by simp
qed

lemma hash_collision_far:
  assumes "hash_session_id j = hash_session_id k" "unat j < unat k"
  shows "unat j + MAX_SESSIONS \<le> unat k"
proof -
  have "unat j mod 256 = unat k mod 256"
    using assms(1) by (simp add: hash_session_id_def MAX_SESSIONS_def unat_mod_distrib)
  then have "256 dvd unat k - unat j" using assms(2) by (metis less_imp_le mod_eq_dvd_iff_nat)
  with assms(2) show ?thesis unfolding MAX_SESSIONS_def by (auto dest: dvd_imp_le)
qed

lemma created_homed:
  assumes wf: "sm_wf m" and h: "sessions_homed m" and i: "i < MAX_SESSIONS" "st.chained m (sm_next m) i"
    and a: "sm_heap m a = None" and w: "window m"
  shows "sessions_homed (created m i a fd now)"
proof -
  let ?h = "hash_session_id (sm_next m)"
  have "id_at m ?h = None"
  proof (rule ccontr)
    assume "id_at m ?h \<noteq> None"
    then obtain k where k: "id_at m ?h = Some k" by blast
    with h hash_session_less have "hash_session_id k = ?h" by (simp add: sessions_homed_def)
    with hash_collision_far [of k "sm_next m"] id_at_less [OF wf hash_session_less k] w k hash_session_less
    show False by (force simp: window_def)
  qed
  with chained_at_free_home [OF i] have "i = ?h" .
  with h i show ?thesis by (auto simp: sessions_homed_def id_at_created [OF wf a] split: if_splits)
qed

lemma destroyed_homed:
  "sm_wf m \<Longrightarrow> sessions_homed m \<Longrightarrow> i < MAX_SESSIONS \<Longrightarrow> sm_sessions m ! i = Some a \<Longrightarrow> sessions_homed (destroyed m i a s)"
  by (auto simp: sessions_homed_def id_at_destroyed)

lemma next_homed: "sessions_homed m \<Longrightarrow> sessions_homed (m\<lparr>sm_next := sm_next m + 1\<rparr>)"
  by (simp add: sessions_homed_def)

lemma init_homed: "session_manager_init 0 = (0, Some m) \<Longrightarrow> sessions_homed m"
  by (drule init_state) (simp add: sessions_homed_def id_at_def)

lemma touched_homed: "sessions_homed m \<Longrightarrow> keeps_id f \<Longrightarrow> sessions_homed (touched m a f)"
  by (simp add: sessions_homed_def)

lemma sm_reach_homed: "sm_reach True m \<Longrightarrow> sessions_homed m"
  using sm_reach_invariant [of True m sessions_homed] init_homed next_homed created_homed destroyed_homed
    touched_homed
  by blast

text \<open>What a lookup answers, through the pointer it returns.\<close>

lemma session_get_found:
  assumes "find_slot m k = Some i" "k \<noteq> 0" "sm_sessions m ! i = Some a" "sm_heap m a = Some s"
  shows "session_get m k = (if se_active s then Some a else None)"
  using assms by (simp add: session_get_def)

lemma session_get_SomeE:
  assumes wf: "sm_wf m" and g: "session_get m k = Some a"
  obtains i s where "find_slot m k = Some i" "i < MAX_SESSIONS" "k \<noteq> 0" "sm_sessions m ! i = Some a"
    "sm_heap m a = Some s" "se_active s" "se_id s = k" "id_at m i = Some k" "st.chained m k i"
proof -
  from g obtain i s where i: "find_slot m k = Some i" "k \<noteq> 0" "sm_sessions m ! i = Some a"
    "sm_heap m a = Some s" "se_active s"
    by (auto simp: session_get_def split: if_splits option.splits)
  moreover from i(1) find_slot_iff [OF wf] have "i < MAX_SESSIONS" "id_at m i = Some k" "st.chained m k i"
    by auto
  moreover from this i have "se_id s = k" by (simp add: id_at_def)
  ultimately show thesis using that by blast
qed

lemma chained_get:
  assumes wf: "sm_wf m" and i: "i < MAX_SESSIONS" "sm_sessions m ! i = Some a"
    and s: "sm_heap m a = Some s" "se_active s" and c: "st.chained m (se_id s) i"
  shows "session_get m (se_id s) = Some a"
proof -
  have "id_at m i = Some (se_id s)" using i s by (simp add: id_at_def)
  with find_slot_iff [OF wf] i(1) c have "find_slot m (se_id s) = Some i" by blast
  moreover have "se_id s \<noteq> 0" using sm_wf_entry [OF wf i] s by auto
  ultimately show ?thesis using session_get_found i(2) s by simp
qed

section \<open>Properties\<close>

text \<open>The fresh manager, for concrete instances.\<close>

definition fresh_manager :: SessionManager where
  "fresh_manager = the (snd (session_manager_init 0))"

lemma fresh_manager_init: "session_manager_init 0 = (0, Some fresh_manager)"
  by (simp add: fresh_manager_def session_manager_init_def)

lemma fresh_manager_simps [simp]:
  "sm_next fresh_manager = 1" "sm_heap fresh_manager = Map.empty"
  "i < MAX_SESSIONS \<Longrightarrow> sm_sessions fresh_manager ! i = None"
  by (simp_all add: fresh_manager_def session_manager_init_def)

lemma fresh_manager_wf: "sm_wf fresh_manager"
  by (rule init_wf [OF fresh_manager_init])

lemma fresh_manager_reach: "sm_reach w fresh_manager"
  by (rule sm_reach.init [OF fresh_manager_init])

text \<open>A manager with two sessions, created at times 100 and 101.\<close>

definition two_sessions :: SessionManager where
  "two_sessions =
     snd (session_create (snd (session_create fresh_manager 7 100 (Some 4096) 0 0 0)) 8 101 (Some 8192) 0 0 0)"

lemma two_sessions_eq: "two_sessions = created (created fresh_manager 1 4096 7 100) 2 8192 8 101"
  by (simp add: two_sessions_def session_create_def hash_session_id_def MAX_SESSIONS_def
      linear_probe.simps response_init_def created_def new_session_def fresh_manager_def
      session_manager_init_def max_def)

lemma two_sessions_reach: "sm_reach w two_sessions"
proof -
  let ?m = "snd (session_create fresh_manager 7 100 (Some 4096) 0 0 0)"
  have m: "?m = created fresh_manager 1 4096 7 100"
    by (simp add: session_create_def hash_session_id_def MAX_SESSIONS_def
      linear_probe.simps response_init_def created_def new_session_def fresh_manager_def
      session_manager_init_def max_def)
  have "window fresh_manager" by (simp add: window_def id_at_def)
  then have 1: "sm_reach w ?m"
    by (intro sm_reach.create fresh_manager_reach) auto
  have win: "window ?m"
    using id_at_less [OF sm_reach_wf [OF 1]] by (auto simp: m window_def created_def MAX_SESSIONS_def)
  show ?thesis unfolding two_sessions_def
    by (rule sm_reach.create [OF 1]) (use win in \<open>simp_all add: m created_def\<close>)
qed

lemma MAX_SESSIONS_pos: "0 < MAX_SESSIONS"
  by (simp add: MAX_SESSIONS_def)

lemma session_get_created_other:
  assumes wf: "sm_wf m" and a: "sm_heap m a = None" and i: "i < MAX_SESSIONS" "sm_sessions m ! i = None"
    and n: "unat (sm_next m) < 2 ^ 64 - 1" and g: "session_get m k = Some b"
  shows "session_get (created m i a fd now) k = Some b"
proof -
  from session_get_SomeE [OF wf g] obtain j s where j: "j < MAX_SESSIONS" "sm_sessions m ! j = Some b"
    "sm_heap m b = Some s" "se_active s" "se_id s = k" "st.chained m k j" by blast
  with i a have "sm_sessions (created m i a fd now) ! j = Some b" "sm_heap (created m i a fd now) b = Some s"
    by (auto simp: created_def nth_update_if)
  moreover have "st.chained (created m i a fd now) (se_id s) j"
    using created_chained [OF wf a i(1) j(6)] j(5) by simp
  ultimately show ?thesis using chained_get [OF created_wf [OF wf a i n] j(1)] j by blast
qed

text \<open>C20: \<open>session_create\<close> on a table with a free slot returns the next identifier, stores a fresh
  unauthenticated session under the block it allocated, and \<open>session_get\<close> finds that session and
  every session it found before. Sessions lost to a broken probe chain do not get in its way.\<close>

theorem session_create_get:
  assumes "sm_wf m" "0 \<le> fd" "sm_heap m a = None" "unat (sm_next m) < 2 ^ 64 - 1"
    and "i < MAX_SESSIONS" "sm_sessions m ! i = None"
  shows "\<exists>m'. session_create m fd now (Some a) 0 0 0 = (sm_next m, m') \<and> sm_wf m' \<and>
    sm_heap m' = (sm_heap m)(a \<mapsto> new_session (sm_next m) fd now) \<and>
    sm_next m' = sm_next m + 1 \<and> session_get m' (sm_next m) = Some a \<and>
    (\<forall>k b. session_get m k = Some b \<longrightarrow> session_get m' k = Some b)"
proof (rule session_create_cases [OF assms(1,2), of now a])
  assume "\<And>j. j < MAX_SESSIONS \<Longrightarrow> sm_sessions m ! j \<noteq> None"
  with assms(5,6) show ?thesis by blast
next
  fix j assume j: "j < MAX_SESSIONS" "sm_sessions m ! j = None" "st.chained m (sm_next m) j"
    "session_create m fd now (Some a) 0 0 0 = (sm_next m, created m j a fd now)"
  let ?m = "created m j a fd now"
  have wf: "sm_wf ?m" by (rule created_wf [OF assms(1,3) j(1,2) assms(4)])
  have heap: "sm_heap ?m = (sm_heap m)(a \<mapsto> new_session (sm_next m) fd now)"
    "sm_sessions ?m ! j = Some a" "sm_next ?m = sm_next m + 1"
    using j(1) sm_wf_len [OF assms(1)] by (simp_all add: created_def)
  have "session_get ?m (se_id (new_session (sm_next m) fd now)) = Some a"
    by (rule chained_get [OF wf j(1) heap(2)])
      (use heap created_chained [OF assms(1,3) j(1,3)] in \<open>simp_all add: new_session_def\<close>)
  with wf heap j(4) session_get_created_other [OF assms(1,3) j(1,2) assms(4)] show ?thesis
    by (auto simp: new_session_def)
qed

lemma session_create_get_witness:
  "\<exists>m'. session_create fresh_manager 7 100 (Some 4096) 0 0 0 = (1, m') \<and> sm_wf m' \<and>
    sm_heap m' = [4096 \<mapsto> new_session 1 7 100] \<and>
    sm_next m' = 2 \<and> session_get m' 1 = Some 4096"
  using session_create_get [of fresh_manager 7 4096 0 100] fresh_manager_wf MAX_SESSIONS_pos by auto

lemma next_same: "\<exists>n. m = m\<lparr>sm_next := n\<rparr>"
  by (rule exI [of _ "sm_next m"]) simp

text \<open>\<open>session_create\<close> fails, with identifier 0, exactly when the socket is invalid, the
  allocation or an initialiser fails, or all 256 slots are taken; then no session, slot or statistic
  changed (an identifier may be used up).\<close>

theorem session_create_fails_iff:
  assumes wf: "sm_wf m"
  shows "(fst (session_create m fd now alloc rm rc mr) = 0 \<longleftrightarrow>
      fd < 0 \<or> alloc = None \<or> (\<forall>i < MAX_SESSIONS. sm_sessions m ! i \<noteq> None) \<or>
      rm \<noteq> 0 \<or> rc \<noteq> 0 \<or> mr \<noteq> 0) \<and>
    (fst (session_create m fd now alloc rm rc mr) = 0 \<longrightarrow>
      (\<exists>n. snd (session_create m fd now alloc rm rc mr) = m\<lparr>sm_next := n\<rparr>))"
proof (cases "0 \<le> fd \<and> alloc \<noteq> None \<and> rm = 0 \<and> rc = 0 \<and> mr = 0")
  case True
  then obtain a where a: "alloc = Some a" by blast
  have pos: "sm_next m \<noteq> 0" using wf by (auto simp: sm_wf_def)
  show ?thesis
  proof (rule session_create_cases [OF wf, of fd now a])
    assume "session_create m fd now (Some a) 0 0 0 = (0, m\<lparr>sm_next := sm_next m + 1\<rparr>)"
      "\<And>i. i < MAX_SESSIONS \<Longrightarrow> sm_sessions m ! i \<noteq> None"
    with True a show ?thesis by auto
  next
    fix i assume "i < MAX_SESSIONS" "sm_sessions m ! i = None"
      "session_create m fd now (Some a) 0 0 0 = (sm_next m, created m i a fd now)"
    with True a pos show ?thesis by auto
  qed (use True in simp)
next
  case False
  from False have "fst (session_create m fd now alloc rm rc mr) = 0"
    "snd (session_create m fd now alloc rm rc mr) \<in> {m, m\<lparr>sm_next := sm_next m + 1\<rparr>}"
    by (auto simp: session_create_def response_init_def Let_def split: option.split prod.split)
  with False show ?thesis by (auto intro: next_same)
qed

lemma session_create_fails_iff_witness:
  "fst (session_create fresh_manager 7 100 None 0 0 0) = 0 \<and>
   fst (session_create fresh_manager 7 100 (Some 4096) 0 0 0) \<noteq> 0"
  using session_create_fails_iff [OF fresh_manager_wf, of 7 100 None 0 0 0]
    session_create_fails_iff [OF fresh_manager_wf, of 7 100 "Some 4096" 0 0 0] MAX_SESSIONS_pos
  by auto

text \<open>\<open>session_destroy\<close> of a session that \<open>session_get\<close> finds frees exactly its block, closes its
  socket once and no other descriptor, takes one off the active count, and makes the session
  unfindable; the other entries of the table stay.\<close>

theorem session_destroy_removes:
  assumes wf: "sm_wf m" and g: "session_get m k = Some a" and s: "sm_heap m a = Some s"
    and n: "0 < sm_active m"
  shows "sm_wf (session_destroy m k) \<and> session_get (session_destroy m k) k = None \<and>
    sm_heap (session_destroy m k) = (sm_heap m)(a := None) \<and>
    sm_closed (session_destroy m k) = sm_closed m @ (if 0 \<le> se_socket s then [se_socket s] else []) \<and>
    sm_active (session_destroy m k) = sm_active m - 1 \<and>
    (\<forall>i < MAX_SESSIONS. sm_sessions m ! i \<noteq> Some a \<longrightarrow>
      sm_sessions (session_destroy m k) ! i = sm_sessions m ! i)"
proof -
  from session_get_SomeE [OF wf g] s obtain i where i: "find_slot m k = Some i" "i < MAX_SESSIONS"
    "k \<noteq> 0" "sm_sessions m ! i = Some a" "id_at m i = Some k" by auto
  have d: "session_destroy m k = destroyed m i a s" by (rule session_destroy_found [OF i(1,3,4) s])
  have wf': "sm_wf (destroyed m i a s)" by (rule destroyed_wf [OF wf i(2,4)])
  have "id_at (destroyed m i a s) j \<noteq> Some k" if "j < MAX_SESSIONS" for j
    using st.unique_keysD [OF sm_wf_unique [OF wf] that i(2) _ i(5)] id_at_destroyed [OF wf i(2) that i(4)]
    by auto
  with find_slot_None [OF wf', of k] have "find_slot (destroyed m i a s) k = None" by blast
  then have "session_get (destroyed m i a s) k = None" by (simp add: session_get_def)
  with wf' d n i show ?thesis by (auto simp: destroyed_def nth_update_if)
qed

lemma two_sessions_simps:
  "sm_sessions two_sessions ! 1 = Some 4096" "sm_sessions two_sessions ! 2 = Some 8192"
  "sm_heap two_sessions 4096 = Some (new_session 1 7 100)" "sm_heap two_sessions 8192 = Some (new_session 2 8 101)"
  "find_slot two_sessions 1 = Some 1" "find_slot two_sessions 2 = Some 2"
  "session_get two_sessions 1 = Some 4096" "session_get two_sessions 2 = Some 8192"
  "sm_active two_sessions = 2"
proof -
  have h: "hash_session_id 1 = 1" "hash_session_id 2 = 2"
    by (simp_all add: hash_session_id_def MAX_SESSIONS_def)
  have s: "sm_sessions two_sessions = (replicate 256 None)[1 := Some 4096, 2 := Some 8192]"
    "sm_heap two_sessions = [4096 \<mapsto> new_session 1 7 100, 8192 \<mapsto> new_session 2 8 101]"
    and act: "sm_active two_sessions = 2"
    by (simp_all add: two_sessions_eq created_def fresh_manager_def session_manager_init_def MAX_SESSIONS_def)
  have e: "sm_sessions two_sessions ! 1 = Some 4096" "sm_sessions two_sessions ! 2 = Some 8192"
    unfolding s(1) by (subst nth_list_update; simp)+
  have i: "id_at two_sessions 1 = Some 1" "id_at two_sessions 2 = Some 2"
    by (simp_all only: id_at_def e) (simp_all add: s(2) new_session_def)
  have f: "find_slot two_sessions 1 = Some 1" "find_slot two_sessions 2 = Some 2"
    using e i by (simp_all add: find_slot_def h linear_probe_stopped MAX_SESSIONS_def)
  show "sm_sessions two_sessions ! 1 = Some 4096" "sm_sessions two_sessions ! 2 = Some 8192"
    "sm_active two_sessions = 2" "find_slot two_sessions 1 = Some 1" "find_slot two_sessions 2 = Some 2"
    by (fact e act f)+
  show hp: "sm_heap two_sessions 4096 = Some (new_session 1 7 100)" "sm_heap two_sessions 8192 = Some (new_session 2 8 101)"
    by (simp_all add: s(2))
  show "session_get two_sessions 1 = Some 4096" "session_get two_sessions 2 = Some 8192"
    using session_get_found [OF f(1) _ e(1) hp(1)] session_get_found [OF f(2) _ e(2) hp(2)]
    by (simp_all add: new_session_def)
qed

lemma two_sessions_wf: "sm_wf two_sessions"
  by (rule sm_reach_wf [OF two_sessions_reach])

lemma session_destroy_removes_witness:
  "session_get two_sessions 1 = Some 4096 \<and> session_get (session_destroy two_sessions 1) 1 = None \<and>
   sm_active (session_destroy two_sessions 1) = 1"
  using session_destroy_removes [OF two_sessions_wf two_sessions_simps(7,3)] two_sessions_simps(7,9)
  by simp

lemma destroy_other_lookup:
  assumes wf: "sm_wf m" and g: "session_get m k = Some a"
    and ik: "find_slot m k = Some i" and jl: "find_slot m l = Some j" and kl: "k \<noteq> l" "l \<noteq> 0"
  shows "session_get (session_destroy m l) k =
      (if chain_pos MAX_SESSIONS (hash_session_id k) j < chain_pos MAX_SESSIONS (hash_session_id k) i
       then None else Some a) \<and>
    sm_sessions (session_destroy m l) ! i = Some a"
proof -
  from session_get_SomeE [OF wf g] ik obtain s where i: "i < MAX_SESSIONS" "sm_sessions m ! i = Some a"
    "sm_heap m a = Some s" "se_active s" "se_id s = k" "id_at m i = Some k" "st.chained m k i" by auto
  from jl find_slot_iff [OF wf] have j: "j < MAX_SESSIONS" "id_at m j = Some l" by auto
  from id_at_Some [OF wf j] obtain b t where b: "sm_sessions m ! j = Some b" "sm_heap m b = Some t" by blast
  have d: "session_destroy m l = destroyed m j b t" by (rule session_destroy_found [OF jl kl(2) b])
  have ij: "i \<noteq> j" using i(6) j(2) kl(1) by auto
  with sm_sessions_inj [OF wf i(1) j(1) i(2)] b(1) have ab: "a \<noteq> b" by auto
  let ?m = "destroyed m j b t"
  have wf': "sm_wf ?m" by (rule destroyed_wf [OF wf j(1) b(1)])
  have at: "sm_sessions ?m ! i = Some a" "sm_heap ?m a = Some s"
    using i ij ab by (simp_all add: destroyed_def nth_update_if)
  have id': "id_at ?m i = Some k" using id_at_destroyed [OF wf j(1) i(1) b(1)] i(6) ij by simp
  let ?pos = "chain_pos MAX_SESSIONS (hash_session_id k)"
  show ?thesis
  proof (cases "?pos j < ?pos i")
    case True
    have "id_at ?m ((hash_session_id k + ?pos j) mod MAX_SESSIONS) = None"
      using id_at_destroyed [OF wf j(1) j(1) b(1)] chain_pos_slot [OF hash_session_less j(1)] by simp
    with True have "\<not> st.chained ?m k i" unfolding st.chained_def by blast
    with id' st.unique_keysD [OF sm_wf_unique [OF wf'] _ i(1) _ id'] have "find_slot ?m k = None"
      unfolding find_slot_None [OF wf'] by blast
    with True d at show ?thesis by (simp add: session_get_def)
  next
    case False
    with destroyed_chained [OF wf j(1) b(1) i(7,1)] have "st.chained ?m (se_id s) i"
      using i(5) by simp
    with chained_get [OF wf' i(1) at i(4)] i(5) d at False show ?thesis by simp
  qed
qed

text \<open>What destroying one session does to the lookup of another: it still finds it, unless the
  freed slot lies on the other's probe chain, between its home slot and its own; then the other session
  stays in the table and the active count but no lookup finds it any more.\<close>

theorem session_destroy_other:
  assumes wf: "sm_wf m" and g: "session_get m k = Some a"
    and ik: "find_slot m k = Some i" and jl: "find_slot m l = Some j" and kl: "k \<noteq> l" "l \<noteq> 0"
  shows "session_get (session_destroy m l) k =
      (if chain_pos MAX_SESSIONS (hash_session_id k) j < chain_pos MAX_SESSIONS (hash_session_id k) i
       then None else Some a) \<and>
    sm_sessions (session_destroy m l) ! i = Some a"
  by (rule destroy_other_lookup [OF assms])

lemma session_destroy_other_witness:
  "session_get (session_destroy two_sessions 1) 2 = Some 8192"
  using session_destroy_other [OF two_sessions_wf two_sessions_simps(8,6,5)]
  by (simp add: chain_pos_def hash_session_id_def MAX_SESSIONS_def)

text \<open>C36: as long as sessions are only created while every live identifier is within one table length
  of the next one, every live session in the table is found by its identifier, whatever was created and
  destroyed before.\<close>

theorem session_lookup_in_window:
  assumes "sm_reach True m" "i < MAX_SESSIONS" "sm_sessions m ! i = Some a" "sm_heap m a = Some s"
    and "se_active s"
  shows "session_get m (se_id s) = Some a"
proof -
  have "id_at m i = Some (se_id s)" using assms by (simp add: id_at_def)
  with sm_reach_homed [OF assms(1)] assms(2) have "hash_session_id (se_id s) = i" by (simp add: sessions_homed_def)
  with chained_home [of m "se_id s"] have "st.chained m (se_id s) i" by simp
  with assms chained_get [OF sm_reach_wf [OF assms(1)] assms(2-5)] show ?thesis by blast
qed

lemma session_lookup_in_window_witness: "session_get two_sessions 2 = Some 8192"
  using session_lookup_in_window [OF two_sessions_reach _ two_sessions_simps(2,4)]
  by (simp add: new_session_def MAX_SESSIONS_def)

text \<open>C38: the statistics are consistent in every reachable state: \<open>active_sessions\<close> is the number of
  occupied slots, it never exceeds the peak, nor the peak the total, nor the total the identifiers
  given out.\<close>

theorem session_statistics_consistent:
  assumes "sm_reach w m" "session_get_statistics m = (act, tot, pk)"
  shows "unat act = occupied m \<and> act \<le> pk \<and> pk \<le> tot \<and> tot < sm_next m"
  using sm_reach_stats [OF assms(1)] assms(2)
  by (auto simp: stats_ok_def session_get_statistics_def word_le_nat_alt word_less_nat_alt)

lemma session_statistics_consistent_witness:
  "unat (sm_active two_sessions) = occupied two_sessions \<and> sm_active two_sessions \<le> sm_peak two_sessions"
  using session_statistics_consistent [OF two_sessions_reach, of "sm_active two_sessions"
      "sm_total two_sessions" "sm_peak two_sessions"]
  by (simp add: session_get_statistics_def)

section \<open>Shutdown\<close>

text \<open>After \<open>n\<close> turns of the loop the first \<open>n\<close> slots are empty, their blocks are freed and the other
  blocks are as they were.\<close>

lemma destroy_slot_eq:
  assumes "sm_wf m" "i < MAX_SESSIONS" "sm_sessions m ! i = Some a" "sm_heap m a = Some s"
  shows "destroy_slot i m = (destroyed m i a s)\<lparr>sm_active := sm_active m\<rparr>"
  using assms by (simp add: destroy_slot_def destroyed_def)

lemma sm_wf_active [simp]: "sm_wf (m\<lparr>sm_active := n\<rparr>) = sm_wf m"
  by (simp add: sm_wf_def id_at_def cong: option.case_cong)

lemma destroy_slot_wf: "sm_wf m \<Longrightarrow> i < MAX_SESSIONS \<Longrightarrow> sm_wf (destroy_slot i m)"
proof (cases "sm_sessions m ! i")
  case (Some a)
  assume m: "sm_wf m" "i < MAX_SESSIONS"
  with sm_wf_entry Some obtain s where "sm_heap m a = Some s" by blast
  with m Some destroy_slot_eq [OF m Some] destroyed_wf [OF m Some] show ?thesis by simp
qed (simp add: destroy_slot_def)

lemma destroy_slot_sessions:
  "sm_wf m \<Longrightarrow> i < MAX_SESSIONS \<Longrightarrow> sm_sessions (destroy_slot i m) = (sm_sessions m)[i := None]"
  using list_update_id [of "sm_sessions m" i]
  by (cases "sm_sessions m ! i") (auto simp: destroy_slot_def Let_def split: option.split)

definition socket_at :: "SessionManager \<Rightarrow> nat \<Rightarrow> int list" where
  "socket_at m i = (case Option.bind (sm_sessions m ! i) (sm_heap m) of
     None \<Rightarrow> [] | Some s \<Rightarrow> if 0 \<le> se_socket s then [se_socket s] else [])"

lemma destroy_slot_closed:
  assumes "sm_wf m" "i < MAX_SESSIONS"
  shows "sm_closed (destroy_slot i m) = sm_closed m @ socket_at m i"
  by (auto simp: destroy_slot_def socket_at_def Let_def split: option.split)

lemma destroy_slot_other:
  assumes "sm_wf m" "i < MAX_SESSIONS" "j < MAX_SESSIONS" "i \<noteq> j"
  shows "socket_at (destroy_slot i m) j = socket_at m j"
proof (cases "sm_sessions m ! i")
  case (Some a)
  with sm_sessions_inj [OF assms(1-3) Some] assms(4) have "sm_sessions m ! j \<noteq> Some a" by blast
  then show ?thesis using Some assms(4) destroy_slot_sessions [OF assms(1,2)]
    by (cases "sm_sessions m ! j")
      (auto simp: socket_at_def destroy_slot_def Let_def split: option.split)
qed (simp add: destroy_slot_def)

lemma fold_destroy_slot:
  "sm_wf m \<Longrightarrow> n \<le> MAX_SESSIONS \<Longrightarrow>
     sm_wf (fold destroy_slot [0..<n] m) \<and>
     (\<forall>i < n. sm_sessions (fold destroy_slot [0..<n] m) ! i = None) \<and>
     sm_closed (fold destroy_slot [0..<n] m) = sm_closed m @ concat (map (socket_at m) [0..<n]) \<and>
     (\<forall>i < MAX_SESSIONS. n \<le> i \<longrightarrow> socket_at (fold destroy_slot [0..<n] m) i = socket_at m i)"
proof (induction n)
  case (Suc n)
  let ?f = "fold destroy_slot [0..<n] m"
  from Suc have IH: "sm_wf ?f" "\<forall>i < n. sm_sessions ?f ! i = None"
    "sm_closed ?f = sm_closed m @ concat (map (socket_at m) [0..<n])"
    "\<forall>i < MAX_SESSIONS. n \<le> i \<longrightarrow> socket_at ?f i = socket_at m i" and n: "n < MAX_SESSIONS" by auto
  have "sm_closed (destroy_slot n ?f) = sm_closed m @ concat (map (socket_at m) [0..<Suc n])"
    using destroy_slot_closed [OF IH(1) n] IH(3,4) n by simp
  moreover have "socket_at (destroy_slot n ?f) i = socket_at m i" if "i < MAX_SESSIONS" "Suc n \<le> i" for i
    using destroy_slot_other [OF IH(1) n that(1)] IH(4) that by simp
  ultimately show ?case
    using destroy_slot_wf [OF IH(1) n] destroy_slot_sessions [OF IH(1) n] IH(2) n sm_wf_len [OF IH(1)]
    by (auto simp: nth_update_if less_Suc_eq)
qed simp

text \<open>shutdown releases everything: \<open>session_manager_destroy\<close> empties the table, frees every
  session that was allocated, and closes the socket of each session in the table once, in table order,
  and nothing else.\<close>

theorem session_manager_destroy_releases:
  assumes "sm_reach w m"
  shows "(\<forall>i < MAX_SESSIONS. sm_sessions (session_manager_destroy m) ! i = None) \<and>
    sm_heap (session_manager_destroy m) = Map.empty \<and>
    sm_closed (session_manager_destroy m) = sm_closed m @ concat (map (socket_at m) [0..<MAX_SESSIONS])"
proof -
  from fold_destroy_slot [OF sm_reach_wf [OF assms], of MAX_SESSIONS] have
    d: "sm_wf (session_manager_destroy m)"
    "\<forall>i < MAX_SESSIONS. sm_sessions (session_manager_destroy m) ! i = None"
    "sm_closed (session_manager_destroy m) = sm_closed m @ concat (map (socket_at m) [0..<MAX_SESSIONS])"
    by (simp_all add: session_manager_destroy_def)
  have "sm_heap (session_manager_destroy m) a = None" for a
    using sm_wf_owned [OF d(1), of a] d(2) by (metis option.distinct(1))
  with d show ?thesis by auto
qed

lemma session_manager_destroy_releases_witness:
  "sm_heap two_sessions \<noteq> Map.empty \<and> sm_heap (session_manager_destroy two_sessions) = Map.empty"
  using session_manager_destroy_releases [OF two_sessions_reach] two_sessions_simps(3) by auto

section \<open>A session that is lost\<close>

text \<open>A client that connects and disconnects while the slot of its identifier, or a later one, is free.\<close>

definition churn :: "SessionManager \<Rightarrow> SessionManager" where
  "churn m = (let (id, m') = session_create m 9 200 (Some 12288) 0 0 0 in session_destroy m' id)"

lemma churn_table:
  assumes reach: "sm_reach False m" and a: "sm_heap m 12288 = None"
    and n: "unat (sm_next m) < 2 ^ 64 - 1" and free: "j < MAX_SESSIONS" "sm_sessions m ! j = None"
  shows "sm_reach False (churn m) \<and> sm_sessions (churn m) = sm_sessions m \<and>
    sm_heap (churn m) = sm_heap m \<and> sm_next (churn m) = sm_next m + 1"
proof -
  have wf: "sm_wf m" by (rule sm_reach_wf [OF reach])
  have fd: "(0 :: int) \<le> 9" by simp
  show ?thesis
  proof (rule session_create_cases [OF wf fd, of 200 12288])
    assume "\<And>i. i < MAX_SESSIONS \<Longrightarrow> sm_sessions m ! i \<noteq> None"
    with free show ?thesis by blast
  next
    fix i assume i: "i < MAX_SESSIONS" "sm_sessions m ! i = None" "st.chained m (sm_next m) i"
      and c: "session_create m 9 200 (Some 12288) 0 0 0 = (sm_next m, created m i 12288 9 200)"
    let ?m = "created m i 12288 9 200" and ?s = "new_session (sm_next m) 9 200"
    have wf': "sm_wf ?m" by (rule created_wf [OF wf a i(1,2) n])
    have at: "sm_sessions ?m ! i = Some 12288" "sm_heap ?m 12288 = Some ?s"
      using i(1) sm_wf_len [OF wf] by (simp_all add: created_def)
    have "find_slot ?m (sm_next m) = Some i"
      using find_slot_iff [OF wf'] i(1) id_at_created [OF wf a i(1) i(1)] created_chained [OF wf a i(1,3)]
      by simp
    moreover have "sm_next m \<noteq> 0" using wf by (auto simp: sm_wf_def)
    ultimately have "churn m = destroyed ?m i 12288 ?s"
      using session_destroy_found at c by (simp add: churn_def)
    moreover have "sm_reach False (churn m)"
      using sm_reach.destroy [OF sm_reach.create [OF reach, of "Some 12288" 9 200 0 0 0]] a n c
      by (simp add: churn_def)
    moreover have "(sm_sessions m)[i := None] = sm_sessions m"
      using i(2) by (metis list_update_id)
    moreover have "(sm_heap m)(12288 := None) = sm_heap m" using a by (simp add: fun_upd_idem)
    ultimately show ?thesis by (simp add: destroyed_def created_def)
  qed
qed

lemma churn_many:
  assumes "sm_reach False m" "sm_heap m 12288 = None" "j < MAX_SESSIONS" "sm_sessions m ! j = None"
    and "unat (sm_next m) + n < 2 ^ 64"
  shows "sm_reach False ((churn ^^ n) m) \<and> sm_sessions ((churn ^^ n) m) = sm_sessions m \<and>
    sm_heap ((churn ^^ n) m) = sm_heap m \<and> unat (sm_next ((churn ^^ n) m)) = unat (sm_next m) + n"
  using assms(5)
proof (induction n)
  case (Suc n)
  then have IH: "sm_reach False ((churn ^^ n) m)" "sm_sessions ((churn ^^ n) m) = sm_sessions m"
    "sm_heap ((churn ^^ n) m) = sm_heap m" "unat (sm_next ((churn ^^ n) m)) = unat (sm_next m) + n"
    by auto
  have "unat (sm_next ((churn ^^ n) m)) < 2 ^ 64 - 1" using IH(4) Suc.prems by simp
  with churn_table [OF IH(1) _ this assms(3)] IH assms(2,4) unat_next [OF this] show ?case by simp
qed (use assms(1) in simp)

lemma get_None_lost:
  assumes wf: "sm_wf m" and i: "i < MAX_SESSIONS" "sm_sessions m ! i = Some a" "sm_heap m a = Some s"
    "se_active s" and g: "session_get m (se_id s) = None"
  shows "find_slot m (se_id s) = None"
proof (rule ccontr)
  assume "find_slot m (se_id s) \<noteq> None"
  then obtain j where j: "find_slot m (se_id s) = Some j" by blast
  have "id_at m i = Some (se_id s)" using i by (simp add: id_at_def)
  with j find_slot_iff [OF wf, of "se_id s" j] i(1) st.unique_keysD [OF sm_wf_unique [OF wf]]
  have "j = i" by blast
  moreover have "se_id s \<noteq> 0" using sm_wf_entry [OF wf i(1,2)] i(3) by auto
  ultimately show False using session_get_found [OF j _ _ i(3)] i g by simp
qed

text \<open>A reachable state in which session 257 is stored beyond its home slot, which is session 1's.\<close>

lemma collided:
  obtains m i where "sm_reach False m" "i < MAX_SESSIONS" "i \<noteq> 1"
    "sm_sessions m ! i = Some 12288" "sm_heap m 12288 = Some (new_session 257 9 200)"
    "sm_sessions m ! 1 = Some 4096" "sm_heap m 4096 = Some (new_session 1 7 100)"
    "find_slot m 257 = Some i" "find_slot m 1 = Some 1"
proof -
  let ?m = "(churn ^^ 254) two_sessions"
  have t: "sm_heap two_sessions 12288 = None" "sm_sessions two_sessions ! 0 = None"
    "unat (sm_next two_sessions) = 3"
    by (simp_all add: two_sessions_eq created_def fresh_manager_def session_manager_init_def MAX_SESSIONS_def)
  have reach: "sm_reach False ?m" and same: "sm_sessions ?m = sm_sessions two_sessions"
    "sm_heap ?m = sm_heap two_sessions" and nx: "unat (sm_next ?m) = 257"
    using churn_many [OF two_sessions_reach t(1) MAX_SESSIONS_pos t(2), of 254] t(3) by simp_all
  have wf: "sm_wf ?m" by (rule sm_reach_wf [OF reach])
  have nxt: "sm_next ?m = 257" using nx by (simp add: word_unat_eq_iff)
  have old: "sm_sessions ?m ! 1 = Some 4096" "sm_heap ?m 4096 = Some (new_session 1 7 100)"
    using two_sessions_simps same by simp_all
  have a: "sm_heap ?m 12288 = None" using t same by simp
  have n: "unat (sm_next ?m) < 2 ^ 64 - 1" using nx by simp
  have fd: "(0 :: int) \<le> 9" by simp
  have home: "hash_session_id 1 = 1"
    by (simp add: hash_session_id_def MAX_SESSIONS_def)
  obtain i where i: "i < MAX_SESSIONS" "sm_sessions ?m ! i = None" "st.chained ?m 257 i"
    and c: "session_create ?m 9 200 (Some 12288) 0 0 0 = (257, created ?m i 12288 9 200)"
    using session_create_cases [OF wf fd, of 200 12288] same t(2) MAX_SESSIONS_pos nxt by metis
  let ?c = "created ?m i 12288 9 200" and ?s = "new_session 257 9 200"
  have ne: "i \<noteq> 1" using i(2) old(1) by auto
  have wfc: "sm_wf ?c" by (rule created_wf [OF wf a i(1,2) n])
  have at: "sm_sessions ?c ! i = Some 12288" "sm_heap ?c 12288 = Some ?s" "sm_sessions ?c ! 1 = Some 4096"
    "sm_heap ?c 4096 = Some (new_session 1 7 100)"
    using i(1) ne old sm_wf_len [OF wf] nxt by (simp_all add: created_def)
  have one: "1 < MAX_SESSIONS" by (simp add: MAX_SESSIONS_def)
  have id: "id_at ?c i = Some 257" "id_at ?c 1 = Some 1"
    using at by (simp_all add: id_at_def new_session_def)
  have f: "find_slot ?c 257 = Some i" "find_slot ?c 1 = Some 1"
    using find_slot_iff [OF wfc] i(1) id one created_chained [OF wf a i(1,3)] chained_home [of ?c 1] home
    by simp_all
  have "sm_reach False ?c" using sm_reach.create [OF reach, of "Some 12288" 9 200 0 0 0] a n c by simp
  then show thesis using i(1) ne at f by (rule that)
qed

text \<open>C40: after 256 identifiers were given out, a session whose home slot is still taken by an older
  one is stored further on, and it is lost when the older session ends: the manager reaches a state in
  which a session is in the table, allocated, active and counted, but \<open>session_get\<close> does not find it
  (so no worker answers its client) and \<open>session_destroy\<close> of its identifier changes nothing (so its
  memory, socket and slot are never given back).\<close>

theorem session_lost_after_collision:
  "\<exists>m i a s. sm_reach False m \<and> i < MAX_SESSIONS \<and> sm_sessions m ! i = Some a \<and> sm_heap m a = Some s \<and>
     se_active s \<and> session_get m (se_id s) = None \<and> session_destroy m (se_id s) = m"
proof -
  obtain c i where reach: "sm_reach False c" and i: "i < MAX_SESSIONS" "i \<noteq> 1"
    and at: "sm_sessions c ! i = Some 12288" "sm_heap c 12288 = Some (new_session 257 9 200)"
      "sm_sessions c ! 1 = Some 4096" "sm_heap c 4096 = Some (new_session 1 7 100)"
    and f: "find_slot c 257 = Some i" "find_slot c 1 = Some 1"
    by (rule collided)
  let ?s = "new_session 257 9 200"
  have g: "session_get c 257 = Some 12288"
    using session_get_found [OF f(1) _ at(1,2)] by (simp add: new_session_def)
  have "chain_pos MAX_SESSIONS (hash_session_id 257) 1 < chain_pos MAX_SESSIONS (hash_session_id 257) i"
    using i by (auto simp: hash_session_id_def chain_pos_def MAX_SESSIONS_def)
  with destroy_other_lookup [OF sm_reach_wf [OF reach] g f] have lost: "session_get (session_destroy c 1) 257 = None"
    "sm_sessions (session_destroy c 1) ! i = Some 12288" by simp_all
  have d: "session_destroy c 1 = destroyed c 1 4096 (new_session 1 7 100)"
    by (rule session_destroy_found [OF f(2) _ at(3,4)]) simp
  have s: "sm_heap (session_destroy c 1) 12288 = Some ?s" using at(2) by (simp add: d destroyed_def)
  have reach': "sm_reach False (session_destroy c 1)"
    by (rule sm_reach.destroy [OF reach])
  have "find_slot (session_destroy c 1) 257 = None"
    using get_None_lost [OF sm_reach_wf [OF reach'] i(1) lost(2) s] lost(1) by (simp add: new_session_def)
  then have "session_destroy (session_destroy c 1) 257 = session_destroy c 1"
    by (rule session_destroy_missing)
  with reach' i(1) lost s show ?thesis
    by (intro exI [of _ "session_destroy c 1"] exI [of _ i] exI [of _ 12288] exI [of _ ?s])
      (simp add: new_session_def)
qed

end
