(* ===== verification/Database.thy ===== *)
theory Database
  imports Prelude
begin

text \<open>
  \<open>src/auth/database.c\<close>: users, files and quotas in an SQLite database. SQLite is a library: the model
  takes it as a parameter, a record of the calls the code makes, and \<open>SQLite_Laws\<close> states what its
  documentation promises of them. The global handle \<open>db\<close> is the state \<open>'d option\<close> (\<open>None\<close> is \<open>NULL\<close>),
  nullable string arguments are options, \<open>size_t\<close> is a 64-bit word. Every function holds \<open>db_mutex\<close> from
  its first call of the library to its last, so each is one step. A prepared statement lives no longer than
  the function that prepares it: preparing has only a result code.
\<close>

section \<open>The SQLite interface\<close>

text \<open>The statements of the source, in its order: the write-ahead-log pragma, the schema, and the
  statements of the functions below.\<close>

datatype sql =
    Pragma_wal              \<comment> \<open>\<open>PRAGMA journal_mode=WAL\<close>\<close>
  | Schema                  \<comment> \<open>\<open>CREATE TABLE IF NOT EXISTS users, files\<close> and the indices\<close>
  | Insert_user             \<comment> \<open>\<open>INSERT INTO users (username, password_hash) VALUES (?, ?)\<close>\<close>
  | Select_user             \<comment> \<open>\<open>SELECT 1 FROM users WHERE username = ? LIMIT 1\<close>\<close>
  | Select_hash             \<comment> \<open>\<open>SELECT password_hash FROM users WHERE username = ?\<close>\<close>
  | Select_quota            \<comment> \<open>\<open>SELECT quota_used, quota_limit FROM users WHERE username = ?\<close>\<close>
  | Begin                   \<comment> \<open>\<open>BEGIN TRANSACTION\<close>\<close>
  | Select_id               \<comment> \<open>\<open>SELECT id FROM users WHERE username = ?\<close>\<close>
  | Upsert_file             \<comment> \<open>\<open>INSERT INTO files ... ON CONFLICT(user_id, filename) DO UPDATE SET size = excluded.size, ...\<close>\<close>
  | Update_quota            \<comment> \<open>\<open>UPDATE users SET quota_used = (SELECT COALESCE(SUM(size), 0) FROM files WHERE user_id = ?) WHERE id = ?\<close>\<close>
  | Commit                  \<comment> \<open>\<open>COMMIT\<close>\<close>
  | Rollback                \<comment> \<open>\<open>ROLLBACK\<close>\<close>
  | Delete_file             \<comment> \<open>\<open>DELETE FROM files WHERE user_id = ? AND filename = ?\<close>\<close>
  | Select_size             \<comment> \<open>\<open>SELECT f.size FROM files f JOIN users u ON f.user_id = u.id WHERE u.username = ? AND f.filename = ?\<close>\<close>
  | Update_user_quota       \<comment> \<open>the quota update keyed by \<open>username = ?\<close>\<close>

datatype sqlval = SQ_int int | SQ_text string

text \<open>\<open>sqlite3_open_v2\<close> (code and handle), \<open>sqlite3_exec\<close>, \<open>sqlite3_prepare_v2\<close>, \<open>sqlite3_step\<close> with the
  bound parameters (code, columns of the row, handle) and \<open>sqlite3_changes\<close>.\<close>

record 'd sqlite =
  sq_open :: "string \<Rightarrow> int \<times> 'd option"
  sq_exec :: "sql \<Rightarrow> 'd \<Rightarrow> int \<times> 'd"
  sq_prepare :: "sql \<Rightarrow> 'd \<Rightarrow> int"
  sq_step :: "sql \<Rightarrow> sqlval list \<Rightarrow> 'd \<Rightarrow> int \<times> sqlval list \<times> 'd"
  sq_changes :: "'d \<Rightarrow> int"

abbreviation SQLITE_OK :: int where "SQLITE_OK \<equiv> 0"
abbreviation SQLITE_CONSTRAINT :: int where "SQLITE_CONSTRAINT \<equiv> 19"
abbreviation SQLITE_ROW :: int where "SQLITE_ROW \<equiv> 100"
abbreviation SQLITE_DONE :: int where "SQLITE_DONE \<equiv> 101"

text \<open>\<open>sqlite3_column_int64\<close>, \<open>sqlite3_column_int\<close> (the low 32 bits) and \<open>sqlite3_column_text\<close> of a
  column that has the type the schema gives it.\<close>

fun column_int64 :: "sqlval list \<Rightarrow> nat \<Rightarrow> int" where
  "column_int64 cols i = (case cols ! i of SQ_int v \<Rightarrow> v | SQ_text t \<Rightarrow> 0)"

fun column_int :: "sqlval list \<Rightarrow> nat \<Rightarrow> int" where
  "column_int cols i = sint (word_of_int (column_int64 cols i) :: 32 word)"

fun column_text :: "sqlval list \<Rightarrow> nat \<Rightarrow> string" where
  "column_text cols i = (case cols ! i of SQ_text t \<Rightarrow> t | SQ_int v \<Rightarrow> '''')"

section \<open>Opening and closing\<close>

definition db_init :: "'d sqlite \<Rightarrow> string option \<Rightarrow> 'd option \<Rightarrow> int \<times> 'd option" where
  "db_init E db_path db =
     (case db_path of
        None \<Rightarrow> (- 1, db)
      | Some path \<Rightarrow>
          (case sq_open E path of
             (rc, None) \<Rightarrow> (- 1, None)
           | (rc, Some d) \<Rightarrow>
               (if rc \<noteq> SQLITE_OK then (- 1, Some d)
                else let (rc, d) = sq_exec E Pragma_wal d;
                         (rc, d) = sq_exec E Schema d
                     in if rc \<noteq> SQLITE_OK then (- 1, None) else (0, Some d))))"

definition db_close :: "'d option \<Rightarrow> 'd option" where
  "db_close db = (if db \<noteq> None then None else db)"

definition db_get_connection :: "'d option \<Rightarrow> 'd option" where
  "db_get_connection db = db"

section \<open>Users\<close>

definition db_create_user ::
  "'d sqlite \<Rightarrow> string option \<Rightarrow> string option \<Rightarrow> 'd option \<Rightarrow> int \<times> 'd option" where
  "db_create_user E username password_hash db =
     (case (db, username, password_hash) of
        (Some d, Some u, Some h) \<Rightarrow>
          (if sq_prepare E Insert_user d \<noteq> SQLITE_OK then (- 1, Some d)
           else let (rc, cols, d) = sq_step E Insert_user [SQ_text u, SQ_text h] d
                in (if rc = SQLITE_DONE then 0 else if rc = SQLITE_CONSTRAINT then - 2 else - 1, Some d))
      | _ \<Rightarrow> (- 1, db))"

text \<open>The value for \<open>*exists\<close> is \<open>None\<close> when it is not written.\<close>

definition db_user_exists ::
  "'d sqlite \<Rightarrow> string option \<Rightarrow> 'd option \<Rightarrow> int \<times> bool option \<times> 'd option" where
  "db_user_exists E username db =
     (case (db, username) of
        (Some d, Some u) \<Rightarrow>
          (if sq_prepare E Select_user d \<noteq> SQLITE_OK then (- 1, None, Some d)
           else let (rc, cols, d) = sq_step E Select_user [SQ_text u] d
                in (0, Some (rc = SQLITE_ROW), Some d))
      | _ \<Rightarrow> (- 1, None, db))"

definition db_verify_password ::
  "'d sqlite \<Rightarrow> string option \<Rightarrow> string option \<Rightarrow> 'd option \<Rightarrow> int \<times> bool option \<times> 'd option" where
  "db_verify_password E username password_hash db =
     (case (db, username, password_hash) of
        (Some d, Some u, Some h) \<Rightarrow>
          (if sq_prepare E Select_hash d \<noteq> SQLITE_OK then (- 1, None, Some d)
           else let (rc, cols, d) = sq_step E Select_hash [SQ_text u] d
                in if rc = SQLITE_ROW then (0, Some (column_text cols 0 = h), Some d)
                   else (- 2, None, Some d))
      | _ \<Rightarrow> (- 1, None, db))"

definition db_get_user_quota ::
  "'d sqlite \<Rightarrow> string option \<Rightarrow> 'd option \<Rightarrow> int \<times> (u64 \<times> u64) option \<times> 'd option" where
  "db_get_user_quota E username db =
     (case (db, username) of
        (Some d, Some u) \<Rightarrow>
          (if sq_prepare E Select_quota d \<noteq> SQLITE_OK then (- 1, None, Some d)
           else let (rc, cols, d) = sq_step E Select_quota [SQ_text u] d
                in if rc = SQLITE_ROW
                   then (0, Some (word_of_int (column_int64 cols 0), word_of_int (column_int64 cols 1)), Some d)
                   else (- 2, None, Some d))
      | _ \<Rightarrow> (- 1, None, db))"

section \<open>Files\<close>

definition rollback :: "'d sqlite \<Rightarrow> 'd \<Rightarrow> 'd" where
  "rollback E d = snd (sq_exec E Rollback d)"

text \<open>The beginning \<open>db_add_or_update_file\<close> and \<open>db_remove_file\<close> share: open a transaction and look the
  user's id up; \<open>Inl\<close> is the code they return early with, after the rollback.\<close>

definition tx_user_id :: "'d sqlite \<Rightarrow> string \<Rightarrow> 'd \<Rightarrow> (int + int) \<times> 'd" where
  "tx_user_id E username d =
     (let (rc, d) = sq_exec E Begin d
      in if rc \<noteq> SQLITE_OK then (Inl (- 1), d)
      else if sq_prepare E Select_id d \<noteq> SQLITE_OK then (Inl (- 1), rollback E d)
      else let (rc, cols, d) = sq_step E Select_id [SQ_text username] d
      in if rc \<noteq> SQLITE_ROW then (Inl (- 2), rollback E d)
      else (Inr (column_int cols 0), d))"

text \<open>The end they share: update the quota and commit.\<close>

definition tx_quota_commit :: "'d sqlite \<Rightarrow> int \<Rightarrow> 'd \<Rightarrow> int \<times> 'd" where
  "tx_quota_commit E user_id d =
     (if sq_prepare E Update_quota d \<noteq> SQLITE_OK then (- 1, rollback E d)
      else let (rc, cols, d) = sq_step E Update_quota [SQ_int user_id, SQ_int user_id] d
      in if rc \<noteq> SQLITE_DONE then (- 1, rollback E d)
      else let (rc, d) = sq_exec E Commit d
      in if rc \<noteq> SQLITE_OK then (- 1, rollback E d) else (0, d))"

definition db_add_or_update_file ::
  "'d sqlite \<Rightarrow> string option \<Rightarrow> string option \<Rightarrow> u64 \<Rightarrow> 'd option \<Rightarrow> int \<times> 'd option" where
  "db_add_or_update_file E username filename filesize db =
     (case (db, username, filename) of
        (Some d, Some u, Some f) \<Rightarrow>
          (case tx_user_id E u d of
             (Inl err, d) \<Rightarrow> (err, Some d)
           | (Inr user_id, d) \<Rightarrow>
               (if sq_prepare E Upsert_file d \<noteq> SQLITE_OK then (- 1, Some (rollback E d))
                else let (rc, cols, d) =
                           sq_step E Upsert_file [SQ_int user_id, SQ_text f, SQ_int (sint filesize)] d
                in if rc \<noteq> SQLITE_DONE then (- 1, Some (rollback E d))
                else let (rc, d) = tx_quota_commit E user_id d in (rc, Some d)))
      | _ \<Rightarrow> (- 1, db))"

definition db_remove_file ::
  "'d sqlite \<Rightarrow> string option \<Rightarrow> string option \<Rightarrow> 'd option \<Rightarrow> int \<times> 'd option" where
  "db_remove_file E username filename db =
     (case (db, username, filename) of
        (Some d, Some u, Some f) \<Rightarrow>
          (case tx_user_id E u d of
             (Inl err, d) \<Rightarrow> (err, Some d)
           | (Inr user_id, d) \<Rightarrow>
               (if sq_prepare E Delete_file d \<noteq> SQLITE_OK then (- 1, Some (rollback E d))
                else let (rc, cols, d) = sq_step E Delete_file [SQ_int user_id, SQ_text f] d;
                         changes = sq_changes E d
                in if rc \<noteq> SQLITE_DONE then (- 1, Some (rollback E d))
                else if changes = 0 then (- 3, Some (rollback E d))
                else let (rc, d) = tx_quota_commit E user_id d in (rc, Some d)))
      | _ \<Rightarrow> (- 1, db))"

definition db_get_file_size ::
  "'d sqlite \<Rightarrow> string option \<Rightarrow> string option \<Rightarrow> 'd option \<Rightarrow> int \<times> u64 option \<times> 'd option" where
  "db_get_file_size E username filename db =
     (case (db, username, filename) of
        (Some d, Some u, Some f) \<Rightarrow>
          (if sq_prepare E Select_size d \<noteq> SQLITE_OK then (- 1, None, Some d)
           else let (rc, cols, d) = sq_step E Select_size [SQ_text u, SQ_text f] d
                in if rc = SQLITE_ROW then (0, Some (word_of_int (column_int64 cols 0)), Some d)
                   else (- 2, None, Some d))
      | _ \<Rightarrow> (- 1, None, db))"

section \<open>Quotas\<close>

text \<open>The sum is a \<open>size_t\<close> and wraps.\<close>

definition db_check_quota ::
  "'d sqlite \<Rightarrow> string option \<Rightarrow> u64 \<Rightarrow> 'd option \<Rightarrow> int \<times> bool option \<times> 'd option" where
  "db_check_quota E username additional_bytes db =
     (if db = None \<or> username = None then (- 1, None, db)
      else case db_get_user_quota E username db of
        (result, Some (quota_used, quota_limit), db) \<Rightarrow>
          if result \<noteq> 0 then (result, None, db)
          else (0, Some (quota_used + additional_bytes \<le> quota_limit), db)
      | (result, None, db) \<Rightarrow> (result, None, db))"

definition db_update_user_quota :: "'d sqlite \<Rightarrow> string option \<Rightarrow> 'd option \<Rightarrow> int \<times> 'd option" where
  "db_update_user_quota E username db =
     (case (db, username) of
        (Some d, Some u) \<Rightarrow>
          (if sq_prepare E Update_user_quota d \<noteq> SQLITE_OK then (- 1, Some d)
           else let (rc, cols, d) = sq_step E Update_user_quota [SQ_text u] d
                in (if rc = SQLITE_DONE then 0 else - 1, Some d))
      | _ \<Rightarrow> (- 1, db))"

end
