(* ===== verification/SQLite_Laws.thy ===== *)
theory SQLite_Laws
  imports Database
begin

text \<open>
  What the code relies on SQLite for, as a locale over the database a handle shows: two tables and, while
  a transaction is open, the tables as they were at its beginning. The laws are SQLite's documented
  behaviour: a \<open>SELECT\<close> answers from the tables and changes nothing, an update that ends in \<open>SQLITE_DONE\<close>
  had its effect, any other code means that the statement had none (and that SQLite may have rolled the
  transaction back), and \<open>BEGIN\<close>, \<open>COMMIT\<close> and \<open>ROLLBACK\<close> open, keep and undo a transaction when they return
  \<open>SQLITE_OK\<close>. Every call may fail, \<open>ROLLBACK\<close> too: then the transaction may be open still. A new user gets an id above
  all earlier ones; SQLite may leave gaps. The last section has an executable engine with scripted faults that satisfies the laws.
  Columns the program never reads (\<open>created_at\<close>, \<open>timestamp\<close>) are left out of the rows.
\<close>

section \<open>Tables\<close>

record user_row =
  u_id :: int
  u_name :: string
  u_hash :: string
  u_used :: int
  u_limit :: int

record file_row =
  f_user :: int
  f_name :: string
  f_size :: int

record store =
  st_users :: "user_row list"
  st_files :: "file_row list"
  st_seq :: int   \<comment> \<open>the largest id \<open>users\<close> ever had (\<open>AUTOINCREMENT\<close>)\<close>

record dbview =
  dv_store :: store
  dv_saved :: "store option"

definition DEFAULT_QUOTA_LIMIT :: int where
  "DEFAULT_QUOTA_LIMIT = 104857600"

definition user_named :: "string \<Rightarrow> store \<Rightarrow> user_row option" where
  "user_named u s = find (\<lambda>r. u_name r = u) (st_users s)"

definition file_named :: "int \<Rightarrow> string \<Rightarrow> store \<Rightarrow> file_row option" where
  "file_named uid f s = find (\<lambda>r. f_user r = uid \<and> f_name r = f) (st_files s)"

text \<open>\<open>COALESCE(SUM(size), 0)\<close> over the files of a user.\<close>

definition used_by :: "int \<Rightarrow> store \<Rightarrow> int" where
  "used_by uid s = sum_list (map f_size (filter (\<lambda>r. f_user r = uid) (st_files s)))"

section \<open>What the statements mean\<close>

text \<open>The row a \<open>SELECT\<close> yields, if there is one; the parameters are read as the columns are.\<close>

definition select_row :: "sql \<Rightarrow> sqlval list \<Rightarrow> store \<Rightarrow> sqlval list option" where
  "select_row q ps s =
     (let user = user_named (column_text ps 0) s in
      case q of
        Select_user \<Rightarrow> map_option (\<lambda>r. [SQ_int 1]) user
      | Select_hash \<Rightarrow> map_option (\<lambda>r. [SQ_text (u_hash r)]) user
      | Select_quota \<Rightarrow> map_option (\<lambda>r. [SQ_int (u_used r), SQ_int (u_limit r)]) user
      | Select_id \<Rightarrow> map_option (\<lambda>r. [SQ_int (u_id r)]) user
      | Select_size \<Rightarrow>
          Option.bind user (\<lambda>r. map_option (\<lambda>q. [SQ_int (f_size q)]) (file_named (u_id r) (column_text ps 1) s))
      | _ \<Rightarrow> None)"

text \<open>The tables after an update; \<open>None\<close> is a violated constraint. A new user gets the id \<open>i\<close>.\<close>

definition set_quota :: "(user_row \<Rightarrow> bool) \<Rightarrow> (user_row \<Rightarrow> int) \<Rightarrow> store \<Rightarrow> store" where
  "set_quota P q s = s\<lparr>st_users := map (\<lambda>r. if P r then r\<lparr>u_used := q r\<rparr> else r) (st_users s)\<rparr>"

definition put_file :: "int \<Rightarrow> string \<Rightarrow> int \<Rightarrow> store \<Rightarrow> store" where
  "put_file uid f n s =
     (if file_named uid f s = None
      then s\<lparr>st_files := st_files s @ [\<lparr>f_user = uid, f_name = f, f_size = n\<rparr>]\<rparr>
      else s\<lparr>st_files := map (\<lambda>r. if f_user r = uid \<and> f_name r = f then r\<lparr>f_size := n\<rparr> else r)
             (st_files s)\<rparr>)"

definition delete_file :: "int \<Rightarrow> string \<Rightarrow> store \<Rightarrow> store" where
  "delete_file uid f s =
     s\<lparr>st_files := filter (\<lambda>r. \<not> (f_user r = uid \<and> f_name r = f)) (st_files s)\<rparr>"

definition new_user :: "int \<Rightarrow> string \<Rightarrow> string \<Rightarrow> user_row" where
  "new_user i u h = \<lparr>u_id = i, u_name = u, u_hash = h, u_used = 0, u_limit = DEFAULT_QUOTA_LIMIT\<rparr>"

definition sql_effect :: "int \<Rightarrow> sql \<Rightarrow> sqlval list \<Rightarrow> store \<Rightarrow> store option" where
  "sql_effect i q ps s = (case q of
     Insert_user \<Rightarrow>
       (if user_named (column_text ps 0) s = None
        then Some (s\<lparr>st_users := st_users s @ [new_user i (column_text ps 0) (column_text ps 1)], st_seq := i\<rparr>)
        else None)
   | Upsert_file \<Rightarrow> Some (put_file (column_int64 ps 0) (column_text ps 1) (column_int64 ps 2) s)
   | Update_quota \<Rightarrow> Some (set_quota (\<lambda>r. u_id r = column_int64 ps 1) (\<lambda>r. used_by (column_int64 ps 0) s) s)
   | Delete_file \<Rightarrow> Some (delete_file (column_int64 ps 0) (column_text ps 1) s)
   | Update_user_quota \<Rightarrow> Some (set_quota (\<lambda>r. u_name r = column_text ps 0) (\<lambda>r. used_by (u_id r) s) s)
   | _ \<Rightarrow> None)"

lemmas statement_defs = select_row_def sql_effect_def

definition is_select :: "sql \<Rightarrow> bool" where
  "is_select q \<longleftrightarrow> q \<in> {Select_user, Select_hash, Select_quota, Select_id, Select_size}"

definition is_update :: "sql \<Rightarrow> bool" where
  "is_update q \<longleftrightarrow> q \<in> {Insert_user, Upsert_file, Update_quota, Delete_file, Update_user_quota}"

lemma is_select_simps [simp]:
  "is_select Select_user" "is_select Select_hash" "is_select Select_quota" "is_select Select_id"
  "is_select Select_size" and is_update_simps [simp]: "is_update Insert_user" "is_update Upsert_file"
  "is_update Update_quota" "is_update Delete_file" "is_update Update_user_quota"
  by (simp_all add: is_select_def is_update_def)

text \<open>A rollback, with or without a transaction.\<close>

definition undo :: "dbview \<Rightarrow> dbview" where
  "undo v = (case dv_saved v of None \<Rightarrow> v | Some s \<Rightarrow> \<lparr>dv_store = s, dv_saved = None\<rparr>)"

lemma undo_idle [simp]: "dv_saved v = None \<Longrightarrow> undo v = v"
  by (simp add: undo_def)

lemma undo_idem [simp]: "undo (undo v) = undo v"
  by (simp add: undo_def split: option.split)

text \<open>The tables in the database file.\<close>

definition committed :: "dbview \<Rightarrow> store" where
  "committed v = dv_store (undo v)"

lemma committed_idle [simp]: "dv_saved v = None \<Longrightarrow> committed v = dv_store v"
  by (simp add: committed_def)

lemma committed_undo [simp]: "committed (undo v) = committed v"
  by (simp add: committed_def)

text \<open>The handle a failed \<open>ROLLBACK\<close> leaves, and the handle after an attempt to give up a transaction that began with
  the tables \<open>s\<close>: they are back, or the \<open>ROLLBACK\<close> failed and the transaction is open.\<close>

definition rollback_failed :: "'d sqlite \<Rightarrow> 'd \<Rightarrow> bool" where
  "rollback_failed E d \<longleftrightarrow> (\<exists>e rc. sq_exec E Rollback e = (rc, d) \<and> rc \<noteq> SQLITE_OK)"

definition given_up :: "'d sqlite \<Rightarrow> ('d \<Rightarrow> dbview) \<Rightarrow> store \<Rightarrow> 'd \<Rightarrow> bool" where
  "given_up E view s d \<longleftrightarrow> view d = \<lparr>dv_store = s, dv_saved = None\<rparr> \<or> rollback_failed E d \<and> dv_saved (view d) = Some s"

lemma undo_saved: "dv_saved v = Some s \<Longrightarrow> undo v = \<lparr>dv_store = s, dv_saved = None\<rparr>"
  by (simp add: undo_def)

section \<open>The laws\<close>

locale sqlite_engine =
  fixes E :: "'d sqlite" and view :: "'d \<Rightarrow> dbview"
  assumes begin_ok: "sq_exec E Begin d = (SQLITE_OK, d') \<Longrightarrow>
      dv_saved (view d) = None \<and> view d' = (view d)\<lparr>dv_saved := Some (dv_store (view d))\<rparr>"
    and begin_fails: "sq_exec E Begin d = (rc, d') \<Longrightarrow> rc \<noteq> SQLITE_OK \<Longrightarrow> view d' = view d"
    and commit_ok: "sq_exec E Commit d = (SQLITE_OK, d') \<Longrightarrow> view d' = (view d)\<lparr>dv_saved := None\<rparr>"
    and commit_fails: "sq_exec E Commit d = (rc, d') \<Longrightarrow> rc \<noteq> SQLITE_OK \<Longrightarrow>
      view d' = view d \<or> view d' = undo (view d)"
    and rollback_ok: "sq_exec E Rollback d = (SQLITE_OK, d') \<Longrightarrow> view d' = undo (view d)"
    and rollback_fails: "sq_exec E Rollback d = (rc, d') \<Longrightarrow> rc \<noteq> SQLITE_OK \<Longrightarrow>
      view d' = view d \<or> view d' = undo (view d)"
    and select_row: "is_select q \<Longrightarrow> sq_step E q ps d = (SQLITE_ROW, cols, d') \<Longrightarrow>
      select_row q ps (dv_store (view d)) = Some cols \<and> view d' = view d"
    and select_done: "is_select q \<Longrightarrow> sq_step E q ps d = (SQLITE_DONE, cols, d') \<Longrightarrow>
      select_row q ps (dv_store (view d)) = None \<and> view d' = view d"
    and update_done: "is_update q \<Longrightarrow> sq_step E q ps d = (SQLITE_DONE, cols, d') \<Longrightarrow>
      \<exists>i s. st_seq (dv_store (view d)) < i \<and> sql_effect i q ps (dv_store (view d)) = Some s \<and>
        view d' = (view d)\<lparr>dv_store := s\<rparr>"
    and constraint: "is_update q \<Longrightarrow> sq_step E q ps d = (SQLITE_CONSTRAINT, cols, d') \<Longrightarrow>
      (\<forall>i. sql_effect i q ps (dv_store (view d)) = None) \<and> view d' = view d"
    and step_fails: "is_select q \<or> is_update q \<Longrightarrow> sq_step E q ps d = (rc, cols, d') \<Longrightarrow>
      rc \<noteq> SQLITE_ROW \<Longrightarrow> rc \<noteq> SQLITE_DONE \<Longrightarrow> view d' = view d \<or> view d' = undo (view d)"
    and no_row: "is_update q \<Longrightarrow> fst (sq_step E q ps d) \<noteq> SQLITE_ROW"
    and changes: "sq_step E Delete_file [SQ_int uid, SQ_text f] d = (SQLITE_DONE, cols, d') \<Longrightarrow>
      (sq_changes E d' = 0 \<longleftrightarrow> file_named uid f (dv_store (view d)) = None)"
begin

text \<open>Outside a transaction a \<open>SELECT\<close> never changes anything, inside one it can at most lose it.\<close>

lemma select_keeps:
  "is_select q \<Longrightarrow> sq_step E q ps d = (rc, cols, d') \<Longrightarrow> view d' = view d \<or> view d' = undo (view d)"
  by (cases "rc = SQLITE_ROW"; cases "rc = SQLITE_DONE") (use select_row select_done step_fails in blast)+

lemma update_fails:
  "is_update q \<Longrightarrow> sq_step E q ps d = (rc, cols, d') \<Longrightarrow> rc \<noteq> SQLITE_DONE \<Longrightarrow>
     view d' = view d \<or> view d' = undo (view d)"
  using step_fails no_row by (metis fst_conv)

lemma rollback_gives_up:
  assumes "undo (view d) = \<lparr>dv_store = s, dv_saved = None\<rparr>"
  shows "given_up E view s (rollback E d)"
proof -
  obtain rc d' where r: "sq_exec E Rollback d = (rc, d')" by fastforce
  show ?thesis
  proof (cases "rc = SQLITE_OK")
    case True
    with rollback_ok r assms show ?thesis by (simp add: given_up_def rollback_def)
  next
    case False
    then have "rollback_failed E d'" using r unfolding rollback_failed_def by blast
    with rollback_fails [OF r False] assms r show ?thesis
      by (cases "dv_saved (view d)") (auto simp: given_up_def rollback_def undo_def)
  qed
qed

lemma failed_step_gives_up:
  "dv_saved (view d) = Some s \<Longrightarrow> view d' = view d \<or> view d' = undo (view d) \<Longrightarrow> given_up E view s (rollback E d')"
  by (rule rollback_gives_up) (auto simp: undo_saved)

end

section \<open>An engine\<close>

text \<open>A handle is a view, the codes the next calls are to fail with (0 where a call is to succeed, and
  succeed when the script is used up), whether a failing step loses the transaction, and the count of the
  last change.\<close>

record ref_db =
  rd_view :: dbview
  rd_faults :: "int list"
  rd_drops :: bool
  rd_changes :: int

definition ref_fault :: "ref_db \<Rightarrow> int \<times> ref_db" where
  "ref_fault d = (case rd_faults d of [] \<Rightarrow> (0, d) | c # cs \<Rightarrow> (c, d\<lparr>rd_faults := cs\<rparr>))"

text \<open>A scripted code that would mean success or a violated constraint is taken as an I/O error.\<close>

definition fault_code :: "int \<Rightarrow> int" where
  "fault_code c = (if c \<in> {0, 19, 100, 101} then 10 else c)"

definition ref_exec :: "sql \<Rightarrow> ref_db \<Rightarrow> int \<times> ref_db" where
  "ref_exec q d =
     (let v = rd_view d in
      let (c, d) = ref_fault d in
      if c \<noteq> 0 then (fault_code c, d)
      else if q = Begin then
        (if dv_saved v = None then (0, d\<lparr>rd_view := v\<lparr>dv_saved := Some (dv_store v)\<rparr>\<rparr>) else (1, d))
      else if q = Commit then (if dv_saved v = None then (1, d) else (0, d\<lparr>rd_view := v\<lparr>dv_saved := None\<rparr>\<rparr>))
      else if q = Rollback then (if dv_saved v = None then (1, d) else (0, d\<lparr>rd_view := undo v\<rparr>))
      else (0, d))"

definition ref_step :: "sql \<Rightarrow> sqlval list \<Rightarrow> ref_db \<Rightarrow> int \<times> sqlval list \<times> ref_db" where
  "ref_step q ps d =
     (let (c, d) = ref_fault d; v = rd_view d in
      if c \<noteq> 0 then (fault_code c, [], if rd_drops d then d\<lparr>rd_view := undo v\<rparr> else d)
      else if is_select q then
        (case select_row q ps (dv_store v) of
           None \<Rightarrow> (101, [], d) | Some cols \<Rightarrow> (100, cols, d))
      else
        (case sql_effect (st_seq (dv_store v) + 1) q ps (dv_store v) of
           None \<Rightarrow> (19, [], d)
         | Some s \<Rightarrow> (101, [], d\<lparr>rd_view := v\<lparr>dv_store := s\<rparr>,
             rd_changes := int (length (st_files (dv_store v))) - int (length (st_files s))\<rparr>)))"

definition empty_store :: store where
  "empty_store = \<lparr>st_users = [], st_files = [], st_seq = 0\<rparr>"

definition ref_engine :: "ref_db sqlite" where
  "ref_engine = \<lparr>
     sq_open = (\<lambda>p. (0, Some \<lparr>rd_view = \<lparr>dv_store = empty_store, dv_saved = None\<rparr>, rd_faults = [],
                              rd_drops = False, rd_changes = 0\<rparr>)),
     sq_exec = ref_exec,
     sq_prepare = (\<lambda>q d. 0),
     sq_step = ref_step,
     sq_changes = rd_changes\<rparr>"

lemma ref_fault_view [simp]:
  "ref_fault d = (c, d') \<Longrightarrow> rd_view d' = rd_view d \<and> rd_drops d' = rd_drops d"
  by (auto simp: ref_fault_def split: list.splits)

lemma fault_code_simps [simp]:
  "fault_code c \<noteq> 0" "fault_code c \<noteq> 19" "fault_code c \<noteq> 100" "fault_code c \<noteq> 101"
  by (auto simp: fault_code_def)

lemma select_not_update: "is_select q \<Longrightarrow> \<not> is_update q"
  by (auto simp: is_select_def is_update_def)

lemma ref_exec_outcome:
  assumes "ref_exec q d = (rc, d')"
  obtains "rc \<noteq> 0" "rd_view d' = rd_view d"
  | "rc = 0" "q = Begin" "dv_saved (rd_view d) = None"
      "rd_view d' = (rd_view d)\<lparr>dv_saved := Some (dv_store (rd_view d))\<rparr>"
  | "rc = 0" "q = Commit" "rd_view d' = (rd_view d)\<lparr>dv_saved := None\<rparr>"
  | "rc = 0" "q = Rollback" "rd_view d' = undo (rd_view d)"
  | "rc = 0" "q \<noteq> Begin" "q \<noteq> Commit" "q \<noteq> Rollback" "rd_view d' = rd_view d"
proof -
  obtain c e where f: "ref_fault d = (c, e)" by fastforce
  show thesis
    by (cases "c = 0"; cases "q = Begin"; cases "q = Commit"; cases "q = Rollback"; cases "dv_saved (rd_view d) = None")
      (use assms f ref_fault_view [OF f] that in \<open>auto simp: ref_exec_def Let_def\<close>)
qed

lemma ref_step_outcome:
  assumes "ref_step q ps d = (rc, cols, d')"
  obtains (fault) "rc \<notin> {0, 19, 100, 101}" "rd_view d' = rd_view d \<or> rd_view d' = undo (rd_view d)"
  | (row) "is_select q" "rc = 100" "select_row q ps (dv_store (rd_view d)) = Some cols" "rd_view d' = rd_view d"
  | (no_row) "is_select q" "rc = 101" "select_row q ps (dv_store (rd_view d)) = None" "rd_view d' = rd_view d"
  | (violated) "\<not> is_select q" "rc = 19" "sql_effect (st_seq (dv_store (rd_view d)) + 1) q ps (dv_store (rd_view d)) = None" "rd_view d' = rd_view d"
  | (changed) s where "\<not> is_select q" "rc = 101" "sql_effect (st_seq (dv_store (rd_view d)) + 1) q ps (dv_store (rd_view d)) = Some s"
      "rd_view d' = (rd_view d)\<lparr>dv_store := s\<rparr>"
      "rd_changes d' = int (length (st_files (dv_store (rd_view d)))) - int (length (st_files s))"
proof -
  obtain c e where f: "ref_fault d = (c, e)" by fastforce
  note eq = assms [unfolded ref_step_def Let_def f prod.case] and v = ref_fault_view [OF f]
  consider "c \<noteq> 0" | "c = 0" "is_select q" | "c = 0" "\<not> is_select q" by blast
  then show thesis
  proof cases
    case 1
    with eq v fault show thesis by (auto split: if_splits)
  next
    case 2
    with eq v row no_row show thesis by (simp split: option.splits)
  next
    case 3
    with eq v violated changed show thesis by (auto split: option.splits)
  qed
qed

lemma delete_file_changes:
  "int (length (st_files s)) - int (length (st_files (delete_file uid f s))) = 0 \<longleftrightarrow>
     file_named uid f s = None"
proof -
  have "length (filter P xs) = length xs \<longleftrightarrow> (\<forall>x \<in> set xs. P x)" for P and xs :: "file_row list"
    by (metis filter_True length_filter_less linorder_neq_iff)
  then have "length (st_files (delete_file uid f s)) = length (st_files s) \<longleftrightarrow> file_named uid f s = None"
    by (auto simp: delete_file_def file_named_def find_None_iff)
  then show ?thesis by linarith
qed

lemma ref_engine_simps [simp]:
  "sq_exec ref_engine = ref_exec" "sq_step ref_engine = ref_step" "sq_prepare ref_engine q d = 0"
  "sq_changes ref_engine = rd_changes"
  by (simp_all add: ref_engine_def)

interpretation ref: sqlite_engine ref_engine rd_view
proof unfold_locales
  fix d d' assume "sq_exec ref_engine Begin d = (SQLITE_OK, d')"
  then show "dv_saved (rd_view d) = None \<and> rd_view d' = (rd_view d)\<lparr>dv_saved := Some (dv_store (rd_view d))\<rparr>"
    by (auto elim: ref_exec_outcome)
next
  fix d rc d' assume "sq_exec ref_engine Begin d = (rc, d')" "rc \<noteq> SQLITE_OK"
  then show "rd_view d' = rd_view d" by (auto elim: ref_exec_outcome)
next
  fix d d' assume "sq_exec ref_engine Commit d = (SQLITE_OK, d')"
  then show "rd_view d' = (rd_view d)\<lparr>dv_saved := None\<rparr>" by (auto elim: ref_exec_outcome)
next
  fix d rc d' assume "sq_exec ref_engine Commit d = (rc, d')" "rc \<noteq> SQLITE_OK"
  then show "rd_view d' = rd_view d \<or> rd_view d' = undo (rd_view d)" by (auto elim: ref_exec_outcome)
next
  fix d d' assume "sq_exec ref_engine Rollback d = (SQLITE_OK, d')"
  then show "rd_view d' = undo (rd_view d)" by (auto elim: ref_exec_outcome)
next
  fix d rc d' assume "sq_exec ref_engine Rollback d = (rc, d')" "rc \<noteq> SQLITE_OK"
  then show "rd_view d' = rd_view d \<or> rd_view d' = undo (rd_view d)" by (auto elim: ref_exec_outcome)
next
  fix q ps d cols d' assume "is_select q" "sq_step ref_engine q ps d = (SQLITE_ROW, cols, d')"
  then show "select_row q ps (dv_store (rd_view d)) = Some cols \<and> rd_view d' = rd_view d"
    by (auto elim: ref_step_outcome)
next
  fix q ps d cols d' assume "is_select q" "sq_step ref_engine q ps d = (SQLITE_DONE, cols, d')"
  then show "select_row q ps (dv_store (rd_view d)) = None \<and> rd_view d' = rd_view d"
    by (auto elim: ref_step_outcome)
next
  fix q ps d cols d' assume "is_update q" "sq_step ref_engine q ps d = (SQLITE_DONE, cols, d')"
  then have "\<exists>s. sql_effect (st_seq (dv_store (rd_view d)) + 1) q ps (dv_store (rd_view d)) = Some s \<and>
      rd_view d' = (rd_view d)\<lparr>dv_store := s\<rparr>"
    by (auto elim: ref_step_outcome dest: select_not_update)
  then show "\<exists>i s. st_seq (dv_store (rd_view d)) < i \<and> sql_effect i q ps (dv_store (rd_view d)) = Some s \<and>
      rd_view d' = (rd_view d)\<lparr>dv_store := s\<rparr>" using less_add_one by blast
next
  fix q ps d cols d' assume "is_update q" "sq_step ref_engine q ps d = (SQLITE_CONSTRAINT, cols, d')"
  then have "sql_effect (st_seq (dv_store (rd_view d)) + 1) q ps (dv_store (rd_view d)) = None" "rd_view d' = rd_view d"
    by (auto elim: ref_step_outcome)
  moreover have "sql_effect i q ps s = None" if "sql_effect k q ps s = None" for i k and s :: store
    using that by (cases q) (auto simp: sql_effect_def split: if_splits)
  ultimately show "(\<forall>i. sql_effect i q ps (dv_store (rd_view d)) = None) \<and> rd_view d' = rd_view d" by blast
next
  fix q ps d rc cols d'
  assume "sq_step ref_engine q ps d = (rc, cols, d')" "rc \<noteq> SQLITE_ROW" "rc \<noteq> SQLITE_DONE"
  then show "rd_view d' = rd_view d \<or> rd_view d' = undo (rd_view d)" by (auto elim: ref_step_outcome)
next
  fix q ps d assume u: "is_update q"
  obtain rc cols d' where r: "ref_step q ps d = (rc, cols, d')" by (metis prod_cases3)
  then have "rc \<noteq> SQLITE_ROW"
    by (rule ref_step_outcome) (use u in \<open>auto dest: select_not_update\<close>)
  with r show "fst (sq_step ref_engine q ps d) \<noteq> SQLITE_ROW" by simp
next
  fix uid f d cols d'
  assume "sq_step ref_engine Delete_file [SQ_int uid, SQ_text f] d = (SQLITE_DONE, cols, d')"
  then have "ref_step Delete_file [SQ_int uid, SQ_text f] d = (SQLITE_DONE, cols, d')" by simp
  then have "rd_changes d' = int (length (st_files (dv_store (rd_view d)))) -
       int (length (st_files (delete_file uid f (dv_store (rd_view d)))))"
    by (rule ref_step_outcome) (simp_all only: is_select_def sql_effect_def sql.simps, simp_all)
  then show "(sq_changes ref_engine d' = 0) = (file_named uid f (dv_store (rd_view d)) = None)"
    by (simp only: ref_engine_simps delete_file_changes)
qed

end
