(* ===== verification/Database_Spec.thy ===== *)
theory Database_Spec
  imports SQLite_Laws
begin

text \<open>
  What the database functions promise over any engine that keeps the laws of SQLite: each of the two
  transactions takes its whole effect or none on every path, or the \<open>ROLLBACK\<close> fails that ends it; the stored
  quota is always the sum of the stored sizes, and what was stored is what is read.
\<close>

section \<open>Well-formed tables\<close>

text \<open>Ids are distinct, positive and fit a C \<open>int\<close>; names are unique; files belong to ids that were given
  out and are unique per user and name; the used quota is the sum of the file sizes.\<close>

definition store_wf :: "store \<Rightarrow> bool" where
  "store_wf s \<longleftrightarrow> distinct (map u_id (st_users s)) \<and> distinct (map u_name (st_users s)) \<and>
     (\<forall>r \<in> set (st_users s). 0 < u_id r \<and> u_id r \<le> st_seq s \<and> u_used r = used_by (u_id r) s) \<and>
     0 \<le> st_seq s \<and> st_seq s < 2 ^ 31 \<and>
     distinct (map (\<lambda>r. (f_user r, f_name r)) (st_files s)) \<and>
     (\<forall>r \<in> set (st_files s). f_user r \<le> st_seq s)"

lemma user_named_Some: "user_named u s = Some r \<Longrightarrow> r \<in> set (st_users s) \<and> u_name r = u"
  by (auto simp: user_named_def find_Some_iff)

lemma user_named_None: "user_named u s = None \<longleftrightarrow> (\<forall>r \<in> set (st_users s). u_name r \<noteq> u)"
  by (auto simp: user_named_def find_None_iff)

lemma file_named_Some: "file_named i f s = Some r \<Longrightarrow> r \<in> set (st_files s) \<and> f_user r = i \<and> f_name r = f"
  by (auto simp: file_named_def find_Some_iff)

lemma file_named_None: "file_named i f s = None \<longleftrightarrow> (\<forall>r \<in> set (st_files s). \<not> (f_user r = i \<and> f_name r = f))"
  by (auto simp: file_named_def find_None_iff)

text \<open>An id that fits an \<open>int\<close> survives \<open>sqlite3_column_int\<close>.\<close>

lemma column_int_id:
  assumes "- (2 ^ 31) \<le> i" "i < 2 ^ 31"
  shows "column_int [SQ_int i] 0 = i"
proof -
  have "signed_take_bit 31 i = i" by (rule signed_take_bit_int_eq_self) (use assms in simp_all)
  then show ?thesis by (simp add: sint_sbintrunc')
qed

lemma user_id_int: "store_wf s \<Longrightarrow> user_named u s = Some r \<Longrightarrow> column_int [SQ_int (u_id r)] 0 = u_id r"
  by (rule column_int_id) (auto simp: store_wf_def dest!: user_named_Some)

section \<open>The updates on tables\<close>

text \<open>Refreshing a user's quota, and the two transactions as functions of the tables.\<close>

definition refresh :: "int \<Rightarrow> store \<Rightarrow> store" where
  "refresh i s = set_quota (\<lambda>r. u_id r = i) (\<lambda>r. used_by i s) s"

definition add_file :: "string \<Rightarrow> string \<Rightarrow> int \<Rightarrow> store \<Rightarrow> store option" where
  "add_file u f n s = map_option (\<lambda>r. refresh (u_id r) (put_file (u_id r) f n s)) (user_named u s)"

definition remove_file :: "string \<Rightarrow> string \<Rightarrow> store \<Rightarrow> store option" where
  "remove_file u f s = Option.bind (user_named u s)
     (\<lambda>r. if file_named (u_id r) f s = None then None
          else Some (refresh (u_id r) (delete_file (u_id r) f s)))"

lemma refresh_simps [simp]:
  "st_files (refresh i s) = st_files s" "st_seq (refresh i s) = st_seq s"
  "used_by j (refresh i s) = used_by j s" "file_named j f (refresh i s) = file_named j f s"
  "map u_id (st_users (refresh i s)) = map u_id (st_users s)"
  "map u_name (st_users (refresh i s)) = map u_name (st_users s)"
  by (auto simp: refresh_def set_quota_def used_by_def file_named_def comp_def cong: if_cong)

lemma put_file_simps [simp]:
  "st_users (put_file i f n s) = st_users s" "st_seq (put_file i f n s) = st_seq s"
  by (simp_all add: put_file_def)

lemma delete_file_simps [simp]:
  "st_users (delete_file i f s) = st_users s" "st_seq (delete_file i f s) = st_seq s"
  by (simp_all add: delete_file_def)

lemma used_by_put: "i \<noteq> j \<Longrightarrow> used_by j (put_file i f n s) = used_by j s"
proof -
  assume "i \<noteq> j"
  then have "map f_size (filter (\<lambda>r. f_user r = j)
      (map (\<lambda>r. if f_user r = i \<and> f_name r = f then r\<lparr>f_size := n\<rparr> else r) xs))
    = map f_size (filter (\<lambda>r. f_user r = j) xs)" for xs
    by (induction xs) auto
  from this [of "st_files s"] \<open>i \<noteq> j\<close> show ?thesis
    unfolding used_by_def put_file_def by (cases "file_named i f s = None") (simp_all del: map_map)
qed

lemma used_by_delete: "i \<noteq> j \<Longrightarrow> used_by j (delete_file i f s) = used_by j s"
proof -
  assume "i \<noteq> j"
  then have "filter (\<lambda>r. f_user r = j) (filter (\<lambda>r. \<not> (f_user r = i \<and> f_name r = f)) xs)
    = filter (\<lambda>r. f_user r = j) xs" for xs
    by (induction xs) auto
  from this [of "st_files s"] show ?thesis by (simp add: used_by_def delete_file_def del: filter_filter)
qed

lemma map_key_put:
  "map (\<lambda>r. (f_user r, f_name r)) (map (\<lambda>r. if P r then r\<lparr>f_size := n\<rparr> else r) xs)
     = map (\<lambda>r. (f_user r, f_name r)) xs"
  by (induction xs) auto

lemma distinct_put:
  "distinct (map (\<lambda>r. (f_user r, f_name r)) (st_files s)) \<Longrightarrow>
     distinct (map (\<lambda>r. (f_user r, f_name r)) (st_files (put_file i f n s)))"
  by (auto simp: put_file_def map_key_put file_named_None simp del: map_map)

lemma files_owned_put:
  "r \<in> set (st_files (put_file i f n s)) \<Longrightarrow> f_user r = i \<or> (\<exists>q \<in> set (st_files s). f_user q = f_user r)"
  by (auto simp: put_file_def split: if_splits)

text \<open>Refreshing a user after changing only that user's files restores well-formedness.\<close>

lemma refresh_wf:
  assumes wf: "store_wf s" and t: "st_users t = st_users s" "st_seq t = st_seq s"
    and other: "\<And>j. j \<noteq> i \<Longrightarrow> used_by j t = used_by j s"
    and files: "distinct (map (\<lambda>r. (f_user r, f_name r)) (st_files t))"
      "\<forall>r \<in> set (st_files t). f_user r \<le> st_seq s"
  shows "store_wf (refresh i t)"
proof -
  have "\<forall>r \<in> set (st_users (refresh i t)). 0 < u_id r \<and> u_id r \<le> st_seq t \<and> u_used r = used_by (u_id r) t"
    using wf t other by (auto simp: store_wf_def refresh_def set_quota_def)
  then show ?thesis using wf t files by (simp add: store_wf_def del: map_map)
qed

lemma add_file_wf [wf_intros]:
  assumes "store_wf s" "add_file u f n s = Some t"
  shows "store_wf t"
proof -
  from assms(2) obtain r where r: "user_named u s = Some r" "t = refresh (u_id r) (put_file (u_id r) f n s)"
    by (auto simp: add_file_def)
  have "u_id r \<le> st_seq s" using user_named_Some [OF r(1)] assms(1) by (auto simp: store_wf_def)
  then have "\<forall>q \<in> set (st_files (put_file (u_id r) f n s)). f_user q \<le> st_seq s"
    using assms(1) files_owned_put [of _ "u_id r" f n s] by (force simp: store_wf_def)
  with assms(1) show ?thesis unfolding r(2)
    by (intro refresh_wf [OF assms(1)]) (auto simp: store_wf_def used_by_put intro: distinct_put)
qed

lemma remove_file_wf [wf_intros]:
  assumes "store_wf s" "remove_file u f s = Some t"
  shows "store_wf t"
proof -
  from assms(2) obtain r where r: "user_named u s = Some r" "t = refresh (u_id r) (delete_file (u_id r) f s)"
    by (auto simp: remove_file_def split: bind_splits if_splits)
  have "distinct (map (\<lambda>r. (f_user r, f_name r)) (st_files (delete_file (u_id r) f s)))"
    "\<forall>q \<in> set (st_files (delete_file (u_id r) f s)). f_user q \<le> st_seq s"
    using assms(1) by (auto simp: store_wf_def delete_file_def distinct_map intro: inj_on_subset)
  with assms(1) show ?thesis unfolding r(2)
    by (intro refresh_wf [OF assms(1)]) (auto simp: used_by_delete)
qed

lemma insert_user_wf [wf_intros]:
  assumes "store_wf s" "sql_effect i Insert_user [SQ_text u, SQ_text h] s = Some t" "st_seq s < i" "i < 2 ^ 31"
  shows "store_wf t"
proof -
  from assms(2) have u: "user_named u s = None" and t:
    "t = s\<lparr>st_users := st_users s @ [new_user i u h], st_seq := i\<rparr>"
    by (auto simp: sql_effect_def split: if_splits)
  have none: "filter (\<lambda>r. f_user r = i) (st_files s) = []"
    using assms(1,3) by (force simp: store_wf_def filter_empty_conv)
  have used: "used_by j t = used_by j s" for j by (simp add: used_by_def t)
  have "used_by i s = 0" using none by (simp add: used_by_def)
  then show ?thesis using assms(1,3,4) u unfolding store_wf_def used
    by (force simp: t new_user_def user_named_None)
qed

lemma update_user_quota_wf [wf_intros]:
  assumes "store_wf s" "sql_effect i Update_user_quota [SQ_text u] s = Some t"
  shows "store_wf t"
proof -
  have "map (\<lambda>r. if u_name r = u then r\<lparr>u_used := used_by (u_id r) s\<rparr> else r) (st_users s) = st_users s"
    using assms(1) by (intro map_idI) (auto simp: store_wf_def)
  with assms show ?thesis by (auto simp: sql_effect_def set_quota_def)
qed

section \<open>The transactions over an engine\<close>

context sqlite_engine begin

lemma tx_user_id_outcome:
  assumes run: "tx_user_id E u d = (res, d')"
  obtains (left) err where "res = Inl err" "err = - 1 \<or> err = - 2"
      "view d' = view d \<or> given_up E view (dv_store (view d)) d'"
  | (found) r where "dv_saved (view d) = None" "user_named u (dv_store (view d)) = Some r" "res = Inr (column_int [SQ_int (u_id r)] 0)"
      "view d' = (view d)\<lparr>dv_saved := Some (dv_store (view d))\<rparr>"
proof -
  obtain rc d1 where b: "sq_exec E Begin d = (rc, d1)" by fastforce
  show thesis
  proof (cases "rc = SQLITE_OK")
    case False
    with run b have "res = Inl (- 1)" "d' = d1" by (simp_all add: tx_user_id_def)
    with begin_fails [OF b False] left show thesis by blast
  next
    case True
    with begin_ok b have idle: "dv_saved (view d) = None" and v1: "view d1 = (view d)\<lparr>dv_saved := Some (dv_store (view d))\<rparr>"
      by blast+
    then have saved: "dv_saved (view d1) = Some (dv_store (view d))" by simp
    obtain rc2 cols d2 where s: "sq_step E Select_id [SQ_text u] d1 = (rc2, cols, d2)" by (metis prod_cases3)
    consider "sq_prepare E Select_id d1 \<noteq> SQLITE_OK"
      | "sq_prepare E Select_id d1 = SQLITE_OK" "rc2 \<noteq> SQLITE_ROW"
      | "sq_prepare E Select_id d1 = SQLITE_OK" "rc2 = SQLITE_ROW" by blast
    then show thesis
    proof cases
      case 1
      with run b True have "res = Inl (- 1)" "d' = rollback E d1" by (simp_all add: tx_user_id_def)
      with failed_step_gives_up [OF saved, of d1] left show thesis by simp
    next
      case 2
      with run b True s have "res = Inl (- 2)" "d' = rollback E d2" by (simp_all add: tx_user_id_def)
      with failed_step_gives_up [OF saved select_keeps [OF _ s]] left show thesis by simp
    next
      case 3
      with select_row [OF _ s [unfolded 3(2)]] v1 obtain r where
        "user_named u (dv_store (view d)) = Some r" "cols = [SQ_int (u_id r)]" "view d2 = view d1"
        by (auto simp: select_row_def)
      with 3 run b True s v1 found [OF idle, of r] show thesis by (simp add: tx_user_id_def)
    qed
  qed
qed

text \<open>The change in the middle of a transaction.\<close>

lemma tx_update:
  assumes saved: "dv_saved (view d) = Some s0" and q: "is_update q"
    and s: "sq_step E q ps d = (rc, cols, d')"
  shows "rc = SQLITE_DONE \<Longrightarrow> dv_saved (view d') = Some s0 \<and>
      (\<exists>i. sql_effect i q ps (dv_store (view d)) = Some (dv_store (view d')))"
    and "rc \<noteq> SQLITE_DONE \<Longrightarrow> given_up E view s0 (rollback E d')"
proof -
  assume "rc = SQLITE_DONE"
  with update_done [OF q] s saved show "dv_saved (view d') = Some s0 \<and>
      (\<exists>i. sql_effect i q ps (dv_store (view d)) = Some (dv_store (view d')))" by fastforce
next
  assume "rc \<noteq> SQLITE_DONE"
  with failed_step_gives_up [OF saved update_fails [OF q s]] show "given_up E view s0 (rollback E d')" by blast
qed

lemma tx_quota_commit_outcome:
  assumes saved: "dv_saved (view d) = Some s0" and run: "tx_quota_commit E i d = (rc, d')"
  shows "(rc = 0 \<and> view d' = \<lparr>dv_store = refresh i (dv_store (view d)), dv_saved = None\<rparr>) \<or>
    (rc = - 1 \<and> given_up E view s0 d')"
proof -
  obtain rc1 cols d1 where s: "sq_step E Update_quota [SQ_int i, SQ_int i] d = (rc1, cols, d1)"
    by (metis prod_cases3)
  obtain rc2 d2 where c: "sq_exec E Commit d1 = (rc2, d2)" by fastforce
  consider "sq_prepare E Update_quota d \<noteq> SQLITE_OK"
    | "sq_prepare E Update_quota d = SQLITE_OK" "rc1 \<noteq> SQLITE_DONE"
    | "sq_prepare E Update_quota d = SQLITE_OK" "rc1 = SQLITE_DONE" by blast
  then show ?thesis
  proof cases
    case 1
    with run failed_step_gives_up [OF saved, of d] show ?thesis by (auto simp: tx_quota_commit_def)
  next
    case 2
    with run s tx_update(2) [OF saved _ s] show ?thesis by (auto simp: tx_quota_commit_def)
  next
    case 3
    with tx_update(1) [OF saved _ s] have v1: "dv_saved (view d1) = Some s0" "dv_store (view d1) = refresh i (dv_store (view d))"
      by (auto simp: sql_effect_def refresh_def)
    show ?thesis
    proof (cases "rc2 = SQLITE_OK")
      case True
      with commit_ok c 3 run s v1 show ?thesis by (auto simp: tx_quota_commit_def)
    next
      case False
      with failed_step_gives_up [OF v1(1) commit_fails [OF c False]] 3 run s c show ?thesis by (auto simp: tx_quota_commit_def)
    qed
  qed
qed

lemma add_file_atomic:
  assumes wf: "store_wf (dv_store (view d))" and run: "db_add_or_update_file E (Some u) (Some f) n (Some d) = (rc, db')"
  shows "\<exists>d'. db' = Some d' \<and>
    (rc = 0 \<and> dv_saved (view d) = None \<and> dv_saved (view d') = None \<and>
       add_file u f (sint n) (dv_store (view d)) = Some (dv_store (view d')) \<or>
     (rc = - 1 \<or> rc = - 2) \<and> (view d' = view d \<or> given_up E view (dv_store (view d)) d'))"
proof -
  obtain res d1 where t: "tx_user_id E u d = (res, d1)" by fastforce
  from t show ?thesis
  proof (cases rule: tx_user_id_outcome)
    case (left err)
    with run t show ?thesis by (auto simp: db_add_or_update_file_def)
  next
    case (found r)
    let ?s = "dv_store (view d)"
    note id = user_id_int [OF wf found(2)]
    have saved: "dv_saved (view d1) = Some ?s" and same: "dv_store (view d1) = ?s" using found by simp_all
    obtain rc1 cols d2 where s: "sq_step E Upsert_file [SQ_int (u_id r), SQ_text f, SQ_int (sint n)] d1 = (rc1, cols, d2)"
      by (metis prod_cases3)
    obtain rc2 d3 where c: "tx_quota_commit E (u_id r) d2 = (rc2, d3)" by fastforce
    note unfold = db_add_or_update_file_def t found(3) s id c
    consider "sq_prepare E Upsert_file d1 \<noteq> SQLITE_OK"
      | "sq_prepare E Upsert_file d1 = SQLITE_OK" "rc1 \<noteq> SQLITE_DONE"
      | "sq_prepare E Upsert_file d1 = SQLITE_OK" "rc1 = SQLITE_DONE" by blast
    then show ?thesis
    proof cases
      case 1
      with run failed_step_gives_up [OF saved, of d1] show ?thesis by (auto simp del: column_int.simps simp: unfold)
    next
      case 2
      with run tx_update(2) [OF saved _ s] show ?thesis by (auto simp del: column_int.simps simp: unfold)
    next
      case 3
      with tx_update(1) [OF saved _ s] have "dv_saved (view d2) = Some ?s"
        "dv_store (view d2) = put_file (u_id r) f (sint n) ?s" by (auto simp: same sql_effect_def)
      with tx_quota_commit_outcome [OF _ c, of ?s] 3 run found(1,2) show ?thesis
        by (auto simp del: column_int.simps simp: unfold add_file_def)
    qed
  qed
qed

lemma remove_file_atomic:
  assumes wf: "store_wf (dv_store (view d))" and run: "db_remove_file E (Some u) (Some f) (Some d) = (rc, db')"
  shows "\<exists>d'. db' = Some d' \<and>
    (rc = 0 \<and> dv_saved (view d) = None \<and> dv_saved (view d') = None \<and>
       remove_file u f (dv_store (view d)) = Some (dv_store (view d')) \<or>
     (rc = - 1 \<or> rc = - 2 \<or> rc = - 3 \<and> remove_file u f (dv_store (view d)) = None) \<and>
       (view d' = view d \<or> given_up E view (dv_store (view d)) d'))"
proof -
  obtain res d1 where t: "tx_user_id E u d = (res, d1)" by fastforce
  from t show ?thesis
  proof (cases rule: tx_user_id_outcome)
    case (left err)
    with run t show ?thesis by (auto simp: db_remove_file_def)
  next
    case (found r)
    let ?s = "dv_store (view d)"
    note id = user_id_int [OF wf found(2)]
    have saved: "dv_saved (view d1) = Some ?s" and same: "dv_store (view d1) = ?s" using found by simp_all
    obtain rc1 cols d2 where s: "sq_step E Delete_file [SQ_int (u_id r), SQ_text f] d1 = (rc1, cols, d2)"
      by (metis prod_cases3)
    obtain rc2 d3 where c: "tx_quota_commit E (u_id r) d2 = (rc2, d3)" by fastforce
    note unfold = db_remove_file_def t found(3) s id c
    consider "sq_prepare E Delete_file d1 \<noteq> SQLITE_OK"
      | "sq_prepare E Delete_file d1 = SQLITE_OK" "rc1 \<noteq> SQLITE_DONE"
      | "sq_prepare E Delete_file d1 = SQLITE_OK" "rc1 = SQLITE_DONE" by blast
    then show ?thesis
    proof cases
      case 1
      with run failed_step_gives_up [OF saved, of d1] show ?thesis
        by (auto simp del: column_int.simps simp: unfold Let_def)
    next
      case 2
      with run tx_update(2) [OF saved _ s] show ?thesis
        by (auto simp del: column_int.simps simp: unfold Let_def)
    next
      case 3
      with tx_update(1) [OF saved _ s] have v2: "dv_saved (view d2) = Some ?s"
        "dv_store (view d2) = delete_file (u_id r) f ?s" by (auto simp: same sql_effect_def)
      have ch: "sq_changes E d2 = 0 \<longleftrightarrow> file_named (u_id r) f ?s = None"
        using changes [OF s [unfolded 3(2)]] same by simp
      show ?thesis
      proof (cases "sq_changes E d2 = 0")
        case True
        with run 3 failed_step_gives_up [OF v2(1), of d2] ch found(2) show ?thesis
          by (auto simp del: column_int.simps simp: unfold Let_def remove_file_def)
      next
        case False
        with tx_quota_commit_outcome [OF v2(1) c] 3 run found(1,2) v2 ch show ?thesis
          by (auto simp del: column_int.simps simp: unfold Let_def remove_file_def)
      qed
    qed
  qed
qed

end

context sqlite_engine begin

text \<open>The single-statement functions.\<close>

lemma create_user_outcome:
  assumes idle: "dv_saved (view d) = None"
    and run: "db_create_user E (Some u) (Some h) (Some d) = (rc, db')"
  shows "\<exists>d'. db' = Some d' \<and> dv_saved (view d') = None \<and>
    (rc = 0 \<and> (\<exists>i > st_seq (dv_store (view d)).
        sql_effect i Insert_user [SQ_text u, SQ_text h] (dv_store (view d)) = Some (dv_store (view d'))) \<or>
     (rc = - 1 \<or> rc = - 2 \<and> user_named u (dv_store (view d)) \<noteq> None) \<and> dv_store (view d') = dv_store (view d))"
proof (cases "sq_prepare E Insert_user d = SQLITE_OK")
  case True
  obtain rc1 cols d1 where s: "sq_step E Insert_user [SQ_text u, SQ_text h] d = (rc1, cols, d1)"
    by (metis prod_cases3)
  note unfold = db_create_user_def True s
  consider "rc1 = SQLITE_DONE" | "rc1 = SQLITE_CONSTRAINT" | "rc1 \<noteq> SQLITE_DONE" "rc1 \<noteq> SQLITE_CONSTRAINT"
    by blast
  then show ?thesis
  proof cases
    case 1
    with update_done [OF _ s [unfolded 1]] idle run show ?thesis by (auto simp: unfold)
  next
    case 2
    from constraint [OF _ s [unfolded 2]] have "user_named u (dv_store (view d)) \<noteq> None" "view d1 = view d"
      by (auto simp: sql_effect_def split: if_splits)
    with 2 idle run show ?thesis by (auto simp: unfold)
  next
    case 3
    with update_fails [OF _ s] idle run show ?thesis by (auto simp: unfold)
  qed
qed (use assms in \<open>auto simp: db_create_user_def\<close>)

lemma update_user_quota_outcome:
  assumes idle: "dv_saved (view d) = None"
    and run: "db_update_user_quota E (Some u) (Some d) = (rc, db')"
  shows "\<exists>d'. db' = Some d' \<and> dv_saved (view d') = None \<and>
    (rc = 0 \<and> (\<exists>i. sql_effect i Update_user_quota [SQ_text u] (dv_store (view d)) = Some (dv_store (view d'))) \<or>
     rc = - 1 \<and> dv_store (view d') = dv_store (view d))"
proof (cases "sq_prepare E Update_user_quota d = SQLITE_OK")
  case True
  obtain rc1 cols d1 where s: "sq_step E Update_user_quota [SQ_text u] d = (rc1, cols, d1)"
    by (metis prod_cases3)
  show ?thesis
  proof (cases "rc1 = SQLITE_DONE")
    case fin: True
    with update_done [OF _ s [unfolded fin]] idle run True s show ?thesis
      by (auto simp: db_update_user_quota_def)
  next
    case False
    with update_fails [OF _ s] idle run True s show ?thesis by (auto simp: db_update_user_quota_def)
  qed
qed (use assms in \<open>auto simp: db_update_user_quota_def\<close>)

text \<open>The readers change nothing.\<close>

lemma select_idle:
  "dv_saved (view d) = None \<Longrightarrow> is_select q \<Longrightarrow> sq_step E q ps d = (rc, cols, d') \<Longrightarrow> view d' = view d"
  using select_keeps by fastforce

lemma user_exists_outcome:
  assumes "dv_saved (view d) = None" "db_user_exists E (Some u) (Some d) = (rc, ex, db')"
  shows "\<exists>d'. db' = Some d' \<and> view d' = view d \<and> (ex = Some True \<longrightarrow> user_named u (dv_store (view d)) \<noteq> None)"
  using assms select_idle [OF assms(1), of Select_user] select_row [of Select_user "[SQ_text u]" d]
  by (fastforce simp: db_user_exists_def select_row_def split: if_splits prod.splits)

lemma verify_password_outcome:
  assumes "dv_saved (view d) = None" "db_verify_password E (Some u) (Some h) (Some d) = (rc, ok, db')"
  shows "\<exists>d'. db' = Some d' \<and> view d' = view d \<and>
    (rc = 0 \<and> (\<exists>r. user_named u (dv_store (view d)) = Some r \<and> ok = Some (u_hash r = h)) \<or>
     (rc = - 1 \<or> rc = - 2) \<and> ok = None)"
proof (cases "sq_prepare E Select_hash d = SQLITE_OK")
  case True
  obtain rc1 cols d1 where s: "sq_step E Select_hash [SQ_text u] d = (rc1, cols, d1)" by (metis prod_cases3)
  have same: "view d1 = view d" by (rule select_idle [OF assms(1) _ s]) simp
  show ?thesis
  proof (cases "rc1 = SQLITE_ROW")
    case row: True
    with select_row [OF _ s [unfolded row]] same True s assms(2) show ?thesis
      by (auto simp: db_verify_password_def select_row_def)
  qed (use True s same assms(2) in \<open>auto simp: db_verify_password_def\<close>)
qed (use assms in \<open>auto simp: db_verify_password_def\<close>)

lemma get_user_quota_outcome:
  assumes "dv_saved (view d) = None" "db_get_user_quota E (Some u) (Some d) = (rc, q, db')"
  shows "\<exists>d'. db' = Some d' \<and> view d' = view d \<and>
    (rc = 0 \<and> (\<exists>r. user_named u (dv_store (view d)) = Some r \<and>
        q = Some (word_of_int (u_used r), word_of_int (u_limit r))) \<or>
     (rc = - 1 \<or> rc = - 2) \<and> q = None)"
proof (cases "sq_prepare E Select_quota d = SQLITE_OK")
  case True
  obtain rc1 cols d1 where s: "sq_step E Select_quota [SQ_text u] d = (rc1, cols, d1)" by (metis prod_cases3)
  have same: "view d1 = view d" by (rule select_idle [OF assms(1) _ s]) simp
  show ?thesis
  proof (cases "rc1 = SQLITE_ROW")
    case row: True
    with select_row [OF _ s [unfolded row]] same True s assms(2) show ?thesis
      by (auto simp: db_get_user_quota_def select_row_def)
  qed (use True s same assms(2) in \<open>auto simp: db_get_user_quota_def\<close>)
qed (use assms in \<open>auto simp: db_get_user_quota_def\<close>)

lemma get_file_size_outcome:
  assumes "dv_saved (view d) = None" "db_get_file_size E (Some u) (Some f) (Some d) = (rc, n, db')"
  shows "\<exists>d'. db' = Some d' \<and> view d' = view d \<and>
    (rc = 0 \<and> (\<exists>r q. user_named u (dv_store (view d)) = Some r \<and>
        file_named (u_id r) f (dv_store (view d)) = Some q \<and> n = Some (word_of_int (f_size q))) \<or>
     (rc = - 1 \<or> rc = - 2) \<and> n = None)"
proof (cases "sq_prepare E Select_size d = SQLITE_OK")
  case True
  obtain rc1 cols d1 where s: "sq_step E Select_size [SQ_text u, SQ_text f] d = (rc1, cols, d1)"
    by (metis prod_cases3)
  have same: "view d1 = view d" by (rule select_idle [OF assms(1) _ s]) simp
  show ?thesis
  proof (cases "rc1 = SQLITE_ROW")
    case row: True
    with select_row [OF _ s [unfolded row]] same True s assms(2) show ?thesis
      by (auto simp: db_get_file_size_def select_row_def bind_eq_Some_conv)
  qed (use True s same assms(2) in \<open>auto simp: db_get_file_size_def\<close>)
qed (use assms in \<open>auto simp: db_get_file_size_def\<close>)

lemma check_quota_outcome:
  assumes "dv_saved (view d) = None" "db_check_quota E (Some u) n (Some d) = (rc, ok, db')"
  shows "\<exists>d'. db' = Some d' \<and> view d' = view d \<and>
    (rc = 0 \<and> (\<exists>r. user_named u (dv_store (view d)) = Some r \<and>
        ok = Some (word_of_int (u_used r) + n \<le> (word_of_int (u_limit r) :: u64))) \<or>
     (rc = - 1 \<or> rc = - 2) \<and> ok = None)"
proof -
  obtain rc1 q db1 where g: "db_get_user_quota E (Some u) (Some d) = (rc1, q, db1)" by (metis prod_cases3)
  from get_user_quota_outcome [OF assms(1) g] assms(2) g show ?thesis
    by (auto simp: db_check_quota_def)
qed

end

end
