(* ===== verification/Database_Props.thy ===== *)
theory Database_Props
  imports Database_Spec
begin

text \<open>
  The properties of \<open>database.c\<close>. Each holds for every engine that keeps the laws of SQLite, whatever
  calls fail; the witnesses run the functions on the executable engine, with scripted faults.
\<close>

section \<open>Calls\<close>

datatype db_call =
    Create_user string string
  | User_exists string
  | Verify_password string string
  | Get_user_quota string
  | Add_or_update_file string string u64
  | Remove_file string string
  | Get_file_size string string
  | Check_quota string u64
  | Update_user_quota_of string

fun db_perform :: "'d sqlite \<Rightarrow> db_call \<Rightarrow> 'd option \<Rightarrow> 'd option" where
  "db_perform E (Create_user u h) db = snd (db_create_user E (Some u) (Some h) db)"
| "db_perform E (User_exists u) db = snd (snd (db_user_exists E (Some u) db))"
| "db_perform E (Verify_password u h) db = snd (snd (db_verify_password E (Some u) (Some h) db))"
| "db_perform E (Get_user_quota u) db = snd (snd (db_get_user_quota E (Some u) db))"
| "db_perform E (Add_or_update_file u f n) db = snd (db_add_or_update_file E (Some u) (Some f) n db)"
| "db_perform E (Remove_file u f) db = snd (db_remove_file E (Some u) (Some f) db)"
| "db_perform E (Get_file_size u f) db = snd (snd (db_get_file_size E (Some u) (Some f) db))"
| "db_perform E (Check_quota u n) db = snd (snd (db_check_quota E (Some u) n db))"
| "db_perform E (Update_user_quota_of u) db = snd (db_update_user_quota E (Some u) db)"

text \<open>What one call can do to consistent tables.\<close>

definition db_change :: "store \<Rightarrow> store \<Rightarrow> bool" where
  "db_change s t \<longleftrightarrow> (\<exists>i u h. st_seq s < i \<and> sql_effect i Insert_user [SQ_text u, SQ_text h] s = Some t) \<or>
     (\<exists>u f n. add_file u f n s = Some t) \<or> (\<exists>u f. remove_file u f s = Some t) \<or>
     (\<exists>i u. sql_effect i Update_user_quota [SQ_text u] s = Some t)"

lemma db_change_wf: "db_change s t \<Longrightarrow> store_wf s \<Longrightarrow> st_seq t < 2 ^ 31 \<Longrightarrow> store_wf t"
proof -
  have "st_seq t = i" if "sql_effect i Insert_user [SQ_text u, SQ_text h] s = Some t" for i u h
    using that by (auto simp: sql_effect_def split: if_splits)
  then show "db_change s t \<Longrightarrow> store_wf s \<Longrightarrow> st_seq t < 2 ^ 31 \<Longrightarrow> store_wf t"
    unfolding db_change_def by (blast intro: insert_user_wf add_file_wf remove_file_wf update_user_quota_wf)
qed

context sqlite_engine begin

lemma given_up_committed: "given_up E view s d \<Longrightarrow> committed (view d) = s"
  by (auto simp: given_up_def committed_def undo_saved)

text \<open>Outside a transaction a call changes the tables or leaves them, or a \<open>ROLLBACK\<close> failed and the tables in the file
  are as they were.\<close>

definition call_outcome :: "'d \<Rightarrow> 'd \<Rightarrow> bool" where
  "call_outcome d d' \<longleftrightarrow> view d' = view d \<or> given_up E view (dv_store (view d)) d' \<or>
     dv_saved (view d') = None \<and> db_change (dv_store (view d)) (dv_store (view d'))"

lemma outcome_same: "dv_saved (view d) = None \<Longrightarrow> dv_saved (view d') = None \<Longrightarrow> dv_store (view d') = dv_store (view d) \<Longrightarrow> call_outcome d d'"
  by (simp add: call_outcome_def)

lemma idle_call:
  assumes idle: "dv_saved (view d) = None" and wf: "store_wf (dv_store (view d))"
  shows "\<exists>d'. db_perform E c (Some d) = Some d' \<and> call_outcome d d'"
proof (cases c)
  case (Create_user u h)
  obtain rc db' where "db_create_user E (Some u) (Some h) (Some d) = (rc, db')" by fastforce
  from create_user_outcome [OF idle this] this show ?thesis using idle unfolding Create_user by (auto simp: call_outcome_def db_change_def)
next
  case (User_exists u)
  obtain rc x db' where "db_user_exists E (Some u) (Some d) = (rc, x, db')" by (metis prod_cases3)
  from user_exists_outcome [OF idle this] this show ?thesis by (auto simp: User_exists call_outcome_def)
next
  case (Verify_password u h)
  obtain rc x db' where "db_verify_password E (Some u) (Some h) (Some d) = (rc, x, db')" by (metis prod_cases3)
  from verify_password_outcome [OF idle this] this show ?thesis by (auto simp: Verify_password call_outcome_def)
next
  case (Get_user_quota u)
  obtain rc x db' where "db_get_user_quota E (Some u) (Some d) = (rc, x, db')" by (metis prod_cases3)
  from get_user_quota_outcome [OF idle this] this show ?thesis by (auto simp: Get_user_quota call_outcome_def)
next
  case (Add_or_update_file u f n)
  obtain rc db' where "db_add_or_update_file E (Some u) (Some f) n (Some d) = (rc, db')" by fastforce
  from add_file_atomic [OF wf this] this show ?thesis unfolding Add_or_update_file call_outcome_def db_change_def by auto
next
  case (Remove_file u f)
  obtain rc db' where "db_remove_file E (Some u) (Some f) (Some d) = (rc, db')" by fastforce
  from remove_file_atomic [OF wf this] this show ?thesis unfolding Remove_file call_outcome_def db_change_def by auto
next
  case (Get_file_size u f)
  obtain rc x db' where "db_get_file_size E (Some u) (Some f) (Some d) = (rc, x, db')" by (metis prod_cases3)
  from get_file_size_outcome [OF idle this] this show ?thesis by (auto simp: Get_file_size call_outcome_def)
next
  case (Check_quota u n)
  obtain rc x db' where "db_check_quota E (Some u) n (Some d) = (rc, x, db')" by (metis prod_cases3)
  from check_quota_outcome [OF idle this] this show ?thesis by (auto simp: Check_quota call_outcome_def)
next
  case (Update_user_quota_of u)
  obtain rc db' where "db_update_user_quota E (Some u) (Some d) = (rc, db')" by fastforce
  from update_user_quota_outcome [OF idle this] this show ?thesis using idle unfolding Update_user_quota_of
    by (auto simp: call_outcome_def db_change_def)
qed

text \<open>Inside a transaction that a failed \<open>ROLLBACK\<close> left open, no call begins another one or commits.\<close>

lemma open_begin:
  assumes "dv_saved (view d) \<noteq> None"
  obtains d' where "tx_user_id E u d = (Inl (- 1), d')" "view d' = view d"
proof -
  obtain rc d' where b: "sq_exec E Begin d = (rc, d')" by fastforce
  then have "rc \<noteq> SQLITE_OK" using begin_ok [of d d'] assms by auto
  with begin_fails [OF b this] b that show thesis by (simp add: tx_user_id_def)
qed

lemma step_undo:
  assumes "is_select q \<or> is_update q" "sq_step E q ps d = (rc, cols, d')" "dv_saved (view d) \<noteq> None"
  shows "undo (view d') = undo (view d)"
proof (cases "is_select q")
  case True
  from select_keeps [OF this assms(2)] show ?thesis by auto
next
  case False
  then have q: "is_update q" using assms(1) by simp
  show ?thesis
  proof (cases "rc = SQLITE_DONE")
    case True
    with update_done [OF q] assms(2,3) show ?thesis by (fastforce simp: undo_def)
  next
    case False
    from update_fails [OF q assms(2) False] show ?thesis by auto
  qed
qed

lemma open_step:
  assumes "dv_saved (view d) \<noteq> None" "is_select q \<or> is_update q"
  obtains rc cols d' where "sq_step E q ps d = (rc, cols, d')" "undo (view d') = undo (view d)"
  using step_undo [OF assms(2) _ assms(1)] by (metis prod_cases3)

lemma open_call:
  assumes "dv_saved (view d) \<noteq> None"
  shows "\<exists>d'. db_perform E c (Some d) = Some d' \<and> undo (view d') = undo (view d)"
proof (cases c)
  case (Create_user u h)
  obtain rc cols d' where "sq_step E Insert_user [SQ_text u, SQ_text h] d = (rc, cols, d')" "undo (view d') = undo (view d)"
    by (rule open_step [OF assms]) auto
  then show ?thesis by (cases "sq_prepare E Insert_user d = SQLITE_OK") (auto simp: Create_user db_create_user_def)
next
  case (User_exists u)
  obtain rc cols d' where "sq_step E Select_user [SQ_text u] d = (rc, cols, d')" "undo (view d') = undo (view d)"
    by (rule open_step [OF assms]) auto
  then show ?thesis by (cases "sq_prepare E Select_user d = SQLITE_OK") (auto simp: User_exists db_user_exists_def)
next
  case (Verify_password u h)
  obtain rc cols d' where "sq_step E Select_hash [SQ_text u] d = (rc, cols, d')" "undo (view d') = undo (view d)"
    by (rule open_step [OF assms]) auto
  then show ?thesis by (cases "sq_prepare E Select_hash d = SQLITE_OK") (auto simp: Verify_password db_verify_password_def)
next
  case (Get_user_quota u)
  obtain rc cols d' where "sq_step E Select_quota [SQ_text u] d = (rc, cols, d')" "undo (view d') = undo (view d)"
    by (rule open_step [OF assms]) auto
  then show ?thesis by (cases "sq_prepare E Select_quota d = SQLITE_OK") (auto simp: Get_user_quota db_get_user_quota_def)
next
  case (Add_or_update_file u f n)
  obtain d' where "tx_user_id E u d = (Inl (- 1), d')" "view d' = view d" by (rule open_begin [OF assms])
  then show ?thesis by (simp add: Add_or_update_file db_add_or_update_file_def)
next
  case (Remove_file u f)
  obtain d' where "tx_user_id E u d = (Inl (- 1), d')" "view d' = view d" by (rule open_begin [OF assms])
  then show ?thesis by (simp add: Remove_file db_remove_file_def)
next
  case (Get_file_size u f)
  obtain rc cols d' where "sq_step E Select_size [SQ_text u, SQ_text f] d = (rc, cols, d')" "undo (view d') = undo (view d)"
    by (rule open_step [OF assms]) auto
  then show ?thesis by (cases "sq_prepare E Select_size d = SQLITE_OK") (auto simp: Get_file_size db_get_file_size_def)
next
  case (Check_quota u n)
  obtain rc cols d' where r: "sq_step E Select_quota [SQ_text u] d = (rc, cols, d')" "undo (view d') = undo (view d)"
    by (rule open_step [OF assms, of Select_quota]) auto
  have "snd (snd (db_check_quota E (Some u) n (Some d))) = snd (snd (db_get_user_quota E (Some u) (Some d)))"
    by (simp add: db_check_quota_def split: prod.split option.split)
  with r show ?thesis by (cases "sq_prepare E Select_quota d = SQLITE_OK") (simp_all add: Check_quota db_get_user_quota_def)
next
  case (Update_user_quota_of u)
  obtain rc cols d' where "sq_step E Update_user_quota [SQ_text u] d = (rc, cols, d')" "undo (view d') = undo (view d)"
    by (rule open_step [OF assms]) auto
  then show ?thesis by (cases "sq_prepare E Update_user_quota d = SQLITE_OK") (auto simp: Update_user_quota_of db_update_user_quota_def)
qed

lemma call_keeps:
  assumes wf: "store_wf (committed (view d))"
  obtains d' where "db_perform E c (Some d) = Some d'"
    "st_seq (committed (view d')) < 2 ^ 31 \<Longrightarrow> store_wf (committed (view d'))"
    "dv_saved (view d) = None \<Longrightarrow> dv_saved (view d') = None \<or> rollback_failed E d'"
proof (cases "dv_saved (view d) = None")
  case True
  with wf idle_call [of d c] obtain d' where p: "db_perform E c (Some d) = Some d'" "call_outcome d d'" by auto
  show thesis
  proof (rule that [OF p(1)])
    from p(2) have "committed (view d') = dv_store (view d) \<or> db_change (dv_store (view d)) (committed (view d'))"
      using True given_up_committed by (auto simp: call_outcome_def)
    then show "store_wf (committed (view d'))" if "st_seq (committed (view d')) < 2 ^ 31"
      using that wf True db_change_wf by auto
    from p(2) show "dv_saved (view d') = None \<or> rollback_failed E d'" using True by (auto simp: call_outcome_def given_up_def)
  qed
next
  case False
  with open_call [OF False, of c] wf that show thesis by (auto simp: committed_def)
qed

text \<open>The ids that are given out fit a C \<open>int\<close> all along.\<close>

end

definition ids_fit :: "('d \<Rightarrow> dbview) \<Rightarrow> 'd option \<Rightarrow> bool" where
  "ids_fit view db = (case db of None \<Rightarrow> True | Some d \<Rightarrow> st_seq (committed (view d)) < 2 ^ 31)"

fun ids_stay_small :: "'d sqlite \<Rightarrow> ('d \<Rightarrow> dbview) \<Rightarrow> db_call list \<Rightarrow> 'd option \<Rightarrow> bool" where
  "ids_stay_small E view [] db = ids_fit view db"
| "ids_stay_small E view (c # cs) db = (ids_fit view db \<and> ids_stay_small E view cs (db_perform E c db))"

lemma ids_stay_small_fit: "ids_stay_small E view cs db \<Longrightarrow> ids_fit view db"
  by (cases cs) simp_all

definition rollbacks_work :: "'d sqlite \<Rightarrow> ('d \<Rightarrow> dbview) \<Rightarrow> bool" where
  "rollbacks_work E view \<longleftrightarrow> (\<forall>e. dv_saved (view (snd (sq_exec E Rollback e))) = None)"

context sqlite_engine begin

lemma calls_keep:
  assumes "store_wf (committed (view d))" "ids_stay_small E view cs (Some d)"
  obtains d' where "fold (db_perform E) cs (Some d) = Some d'" "store_wf (committed (view d'))"
    "rollbacks_work E view \<Longrightarrow> dv_saved (view d) = None \<Longrightarrow> dv_saved (view d') = None"
  using assms
proof (induction cs arbitrary: d thesis)
  case (Cons c cs)
  from call_keeps [OF Cons.prems(2), of c] obtain d1 where d1: "db_perform E c (Some d) = Some d1"
    "st_seq (committed (view d1)) < 2 ^ 31 \<Longrightarrow> store_wf (committed (view d1))"
    "dv_saved (view d) = None \<Longrightarrow> dv_saved (view d1) = None \<or> rollback_failed E d1" by blast
  have ids: "ids_stay_small E view cs (Some d1)" using Cons.prems(3) d1(1) by simp
  then have wf: "store_wf (committed (view d1))" using d1(2) ids_stay_small_fit [OF ids] by (simp add: ids_fit_def)
  have idle: "dv_saved (view d1) = None" if "rollbacks_work E view" "dv_saved (view d) = None"
    using d1(3) that unfolding rollbacks_work_def rollback_failed_def by (metis snd_conv)
  from Cons.IH [OF _ wf ids] obtain d' where "fold (db_perform E) cs (Some d1) = Some d'" "store_wf (committed (view d'))"
    "rollbacks_work E view \<Longrightarrow> dv_saved (view d1) = None \<Longrightarrow> dv_saved (view d') = None" by blast
  with Cons.prems(1) d1(1) idle show ?case by simp
qed simp

end

section \<open>Lookups after the updates\<close>

lemma find_map: "find P (map g xs) = map_option g (find (\<lambda>x. P (g x)) xs)"
  by (induction xs) auto

lemma user_named_refresh:
  "user_named v (refresh i s) =
     map_option (\<lambda>r. if u_id r = i then r\<lparr>u_used := used_by i s\<rparr> else r) (user_named v s)"
proof -
  have "u_name (if u_id r = i then r\<lparr>u_used := used_by i s\<rparr> else r) = u_name r" for r by simp
  then show ?thesis by (simp add: user_named_def refresh_def set_quota_def find_map del: if_split)
qed

lemma user_named_put [simp]: "user_named v (put_file i f n s) = user_named v s"
  by (simp add: user_named_def)

lemma find_append: "find P (xs @ ys) = (case find P xs of None \<Rightarrow> find P ys | Some x \<Rightarrow> Some x)"
  by (induction xs) auto

lemma file_named_put:
  "file_named j g (put_file i f n s) =
     (if j = i \<and> g = f
      then Some (case file_named i f s of None \<Rightarrow> \<lparr>f_user = i, f_name = f, f_size = n\<rparr>
                 | Some q \<Rightarrow> q\<lparr>f_size := n\<rparr>)
      else file_named j g s)"
proof (cases "file_named i f s")
  case None
  then show ?thesis by (auto simp: put_file_def file_named_def find_append split: option.split)
next
  case (Some q)
  let ?g = "\<lambda>r. if f_user r = i \<and> f_name r = f then r\<lparr>f_size := n\<rparr> else r"
  have "find (\<lambda>r. f_user r = j \<and> f_name r = g) (map ?g xs)
      = map_option ?g (find (\<lambda>r. f_user r = j \<and> f_name r = g) xs)" for xs
    by (induction xs) auto
  from this [of "st_files s"] have "file_named j g (put_file i f n s) = map_option ?g (file_named j g s)"
    using Some by (simp add: put_file_def file_named_def)
  with Some file_named_Some [of j g s] show ?thesis by (cases "file_named j g s") auto
qed

lemma users_same_id:
  "store_wf s \<Longrightarrow> user_named u s = Some r \<Longrightarrow> user_named v s = Some q \<Longrightarrow> u_id r = u_id q \<Longrightarrow> r = q \<and> u = v"
  by (auto simp: store_wf_def distinct_map dest!: user_named_Some inj_onD)

section \<open>An example database\<close>

text \<open>One user, who stores one file of seven bytes; the codes the next calls fail with are \<open>cs\<close>.\<close>

definition ann_store :: store where
  "ann_store = \<lparr>st_users = [(new_user 1 ''ann'' ''h'')\<lparr>u_used := 7\<rparr>],
     st_files = [\<lparr>f_user = 1, f_name = ''a.txt'', f_size = 7\<rparr>], st_seq = 1\<rparr>"

definition ann_db :: "int list \<Rightarrow> ref_db" where
  "ann_db cs = \<lparr>rd_view = \<lparr>dv_store = ann_store, dv_saved = None\<rparr>, rd_faults = cs,
     rd_drops = False, rd_changes = 0\<rparr>"

lemma ann_idle: "dv_saved (rd_view (ann_db cs)) = None"
  by (simp add: ann_db_def)

lemma ann_wf: "store_wf (dv_store (rd_view (ann_db cs)))"
  by (simp add: ann_db_def ann_store_def store_wf_def new_user_def used_by_def)

lemmas ref_run = ref_exec_def ref_step_def ref_fault_def Let_def statement_defs is_select_def undo_def
  user_named_def file_named_def put_file_def delete_file_def set_quota_def used_by_def new_user_def
  fault_code_def rollback_def tx_user_id_def tx_quota_commit_def ann_db_def ann_store_def

section \<open>Properties\<close>

text \<open>C21: \<open>db_add_or_update_file\<close> is atomic. With a library that keeps the laws, and on consistent tables, whatever call of the
  library fails and wherever: either the function returns 0, no transaction was or is open, and the tables hold the file with its size
  and the user's quota recomputed; or it returns \<open>- 1\<close> or \<open>- 2\<close>, and the tables and the transaction state are as they were; or it
  returns one of these and the transaction it opened was given up: it is closed and the tables are as they were, or the
  \<open>ROLLBACK\<close> itself failed, and then it is still open and the tables in the database file are as they were.\<close>

theorem db_add_file_atomic:
  assumes "sqlite_engine E view" "store_wf (dv_store (view d))"
    and "db_add_or_update_file E (Some u) (Some f) n (Some d) = (rc, db')"
  shows "\<exists>d'. db' = Some d' \<and>
    (rc = 0 \<and> dv_saved (view d) = None \<and> dv_saved (view d') = None \<and>
       add_file u f (sint n) (dv_store (view d)) = Some (dv_store (view d')) \<or>
     (rc = - 1 \<or> rc = - 2) \<and> (view d' = view d \<or> given_up E view (dv_store (view d)) d'))"
  by (rule sqlite_engine.add_file_atomic [OF assms])

text \<open>The upsert succeeds, and the quota update reports a full disk.\<close>

lemma db_add_file_atomic_witness:
  "\<exists>d'. snd (db_add_or_update_file ref_engine (Some ''ann'') (Some ''b'') 5 (Some (ann_db [0, 0, 0, 13]))) = Some d' \<and>
    fst (db_add_or_update_file ref_engine (Some ''ann'') (Some ''b'') 5 (Some (ann_db [0, 0, 0, 13]))) = - 1 \<and>
    committed (rd_view d') = ann_store"
proof -
  let ?r = "db_add_or_update_file ref_engine (Some ''ann'') (Some ''b'') 5 (Some (ann_db [0, 0, 0, 13]))"
  have A: "fst ?r = - 1" by (simp add: db_add_or_update_file_def ref_run)
  have C: "?r = (fst ?r, snd ?r)" by simp
  from db_add_file_atomic [OF ref.sqlite_engine_axioms ann_wf C] A show ?thesis
    by (auto simp: ann_db_def given_up_def committed_def undo_def)
qed

text \<open>The result of \<open>ROLLBACK\<close> is not looked at: when it fails as well, the transaction stays open, and the file is in the
  tables that later calls see although the function has returned an error.\<close>

lemma rollback_failure_leaves_open:
  "\<exists>d'. db_add_or_update_file ref_engine (Some ''ann'') (Some ''b'') 5 (Some (ann_db [0, 0, 0, 13, 10])) = (- 1, Some d') \<and>
    dv_saved (rd_view d') = Some ann_store \<and> file_named 1 ''b'' (dv_store (rd_view d')) \<noteq> None \<and>
    fst (db_add_or_update_file ref_engine (Some ''ann'') (Some ''c'') 5 (Some d')) = - 1"
  by (simp add: db_add_or_update_file_def ref_run)

text \<open>C39: \<open>db_remove_file\<close> is atomic in the same way, under the same conditions: either it returns 0, no transaction was or is
  open, the row of the file is gone and the user's quota is recomputed; or it returns an error, and the tables and the transaction
  state are as they were, or the transaction it opened is closed and the tables are as they were, or the \<open>ROLLBACK\<close> itself
  failed, and then it is still open and the tables in the database file are as they were. It returns \<open>- 3\<close> only if the user has no such file.\<close>

theorem db_remove_file_atomic:
  assumes "sqlite_engine E view" "store_wf (dv_store (view d))"
    and "db_remove_file E (Some u) (Some f) (Some d) = (rc, db')"
  shows "\<exists>d'. db' = Some d' \<and>
    (rc = 0 \<and> dv_saved (view d) = None \<and> dv_saved (view d') = None \<and>
       remove_file u f (dv_store (view d)) = Some (dv_store (view d')) \<or>
     (rc = - 1 \<or> rc = - 2 \<or> rc = - 3 \<and> remove_file u f (dv_store (view d)) = None) \<and>
       (view d' = view d \<or> given_up E view (dv_store (view d)) d'))"
  by (rule sqlite_engine.remove_file_atomic [OF assms])

lemma db_remove_file_atomic_witness:
  "\<exists>d'. snd (db_remove_file ref_engine (Some ''ann'') (Some ''a.txt'') (Some (ann_db []))) = Some d' \<and>
    st_files (dv_store (rd_view d')) = []"
proof -
  let ?r = "db_remove_file ref_engine (Some ''ann'') (Some ''a.txt'') (Some (ann_db []))"
  have A: "fst ?r = 0" by (simp add: db_remove_file_def ref_run)
  have B: "map_option st_files (remove_file ''ann'' ''a.txt'' ann_store) = Some []"
    by (simp add: remove_file_def ref_run refresh_def)
  have C: "?r = (fst ?r, snd ?r)" by simp
  from db_remove_file_atomic [OF ref.sqlite_engine_axioms ann_wf C] A B show ?thesis
    by (auto simp: ann_db_def)
qed

text \<open>C22: the quota invariant: with a library that keeps the laws, from consistent tables, after any sequence of database calls, whichever of them fail, and
  \<open>ROLLBACK\<close> too, the \<open>quota_used\<close> of every user in the database file is the sum of the sizes of that user's files, as long
  as the ids of users stay below \<open>2 ^ 31\<close> (they are read into an \<open>int\<close>; SQLite may leave gaps between them). If no \<open>ROLLBACK\<close>
  fails, no transaction is open after the calls either, so this is what every later call sees.\<close>

theorem db_quota_is_sum_of_sizes:
  assumes "sqlite_engine E view" "store_wf (committed (view d))" "ids_stay_small E view calls (Some d)"
  shows "\<exists>d'. fold (db_perform E) calls (Some d) = Some d' \<and>
    (\<forall>r \<in> set (st_users (committed (view d'))). u_used r = used_by (u_id r) (committed (view d'))) \<and>
    (rollbacks_work E view \<and> dv_saved (view d) = None \<longrightarrow> dv_saved (view d') = None \<and> dv_store (view d') = committed (view d'))"
proof -
  obtain d' where "fold (db_perform E) calls (Some d) = Some d'" "store_wf (committed (view d'))"
    "rollbacks_work E view \<Longrightarrow> dv_saved (view d) = None \<Longrightarrow> dv_saved (view d') = None"
    using sqlite_engine.calls_keep [OF assms] by metis
  then show ?thesis by (auto simp: store_wf_def)
qed

text \<open>The second call of the run fails in its quota update and so does its \<open>ROLLBACK\<close>; the third finds the transaction open.\<close>

lemma db_quota_is_sum_of_sizes_witness:
  "\<exists>d'. fold (db_perform ref_engine) [Create_user ''bob'' ''k'', Add_or_update_file ''bob'' ''x'' 9,
      Remove_file ''ann'' ''a.txt''] (Some (ann_db [0, 0, 0, 0, 13, 10])) = Some d' \<and>
    (\<forall>r \<in> set (st_users (committed (rd_view d'))). u_used r = used_by (u_id r) (committed (rd_view d')))"
proof -
  let ?calls = "[Create_user ''bob'' ''k'', Add_or_update_file ''bob'' ''x'' 9, Remove_file ''ann'' ''a.txt'']"
  have w: "store_wf (committed (rd_view (ann_db [0, 0, 0, 0, 13, 10])))" using ann_wf ann_idle by simp
  have i: "ids_stay_small ref_engine rd_view ?calls (Some (ann_db [0, 0, 0, 0, 13, 10]))"
    by (simp add: ids_fit_def committed_def db_create_user_def db_add_or_update_file_def db_remove_file_def ref_run)
  from db_quota_is_sum_of_sizes [OF ref.sqlite_engine_axioms w i] show ?thesis by blast
qed

text \<open>The quota check answers the right question when the sum of the used and the additional bytes
  fits a \<open>size_t\<close>: then it says yes exactly if the additional bytes fit the limit.\<close>

theorem db_check_quota_sound:
  assumes "sqlite_engine E view" "dv_saved (view d) = None"
    and "db_check_quota E (Some u) n (Some d) = (0, ok, db')"
    and "user_named u (dv_store (view d)) = Some r" "0 \<le> u_used r" "0 \<le> u_limit r" "u_limit r < 2 ^ 64"
    and "u_used r + uint n < 2 ^ 64"
  shows "ok = Some (u_used r + uint n \<le> u_limit r)"
proof -
  have "u_used r < 2 ^ 64" using assms(5,8) by (smt (verit) uint_ge_0)
  then have "uint (word_of_int (u_used r) :: u64) = u_used r" "uint (word_of_int (u_limit r) :: u64) = u_limit r"
    using assms(5-7) by (simp_all add: uint_word_of_int)
  then have "word_of_int (u_used r) + n \<le> (word_of_int (u_limit r) :: u64) \<longleftrightarrow> u_used r + uint n \<le> u_limit r"
    using assms(5,8) by (simp add: word_le_def uint_word_ariths)
  with sqlite_engine.check_quota_outcome [OF assms(1-3)] assms(4) show ?thesis by auto
qed

lemma db_check_quota_sound_witness:
  "fst (snd (db_check_quota ref_engine (Some ''ann'') 100 (Some (ann_db [])))) = Some True"
proof -
  let ?r = "db_check_quota ref_engine (Some ''ann'') 100 (Some (ann_db []))"
  have r: "?r = (0, fst (snd ?r), snd (snd ?r))"
    by (simp add: db_check_quota_def db_get_user_quota_def ref_run)
  have u: "user_named ''ann'' (dv_store (rd_view (ann_db []))) = Some ((new_user 1 ''ann'' ''h'')\<lparr>u_used := 7\<rparr>)"
    by (simp add: ref_run)
  from db_check_quota_sound [OF ref.sqlite_engine_axioms ann_idle r u] show ?thesis
    by (simp add: new_user_def DEFAULT_QUOTA_LIMIT_def)
qed

text \<open>When the sum does not fit, it wraps and the check says yes to a file far above the limit: a user
  with 7 bytes stored of 100 MiB passes the check for a file of \<open>2 ^ 64 - 7\<close> bytes.\<close>

theorem db_check_quota_wraps:
  "fst (snd (db_check_quota ref_engine (Some ''ann'') (- 7) (Some (ann_db [])))) = Some True \<and>
   DEFAULT_QUOTA_LIMIT < used_by 1 ann_store + uint (- 7 :: u64)"
proof -
  have "uint (- 7 :: u64) = 18446744073709551609" by simp
  then show ?thesis
    by (simp add: db_check_quota_def db_get_user_quota_def ref_run DEFAULT_QUOTA_LIMIT_def)
qed

text \<open>C23: what is stored is what is read. With a library that keeps the laws, consistent tables and no transaction open, after a
  \<open>db_add_or_update_file\<close> that returned 0, a \<open>db_get_file_size\<close> of that file that returns 0 yields the size that was given,
  and one of any other file, of the same or another user, the size that the tables held for it before.\<close>

theorem db_file_size_roundtrip:
  assumes "sqlite_engine E view" "dv_saved (view d) = None" "store_wf (dv_store (view d))"
    and "db_add_or_update_file E (Some u) (Some f) n (Some d) = (0, Some d')"
    and "db_get_file_size E (Some v) (Some g) (Some d') = (0, m, db')"
  shows "if v = u \<and> g = f then m = Some n
    else \<exists>r q. user_named v (dv_store (view d)) = Some r \<and>
      file_named (u_id r) g (dv_store (view d)) = Some q \<and> m = Some (word_of_int (f_size q))"
proof -
  let ?s = "dv_store (view d)"
  from sqlite_engine.add_file_atomic [OF assms(1,3,4)] have idle: "dv_saved (view d') = None"
    and t: "add_file u f (sint n) ?s = Some (dv_store (view d'))" by auto
  from t obtain r where r: "user_named u ?s = Some r"
    "dv_store (view d') = refresh (u_id r) (put_file (u_id r) f (sint n) ?s)" by (auto simp: add_file_def)
  from sqlite_engine.get_file_size_outcome [OF assms(1) idle assms(5)] obtain r' q where q:
    "user_named v (dv_store (view d')) = Some r'" "file_named (u_id r') g (dv_store (view d')) = Some q"
    "m = Some (word_of_int (f_size q))" by auto
  from q(1) obtain w where w: "user_named v ?s = Some w" "u_id r' = u_id w"
    by (auto simp: r(2) user_named_refresh split: if_splits)
  have same: "u_id w = u_id r \<longleftrightarrow> v = u"
    using users_same_id [OF assms(3) w(1) r(1)] w(1) r(1) by auto
  show ?thesis using q(2,3) w same by (auto simp: r(2) file_named_put split: option.split)
qed

lemma db_file_size_roundtrip_witness:
  "fst (snd (db_get_file_size ref_engine (Some ''ann'') (Some ''b'')
     (snd (db_add_or_update_file ref_engine (Some ''ann'') (Some ''b'') 5 (Some (ann_db [])))))) = Some 5"
proof -
  let ?a = "db_add_or_update_file ref_engine (Some ''ann'') (Some ''b'') 5 (Some (ann_db []))"
  obtain d' where a: "?a = (0, Some d')" by (simp add: db_add_or_update_file_def ref_run)
  obtain m db' where g: "db_get_file_size ref_engine (Some ''ann'') (Some ''b'') (Some d') = (0, m, db')"
    using a by (auto simp: db_add_or_update_file_def db_get_file_size_def ref_run)
  from db_file_size_roundtrip [OF ref.sqlite_engine_axioms ann_idle ann_wf a g] a g show ?thesis by simp
qed

end
