(* ===== verification/Auth.thy ===== *)
theory Auth
  imports Database_Props
begin

text \<open>
  \<open>src/auth/user_metadata.c\<close> and \<open>src/auth/auth.c\<close>: the layer over the database the rest of the server
  calls, and accounts over it. SHA-256 is OpenSSL's: a parameter \<open>sha\<close> that maps a password to the digest,
  of which the code relies on its 32 bytes. What accounts need from the layer is a locale, which the
  functions over any SQLite engine satisfy.
\<close>

section \<open>User metadata\<close>

definition user_metadata_init :: "'d sqlite \<Rightarrow> string option \<Rightarrow> 'd option \<Rightarrow> int \<times> 'd option" where
  "user_metadata_init E db_path db = (if db_path = None then (- 1, db) else db_init E db_path db)"

definition user_metadata_cleanup :: "'d option \<Rightarrow> 'd option" where
  "user_metadata_cleanup db = db_close db"

definition user_create ::
  "'d sqlite \<Rightarrow> string option \<Rightarrow> string option \<Rightarrow> 'd option \<Rightarrow> int \<times> 'd option" where
  "user_create E username password_hash db =
     (if username = None \<or> password_hash = None then (- 1, db)
      else db_create_user E username password_hash db)"

definition user_exists :: "'d sqlite \<Rightarrow> string option \<Rightarrow> 'd option \<Rightarrow> bool \<times> 'd option" where
  "user_exists E username db =
     (if username = None then (False, db)
      else let (result, ex, db) = db_user_exists E username db
           in if result \<noteq> 0 then (False, db) else (case ex of None \<Rightarrow> False | Some b \<Rightarrow> b, db))"

definition user_verify_password ::
  "'d sqlite \<Rightarrow> string option \<Rightarrow> string option \<Rightarrow> 'd option \<Rightarrow> int \<times> 'd option" where
  "user_verify_password E username password_hash db =
     (if username = None \<or> password_hash = None then (- 1, db)
      else let (result, valid, db) = db_verify_password E username password_hash db;
               valid = (case valid of None \<Rightarrow> False | Some b \<Rightarrow> b)
           in if result = - 2 then (- 2, db)
              else if result \<noteq> 0 then (- 1, db)
              else (if valid then 0 else - 3, db))"

definition user_check_quota :: "'d sqlite \<Rightarrow> string option \<Rightarrow> u64 \<Rightarrow> 'd option \<Rightarrow> bool \<times> 'd option" where
  "user_check_quota E username additional_bytes db =
     (if username = None then (False, db)
      else let (result, has_quota, db) = db_check_quota E username additional_bytes db
           in if result \<noteq> 0 then (False, db) else (case has_quota of None \<Rightarrow> False | Some b \<Rightarrow> b, db))"

definition user_add_file ::
  "'d sqlite \<Rightarrow> string option \<Rightarrow> string option \<Rightarrow> u64 \<Rightarrow> 'd option \<Rightarrow> int \<times> 'd option" where
  "user_add_file E username filename filesize db =
     (if username = None \<or> filename = None then (- 1, db)
      else db_add_or_update_file E username filename filesize db)"

definition user_remove_file ::
  "'d sqlite \<Rightarrow> string option \<Rightarrow> string option \<Rightarrow> 'd option \<Rightarrow> int \<times> 'd option" where
  "user_remove_file E username filename db =
     (if username = None \<or> filename = None then (- 1, db)
      else db_remove_file E username filename db)"

definition user_get_file_size ::
  "'d sqlite \<Rightarrow> string option \<Rightarrow> string option \<Rightarrow> 'd option \<Rightarrow> int \<times> u64 option \<times> 'd option" where
  "user_get_file_size E username filename db =
     (if username = None \<or> filename = None then (- 1, None, db)
      else let (result, filesize, db) = db_get_file_size E username filename db
           in if result = - 2 then (- 2, filesize, db) else (result, filesize, db))"

definition user_get_quota ::
  "'d sqlite \<Rightarrow> string option \<Rightarrow> 'd option \<Rightarrow> int \<times> (u64 \<times> u64) option \<times> 'd option" where
  "user_get_quota E username db =
     (if username = None then (- 1, None, db) else db_get_user_quota E username db)"

section \<open>Accounts\<close>

definition SHA256_DIGEST_LENGTH :: nat where "SHA256_DIGEST_LENGTH = 32"

definition hex_digit :: "nat \<Rightarrow> char" where
  "hex_digit n = ''0123456789abcdef'' ! n"

text \<open>\<open>sprintf\<close> with \<open>%02x\<close>.\<close>

definition hex_byte :: "char \<Rightarrow> string" where
  "hex_byte c = [hex_digit (of_char c div 16), hex_digit (of_char c mod 16)]"

definition hash_password :: "(bytes \<Rightarrow> bytes) \<Rightarrow> string \<Rightarrow> string" where
  "hash_password sha password =
     (let hash = sha password
      in concat (map (\<lambda>i. hex_byte (hash ! i)) [0..<SHA256_DIGEST_LENGTH]))"

definition user_signup ::
  "(bytes \<Rightarrow> bytes) \<Rightarrow> 'd sqlite \<Rightarrow> string option \<Rightarrow> string option \<Rightarrow> 'd option \<Rightarrow> int \<times> 'd option" where
  "user_signup sha E username password db =
     (case (username, password) of
        (Some u, Some p) \<Rightarrow>
          (let (ex, db) = user_exists E (Some u) db
           in if ex then (- 2, db) else user_create E (Some u) (Some (hash_password sha p)) db)
      | _ \<Rightarrow> (- 1, db))"

definition user_login ::
  "(bytes \<Rightarrow> bytes) \<Rightarrow> 'd sqlite \<Rightarrow> string option \<Rightarrow> string option \<Rightarrow> 'd option \<Rightarrow> int \<times> 'd option" where
  "user_login sha E username password db =
     (case (username, password) of
        (Some u, Some p) \<Rightarrow> user_verify_password E (Some u) (Some (hash_password sha p)) db
      | _ \<Rightarrow> (- 1, db))"

section \<open>The hexadecimal digest\<close>

lemma length_hash_password [simp]: "length (hash_password sha p) = 64"
  by (simp add: hash_password_def hex_byte_def SHA256_DIGEST_LENGTH_def length_concat comp_def
      sum_list_triv Let_def)

lemma hex_digit_inj: "i < 16 \<Longrightarrow> j < 16 \<Longrightarrow> hex_digit i = hex_digit j \<longleftrightarrow> i = j"
proof -
  assume "i < 16" "j < 16"
  moreover have "distinct ''0123456789abcdef''" "length ''0123456789abcdef'' = 16" by simp_all
  ultimately show ?thesis unfolding hex_digit_def by (metis nth_eq_iff_index_eq)
qed

lemma hex_digit_in: "i < 16 \<Longrightarrow> hex_digit i \<in> set ''0123456789abcdef''"
  unfolding hex_digit_def by (rule nth_mem) simp

lemma of_char_less: "(of_char c :: nat) < 256"
  by (rule nat_of_char_less_256)

lemma of_char_parts: "(of_char c :: nat) div 16 < 16" "(of_char c :: nat) mod 16 < 16"
  using of_char_less [of c] by (simp_all add: div_less_iff_less_mult)

lemma hex_byte_inj: "hex_byte c = hex_byte d \<longleftrightarrow> c = d"
proof
  assume "hex_byte c = hex_byte d"
  then have "(of_char c :: nat) div 16 = of_char d div 16" "(of_char c :: nat) mod 16 = of_char d mod 16"
    using hex_digit_inj of_char_parts [of c] of_char_parts [of d] by (simp_all add: hex_byte_def)
  then have "(of_char c :: nat) = of_char d" by (metis div_mult_mod_eq)
  then show "c = d" by simp
qed simp

lemma concat_pairs_inj:
  assumes "\<And>i. i < n \<Longrightarrow> length (f i) = k" "\<And>i. i < n \<Longrightarrow> length (g i) = k"
    and "concat (map f [0..<n]) = concat (map g [0..<n])" "i < n"
  shows "f i = g i"
  using assms
proof (induction n)
  case (Suc n)
  then have "concat (map f [0..<n]) @ f n = concat (map g [0..<n]) @ g n" by simp
  moreover have "length (f n) = length (g n)" using Suc.prems by simp
  ultimately have "concat (map f [0..<n]) = concat (map g [0..<n])" "f n = g n" by simp_all
  with Suc show ?case by (cases "i = n") simp_all
qed simp

lemma hex_byte_chars: "set (hex_byte c) \<subseteq> set ''0123456789abcdef''"
  using hex_digit_in [OF of_char_parts(1)] hex_digit_in [OF of_char_parts(2)] unfolding hex_byte_def by auto

lemma hash_password_chars: "c \<in> set (hash_password sha p) \<Longrightarrow> c \<in> set ''0123456789abcdef''"
  using hex_byte_chars unfolding hash_password_def Let_def set_concat set_map by blast

lemma hash_password_inj:
  assumes "length (sha p) = 32" "length (sha q) = 32" "hash_password sha p = hash_password sha q"
  shows "sha p = sha q"
proof (rule nth_equalityI)
  fix i assume "i < length (sha p)"
  with assms concat_pairs_inj [of 32 "\<lambda>i. hex_byte (sha p ! i)" 2 "\<lambda>i. hex_byte (sha q ! i)" i]
  show "sha p ! i = sha q ! i"
    by (simp add: hash_password_def SHA256_DIGEST_LENGTH_def Let_def hex_byte_inj) (simp add: hex_byte_def)
qed (use assms in simp)

section \<open>What accounts need\<close>

text \<open>A store of credentials: what \<open>creds\<close> shows is changed only by a creation that succeeds, which needs
  a new name; a verification tells the truth when it decides.\<close>

locale credential_store =
  fixes ok :: "'s \<Rightarrow> bool"
    and creds :: "'s \<Rightarrow> string \<Rightarrow> string option"
    and known :: "string \<Rightarrow> 's \<Rightarrow> bool \<times> 's"
    and create :: "string \<Rightarrow> string \<Rightarrow> 's \<Rightarrow> int \<times> 's"
    and verify :: "string \<Rightarrow> string \<Rightarrow> 's \<Rightarrow> int \<times> 's"
  assumes known: "ok s \<Longrightarrow> known u s = (b, s') \<Longrightarrow> ok s' \<and> creds s' = creds s \<and> (b \<longrightarrow> creds s u \<noteq> None)"
    and create_new: "ok s \<Longrightarrow> create u h s = (0, s') \<Longrightarrow> creds s u = None \<and> creds s' = (creds s)(u \<mapsto> h)"
    and create_ok: "ok s \<Longrightarrow> ok (snd (create u h s))"
    and create_fails: "ok s \<Longrightarrow> create u h s = (rc, s') \<Longrightarrow> rc \<noteq> 0 \<Longrightarrow> creds s' = creds s"
    and verify: "ok s \<Longrightarrow> verify u h s = (rc, s') \<Longrightarrow> ok s' \<and> creds s' = creds s \<and>
      (rc = 0 \<longrightarrow> creds s u = Some h) \<and> (rc = - 3 \<longrightarrow> (\<exists>k. creds s u = Some k \<and> k \<noteq> h))"
begin

definition signup :: "string \<Rightarrow> string \<Rightarrow> 's \<Rightarrow> int \<times> 's" where
  "signup u h s = (let (b, s) = known u s in if b then (- 2, s) else create u h s)"

lemma signup_outcome:
  assumes "ok s" "signup u h s = (rc, s')"
  shows "ok s' \<and> (rc = 0 \<and> creds s u = None \<and> creds s' = (creds s)(u \<mapsto> h) \<or> rc \<noteq> 0 \<and> creds s' = creds s)"
proof -
  obtain b s1 where k: "known u s = (b, s1)" by fastforce
  note k' = known [OF assms(1) k]
  show ?thesis
  proof (cases b)
    case True
    with assms(2) k k' show ?thesis by (auto simp: signup_def)
  next
    case False
    with assms(2) k have c: "create u h s1 = (rc, s')" by (simp add: signup_def)
    have ok1: "ok s1" using k' by blast
    have "ok s'" using create_ok [OF ok1, of u h] c by simp
    with k' create_new [OF ok1, of u h s'] create_fails [OF ok1 c] c show ?thesis
      by (cases "rc = 0") auto
  qed
qed

text \<open>An account never changes its credential: whatever signups and logins follow.\<close>

definition attempts :: "(string \<times> string + string \<times> string) list \<Rightarrow> 's \<Rightarrow> 's" where
  "attempts cs s = fold (\<lambda>c s. case c of Inl (u, h) \<Rightarrow> snd (signup u h s) | Inr (u, h) \<Rightarrow> snd (verify u h s)) cs s"

lemma attempt_keeps:
  assumes "ok s" "creds s u = Some h"
  shows "ok (case c of Inl (v, k) \<Rightarrow> snd (signup v k s) | Inr (v, k) \<Rightarrow> snd (verify v k s)) \<and>
    creds (case c of Inl (v, k) \<Rightarrow> snd (signup v k s) | Inr (v, k) \<Rightarrow> snd (verify v k s)) u = Some h"
proof (cases c)
  case (Inl p)
  obtain v k where p: "p = (v, k)" by fastforce
  obtain rc s' where r: "signup v k s = (rc, s')" by fastforce
  from signup_outcome [OF assms(1) r] assms(2) Inl p r show ?thesis by auto
next
  case (Inr p)
  obtain v k where p: "p = (v, k)" by fastforce
  obtain rc s' where r: "verify v k s = (rc, s')" by fastforce
  from verify [OF assms(1) r] assms(2) Inr p r show ?thesis by auto
qed

lemma attempts_keep:
  "ok s \<Longrightarrow> creds s u = Some h \<Longrightarrow> ok (attempts cs s) \<and> creds (attempts cs s) u = Some h"
proof (induction cs arbitrary: s)
  case (Cons c cs)
  from attempt_keeps [OF Cons.prems, of c] Cons.IH show ?case by (simp add: attempts_def)
qed (simp add: attempts_def)

lemma verify_after_signup:
  assumes "ok s" "signup u h s = (0, s1)" "verify u k (attempts cs s1) = (rc, s2)"
  shows "(rc = 0 \<longrightarrow> k = h) \<and> (rc = - 3 \<longrightarrow> k \<noteq> h)"
proof -
  from signup_outcome [OF assms(1,2)] have "ok s1" "creds s1 u = Some h" by auto
  from attempts_keep [OF this, of cs] verify [OF _ assms(3)] show ?thesis by auto
qed

end

section \<open>Accounts over the database\<close>

definition db_idle :: "('d \<Rightarrow> dbview) \<Rightarrow> 'd option \<Rightarrow> bool" where
  "db_idle view db = (case db of None \<Rightarrow> False | Some d \<Rightarrow> dv_saved (view d) = None)"

definition db_creds :: "('d \<Rightarrow> dbview) \<Rightarrow> 'd option \<Rightarrow> string \<Rightarrow> string option" where
  "db_creds view db u = Option.bind db (\<lambda>d. map_option u_hash (user_named u (dv_store (view d))))"

lemma db_idleE:
  assumes "db_idle view db"
  obtains d where "db = Some d" "dv_saved (view d) = None"
  using assms by (auto simp: db_idle_def split: option.splits)

lemma db_creds_Some [simp]: "db_creds view (Some d) u = map_option u_hash (user_named u (dv_store (view d)))"
  by (simp add: db_creds_def)

lemma db_idle_Some [simp]: "db_idle view (Some d) \<longleftrightarrow> dv_saved (view d) = None"
  by (simp add: db_idle_def)

lemma user_named_insert:
  "sql_effect i Insert_user [SQ_text u, SQ_text h] s = Some t \<Longrightarrow>
     user_named u s = None \<and> user_named v t = (if v = u then Some (new_user i u h) else user_named v s)"
  by (auto simp: sql_effect_def user_named_def find_append new_user_def split: if_splits option.split)

context sqlite_engine begin

lemma user_exists_known:
  assumes "db_idle view db" "user_exists E (Some u) db = (b, db')"
  shows "db_idle view db' \<and> db_creds view db' = db_creds view db \<and> (b \<longrightarrow> db_creds view db u \<noteq> None)"
proof -
  from assms(1) obtain d where d: "db = Some d" "dv_saved (view d) = None" by (rule db_idleE)
  obtain rc ex db1 where r: "db_user_exists E (Some u) (Some d) = (rc, ex, db1)" by (metis prod_cases3)
  from user_exists_outcome [OF d(2) r] assms(2) d r show ?thesis
    by (auto simp: user_exists_def db_creds_def fun_eq_iff split: if_splits option.splits)
qed

lemma user_create_cases:
  assumes "db_idle view db" "user_create E (Some u) (Some h) db = (rc, db')"
  shows "db_idle view db' \<and> (rc = 0 \<and> db_creds view db u = None \<and> db_creds view db' = (db_creds view db)(u \<mapsto> h) \<or>
    rc \<noteq> 0 \<and> db_creds view db' = db_creds view db)"
proof -
  from assms(1) obtain d where d: "db = Some d" "dv_saved (view d) = None" by (rule db_idleE)
  have "db_create_user E (Some u) (Some h) (Some d) = (rc, db')" using assms(2) d by (simp add: user_create_def)
  from create_user_outcome [OF d(2) this] obtain d' where d': "db' = Some d'" "dv_saved (view d') = None"
    "rc = 0 \<and> (\<exists>i. sql_effect i Insert_user [SQ_text u, SQ_text h] (dv_store (view d)) = Some (dv_store (view d'))) \<or>
     rc \<noteq> 0 \<and> dv_store (view d') = dv_store (view d)" by auto
  show ?thesis
  proof (cases "rc = 0")
    case True
    with d'(3) obtain i where "sql_effect i Insert_user [SQ_text u, SQ_text h] (dv_store (view d)) = Some (dv_store (view d'))"
      by auto
    from user_named_insert [OF this] show ?thesis using True d d'(1,2)
      by (auto simp: fun_eq_iff new_user_def)
  next
    case False
    with d d' show ?thesis by (auto simp: fun_eq_iff)
  qed
qed

lemma user_verify_cases:
  assumes "db_idle view db" "user_verify_password E (Some u) (Some h) db = (rc, db')"
  shows "db_idle view db' \<and> db_creds view db' = db_creds view db \<and>
    (rc = 0 \<longrightarrow> db_creds view db u = Some h) \<and> (rc = - 3 \<longrightarrow> (\<exists>k. db_creds view db u = Some k \<and> k \<noteq> h))"
proof -
  from assms(1) obtain d where d: "db = Some d" "dv_saved (view d) = None" by (rule db_idleE)
  obtain rc1 ok db1 where r: "db_verify_password E (Some u) (Some h) (Some d) = (rc1, ok, db1)"
    by (metis prod_cases3)
  from verify_password_outcome [OF d(2) r] obtain d1 where d1: "db1 = Some d1" "view d1 = view d" by blast
  with verify_password_outcome [OF d(2) r] assms(2) d r show ?thesis
    by (auto simp: user_verify_password_def fun_eq_iff split: if_splits)
qed

end

sublocale sqlite_engine \<subseteq> accounts: credential_store "db_idle view" "db_creds view"
  "\<lambda>u. user_exists E (Some u)" "\<lambda>u h. user_create E (Some u) (Some h)"
  "\<lambda>u h. user_verify_password E (Some u) (Some h)"
proof unfold_locales
  fix s u h s' assume "db_idle view s" "user_create E (Some u) (Some h) s = (0, s')"
  then show "db_creds view s u = None \<and> db_creds view s' = (db_creds view s)(u \<mapsto> h)"
    using user_create_cases by fastforce
next
  fix s u h assume "db_idle view s"
  then show "db_idle view (snd (user_create E (Some u) (Some h) s))"
    using user_create_cases [of s u h] by (metis prod.collapse)
next
  fix s u h rc s' assume "db_idle view s" "user_create E (Some u) (Some h) s = (rc, s')" "rc \<noteq> 0"
  then show "db_creds view s' = db_creds view s" using user_create_cases by blast
qed (use user_exists_known user_verify_cases in blast)+

datatype auth_call = Signup string string | Login string string

fun auth_perform :: "(bytes \<Rightarrow> bytes) \<Rightarrow> 'd sqlite \<Rightarrow> auth_call \<Rightarrow> 'd option \<Rightarrow> 'd option" where
  "auth_perform sha E (Signup u p) db = snd (user_signup sha E (Some u) (Some p) db)"
| "auth_perform sha E (Login u p) db = snd (user_login sha E (Some u) (Some p) db)"

fun attempt_of :: "(bytes \<Rightarrow> bytes) \<Rightarrow> auth_call \<Rightarrow> string \<times> string + string \<times> string" where
  "attempt_of sha (Signup u p) = Inl (u, hash_password sha p)"
| "attempt_of sha (Login u p) = Inr (u, hash_password sha p)"

context sqlite_engine begin

lemma user_signup_is: "user_signup sha E (Some u) (Some p) db = accounts.signup u (hash_password sha p) db"
  by (simp add: user_signup_def accounts.signup_def)

lemma auth_performs_are:
  "fold (auth_perform sha E) cs db = accounts.attempts (map (attempt_of sha) cs) db"
proof -
  have "auth_perform sha E c db = (case attempt_of sha c of Inl (u, h) \<Rightarrow> snd (accounts.signup u h db)
      | Inr (u, h) \<Rightarrow> snd (user_verify_password E (Some u) (Some h) db))" for c db
    by (cases c) (simp_all add: user_signup_is user_login_def)
  then show ?thesis unfolding accounts.attempts_def fold_map comp_def by (intro fold_cong) (auto simp: fun_eq_iff)
qed

lemma login_after_signup:
  assumes "db_idle view db" "user_signup sha E (Some u) (Some p) db = (0, db1)"
    "user_login sha E (Some u) (Some q) (fold (auth_perform sha E) cs db1) = (rc, db2)"
  shows "(rc = 0 \<longrightarrow> hash_password sha q = hash_password sha p) \<and>
    (rc = - 3 \<longrightarrow> hash_password sha q \<noteq> hash_password sha p)"
  using accounts.verify_after_signup [OF assms(1), of u "hash_password sha p" db1 "hash_password sha q"
      "map (attempt_of sha) cs" rc db2] assms(2,3)
  by (simp add: user_signup_is auth_performs_are user_login_def)

lemma signup_cases:
  assumes "db_idle view db" "user_signup sha E (Some u) (Some p) db = (rc, db')"
  shows "db_idle view db' \<and>
    (rc = 0 \<and> db_creds view db u = None \<and> db_creds view db' = (db_creds view db)(u \<mapsto> hash_password sha p) \<or>
     rc \<noteq> 0 \<and> db_creds view db' = db_creds view db)"
  using accounts.signup_outcome [OF assms(1)] assms(2) by (simp add: user_signup_is)

end

section \<open>Properties\<close>

text \<open>A digest function for concrete runs: the password padded with zeros, or cut, to 32 bytes.\<close>

definition pad_digest :: "bytes \<Rightarrow> bytes" where
  "pad_digest p = take 32 (p @ replicate 32 NUL)"

lemma length_pad_digest: "length (pad_digest p) = 32"
  by (simp add: pad_digest_def)


lemma bob_signup:
  "user_signup pad_digest ref_engine (Some ''bob'') (Some ''pw'') (Some (ann_db [])) =
     (0, snd (user_signup pad_digest ref_engine (Some ''bob'') (Some ''pw'') (Some (ann_db []))))"
  by (simp add: user_signup_def user_exists_def user_create_def db_user_exists_def db_create_user_def ref_run)

lemma ann_db_idle: "db_idle rd_view (Some (ann_db cs))"
  by (simp add: ann_idle)


text \<open>C25: a signup creates an account or changes none. With a library that keeps the laws and no transaction open, whatever
  call fails: it returns 0 only if the name was free, and then the account has the digest of the password and all others are
  as they were; in every other case all accounts are as they were.\<close>

theorem user_signup_creates_or_keeps:
  assumes "sqlite_engine E view" "db_idle view db" "user_signup sha E (Some u) (Some p) db = (rc, db')"
  shows "rc = 0 \<and> db_creds view db u = None \<and> db_creds view db' = (db_creds view db)(u \<mapsto> hash_password sha p) \<or>
    rc \<noteq> 0 \<and> db_creds view db' = db_creds view db"
  using sqlite_engine.signup_cases [OF assms] by blast

lemma user_signup_creates_or_keeps_witness:
  "db_creds rd_view (snd (user_signup pad_digest ref_engine (Some ''bob'') (Some ''pw'') (Some (ann_db [])))) ''ann''
     = Some ''h''"
proof -
  have "db_creds rd_view (Some (ann_db [])) ''ann'' = Some ''h''" by (simp add: ref_run)
  with user_signup_creates_or_keeps [OF ref.sqlite_engine_axioms ann_db_idle bob_signup] show ?thesis
    by auto
qed

text \<open>The password digest is stored as 64 lower-case hexadecimal digits, which fit the 65 bytes of its
  buffer with the terminator, and two digests have the same digits only if they are equal.\<close>

theorem hash_password_hex:
  assumes "length (sha p) = 32" "length (sha q) = 32"
  shows "length (hash_password sha p) = 64 \<and> set (hash_password sha p) \<subseteq> set ''0123456789abcdef'' \<and>
    (hash_password sha p = hash_password sha q \<longleftrightarrow> sha p = sha q)"
proof -
  have "hash_password sha p = hash_password sha q" if "sha p = sha q"
    using that by (simp add: hash_password_def)
  then show ?thesis using hash_password_inj [of sha p q] assms hash_password_chars [of _ sha p] length_hash_password
    by blast
qed

lemma hash_password_hex_witness: "length (hash_password pad_digest ''pw'') = 64"
  using hash_password_hex [of pad_digest "''pw''" "''pw''"] length_pad_digest by blast

end
