(* ===== verification/Commands.thy ===== *)
theory Commands
  imports Task_Queue
begin

text \<open>
  The command language of the client thread (\<open>src/threads/client_thread.c\<close>): the \<open>sscanf\<close> formats it
  reads commands with. A blank in a format skips any white space, also none; \<open>%Ns\<close> skips white space and
  takes at most \<open>N\<close> other characters, at least one; \<open>%zu\<close> reads as \<open>strtoul\<close> does. An input is the string
  up to its NUL.
\<close>

section \<open>sscanf\<close>

definition is_space :: "char \<Rightarrow> bool" where
  "is_space c \<longleftrightarrow> c \<in> set [CHR '' '', CHR 0x09, LF, CHR 0x0B, CHR 0x0C, CHR 0x0D]"

definition is_digit :: "char \<Rightarrow> bool" where
  "is_digit c \<longleftrightarrow> 48 \<le> (of_char c :: nat) \<and> (of_char c :: nat) \<le> 57"

definition skip_space :: "string \<Rightarrow> string" where
  "skip_space s = dropWhile is_space s"

text \<open>The text of a format between its conversions.\<close>

fun scan_text :: "string \<Rightarrow> string \<Rightarrow> string option" where
  "scan_text [] s = Some s"
| "scan_text (f # fs) s =
     (if is_space f then scan_text fs (skip_space s)
      else case s of [] \<Rightarrow> None | c # cs \<Rightarrow> if c = f then scan_text fs cs else None)"

text \<open>\<open>%Ns\<close>: the word and the rest of the input.\<close>

definition scan_word :: "nat \<Rightarrow> string \<Rightarrow> (string \<times> string) option" where
  "scan_word n s =
     (let w = take n (takeWhile (\<lambda>c. \<not> is_space c) (skip_space s))
      in if w = [] then None else Some (w, drop (length w) (skip_space s)))"

fun number :: "nat \<Rightarrow> string \<Rightarrow> nat" where
  "number acc [] = acc"
| "number acc (c # cs) = number (10 * acc + (of_char c - 48)) cs"

text \<open>\<open>%zu\<close>: too large a number gives the largest \<open>size_t\<close>, a minus sign the negative modulo \<open>2 ^ 64\<close>.\<close>

definition scan_size :: "string \<Rightarrow> u64 option" where
  "scan_size s =
     (let s = skip_space s;
          negative = (s \<noteq> [] \<and> hd s = CHR ''-'');
          digits = takeWhile is_digit (if s \<noteq> [] \<and> (hd s = CHR ''-'' \<or> hd s = CHR ''+'') then tl s else s);
          v = number 0 digits
      in if digits = [] then None
         else if 2 ^ 64 \<le> v then Some (- 1)
         else Some (if negative then - of_nat v else of_nat v))"

text \<open>\<open>sscanf(cmd, "PRE %63s %255s", username, password) == 2\<close>.\<close>

definition sscanf_words :: "string \<Rightarrow> nat \<Rightarrow> nat \<Rightarrow> string \<Rightarrow> (string \<times> string) option" where
  "sscanf_words pre n m cmd =
     Option.bind (scan_text (pre @ '' '') cmd) (\<lambda>s.
     Option.bind (scan_word n s) (\<lambda>(u, s).
     map_option (\<lambda>(p, s). (u, p)) (scan_word m (skip_space s))))"

text \<open>\<open>sscanf(cmd, "UPLOAD %255s %zu", filename, &filesize) == 2\<close>.\<close>

definition sscanf_word_size :: "string \<Rightarrow> nat \<Rightarrow> string \<Rightarrow> (string \<times> u64) option" where
  "sscanf_word_size pre n cmd =
     Option.bind (scan_text (pre @ '' '') cmd) (\<lambda>s.
     Option.bind (scan_word n s) (\<lambda>(f, s).
     map_option (\<lambda>k. (f, k)) (scan_size (skip_space s))))"

text \<open>\<open>sscanf(cmd, "PRE %255s", filename) == 1\<close>.\<close>

definition sscanf_word :: "string \<Rightarrow> nat \<Rightarrow> string \<Rightarrow> string option" where
  "sscanf_word pre n cmd =
     Option.bind (scan_text (pre @ '' '') cmd) (\<lambda>s. map_option fst (scan_word n s))"

section \<open>Commands\<close>

datatype auth_command = Cmd_signup string string | Cmd_login string string | Cmd_not_auth

definition parse_auth :: "string \<Rightarrow> auth_command" where
  "parse_auth cmd =
     (case sscanf_words ''SIGNUP'' 63 255 cmd of
        Some (u, p) \<Rightarrow> Cmd_signup u p
      | None \<Rightarrow> (case sscanf_words ''LOGIN'' 63 255 cmd of
          Some (u, p) \<Rightarrow> Cmd_login u p
        | None \<Rightarrow> Cmd_not_auth))"

datatype file_command =
  Cmd_quit | Cmd_upload string u64 | Cmd_download string | Cmd_delete string | Cmd_list | Cmd_invalid

definition parse_file :: "string \<Rightarrow> file_command" where
  "parse_file cmd =
     (if starts_with ''QUIT'' cmd then Cmd_quit
      else case sscanf_word_size ''UPLOAD'' 255 cmd of
        Some (f, n) \<Rightarrow> Cmd_upload f n
      | None \<Rightarrow> (case sscanf_word ''DOWNLOAD'' 255 cmd of
          Some f \<Rightarrow> Cmd_download f
        | None \<Rightarrow> (case sscanf_word ''DELETE'' 255 cmd of
            Some f \<Rightarrow> Cmd_delete f
          | None \<Rightarrow> if starts_with ''LIST'' cmd then Cmd_list else Cmd_invalid)))"

section \<open>Scanning what was printed\<close>

definition is_word :: "string \<Rightarrow> bool" where
  "is_word w \<longleftrightarrow> w \<noteq> [] \<and> (\<forall>c \<in> set w. \<not> is_space c)"

lemma is_space_blank [simp]: "is_space (CHR '' '')" "is_space LF"
  by (simp_all add: is_space_def)

lemma skip_space_Nil [simp]: "skip_space [] = []"
  by (simp add: skip_space_def)

lemma skip_space_Cons: "skip_space (c # s) = (if is_space c then skip_space s else c # s)"
  by (simp add: skip_space_def)

lemma skip_space_word: "is_word w \<Longrightarrow> skip_space (w @ s) = w @ s"
  by (cases w) (auto simp: is_word_def skip_space_Cons)

lemma scan_text_prefix: "\<forall>c \<in> set pre. \<not> is_space c \<Longrightarrow> scan_text (pre @ fs) (pre @ s) = scan_text fs s"
  by (induction pre) auto

lemma scan_text_command:
  "\<forall>c \<in> set pre. \<not> is_space c \<Longrightarrow> scan_text (pre @ '' '') (pre @ CHR '' '' # s) = Some (skip_space s)"
  by (simp add: scan_text_prefix skip_space_Cons)

text \<open>A word that fits and is followed by white space or nothing is read whole.\<close>

lemma takeWhile_word:
  "is_word w \<Longrightarrow> s = [] \<or> is_space (hd s) \<Longrightarrow> takeWhile (\<lambda>c. \<not> is_space c) (w @ s) = w"
  by (cases s) (auto simp: is_word_def)

lemma scan_word_word:
  assumes "is_word w" "length w \<le> n" "s = [] \<or> is_space (hd s)"
  shows "scan_word n (w @ s) = Some (w, s)"
  using takeWhile_word [OF assms(1,3)] assms
  by (simp add: scan_word_def skip_space_word Let_def is_word_def)

lemma scan_word_word_skip:
  "is_word w \<Longrightarrow> length w \<le> n \<Longrightarrow> s = [] \<or> is_space (hd s) \<Longrightarrow> scan_word n (skip_space (w @ s)) = Some (w, s)"
  by (simp add: skip_space_word scan_word_word)

lemma scan_word_bounds:
  "scan_word n s = Some (w, r) \<Longrightarrow> is_word w \<and> length w \<le> n"
  by (auto simp: scan_word_def is_word_def Let_def split: if_splits dest!: in_set_takeD set_takeWhileD)

section \<open>Numbers\<close>

lemma digit_is_digit [simp]: "n < 10 \<Longrightarrow> is_digit (digit n)"
  by (simp add: is_digit_def)

lemma number_append: "number acc (s @ t) = number (number acc s) t"
  by (induction acc s rule: number.induct) auto

lemma number_show [simp]: "number 0 (show_nat n) = n"
proof (induction n rule: show_nat.induct)
  case (1 n)
  show ?case
  proof (cases "n < 10")
    case True
    then show ?thesis by (simp add: show_nat.simps [of n])
  next
    case False
    with 1 show ?thesis by (simp add: show_nat.simps [of n] number_append)
  qed
qed

lemma show_nat_digits: "\<forall>c \<in> set (show_nat n). is_digit c"
proof (induction n rule: show_nat.induct)
  case (1 n)
  then show ?case by (cases "n < 10") (simp_all add: show_nat.simps [of n])
qed

lemma show_nat_ne [simp]: "show_nat n \<noteq> []"
  by (simp add: show_nat.simps)

lemma is_digit_not_sign: "is_digit c \<Longrightarrow> c \<noteq> CHR ''-'' \<and> c \<noteq> CHR ''+'' \<and> \<not> is_space c"
  by (auto simp: is_digit_def is_space_def)

lemma scan_size_show:
  assumes "n < 2 ^ 64" "s = [] \<or> \<not> is_digit (hd s)"
  shows "scan_size (show_nat n @ s) = Some (of_nat n)"
proof -
  obtain c cs where c: "show_nat n = c # cs" by (cases "show_nat n") auto
  then have d: "is_digit c" using show_nat_digits [of n] by simp
  have "takeWhile is_digit (show_nat n @ s) = show_nat n"
    using show_nat_digits [of n] assms(2) by (cases s) (auto simp: takeWhile_append2)
  with c d is_digit_not_sign [OF d] assms(1) number_show [of n] show ?thesis
    by (simp add: scan_size_def skip_space_Cons)
qed

section \<open>Properties\<close>

lemma sscanf_words_print:
  assumes "\<forall>c \<in> set pre. \<not> is_space c" "is_word u" "is_word p" "length u \<le> n" "length p \<le> m"
    "s = [] \<or> is_space (hd s)"
  shows "sscanf_words pre n m (pre @ '' '' @ u @ '' '' @ p @ s) = Some (u, p)"
  using assms scan_word_word_skip [of u n "CHR '' '' # p @ s"] scan_word_word [of p m s]
  by (simp add: sscanf_words_def scan_text_command skip_space_Cons skip_space_word)

lemma sscanf_other:
  "scan_text (pre @ '' '') cmd = None \<Longrightarrow>
     sscanf_words pre n m cmd = None \<and> sscanf_word_size pre n cmd = None \<and> sscanf_word pre n cmd = None"
  by (simp add: sscanf_words_def sscanf_word_size_def sscanf_word_def)

lemma sscanf_word_size_print:
  assumes "\<forall>c \<in> set pre. \<not> is_space c" "is_word f" "length f \<le> n" "k < 2 ^ 64" "s = [] \<or> \<not> is_digit (hd s)"
  shows "sscanf_word_size pre n (pre @ '' '' @ f @ '' '' @ show_nat k @ s) = Some (f, of_nat k)"
proof -
  have "skip_space (show_nat k @ s) = show_nat k @ s"
    using show_nat_digits [of k] is_digit_not_sign
    by (intro skip_space_word) (auto simp: is_word_def)
  then show ?thesis
    using assms scan_word_word_skip [of f n "CHR '' '' # show_nat k @ s"] scan_size_show [of k s]
    by (simp add: sscanf_word_size_def scan_text_command skip_space_Cons)
qed

lemma sscanf_word_print:
  assumes "\<forall>c \<in> set pre. \<not> is_space c" "is_word f" "length f \<le> n" "s = [] \<or> is_space (hd s)"
  shows "sscanf_word pre n (pre @ '' '' @ f @ s) = Some f"
  using assms scan_word_word_skip [of f n s] by (simp add: sscanf_word_def scan_text_command)

lemma not_space_letters [simp]:
  "\<not> is_space CHR ''S''" "\<not> is_space CHR ''I''" "\<not> is_space CHR ''G''" "\<not> is_space CHR ''N''"
  "\<not> is_space CHR ''U''" "\<not> is_space CHR ''P''" "\<not> is_space CHR ''L''" "\<not> is_space CHR ''O''"
  "\<not> is_space CHR ''A''" "\<not> is_space CHR ''D''" "\<not> is_space CHR ''W''" "\<not> is_space CHR ''E''"
  "\<not> is_space CHR ''T''"
  by (simp_all add: is_space_def)

text \<open>How each command is read as it was written.\<close>

lemma parse_signup_line:
  assumes "is_word u" "is_word p" "length u \<le> 63" "length p \<le> 255" "s = [] \<or> is_space (hd s)"
  shows "parse_auth (''SIGNUP '' @ u @ '' '' @ p @ s) = Cmd_signup u p"
  using sscanf_words_print [of "''SIGNUP''" u p 63 255 s] assms by (simp add: parse_auth_def)

lemma parse_login_line:
  assumes "is_word u" "is_word p" "length u \<le> 63" "length p \<le> 255" "s = [] \<or> is_space (hd s)"
  shows "parse_auth (''LOGIN '' @ u @ '' '' @ p @ s) = Cmd_login u p"
proof -
  have "sscanf_words ''SIGNUP'' 63 255 (''LOGIN '' @ u @ '' '' @ p @ s) = None"
    by (rule sscanf_other [THEN conjunct1]) simp
  with sscanf_words_print [of "''LOGIN''" u p 63 255 s] assms show ?thesis by (simp add: parse_auth_def)
qed

lemma not_upload: "c \<noteq> CHR ''U'' \<Longrightarrow> sscanf_word_size ''UPLOAD'' 255 (c # t) = None"
  by (intro sscanf_other [THEN conjunct2, THEN conjunct1]) simp

lemma parse_upload_line:
  assumes "is_word f" "length f \<le> 255" "k < 2 ^ 64" "s = [] \<or> \<not> is_digit (hd s)"
  shows "parse_file (''UPLOAD '' @ f @ '' '' @ show_nat k @ s) = Cmd_upload f (of_nat k)"
  using sscanf_word_size_print [of "''UPLOAD''" f 255 k s] assms by (simp add: parse_file_def starts_with_def)

lemma parse_download_line:
  assumes "is_word f" "length f \<le> 255" "s = [] \<or> is_space (hd s)"
  shows "parse_file (''DOWNLOAD '' @ f @ s) = Cmd_download f"
  using sscanf_word_print [of "''DOWNLOAD''" f 255 s] assms by (simp add: parse_file_def starts_with_def not_upload)

lemma parse_delete_line:
  assumes "is_word f" "length f \<le> 255" "s = [] \<or> is_space (hd s)"
  shows "parse_file (''DELETE '' @ f @ s) = Cmd_delete f"
proof -
  have "sscanf_word ''DOWNLOAD'' 255 (''DELETE '' @ f @ s) = None" by (simp add: sscanf_other)
  with sscanf_word_print [of "''DELETE''" f 255 s] assms show ?thesis
    by (simp add: parse_file_def starts_with_def not_upload)
qed

lemma parse_list_line: "parse_file (''LIST'' @ s) = Cmd_list"
proof -
  have "sscanf_word ''DOWNLOAD'' 255 (''LIST'' @ s) = None" "sscanf_word ''DELETE'' 255 (''LIST'' @ s) = None"
    by (simp_all add: sscanf_other)
  then show ?thesis by (simp add: parse_file_def starts_with_def not_upload)
qed

lemma parse_quit_line: "parse_file (''QUIT'' @ s) = Cmd_quit"
  by (simp add: parse_file_def starts_with_def)

text \<open>C27: signup and login commands are read as they were written, for every user name of at most 63 and
  password of at most 255 characters without white space.\<close>

theorem parse_auth_print:
  assumes "is_word u" "is_word p" "length u \<le> 63" "length p \<le> 255" "s = [] \<or> is_space (hd s)"
  shows "parse_auth (''SIGNUP '' @ u @ '' '' @ p @ s) = Cmd_signup u p \<and>
    parse_auth (''LOGIN '' @ u @ '' '' @ p @ s) = Cmd_login u p"
  using parse_signup_line [OF assms] parse_login_line [OF assms] by simp

lemma parse_auth_print_witness:
  "parse_auth (''LOGIN '' @ ''ann'' @ '' '' @ ''pw'' @ []) = Cmd_login ''ann'' ''pw''"
  using parse_auth_print [of "''ann''" "''pw''" "[]"] by (simp add: is_word_def is_space_def)

text \<open>C26: file commands are read as they were written, for every file name of at most 255 characters without
  white space and every size below \<open>2 ^ 64\<close>; the bytes after the line do not matter.\<close>

theorem parse_file_print:
  assumes "is_word f" "length f \<le> 255" "k < 2 ^ 64"
  shows "parse_file (''UPLOAD '' @ f @ '' '' @ show_nat k @ LF # s) = Cmd_upload f (of_nat k) \<and>
    parse_file (''DOWNLOAD '' @ f @ LF # s) = Cmd_download f \<and>
    parse_file (''DELETE '' @ f @ LF # s) = Cmd_delete f \<and>
    parse_file (''LIST'' @ LF # s) = Cmd_list \<and> parse_file (''QUIT'' @ LF # s) = Cmd_quit"
proof -
  have "\<not> is_digit LF" "is_space LF" by (simp_all add: is_digit_def is_space_def)
  with assms parse_upload_line [of f k "LF # s"] parse_download_line [of f "LF # s"] parse_delete_line [of f "LF # s"]
    parse_list_line [of "LF # s"] parse_quit_line [of "LF # s"] show ?thesis by simp
qed

lemma parse_file_print_witness:
  "parse_file (''UPLOAD '' @ ''a.txt'' @ '' '' @ show_nat 7 @ LF # ''1234567'') = Cmd_upload ''a.txt'' 7"
  using parse_file_print [of "''a.txt''" 7 "''1234567''"] by (simp add: is_word_def is_space_def)

text \<open>C28: no command overruns a buffer: whatever a client sends, the user name that is read has at most 63
  characters, the password and the file name at most 255, and none of them is empty or has white space.\<close>

theorem parse_bounds:
  "(case parse_auth cmd of
      Cmd_signup u p \<Rightarrow> is_word u \<and> is_word p \<and> length u \<le> 63 \<and> length p \<le> 255
    | Cmd_login u p \<Rightarrow> is_word u \<and> is_word p \<and> length u \<le> 63 \<and> length p \<le> 255
    | Cmd_not_auth \<Rightarrow> True) \<and>
   (case parse_file cmd of
      Cmd_upload f n \<Rightarrow> is_word f \<and> length f \<le> 255
    | Cmd_download f \<Rightarrow> is_word f \<and> length f \<le> 255
    | Cmd_delete f \<Rightarrow> is_word f \<and> length f \<le> 255
    | _ \<Rightarrow> True)"
proof -
  have A: "sscanf_words pre n m s = Some (u, p) \<Longrightarrow> is_word u \<and> is_word p \<and> length u \<le> n \<and> length p \<le> m"
    for pre n m s u p
    by (auto simp: sscanf_words_def bind_eq_Some_conv dest!: scan_word_bounds)
  have B: "sscanf_word_size pre n s = Some (f, k) \<Longrightarrow> is_word f \<and> length f \<le> n" for pre n s f k
    by (auto simp: sscanf_word_size_def bind_eq_Some_conv dest!: scan_word_bounds)
  have C: "sscanf_word pre n s = Some f \<Longrightarrow> is_word f \<and> length f \<le> n" for pre n s f
    by (auto simp: sscanf_word_def bind_eq_Some_conv dest!: scan_word_bounds)
  show ?thesis
    by (auto simp: parse_auth_def parse_file_def split: option.split dest: A B C)
qed

text \<open>a user name of more than 63 characters is not refused: it is cut, and its remainder is taken
  as the password in place of the one that was sent.\<close>

theorem long_username_becomes_password:
  assumes "is_word u" "is_word p" "63 < length u" "length u \<le> 318"
  shows "parse_auth (''SIGNUP '' @ u @ '' '' @ p) = Cmd_signup (take 63 u) (drop 63 u)"
proof -
  let ?w = "drop 63 u"
  have d: "is_word ?w" using assms(1,3) by (auto simp: is_word_def dest: in_set_dropD)
  have "takeWhile (\<lambda>c. \<not> is_space c) (u @ '' '' @ p) = u"
    by (rule takeWhile_word) (use assms in simp_all)
  then have "scan_word 63 (u @ '' '' @ p) = Some (take 63 u, ?w @ '' '' @ p)"
    using assms by (simp add: scan_word_def skip_space_word Let_def is_word_def)
  moreover have "scan_word 255 (skip_space (?w @ '' '' @ p)) = Some (?w, '' '' @ p)"
    using scan_word_word_skip [OF d, of 255 "'' '' @ p"] assms(4) by simp
  ultimately have "sscanf_words ''SIGNUP'' 63 255 (''SIGNUP '' @ u @ '' '' @ p) = Some (take 63 u, ?w)"
    using scan_text_command [of "''SIGNUP''" "u @ '' '' @ p"] assms(1)
    by (simp add: sscanf_words_def skip_space_word)
  then show ?thesis by (simp add: parse_auth_def)
qed

lemma long_username_becomes_password_witness:
  "parse_auth (''SIGNUP '' @ replicate 70 CHR ''u'' @ '' '' @ ''secret'')
     = Cmd_signup (replicate 63 CHR ''u'') ''uuuuuuu''"
  using long_username_becomes_password [of "replicate 70 CHR ''u''" "''secret''"]
  by (simp add: is_word_def is_space_def numeral_eq_Suc)

end
