(* ===== verification/File_System.thy ===== *)
theory File_System
  imports Prelude
begin

text \<open>
  The part of the C library the workers store files with: \<open>mkdir\<close>, \<open>fopen\<close>, \<open>fwrite\<close>, \<open>fread\<close>, \<open>fseek\<close>,
  \<open>ftell\<close>, \<open>fclose\<close>, \<open>remove\<close>, \<open>opendir\<close>, \<open>readdir\<close> and \<open>malloc\<close>, over a tree of directories and files
  without links. Paths are resolved component by component as the kernel does, with \<open>.\<close> and \<open>..\<close>. What the
  environment decides comes from a script: every call takes the next event, which lets it succeed (also when
  the script has ended), fail with an \<open>errno\<close>, or process only some bytes. A stream buffers: what \<open>fwrite\<close>
  accepts is in the file once \<open>fclose\<close> has flushed it.
\<close>

section \<open>Trees and scripts\<close>

type_synonym path = "string list"

datatype io_event = Io_ok | Io_error errno | Io_short nat

record fsys =
  fs_cwd :: path
  fs_files :: "(path \<times> bytes) list"
  fs_dirs :: "path list"
  fs_script :: "io_event list"

definition io_next :: "fsys \<Rightarrow> io_event \<times> fsys" where
  "io_next fs = (case fs_script fs of [] \<Rightarrow> (Io_ok, fs) | e # es \<Rightarrow> (e, fs\<lparr>fs_script := es\<rparr>))"

definition is_dir :: "fsys \<Rightarrow> path \<Rightarrow> bool" where
  "is_dir fs p \<longleftrightarrow> p = [] \<or> p \<in> set (fs_dirs fs)"

definition file_at :: "fsys \<Rightarrow> path \<Rightarrow> bytes option" where
  "file_at fs p = map_of (fs_files fs) p"

definition set_file :: "path \<Rightarrow> bytes \<Rightarrow> fsys \<Rightarrow> fsys" where
  "set_file p b fs =
     fs\<lparr>fs_files := (if file_at fs p = None then fs_files fs @ [(p, b)]
                     else map (\<lambda>(q, c). if q = p then (q, b) else (q, c)) (fs_files fs))\<rparr>"

definition unset_file :: "path \<Rightarrow> fsys \<Rightarrow> fsys" where
  "unset_file p fs = fs\<lparr>fs_files := filter (\<lambda>(q, c). q \<noteq> p) (fs_files fs)\<rparr>"

section \<open>Path resolution\<close>

fun components :: "string \<Rightarrow> string list" where
  "components [] = [[]]"
| "components (c # cs) =
     (if c = CHR ''/'' then [] # components cs
      else case components cs of [] \<Rightarrow> [[c]] | w # ws \<Rightarrow> (c # w) # ws)"

text \<open>All components but the last must be directories.\<close>

fun walk :: "fsys \<Rightarrow> path \<Rightarrow> string list \<Rightarrow> errno + path" where
  "walk fs p [] = Inr p"
| "walk fs p (c # cs) =
     (if c = [] \<or> c = ''.'' then walk fs p cs
      else if c = ''..'' then walk fs (butlast p) cs
      else if cs = [] \<or> is_dir fs (p @ [c]) then walk fs (p @ [c]) cs
      else if file_at fs (p @ [c]) \<noteq> None then Inl ENOTDIR
      else Inl ENOENT)"

definition lookup :: "fsys \<Rightarrow> string \<Rightarrow> errno + path" where
  "lookup fs s =
     (if s = [] then Inl ENOENT
      else walk fs (if hd s = CHR ''/'' then [] else fs_cwd fs) (components s))"

section \<open>Calls\<close>

text \<open>\<open>mkdir\<close>; the sources never look at its result.\<close>

definition fs_mkdir :: "string \<Rightarrow> fsys \<Rightarrow> fsys" where
  "fs_mkdir s fs =
     (case io_next fs of
        (Io_ok, fs) \<Rightarrow>
          (case lookup fs s of
             Inl e \<Rightarrow> fs
           | Inr p \<Rightarrow> if is_dir fs p \<or> file_at fs p \<noteq> None then fs
                      else fs\<lparr>fs_dirs := fs_dirs fs @ [p]\<rparr>)
      | (_, fs) \<Rightarrow> fs)"

text \<open>\<open>fopen(path, "wb")\<close> creates or truncates the file.\<close>

definition fs_fopen_wb :: "string \<Rightarrow> fsys \<Rightarrow> (errno + path) \<times> fsys" where
  "fs_fopen_wb s fs =
     (case io_next fs of
        (Io_error e, fs) \<Rightarrow> (Inl e, fs)
      | (_, fs) \<Rightarrow>
          (case lookup fs s of
             Inl e \<Rightarrow> (Inl e, fs)
           | Inr p \<Rightarrow> if is_dir fs p then (Inl EISDIR, fs) else (Inr p, set_file p [] fs)))"

definition fs_fopen_rb :: "string \<Rightarrow> fsys \<Rightarrow> (errno + path) \<times> fsys" where
  "fs_fopen_rb s fs =
     (case io_next fs of
        (Io_error e, fs) \<Rightarrow> (Inl e, fs)
      | (_, fs) \<Rightarrow>
          (case lookup fs s of
             Inl e \<Rightarrow> (Inl e, fs)
           | Inr p \<Rightarrow> if is_dir fs p \<or> file_at fs p \<noteq> None then (Inr p, fs) else (Inl ENOENT, fs)))"

text \<open>\<open>fwrite\<close>: the bytes the stream accepted, and \<open>ferror\<close> afterwards.\<close>

definition fs_fwrite :: "bytes \<Rightarrow> fsys \<Rightarrow> bytes \<times> bool \<times> fsys" where
  "fs_fwrite b fs =
     (case io_next fs of
        (Io_ok, fs) \<Rightarrow> (b, False, fs)
      | (Io_error e, fs) \<Rightarrow> ([], True, fs)
      | (Io_short k, fs) \<Rightarrow> (take k b, k < length b, fs))"

text \<open>\<open>fclose\<close> of a stream written to: the accepted bytes reach the file, or a prefix of them; the result
  code.\<close>

definition fs_fclose_w :: "path \<Rightarrow> bytes \<Rightarrow> fsys \<Rightarrow> int \<times> fsys" where
  "fs_fclose_w p b fs =
     (case io_next fs of
        (Io_ok, fs) \<Rightarrow> (0, set_file p b fs)
      | (Io_error e, fs) \<Rightarrow> (- 1, fs)
      | (Io_short k, fs) \<Rightarrow> (if k < length b then - 1 else 0, set_file p (take k b) fs))"

text \<open>\<open>fseek\<close>, \<open>ftell\<close> at the end, and \<open>fclose\<close> of a stream that was read; a directory opens for reading
  but has no file contents to seek in.\<close>

definition fs_fseek :: "path \<Rightarrow> fsys \<Rightarrow> int \<times> fsys" where
  "fs_fseek p fs = (case io_next fs of (Io_error e, fs) \<Rightarrow> (- 1, fs) | (_, fs) \<Rightarrow> (0, fs))"

definition fs_ftell_end :: "path \<Rightarrow> fsys \<Rightarrow> int \<times> fsys" where
  "fs_ftell_end p fs =
     (case io_next fs of
        (Io_error e, fs) \<Rightarrow> (- 1, fs)
      | (_, fs) \<Rightarrow> (case file_at fs p of
            None \<Rightarrow> (9223372036854775807, fs)
          | Some b \<Rightarrow> (int (length b), fs)))"

definition fs_fread :: "path \<Rightarrow> nat \<Rightarrow> fsys \<Rightarrow> bytes \<times> bool \<times> fsys" where
  "fs_fread p n fs =
     (case io_next fs of
        (Io_ok, fs) \<Rightarrow> (case file_at fs p of None \<Rightarrow> ([], True, fs) | Some b \<Rightarrow> (take n b, False, fs))
      | (Io_error e, fs) \<Rightarrow> ([], True, fs)
      | (Io_short k, fs) \<Rightarrow> (case file_at fs p of
            None \<Rightarrow> ([], True, fs) | Some b \<Rightarrow> (take (min k n) b, False, fs)))"

definition fs_fclose_r :: "fsys \<Rightarrow> fsys" where
  "fs_fclose_r fs = snd (io_next fs)"

definition fs_malloc :: "fsys \<Rightarrow> bool \<times> fsys" where
  "fs_malloc fs = (case io_next fs of (Io_error e, fs) \<Rightarrow> (False, fs) | (_, fs) \<Rightarrow> (True, fs))"

text \<open>The names in a directory, in directory order.\<close>

definition entries :: "fsys \<Rightarrow> path \<Rightarrow> string list" where
  "entries fs p = ''.'' # ''..'' #
     map last (filter (\<lambda>q. q \<noteq> [] \<and> butlast q = p) (map fst (fs_files fs) @ fs_dirs fs))"

text \<open>\<open>remove\<close>: \<open>unlink\<close> of a file, \<open>rmdir\<close> of an empty directory.\<close>

definition fs_remove :: "string \<Rightarrow> fsys \<Rightarrow> (errno + unit) \<times> fsys" where
  "fs_remove s fs =
     (case io_next fs of
        (Io_error e, fs) \<Rightarrow> (Inl e, fs)
      | (_, fs) \<Rightarrow>
          (case lookup fs s of
             Inl e \<Rightarrow> (Inl e, fs)
           | Inr p \<Rightarrow>
               if file_at fs p \<noteq> None then (Inr (), unset_file p fs)
               else if \<not> is_dir fs p then (Inl ENOENT, fs)
               else if entries fs p \<noteq> [''.'', ''..''] \<or> last (components s) = ''.'' \<or> p = []
               then (Inl (EOTHER 39), fs)
               else (Inr (), fs\<lparr>fs_dirs := filter (\<lambda>q. q \<noteq> p) (fs_dirs fs)\<rparr>)))"

text \<open>\<open>opendir\<close>, and the names \<open>readdir\<close> yields before it returns \<open>NULL\<close>.\<close>

definition fs_opendir :: "string \<Rightarrow> fsys \<Rightarrow> (errno + path) \<times> fsys" where
  "fs_opendir s fs =
     (case io_next fs of
        (Io_error e, fs) \<Rightarrow> (Inl e, fs)
      | (_, fs) \<Rightarrow>
          (case lookup fs s of
             Inl e \<Rightarrow> (Inl e, fs)
           | Inr p \<Rightarrow> if is_dir fs p then (Inr p, fs)
                      else if file_at fs p \<noteq> None then (Inl ENOTDIR, fs) else (Inl ENOENT, fs)))"

definition fs_readdir :: "path \<Rightarrow> fsys \<Rightarrow> string list \<times> fsys" where
  "fs_readdir p fs =
     (case io_next fs of
        (Io_ok, fs) \<Rightarrow> (entries fs p, fs)
      | (Io_error e, fs) \<Rightarrow> ([], fs)
      | (Io_short k, fs) \<Rightarrow> (take k (entries fs p), fs))"

section \<open>Facts\<close>

text \<open>Two systems with the same tree.\<close>

definition same_tree :: "fsys \<Rightarrow> fsys \<Rightarrow> bool" where
  "same_tree a b \<longleftrightarrow> fs_cwd a = fs_cwd b \<and> fs_files a = fs_files b \<and> fs_dirs a = fs_dirs b"

lemma same_tree_refl [simp]: "same_tree a a"
  by (simp add: same_tree_def)

lemma same_tree_trans: "same_tree a b \<Longrightarrow> same_tree b c \<Longrightarrow> same_tree a c"
  by (simp add: same_tree_def)

lemma io_next_tree: "io_next fs = (e, fs') \<Longrightarrow> same_tree fs' fs"
  by (auto simp: io_next_def same_tree_def split: list.splits)

lemma io_next_simps [simp]:
  "io_next fs = (e, fs') \<Longrightarrow> fs_files fs' = fs_files fs"
  "io_next fs = (e, fs') \<Longrightarrow> fs_dirs fs' = fs_dirs fs"
  "io_next fs = (e, fs') \<Longrightarrow> fs_cwd fs' = fs_cwd fs"
  by (auto dest!: io_next_tree simp: same_tree_def)

lemma same_tree_reads:
  assumes "same_tree a b"
  shows "file_at a p = file_at b p" "is_dir a p = is_dir b p" "entries a p = entries b p"
    "walk a p cs = walk b p cs" "lookup a s = lookup b s"
proof -
  show f: "file_at a q = file_at b q" and d: "is_dir a q = is_dir b q" for q
    using assms by (simp_all add: same_tree_def file_at_def is_dir_def)
  show "entries a p = entries b p" using assms by (simp add: same_tree_def entries_def)
  show w: "walk a q ds = walk b q ds" for q ds by (induction ds arbitrary: q) (simp_all add: f d)
  show "lookup a s = lookup b s" using assms by (simp add: lookup_def w same_tree_def)
qed

lemma file_at_set_file: "file_at (set_file p b fs) q = (if q = p then Some b else file_at fs q)"
proof (cases "file_at fs p")
  case None
  then show ?thesis by (auto simp: set_file_def file_at_def map_add_def split: option.split)
next
  case (Some c)
  have "map_of (map (\<lambda>(q, c). if q = p then (q, b) else (q, c)) xs) q
      = (if q = p \<and> map_of xs p \<noteq> None then Some b else map_of xs q)" for xs
    by (induction xs) auto
  with Some show ?thesis by (simp add: set_file_def file_at_def)
qed

lemma file_at_unset_file: "file_at (unset_file p fs) q = (if q = p then None else file_at fs q)"
proof -
  have "map_of (filter (\<lambda>(q, c). q \<noteq> p) xs) q = (if q = p then None else map_of xs q)" for xs
    by (induction xs) auto
  from this [of "fs_files fs"] show ?thesis
    unfolding unset_file_def file_at_def by (cases "q = p") simp_all
qed

lemma set_file_dirs [simp]: "is_dir (set_file p b fs) q = is_dir fs q" "fs_cwd (set_file p b fs) = fs_cwd fs"
  "fs_dirs (set_file p b fs) = fs_dirs fs" "fs_script (set_file p b fs) = fs_script fs"
  by (simp_all add: set_file_def is_dir_def)

lemma components_ne [simp]: "components s \<noteq> []"
  by (induction s) (auto split: list.split)

lemma components_plain: "CHR ''/'' \<notin> set s \<Longrightarrow> components s = [s]"
  by (induction s) auto

lemma components_slash: "CHR ''/'' \<notin> set s \<Longrightarrow> components (s @ CHR ''/'' # t) = s # components t"
  by (induction s) auto

text \<open>A plain name: one component that is neither \<open>.\<close> nor \<open>..\<close>.\<close>

definition plain :: "string \<Rightarrow> bool" where
  "plain s \<longleftrightarrow> s \<noteq> [] \<and> s \<noteq> ''.'' \<and> s \<noteq> ''..'' \<and> CHR ''/'' \<notin> set s"

lemma walk_plain: "plain c \<Longrightarrow> cs \<noteq> [] \<Longrightarrow> is_dir fs (p @ [c]) \<Longrightarrow> walk fs p (c # cs) = walk fs (p @ [c]) cs"
  by (simp add: plain_def)

lemma walk_plain_last: "plain c \<Longrightarrow> walk fs p [c] = Inr (p @ [c])"
  by (simp add: plain_def)

end
