(* ===== verification/Worker.thy ===== *)
theory Worker
  imports Session_Protocol Lock_Protocol Auth File_System Commands
begin

text \<open>
  \<open>src/threads/worker_thread.c\<close>: a worker takes tasks from the task queue and answers each through the
  response of its session. The server state has the parts a worker touches, and the number of task buffers
  it freed. A handler returns \<open>None\<close> when it waits for a file lock for ever (one thread runs undisturbed
  here; interleaved workers are the subject of \<open>Lock_Protocol\<close>) or uses a session that was freed. \<open>E\<close> is the
  SQLite library, \<open>me\<close> the worker as an owner of locks and \<open>now\<close> the clock.
\<close>

section \<open>The code\<close>

record 'd server =
  sv_sm :: SessionManager
  sv_lm :: FileLockManager
  sv_db :: "'d option"
  sv_fs :: fsys
  sv_freed :: nat

text \<open>Delivery: a session that is gone drops the response, and its data is freed.\<close>

definition response_fill ::
  "nat \<Rightarrow> response_status \<Rightarrow> string \<Rightarrow> bytes option \<Rightarrow> nat \<Rightarrow> SessionManager \<Rightarrow> SessionManager option" where
  "response_fill session status message data data_size =
     on_session session (\<lambda>s. s\<lparr>se_response :=
       left_state (response_set (se_response s) status (Some message) data data_size)\<rparr>)"

definition deliver_response ::
  "int \<Rightarrow> u64 \<Rightarrow> response_status \<Rightarrow> string \<Rightarrow> bytes option \<Rightarrow> nat \<Rightarrow> SessionManager \<Rightarrow> SessionManager option" where
  "deliver_response now session_id status message data data_size sm =
     (case session_get sm session_id of
        None \<Rightarrow> Some sm
      | Some session \<Rightarrow>
          Option.bind (response_fill session status message data data_size sm)
            (session_increment_operations session now))"

definition reply ::
  "int \<Rightarrow> Task \<Rightarrow> response_status \<Rightarrow> string \<Rightarrow> bytes option \<Rightarrow> nat \<Rightarrow> 'd server \<Rightarrow> 'd server option" where
  "reply now task status message data data_size sv =
     map_option (\<lambda>sm. sv\<lparr>sv_sm := sm\<rparr>)
       (deliver_response now (t_session_id task) status message data data_size (sv_sm sv))"

definition free_buffer :: "Task \<Rightarrow> 'd server \<Rightarrow> 'd server" where
  "free_buffer task sv = (if t_data_buffer task \<noteq> None then sv\<lparr>sv_freed := sv_freed sv + 1\<rparr> else sv)"

abbreviation reply_error :: "int \<Rightarrow> Task \<Rightarrow> string \<Rightarrow> 'd server \<Rightarrow> 'd server option" where
  "reply_error now task message sv \<equiv> reply now task RESPONSE_ERROR message None 0 sv"

definition user_path :: "Task \<Rightarrow> string" where
  "user_path task = fit 512 (''storage/'' @ t_username task)"

definition file_path :: "Task \<Rightarrow> string" where
  "file_path task = fit 512 (''storage/'' @ t_username task @ ''/'' @ t_filename task)"

text \<open>What the cases share: the user check and, but for \<open>LIST\<close>, the file lock. \<open>no_user\<close> and \<open>no_lock\<close> are
  the ways out, \<open>body\<close> gets the slot of the lock.\<close>

definition check_user ::
  "'d sqlite \<Rightarrow> Task \<Rightarrow> ('d server \<Rightarrow> 'd server option) \<Rightarrow> ('d server \<Rightarrow> 'd server option) \<Rightarrow>
    'd server \<Rightarrow> 'd server option" where
  "check_user E task no_user body sv =
     (let (ex, db) = user_exists E (Some (t_username task)) (sv_db sv);
          sv = sv\<lparr>sv_db := db\<rparr>
      in if ex then body sv else no_user sv)"

definition with_lock ::
  "nat \<Rightarrow> Task \<Rightarrow> ('d server \<Rightarrow> 'd server option) \<Rightarrow> (nat \<Rightarrow> 'd server \<Rightarrow> 'd server option) \<Rightarrow>
    'd server \<Rightarrow> 'd server option" where
  "with_lock me task no_lock body sv =
     (case file_lock_acquire me (sv_lm sv) (t_username task) (t_filename task) of
        None \<Rightarrow> None
      | Some (None, lm) \<Rightarrow> no_lock (sv\<lparr>sv_lm := lm\<rparr>)
      | Some (Some k, lm) \<Rightarrow> body k (sv\<lparr>sv_lm := lm\<rparr>))"

definition unlock :: "nat \<Rightarrow> 'd server \<Rightarrow> 'd server" where
  "unlock k sv = sv\<lparr>sv_lm := file_lock_release (sv_lm sv) k\<rparr>"

text \<open>The messages for the errors of \<open>fopen\<close> on an upload.\<close>

definition upload_open_error :: "errno \<Rightarrow> string" where
  "upload_open_error e =
     (if e = EACCES \<or> e = EPERM then ''UPLOAD ERROR: Permission denied'' @ [LF]
      else if e = ENOSPC then ''UPLOAD ERROR: No space left on device'' @ [LF]
      else if e = ENAMETOOLONG then ''UPLOAD ERROR: Filename too long'' @ [LF]
      else ''UPLOAD ERROR: Cannot create file'' @ [LF])"

text \<open>The body of \<open>TASK_UPLOAD\<close> under the file lock.\<close>

definition upload_locked :: "'d sqlite \<Rightarrow> int \<Rightarrow> Task \<Rightarrow> nat \<Rightarrow> 'd server \<Rightarrow> 'd server option" where
  "upload_locked E now task k sv =
     (case fs_fopen_wb (file_path task) (sv_fs sv) of
        (Inl e, fs) \<Rightarrow>
          map_option (free_buffer task) (reply_error now task (upload_open_error e) (unlock k (sv\<lparr>sv_fs := fs\<rparr>)))
      | (Inr p, fs) \<Rightarrow>
          (let data = (case t_data_buffer task of None \<Rightarrow> [] | Some b \<Rightarrow> take (unat (t_filesize task)) b);
               (accepted, ferr, fs) = fs_fwrite data fs;
               written = length accepted;
               (rc, fs) = fs_fclose_w p accepted fs
           in if ferr \<or> written \<noteq> unat (t_filesize task) then
                (let sv = unlock k (sv\<lparr>sv_fs := fs\<rparr>);
                     (r, fs) = fs_remove (file_path task) (sv_fs sv)
                 in map_option (free_buffer task)
                      (reply_error now task (''UPLOAD ERROR: File write failed'' @ [LF]) (sv\<lparr>sv_fs := fs\<rparr>)))
              else
                (let (meta_result, db) =
                       user_add_file E (Some (t_username task)) (Some (t_filename task)) (t_filesize task) (sv_db sv);
                     sv = unlock k (sv\<lparr>sv_fs := fs, sv_db := db\<rparr>)
                 in map_option (free_buffer task)
                      (reply now task RESPONSE_SUCCESS (''UPLOAD OK'' @ [LF]) None 0 sv))))"

definition task_upload :: "'d sqlite \<Rightarrow> nat \<Rightarrow> int \<Rightarrow> Task \<Rightarrow> 'd server \<Rightarrow> 'd server option" where
  "task_upload E me now task =
     check_user E task
       (\<lambda>sv. map_option (free_buffer task) (reply_error now task (''UPLOAD FAILED: User not found'' @ [LF]) sv))
       (with_lock me task
         (\<lambda>sv. map_option (free_buffer task)
            (reply_error now task (''UPLOAD FAILED: Could not acquire file lock'' @ [LF]) sv))
         (upload_locked E now task))"

text \<open>The body of \<open>TASK_DOWNLOAD\<close> under the file lock.\<close>

definition download_open_error :: "int \<Rightarrow> Task \<Rightarrow> errno \<Rightarrow> 'd server \<Rightarrow> 'd server option" where
  "download_open_error now task e sv =
     (if e = ENOENT then reply now task RESPONSE_FILE_NOT_FOUND (''DOWNLOAD ERROR: File not found'' @ [LF]) None 0 sv
      else if e = EACCES then reply_error now task (''DOWNLOAD ERROR: Permission denied'' @ [LF]) sv
      else reply_error now task (''DOWNLOAD ERROR: Cannot open file'' @ [LF]) sv)"

definition download_locked :: "int \<Rightarrow> Task \<Rightarrow> nat \<Rightarrow> 'd server \<Rightarrow> 'd server option" where
  "download_locked now task k sv =
     (case fs_fopen_rb (file_path task) (sv_fs sv) of
        (Inl e, fs) \<Rightarrow> download_open_error now task e (unlock k (sv\<lparr>sv_fs := fs\<rparr>))
      | (Inr p, fs) \<Rightarrow>
          (let leave = (\<lambda>message fs. reply_error now task message (unlock k (sv\<lparr>sv_fs := fs_fclose_r fs\<rparr>)));
               (rc, fs) = fs_fseek p fs
           in if rc \<noteq> 0 then leave (''DOWNLOAD ERROR: Cannot determine file size'' @ [LF]) fs
           else let (file_size, fs) = fs_ftell_end p fs
           in if file_size < 0 then leave (''DOWNLOAD ERROR: Cannot determine file size'' @ [LF]) fs
           else let (rc, fs) = fs_fseek p fs
           in if rc \<noteq> 0 then leave (''DOWNLOAD ERROR: File seek error'' @ [LF]) fs
           else let (ok, fs) = fs_malloc fs
           in if \<not> ok then leave (''DOWNLOAD FAILED: Memory allocation failed'' @ [LF]) fs
           else let (file_data, ferr, fs) = fs_fread p (nat file_size) fs;
                    sv = unlock k (sv\<lparr>sv_fs := fs_fclose_r fs\<rparr>)
           in if ferr \<or> length file_data \<noteq> nat file_size
              then reply_error now task (''DOWNLOAD ERROR: File read error'' @ [LF]) sv
              else reply now task RESPONSE_SUCCESS ([LF] @ ''DOWNLOAD OK'' @ [LF])
                     (Some file_data) (length file_data) sv))"

definition task_download :: "'d sqlite \<Rightarrow> nat \<Rightarrow> int \<Rightarrow> Task \<Rightarrow> 'd server \<Rightarrow> 'd server option" where
  "task_download E me now task =
     check_user E task (reply_error now task (''DOWNLOAD FAILED: User not found'' @ [LF]))
       (with_lock me task (reply_error now task (''DOWNLOAD FAILED: Could not acquire file lock'' @ [LF]))
         (download_locked now task))"

text \<open>The body of \<open>TASK_DELETE\<close> under the file lock.\<close>

definition delete_error :: "int \<Rightarrow> Task \<Rightarrow> errno \<Rightarrow> 'd server \<Rightarrow> 'd server option" where
  "delete_error now task e sv =
     (if e = ENOENT then reply now task RESPONSE_FILE_NOT_FOUND (''DELETE ERROR: File not found'' @ [LF]) None 0 sv
      else if e = EACCES \<or> e = EPERM then reply_error now task (''DELETE ERROR: Permission denied'' @ [LF]) sv
      else reply_error now task (''DELETE ERROR: Cannot delete file'' @ [LF]) sv)"

definition delete_locked :: "'d sqlite \<Rightarrow> int \<Rightarrow> Task \<Rightarrow> nat \<Rightarrow> 'd server \<Rightarrow> 'd server option" where
  "delete_locked E now task k sv =
     (case fs_remove (file_path task) (sv_fs sv) of
        (Inr u, fs) \<Rightarrow>
          (let (meta_result, db) =
                 user_remove_file E (Some (t_username task)) (Some (t_filename task)) (sv_db sv);
               sv = unlock k (sv\<lparr>sv_fs := fs, sv_db := db\<rparr>)
           in reply now task RESPONSE_SUCCESS (''DELETE OK'' @ [LF]) None 0 sv)
      | (Inl e, fs) \<Rightarrow> delete_error now task e (unlock k (sv\<lparr>sv_fs := fs\<rparr>)))"

definition task_delete :: "'d sqlite \<Rightarrow> nat \<Rightarrow> int \<Rightarrow> Task \<Rightarrow> 'd server \<Rightarrow> 'd server option" where
  "task_delete E me now task =
     check_user E task (reply_error now task (''DELETE FAILED: User not found'' @ [LF]))
       (with_lock me task (reply_error now task (''DELETE FAILED: Could not acquire file lock'' @ [LF]))
         (delete_locked E now task))"

text \<open>The loop of \<open>TASK_LIST\<close> over the directory entries, with the string in the 4096-byte buffer:
  \<open>remaining\<close> is what is left but for the terminator, a name that does not fit ends the list.\<close>

definition LIST_BUFFER :: nat where "LIST_BUFFER = 4096"

fun list_loop :: "string list \<Rightarrow> string \<Rightarrow> string" where
  "list_loop [] list_buffer = list_buffer"
| "list_loop (d_name # ns) list_buffer =
     (if d_name = ''.'' \<or> d_name = ''..'' then list_loop ns list_buffer
      else if d_name = ''metadata.txt'' \<or> d_name = ''metadata.tmp'' then list_loop ns list_buffer
      else let remaining = LIST_BUFFER - length list_buffer - 1;
               needed = length d_name + 1
           in if remaining \<le> needed then list_buffer
              else list_loop ns (list_buffer @ take remaining d_name @ take (remaining - length d_name) [LF]))"

definition list_text :: "string list \<Rightarrow> string" where
  "list_text names =
     (let list_buffer = list_loop names []
      in list_buffer @ take (LIST_BUFFER - length list_buffer - 1) (''LIST END'' @ [LF]))"

definition list_error :: "int \<Rightarrow> Task \<Rightarrow> errno \<Rightarrow> 'd server \<Rightarrow> 'd server option" where
  "list_error now task e sv =
     (if e = ENOENT then reply_error now task (''LIST ERROR: User directory not found'' @ [LF]) sv
      else if e = EACCES then reply_error now task (''LIST ERROR: Permission denied'' @ [LF]) sv
      else reply_error now task (''LIST ERROR: Cannot open directory'' @ [LF]) sv)"

definition task_list :: "'d sqlite \<Rightarrow> int \<Rightarrow> Task \<Rightarrow> 'd server \<Rightarrow> 'd server option" where
  "task_list E now task =
     check_user E task (reply_error now task (''LIST FAILED: User not found'' @ [LF]))
       (\<lambda>sv. case fs_opendir (user_path task) (sv_fs sv) of
          (Inl e, fs) \<Rightarrow> list_error now task e (sv\<lparr>sv_fs := fs\<rparr>)
        | (Inr p, fs) \<Rightarrow>
            (let (names, fs) = fs_readdir p fs;
                 list_data = list_text names;
                 (ok, fs) = fs_malloc fs;
                 sv = sv\<lparr>sv_fs := fs\<rparr>
             in if ok then reply now task RESPONSE_SUCCESS '''' (Some (list_data @ [NUL])) (length list_data) sv
                else reply_error now task (''LIST ERROR: Server memory allocation failed'' @ [LF]) sv))"

text \<open>One turn of the worker's loop: the directories are made, then the task is handled. The
  \<open>default\<close> case cannot be reached, a task has one of the four types.\<close>

definition make_dirs :: "Task \<Rightarrow> 'd server \<Rightarrow> 'd server" where
  "make_dirs task sv = sv\<lparr>sv_fs := fs_mkdir (user_path task) (fs_mkdir ''storage'' (sv_fs sv))\<rparr>"

definition worker_task :: "'d sqlite \<Rightarrow> nat \<Rightarrow> int \<Rightarrow> Task \<Rightarrow> 'd server \<Rightarrow> 'd server option" where
  "worker_task E me now task sv =
     (let sv = make_dirs task sv in
      case t_type task of
        TASK_UPLOAD \<Rightarrow> task_upload E me now task sv
      | TASK_DOWNLOAD \<Rightarrow> task_download E me now task sv
      | TASK_DELETE \<Rightarrow> task_delete E me now task sv
      | TASK_LIST \<Rightarrow> task_list E now task sv)"

text \<open>The loop, while tasks are there: \<open>None\<close> also when the worker goes to sleep on the queue.\<close>

partial_function (option) worker_worker ::
  "'d sqlite \<Rightarrow> nat \<Rightarrow> int \<Rightarrow> TaskQueue \<Rightarrow> 'd server \<Rightarrow> (TaskQueue \<times> 'd server) option" where
  "worker_worker E me now q sv =
     (case task_queue_pop q of
        Wait c \<Rightarrow> None
      | Leave r q ns \<Rightarrow>
          (case r of
             (rc, Some task) \<Rightarrow>
               if rc = 0 then Option.bind (worker_task E me now task sv) (worker_worker E me now q)
               else Some (q, sv)
           | (rc, None) \<Rightarrow> Some (q, sv)))"

end
