(* ===== verification/Client_Thread.thy ===== *)
theory Client_Thread
  imports Worker Commands Client_Queue Net_Utils
begin

text \<open>
  \<open>src/threads/client_thread.c\<close>: what a client thread does between two points where it may sleep: on the
  queue of descriptors, in \<open>recv\<close>, on the queue of tasks, and on the response of its session. \<open>ct_phase\<close> is
  the point it sleeps at. A turn is one pass from such a point to the next over the state the threads share.
  \<open>sh_net\<close> has the connection of every descriptor, \<open>sh_closed\<close> the descriptors the threads closed themselves
  (the session manager logs its own) and \<open>sh_allocs\<close> counts the upload buffers that were allocated. \<open>chance\<close>
  is what the clock, \<open>malloc\<close>, \<open>calloc\<close> and the pthread initialisers return in a turn. A turn is \<open>Blocked\<close> when
  the thread sleeps on (a send that never completes also counts as that), and \<open>Dangling\<close> when it uses the
  session object after it was freed.
\<close>

section \<open>State\<close>

datatype ct_phase = Ct_next | Ct_auth | Ct_file | Ct_recv Task | Ct_push Task | Ct_wait | Ct_exit

record client =
  ct_phase :: ct_phase
  ct_fd :: int
  ct_session_id :: u64
  ct_session :: nat

record 'd shared =
  sh_fds :: ClientQueue
  sh_tasks :: TaskQueue
  sh_server :: "'d server"
  sh_net :: "int \<Rightarrow> sock"
  sh_closed :: "int list"
  sh_allocs :: nat

record chance =
  ch_now :: int
  ch_calloc :: "nat option"
  ch_resp_mtx :: int
  ch_resp_cv :: int
  ch_mtx :: int
  ch_malloc :: bool

datatype 'a turn = Blocked | Dangling | Goes 'a

type_synonym 'd client_turn = "(client \<times> 'd shared) turn"

abbreviation on_sm :: "(SessionManager \<Rightarrow> SessionManager) \<Rightarrow> 'd shared \<Rightarrow> 'd shared" where
  "on_sm f sh \<equiv> sh\<lparr>sh_server := (sh_server sh)\<lparr>sv_sm := f (sv_sm (sh_server sh))\<rparr>\<rparr>"

abbreviation on_db :: "'d option \<Rightarrow> 'd shared \<Rightarrow> 'd shared" where
  "on_db db sh \<equiv> sh\<lparr>sh_server := (sh_server sh)\<lparr>sv_db := db\<rparr>\<rparr>"

section \<open>Calls\<close>

text \<open>A call on the connection of \<open>fd\<close>, and the thread's use of what it returns.\<close>

definition on_net ::
  "int \<Rightarrow> (sock \<Rightarrow> ('r \<times> sock) option) \<Rightarrow> 'd shared \<Rightarrow> ('r \<Rightarrow> 'd shared \<Rightarrow> 'a turn) \<Rightarrow> 'a turn" where
  "on_net fd call sh body =
     (case call (sh_net sh fd) of
        None \<Rightarrow> Blocked
      | Some (r, s) \<Rightarrow> body r (sh\<lparr>sh_net := (sh_net sh)(fd := s)\<rparr>))"

definition with_session :: "client \<Rightarrow> 'd shared \<Rightarrow> (Session \<Rightarrow> 'a turn) \<Rightarrow> 'a turn" where
  "with_session ct sh body =
     (case sm_heap (sv_sm (sh_server sh)) (ct_session ct) of None \<Rightarrow> Dangling | Some s \<Rightarrow> body s)"

text \<open>A write through the session pointer.\<close>

definition set_session ::
  "(nat \<Rightarrow> SessionManager \<Rightarrow> SessionManager option) \<Rightarrow> client \<Rightarrow> 'd shared \<Rightarrow> ('d shared \<Rightarrow> 'a turn) \<Rightarrow> 'a turn" where
  "set_session f ct sh body =
     (case f (ct_session ct) (sv_sm (sh_server sh)) of
        None \<Rightarrow> Dangling
      | Some sm \<Rightarrow> body (on_sm (\<lambda>_. sm) sh))"

text \<open>\<open>send_error\<close> whose result is not looked at.\<close>

definition complain :: "string \<Rightarrow> client \<Rightarrow> 'd shared \<Rightarrow> 'd client_turn" where
  "complain message ct sh = on_net (ct_fd ct) (send_error message) sh (\<lambda>rc sh. Goes (ct, sh))"

text \<open>\<open>session_mark_inactive\<close>, \<open>session_destroy\<close> and \<open>goto next_client\<close>.\<close>

definition client_leave :: "client \<Rightarrow> 'd shared \<Rightarrow> 'd client_turn" where
  "client_leave ct sh =
     Goes (ct\<lparr>ct_phase := Ct_next\<rparr>,
       on_sm (\<lambda>sm. session_destroy (session_mark_inactive sm (ct_session_id ct)) (ct_session_id ct)) sh)"

section \<open>Authentication\<close>

definition welcome_msg :: string where
  "welcome_msg = ''Welcome to StashCLI Server :))'' @ [LF] @ ''Please authenticate first:'' @ [LF] @
     ''SIGNUP <username> <password>'' @ [LF] @ ''LOGIN <username> <password>'' @ [LF]"

definition file_menu :: string where
  "file_menu = [LF] @ ''Authenticated! Available commands:'' @ [LF] @ ''UPLOAD <filename> <size>'' @ [LF] @
     ''DOWNLOAD <filename>'' @ [LF] @ ''DELETE <filename>'' @ [LF] @ ''LIST'' @ [LF] @ ''QUIT'' @ [LF]"

definition client_accept :: "chance \<Rightarrow> client \<Rightarrow> 'd shared \<Rightarrow> 'd client_turn" where
  "client_accept c ct sh =
     (case client_queue_pop (sh_fds sh) of
        Wait cv \<Rightarrow> Blocked
      | Leave cfd q ns \<Rightarrow>
          (let sh = sh\<lparr>sh_fds := q\<rparr>
           in if cfd < 0 then Goes (ct\<lparr>ct_phase := Ct_exit\<rparr>, sh)
           else let (session_id, sm) = session_create (sv_sm (sh_server sh)) cfd (ch_now c) (ch_calloc c)
                      (ch_resp_mtx c) (ch_resp_cv c) (ch_mtx c);
                    sh = on_sm (\<lambda>_. sm) sh
           in if session_id = 0 then Goes (ct, sh\<lparr>sh_closed := sh_closed sh @ [cfd]\<rparr>)
           else case session_get sm session_id of
               None \<Rightarrow> Goes (ct, on_sm (\<lambda>sm. session_destroy sm session_id) (sh\<lparr>sh_closed := sh_closed sh @ [cfd]\<rparr>))
             | Some session \<Rightarrow>
                 (let ct = \<lparr>ct_phase = Ct_auth, ct_fd = cfd, ct_session_id = session_id, ct_session = session\<rparr>
                  in on_net cfd (send_success welcome_msg) sh
                       (\<lambda>rc sh. if rc \<noteq> 0 then client_leave ct sh else Goes (ct, sh)))))"

text \<open>The answer to credentials that were accepted.\<close>

definition auth_accept :: "chance \<Rightarrow> string \<Rightarrow> string \<Rightarrow> client \<Rightarrow> 'd shared \<Rightarrow> 'd client_turn" where
  "auth_accept c message username ct sh =
     on_net (ct_fd ct) (send_success message) sh
       (\<lambda>rc sh. if rc \<noteq> 0 then client_leave ct sh
                else set_session (\<lambda>a. session_set_username a username (ch_now c)) ct sh (\<lambda>sh. Goes (ct, sh)))"

definition client_auth_command ::
  "(bytes \<Rightarrow> bytes) \<Rightarrow> 'd sqlite \<Rightarrow> chance \<Rightarrow> string \<Rightarrow> client \<Rightarrow> 'd shared \<Rightarrow> 'd client_turn" where
  "client_auth_command sha E c cmd ct sh =
     (case parse_auth cmd of
        Cmd_signup username password \<Rightarrow>
          (let (result, db) = user_signup sha E (Some username) (Some password) (sv_db (sh_server sh));
               sh = on_db db sh
           in if result = 0 then auth_accept c (''SIGNUP OK'' @ [LF]) username ct sh
              else if result = - 2 then complain (''SIGNUP ERROR: User already exists'' @ [LF]) ct sh
              else complain (''SIGNUP ERROR: Database operation failed'' @ [LF]) ct sh)
      | Cmd_login username password \<Rightarrow>
          (let (result, db) = user_login sha E (Some username) (Some password) (sv_db (sh_server sh));
               sh = on_db db sh
           in if result = 0 then auth_accept c (''LOGIN OK'' @ [LF]) username ct sh
              else if result = - 2 then complain (''LOGIN ERROR: User not found'' @ [LF]) ct sh
              else if result = - 3 then complain (''LOGIN ERROR: Invalid password'' @ [LF]) ct sh
              else complain (''LOGIN ERROR: Database operation failed'' @ [LF]) ct sh)
      | Cmd_not_auth \<Rightarrow> complain (''ERROR: Please SIGNUP or LOGIN first'' @ [LF]) ct sh)"

text \<open>\<open>recv(cfd, cmd, sizeof(cmd) - 1, 0)\<close>: an error or the end of the stream ends the session.\<close>

definition client_recv ::
  "client \<Rightarrow> 'd shared \<Rightarrow> (bytes \<Rightarrow> 'd shared \<Rightarrow> 'd client_turn) \<Rightarrow> 'd client_turn" where
  "client_recv ct sh body =
     on_net (ct_fd ct) (recv_sys 511) sh
       (\<lambda>r sh. case r of
          Inl e \<Rightarrow> client_leave ct sh
        | Inr cmd \<Rightarrow> if cmd = [] then client_leave ct sh else body cmd sh)"

text \<open>A pass of the loop over credentials: the command is the line, or what was received of it. The pass
  after they were accepted sends the menu.\<close>

definition client_auth_turn ::
  "(bytes \<Rightarrow> bytes) \<Rightarrow> 'd sqlite \<Rightarrow> chance \<Rightarrow> client \<Rightarrow> 'd shared \<Rightarrow> 'd client_turn" where
  "client_auth_turn sha E c ct sh = with_session ct sh (\<lambda>session.
     if \<not> se_auth session then
       client_recv ct sh (\<lambda>cmd sh. client_auth_command sha E c (takeWhile (\<lambda>x. x \<noteq> LF) (cstr cmd)) ct sh)
     else
       on_net (ct_fd ct) (send_success file_menu) sh
         (\<lambda>rc sh. if rc \<noteq> 0 then client_leave ct sh else Goes (ct\<lparr>ct_phase := Ct_file\<rparr>, sh)))"

section \<open>File commands\<close>

definition free_upload :: "'d shared \<Rightarrow> 'd shared" where
  "free_upload sh = sh\<lparr>sh_server := (sh_server sh)\<lparr>sv_freed := sv_freed (sh_server sh) + 1\<rparr>\<rparr>"

definition new_task :: "client \<Rightarrow> Session \<Rightarrow> Task" where
  "new_task ct session = zero_task\<lparr>t_session_id := ct_session_id ct,
     t_username := fit MAX_USERNAME_LEN (se_username session)\<rparr>"

text \<open>What of the data came with the command: the bytes after its line, unless the first is NUL.\<close>

definition leftover :: "bytes \<Rightarrow> nat \<Rightarrow> bytes" where
  "leftover cmd filesize =
     (case strchr LF (cstr cmd) of
        None \<Rightarrow> []
      | Some newline \<Rightarrow>
          (let extra = drop (newline + 1) cmd
           in if extra = [] \<or> hd extra = NUL then [] else take filesize extra))"

text \<open>The reset of the response; then the task is to be pushed.\<close>

definition reset_response :: "nat \<Rightarrow> SessionManager \<Rightarrow> SessionManager option" where
  "reset_response a = on_session a (\<lambda>s. s\<lparr>se_response := (se_response s)\<lparr>r_ready := False,
     r_status := RESPONSE_SUCCESS, r_message := '''', r_data := None, r_data_size := 0\<rparr>\<rparr>)"

definition client_submit :: "Task \<Rightarrow> client \<Rightarrow> 'd shared \<Rightarrow> 'd client_turn" where
  "client_submit t ct sh = set_session reset_response ct sh (\<lambda>sh. Goes (ct\<lparr>ct_phase := Ct_push t\<rparr>, sh))"

text \<open>\<open>malloc\<close> gives no block of more than \<open>PTRDIFF_MAX\<close> bytes.\<close>

definition client_upload ::
  "'d sqlite \<Rightarrow> chance \<Rightarrow> bytes \<Rightarrow> Task \<Rightarrow> Session \<Rightarrow> client \<Rightarrow> 'd shared \<Rightarrow> 'd client_turn" where
  "client_upload E c cmd t session ct sh =
     (let (has_quota, db) = user_check_quota E (Some (se_username session)) (t_filesize t) (sv_db (sh_server sh));
          sh = on_db db sh
      in if \<not> has_quota then complain (''UPLOAD ERROR: Quota exceeded'' @ [LF]) ct sh
      else if \<not> (ch_malloc c \<and> unat (t_filesize t) < 2 ^ 63)
      then complain (''UPLOAD ERROR: Server memory allocation failed'' @ [LF]) ct sh
      else
        let t = t\<lparr>t_data_buffer := Some (leftover cmd (unat (t_filesize t)))\<rparr>;
            sh = sh\<lparr>sh_allocs := sh_allocs sh + 1\<rparr>
        in if length (leftover cmd (unat (t_filesize t))) < unat (t_filesize t)
           then Goes (ct\<lparr>ct_phase := Ct_recv t\<rparr>, sh)
           else client_submit t ct sh)"

text \<open>The rest of the data; the buffer of \<open>t\<close> holds what was received before.\<close>

definition client_recv_turn :: "Task \<Rightarrow> client \<Rightarrow> 'd shared \<Rightarrow> 'd client_turn" where
  "client_recv_turn t ct sh =
     (let got = (case t_data_buffer t of None \<Rightarrow> [] | Some b \<Rightarrow> b);
          missing = unat (t_filesize t) - length got;
          fail = (\<lambda>message sh. complain message (ct\<lparr>ct_phase := Ct_file\<rparr>) (free_upload sh))
      in on_net (ct_fd ct) (\<lambda>k. map_option (\<lambda>(n, b, k). ((n, b), k)) (recv_full missing k)) sh
        (\<lambda>(n, data) sh.
          if n < 0 then fail (''UPLOAD ERROR: Network receive error'' @ [LF]) sh
          else if n \<noteq> int missing then fail (''UPLOAD ERROR: Incomplete data transfer'' @ [LF]) sh
          else client_submit (t\<lparr>t_data_buffer := Some (got @ data)\<rparr>) ct sh))"

definition client_file_command ::
  "'d sqlite \<Rightarrow> chance \<Rightarrow> bytes \<Rightarrow> Session \<Rightarrow> client \<Rightarrow> 'd shared \<Rightarrow> 'd client_turn" where
  "client_file_command E c cmd session ct sh =
     (let t = new_task ct session
      in case parse_file (cstr cmd) of
        Cmd_quit \<Rightarrow> on_net (ct_fd ct) (send_success (''Goodbye!'' @ [LF])) sh (\<lambda>rc sh. client_leave ct sh)
      | Cmd_upload f n \<Rightarrow>
          client_upload E c cmd (t\<lparr>t_type := TASK_UPLOAD, t_filename := f, t_filesize := n\<rparr>) session ct sh
      | Cmd_download f \<Rightarrow> client_submit (t\<lparr>t_type := TASK_DOWNLOAD, t_filename := f\<rparr>) ct sh
      | Cmd_delete f \<Rightarrow> client_submit (t\<lparr>t_type := TASK_DELETE, t_filename := f\<rparr>) ct sh
      | Cmd_list \<Rightarrow> client_submit (t\<lparr>t_type := TASK_LIST\<rparr>) ct sh
      | Cmd_invalid \<Rightarrow> complain (''ERROR: Invalid command'' @ [LF]) ct sh)"

definition client_file_turn :: "'d sqlite \<Rightarrow> chance \<Rightarrow> client \<Rightarrow> 'd shared \<Rightarrow> 'd client_turn" where
  "client_file_turn E c ct sh = client_recv ct sh (\<lambda>cmd sh.
     with_session ct sh (\<lambda>session. client_file_command E c cmd session ct sh))"

definition client_push_turn :: "Task \<Rightarrow> client \<Rightarrow> 'd shared \<Rightarrow> 'd client_turn" where
  "client_push_turn t ct sh =
     (case task_queue_push (sh_tasks sh) t of
        Wait cv \<Rightarrow> Blocked
      | Leave rc q ns \<Rightarrow>
          (let sh = sh\<lparr>sh_tasks := q\<rparr>
           in if rc \<noteq> 0 then
                complain (''ERROR: Server busy, please try again'' @ [LF]) (ct\<lparr>ct_phase := Ct_file\<rparr>)
                  (if t_data_buffer t \<noteq> None then free_upload sh else sh)
              else Goes (ct\<lparr>ct_phase := Ct_wait\<rparr>, sh)))"

text \<open>The response is sent: its data if there are any, then its message if it is not empty.\<close>

definition send_message :: "string \<Rightarrow> client \<Rightarrow> 'd shared \<Rightarrow> 'd client_turn" where
  "send_message message ct sh =
     (if 0 < length message then
        on_net (ct_fd ct) (send_full message) sh (\<lambda>n sh. if n < 0 then client_leave ct sh else Goes (ct, sh))
      else Goes (ct, sh))"

definition send_response :: "Response \<Rightarrow> client \<Rightarrow> 'd shared \<Rightarrow> 'd client_turn" where
  "send_response resp ct sh =
     (case r_data resp of
        Some data \<Rightarrow>
          (if 0 < r_data_size resp then
             on_net (ct_fd ct) (send_full (take (r_data_size resp) data)) sh
               (\<lambda>n sh. if n \<noteq> int (r_data_size resp) then client_leave ct sh
                       else send_message (r_message resp) ct sh)
           else send_message (r_message resp) ct sh)
      | None \<Rightarrow> send_message (r_message resp) ct sh)"

definition client_answer_turn :: "client \<Rightarrow> 'd shared \<Rightarrow> 'd client_turn" where
  "client_answer_turn ct sh = with_session ct sh (\<lambda>session.
     case response_wait (se_response session) of
       Wait cv \<Rightarrow> Blocked
     | Leave rc resp ns \<Rightarrow>
         (if \<not> se_active session then
            Goes (ct\<lparr>ct_phase := Ct_next\<rparr>, on_sm (\<lambda>sm. session_destroy sm (ct_session_id ct)) sh)
          else send_response resp (ct\<lparr>ct_phase := Ct_file\<rparr>) sh))"

section \<open>The thread\<close>

text \<open>The next turn, by the point the thread is at.\<close>

definition client_worker ::
  "(bytes \<Rightarrow> bytes) \<Rightarrow> 'd sqlite \<Rightarrow> chance \<Rightarrow> client \<Rightarrow> 'd shared \<Rightarrow> 'd client_turn" where
  "client_worker sha E c ct sh =
     (case ct_phase ct of
        Ct_next \<Rightarrow> client_accept c ct sh
      | Ct_auth \<Rightarrow> client_auth_turn sha E c ct sh
      | Ct_file \<Rightarrow> client_file_turn E c ct sh
      | Ct_recv t \<Rightarrow> client_recv_turn t ct sh
      | Ct_push t \<Rightarrow> client_push_turn t ct sh
      | Ct_wait \<Rightarrow> client_answer_turn ct sh
      | Ct_exit \<Rightarrow> Blocked)"

end
