(* ===== verification/Server_Main.thy ===== *)
theory Server_Main
  imports Client_Thread
begin

text \<open>
  \<open>src/main.c\<close>: start-up with its clean-up on failure, the accept loop, the signal handler and the shutdown
  sequence. Start-up is a function of a \<open>boot\<close> record, what each call it makes returns; its result says what
  is left when it fails. The accept loop and the shutdown are turns between the points where the main thread
  sleeps. The descriptors it closes are in \<open>sh_closed\<close>.
\<close>

section \<open>Configuration\<close>

definition DEFAULT_QUEUE_CAPACITY :: int where "DEFAULT_QUEUE_CAPACITY = 64"

definition TASK_QUEUE_CAPACITY :: int where "TASK_QUEUE_CAPACITY = 128"

definition CLIENT_THREAD_COUNT :: nat where "CLIENT_THREAD_COUNT = 4"

definition WORKER_THREAD_COUNT :: nat where "WORKER_THREAD_COUNT = 4"

text \<open>The capacity from the command line; \<open>atoi\<close> has given \<open>arg\<close>.\<close>

definition queue_capacity :: "int option \<Rightarrow> int" where
  "queue_capacity arg =
     (let capacity = (case arg of None \<Rightarrow> DEFAULT_QUEUE_CAPACITY | Some n \<Rightarrow> n)
      in if capacity \<le> 0 then DEFAULT_QUEUE_CAPACITY else capacity)"

section \<open>Start-up\<close>

text \<open>What the process holds. \<open>Own_listen\<close> is a socket; \<open>Own_twice\<close> marks a component destroyed without
  being held.\<close>

datatype holding =
  Own_client_queue resource | Own_task_queue resource | Own_sessions | Own_metadata | Own_locks lock_mutex
| Own_listen int | Own_twice holding

text \<open>The result codes of the pthread initialisers and of \<open>calloc\<close>, as the components take them; of
  \<open>getaddrinfo\<close>; for every address the result of \<open>socket\<close> and whether \<open>bind\<close> succeeds; of \<open>listen\<close>.\<close>

record boot =
  bt_cq :: "bool \<times> int \<times> int \<times> int"
  bt_tq :: "bool \<times> int \<times> int \<times> int"
  bt_sm :: int
  bt_locks :: "nat \<Rightarrow> int"
  bt_lock_mgr :: int
  bt_addrinfo :: int
  bt_addrs :: "(int \<times> bool) list"
  bt_listen :: int

text \<open>The loop over the addresses: the socket that could be bound.\<close>

fun bind_loop :: "(int \<times> bool) list \<Rightarrow> int option" where
  "bind_loop [] = None"
| "bind_loop ((fd, bound) # rp) =
     (if fd = - 1 then bind_loop rp else if bound then Some fd else bind_loop rp)"

definition without :: "(holding \<Rightarrow> bool) \<Rightarrow> holding list \<Rightarrow> holding list" where
  "without P live = filter (\<lambda>h. \<not> P h) live"

fun is_client_queue :: "holding \<Rightarrow> bool" where
  "is_client_queue (Own_client_queue r) = True" | "is_client_queue _ = False"

fun is_task_queue :: "holding \<Rightarrow> bool" where
  "is_task_queue (Own_task_queue r) = True" | "is_task_queue _ = False"

fun is_lock :: "holding \<Rightarrow> bool" where
  "is_lock (Own_locks m) = True" | "is_lock _ = False"

definition of_client_queue :: "holding list \<Rightarrow> resource list" where
  "of_client_queue live = concat (map (\<lambda>h. case h of Own_client_queue r \<Rightarrow> [r] | _ \<Rightarrow> []) live)"

definition of_task_queue :: "holding list \<Rightarrow> resource list" where
  "of_task_queue live = concat (map (\<lambda>h. case h of Own_task_queue r \<Rightarrow> [r] | _ \<Rightarrow> []) live)"

definition of_locks :: "holding list \<Rightarrow> lock_mutex list" where
  "of_locks live = concat (map (\<lambda>h. case h of Own_locks r \<Rightarrow> [r] | _ \<Rightarrow> []) live)"

text \<open>Destroying a component, in terms of what the process holds of it.\<close>

definition drop_client_queue :: "ClientQueue \<Rightarrow> holding list \<Rightarrow> holding list" where
  "drop_client_queue q live = without is_client_queue live @
     map Own_client_queue (snd (snd (client_queue_destroy q
       (of_client_queue live))))"

definition drop_task_queue :: "TaskQueue \<Rightarrow> holding list \<Rightarrow> holding list" where
  "drop_task_queue q live = without is_task_queue live @
     map Own_task_queue (snd (snd (task_queue_destroy q
       (of_task_queue live))))"

definition drop_locks :: "FileLockManager \<Rightarrow> holding list \<Rightarrow> holding list" where
  "drop_locks m live = without is_lock live @
     map Own_locks (file_lock_manager_destroy m
       (of_locks live))"

abbreviation drop_sessions :: "holding list \<Rightarrow> holding list" where
  "drop_sessions \<equiv> release Own_twice Own_sessions"

abbreviation drop_metadata :: "holding list \<Rightarrow> holding list" where
  "drop_metadata \<equiv> release Own_twice Own_metadata"

text \<open>The outcome: the exit code with what is still held, or the state the server runs with.\<close>

datatype 'd started = Failed int "holding list" | Started "'d shared" int "holding list"

definition server_listen :: "boot \<Rightarrow> ClientQueue \<Rightarrow> TaskQueue \<Rightarrow> SessionManager \<Rightarrow> 'd option \<Rightarrow>
    FileLockManager \<Rightarrow> (int \<Rightarrow> sock) \<Rightarrow> fsys \<Rightarrow> holding list \<Rightarrow> 'd started" where
  "server_listen b cq tq sm db lm net fs live =
     (let cleanup = (\<lambda>live. drop_task_queue tq (drop_client_queue cq (drop_sessions (drop_metadata (drop_locks lm live)))))
      in if bt_addrinfo b \<noteq> 0 then Failed 1 live
      else case bind_loop (bt_addrs b) of
        None \<Rightarrow> Failed 1 (cleanup live)
      | Some listen_fd \<Rightarrow>
          (if bt_listen b \<noteq> 0 then Failed 1 (cleanup live)
           else Started
             \<lparr>sh_fds = cq, sh_tasks = tq,
              sh_server = \<lparr>sv_sm = sm, sv_lm = lm, sv_db = db, sv_fs = fs, sv_freed = 0\<rparr>,
              sh_net = net, sh_closed = [], sh_allocs = 0\<rparr> listen_fd (Own_listen listen_fd # live)))"

text \<open>The database, then the locks; the queues, then the sessions.\<close>

definition server_storage :: "'d sqlite \<Rightarrow> boot \<Rightarrow> ClientQueue \<Rightarrow> TaskQueue \<Rightarrow> SessionManager \<Rightarrow>
    (int \<Rightarrow> sock) \<Rightarrow> fsys \<Rightarrow> holding list \<Rightarrow> 'd started" where
  "server_storage E b cq tq sm net fs live =
     (let (rc, db) = user_metadata_init E (Some ''storage/stash.db'') None;
          live = (if db = None then live else Own_metadata # live)
      in if rc \<noteq> 0 then Failed 1 (drop_task_queue tq (drop_client_queue cq (drop_sessions live)))
      else case file_lock_manager_init (bt_locks b) (bt_lock_mgr b) MAX_FILE_LOCKS of
        (rc, None, res) \<Rightarrow> Failed 1
          (drop_task_queue tq (drop_client_queue cq (drop_sessions (drop_metadata (map Own_locks res @ live)))))
      | (rc, Some lm, res) \<Rightarrow> server_listen b cq tq sm db lm net fs (map Own_locks res @ live))"

definition server_start ::
  "'d sqlite \<Rightarrow> boot \<Rightarrow> int option \<Rightarrow> (int \<Rightarrow> sock) \<Rightarrow> fsys \<Rightarrow> 'd started" where
  "server_start E b arg net fs =
     (let (cq_ok, cq_m, cq_e, cq_f) = bt_cq b; (tq_ok, tq_m, tq_e, tq_f) = bt_tq b
      in case client_queue_init cq_ok cq_m cq_e cq_f (queue_capacity arg) of
        (rc, None, res) \<Rightarrow> Failed 1 (map Own_client_queue res)
      | (rc, Some cq, res) \<Rightarrow>
          (let live = map Own_client_queue res
           in case task_queue_init tq_ok tq_m tq_e tq_f TASK_QUEUE_CAPACITY of
             (rc, None, res) \<Rightarrow> Failed 1 (map Own_task_queue res @ live)
           | (rc, Some tq, res) \<Rightarrow>
               (let live = map Own_task_queue res @ live
                in case session_manager_init (bt_sm b) of
                  (rc, None) \<Rightarrow> Failed 1 (drop_task_queue tq (drop_client_queue cq live))
                | (rc, Some sm) \<Rightarrow> server_storage E b cq tq sm net fs (Own_sessions # live))))"

section \<open>The main thread\<close>

datatype mn_phase = Mn_accept | Mn_push int | Mn_join_clients | Mn_join_workers | Mn_done

record main_state =
  mn_phase :: mn_phase
  mn_keep_running :: bool
  mn_listen_fd :: int
  mn_handler_called :: bool

text \<open>The signal handler; it runs once.\<close>

definition int_handler :: "main_state \<Rightarrow> 'd shared \<Rightarrow> main_state \<times> 'd shared" where
  "int_handler mn sh =
     (if mn_handler_called mn then (mn, sh)
      else
        let sh = (if 0 \<le> mn_listen_fd mn then sh\<lparr>sh_closed := sh_closed sh @ [mn_listen_fd mn]\<rparr> else sh);
            mn = mn\<lparr>mn_handler_called := True, mn_keep_running := False,
                    mn_listen_fd := (if 0 \<le> mn_listen_fd mn then - 1 else mn_listen_fd mn)\<rparr>
        in (mn, sh\<lparr>sh_fds := left_state (client_queue_signal_shutdown (sh_fds sh)),
                   sh_tasks := left_state (task_queue_signal_shutdown (sh_tasks sh))\<rparr>))"

text \<open>The two calls that start the shutdown sequence.\<close>

definition begin_shutdown :: "main_state \<Rightarrow> 'd shared \<Rightarrow> main_state \<times> 'd shared" where
  "begin_shutdown mn sh =
     (mn\<lparr>mn_phase := Mn_join_clients\<rparr>,
      sh\<lparr>sh_fds := left_state (client_queue_signal_shutdown (sh_fds sh)),
         sh_tasks := left_state (task_queue_signal_shutdown (sh_tasks sh))\<rparr>)"

text \<open>A pass of the accept loop up to the push; \<open>conn\<close> is what \<open>accept\<close> returns.\<close>

definition accept_turn :: "errno + int \<Rightarrow> main_state \<Rightarrow> 'd shared \<Rightarrow> (main_state \<times> 'd shared) turn" where
  "accept_turn conn mn sh =
     (if \<not> mn_keep_running mn then Goes (begin_shutdown mn sh)
      else case conn of
        Inl e \<Rightarrow> if e = EINTR then Goes (mn, sh) else Goes (begin_shutdown mn sh)
      | Inr cfd \<Rightarrow> Goes (mn\<lparr>mn_phase := Mn_push cfd\<rparr>, sh))"

definition reject_msg :: string where
  "reject_msg = ''ERROR: Server busy, please try again later'' @ [LF]"

text \<open>\<open>client_queue_push\<close>; a rejected client gets one \<open>send\<close>, whose result is not looked at.\<close>

definition accept_push_turn :: "int \<Rightarrow> main_state \<Rightarrow> 'd shared \<Rightarrow> (main_state \<times> 'd shared) turn" where
  "accept_push_turn cfd mn sh =
     (case client_queue_push (sh_fds sh) cfd of
        Wait cv \<Rightarrow> Blocked
      | Leave rc q ns \<Rightarrow>
          (let sh = sh\<lparr>sh_fds := q\<rparr>; mn = mn\<lparr>mn_phase := Mn_accept\<rparr>
           in if rc \<noteq> 0 then on_net cfd (send_sys reject_msg) sh
                (\<lambda>r sh. Goes (mn, sh\<lparr>sh_closed := sh_closed sh @ [cfd]\<rparr>))
              else Goes (mn, sh)))"

text \<open>What is destroyed when every thread was joined, in that order, and the statistics printed before: the locks, the
  sessions, the queues, the database. \<open>live\<close> is what the process holds.\<close>

definition final_cleanup :: "holding list \<Rightarrow> 'd shared \<Rightarrow> (u64 \<times> u64) \<times> holding list \<times> 'd shared" where
  "final_cleanup live sh =
     (let live = drop_locks (sv_lm (sh_server sh)) live;
          (active, total_created, peak_count) = session_get_statistics (sv_sm (sh_server sh));
          sm = session_manager_destroy (sv_sm (sh_server sh));
          (cq, ns, res) = client_queue_destroy (sh_fds sh) [];
          (tq, ns, res) = task_queue_destroy (sh_tasks sh) []
      in ((total_created, peak_count),
          drop_metadata (drop_task_queue (sh_tasks sh) (drop_client_queue (sh_fds sh) (drop_sessions live))),
          sh\<lparr>sh_fds := cq, sh_tasks := tq,
             sh_server := (sh_server sh)\<lparr>sv_sm := sm, sv_db := user_metadata_cleanup (sv_db (sh_server sh))\<rparr>\<rparr>))"

end
