(* ===== verification/Worker_Props.thy ===== *)
theory Worker_Props
  imports Worker
begin

text \<open>
  What the workers promise: every task is answered once, with its lock released and its buffer freed,
  whatever calls fail; what a user uploads is what the user downloads; other users' files are not touched.
\<close>

section \<open>Delivery\<close>

text \<open>The one effect of a delivery: the session's response is set and its operations are counted.\<close>

definition answer ::
  "int \<Rightarrow> response_status \<Rightarrow> string \<Rightarrow> bytes option \<Rightarrow> nat \<Rightarrow> Session \<Rightarrow> Session" where
  "answer now status message data data_size s =
     s\<lparr>se_response := left_state (response_set (se_response s) status (Some message) data data_size),
       se_ops := se_ops s + 1, se_last_activity := now\<rparr>"

definition answered ::
  "int \<Rightarrow> u64 \<Rightarrow> response_status \<Rightarrow> string \<Rightarrow> bytes option \<Rightarrow> nat \<Rightarrow> SessionManager \<Rightarrow> SessionManager" where
  "answered now session_id status message data data_size sm =
     (case session_get sm session_id of
        None \<Rightarrow> sm
      | Some a \<Rightarrow> touched sm a (answer now status message data data_size))"

lemma keeps_id_answer [simp]: "keeps_id (answer now st m d n)"
  by (simp add: keeps_id_def answer_def)

lemma answered_wf [wf_intros]: "sm_wf sm \<Longrightarrow> sm_wf (answered now i st m d n sm)"
  by (auto simp: answered_def intro: touched_wf split: option.split)

lemma deliver_response_eq:
  assumes "sm_wf sm"
  shows "deliver_response now i st m d n sm = Some (answered now i st m d n sm)"
proof (cases "session_get sm i")
  case None
  then show ?thesis by (simp add: deliver_response_def answered_def)
next
  case (Some a)
  then obtain s where "sm_heap sm a = Some s" by (rule session_get_SomeE [OF assms]) blast
  with Some show ?thesis
    by (simp add: deliver_response_def answered_def response_fill_def session_increment_operations_def
        on_session_def touched_def answer_def)
qed

lemma reply_eq:
  "sm_wf (sv_sm sv) \<Longrightarrow> reply now task st m d n sv =
     Some (sv\<lparr>sv_sm := answered now (t_session_id task) st m d n (sv_sm sv)\<rparr>)"
  by (simp add: reply_def deliver_response_eq)

section \<open>Locks\<close>

text \<open>No lock is in use, as when one worker runs alone.\<close>

definition lm_idle :: "FileLockManager \<Rightarrow> bool" where
  "lm_idle m \<longleftrightarrow> lm_wf m \<and> (\<forall>i < lm_cap m. \<not> fl_in_use (lm_locks m ! i))"

lemma lock_and_release:
  assumes "lm_idle m"
  obtains k m' where "file_lock_acquire me m u f = Some (Some k, m')" "file_lock_release m' k = m"
proof -
  have wf: "lm_wf m" using assms by (simp add: lm_idle_def)
  show thesis
  proof (rule acquire_slot_cases [OF wf length_lock_key [of u f]])
    assume "\<And>i. i < lm_cap m \<Longrightarrow> fl_in_use (lm_locks m ! i)"
    with lock_home_less [OF wf, of "[]"] assms show thesis by (auto simp: lm_idle_def)
  next
    fix i l assume "i < lm_cap m" "lock_at m i = Some (lock_key u f)"
    with assms show thesis by (simp add: lm_idle_def lock_at_def)
  next
    fix i l assume i: "i < lm_cap m" "l = lm_locks m ! i"
      and a: "acquire_slot m (lock_key u f) = (Some i, m\<lparr>lm_locks := (lm_locks m)
        [i := l\<lparr>fl_filepath := lock_key u f, fl_ref_count := 1, fl_in_use := True\<rparr>]\<rparr>)"
    have len: "i < length (lm_locks m)" using i wf by (simp add: lm_wf_def)
    have l: "l = unused_lock"
      using i assms by (cases l) (auto simp: lm_idle_def lm_wf_def fl_ok_def unused_lock_def)
    have "(lm_locks m)[i := unused_lock] = lm_locks m" using i l by (metis list_update_id)
    let ?L = "\<lparr>fl_filepath = lock_key u f, fl_owner = Some me, fl_ref_count = 1, fl_in_use = True\<rparr>"
    let ?m = "m\<lparr>lm_locks := (lm_locks m)[i := ?L]\<rparr>"
    have "file_lock_acquire me m u f = Some (Some i, ?m)"
      using len by (simp add: file_lock_acquire_def a lock_slot_def l unused_lock_def)
    moreover have "unlock_slot i ?m = m\<lparr>lm_locks := (lm_locks m)[i := ?L\<lparr>fl_owner := None\<rparr>]\<rparr>"
      using len by (simp add: unlock_slot_def)
    then have "file_lock_release ?m i = m\<lparr>lm_locks := (lm_locks m)[i := unused_lock]\<rparr>"
      using len by (simp add: file_lock_release_def release_slot_def unused_lock_def)
    ultimately show thesis using \<open>(lm_locks m)[i := unused_lock] = lm_locks m\<close> by (intro that) simp_all
  qed
qed

section \<open>One answer for every task\<close>

text \<open>The server after a task: one answer, the locks as before, the buffer of an upload freed once.\<close>

definition task_done :: "int \<Rightarrow> Task \<Rightarrow> nat \<Rightarrow> 'd server \<Rightarrow> 'd server option \<Rightarrow> bool" where
  "task_done now task fr sv res \<longleftrightarrow>
     (\<exists>sv' st m d n. res = Some sv' \<and> sv_sm sv' = answered now (t_session_id task) st m d n (sv_sm sv) \<and>
        (m \<noteq> [] \<or> d \<noteq> None) \<and> length m < 512 \<and> (case d of None \<Rightarrow> n = 0 | Some b \<Rightarrow> n \<le> length b) \<and>
        sv_lm sv' = sv_lm sv \<and> sv_freed sv' = sv_freed sv + fr)"

definition frees :: "Task \<Rightarrow> nat" where
  "frees task = (if t_data_buffer task \<noteq> None then 1 else 0)"

lemma task_doneI:
  assumes "res = Some sv'" "sv_sm sv' = answered now (t_session_id task) st m d n (sv_sm sv)"
    "m \<noteq> [] \<or> d \<noteq> None" "length m < 512" "case d of None \<Rightarrow> n = 0 | Some b \<Rightarrow> n \<le> length b"
    "sv_lm sv' = sv_lm sv" "sv_freed sv' = sv_freed sv + fr"
  shows "task_done now task fr sv res"
  unfolding task_done_def using assms by blast

lemma task_done_reply:
  assumes "sm_wf (sv_sm sv)" "m \<noteq> [] \<or> d \<noteq> None" "length m < 512" "case d of None \<Rightarrow> n = 0 | Some b \<Rightarrow> n \<le> length b"
    "sv_sm sv = sv_sm sv0" "sv_lm sv = sv_lm sv0" "sv_freed sv = sv_freed sv0"
  shows "task_done now task 0 sv0 (reply now task st m d n sv)"
    "task_done now task (frees task) sv0 (map_option (free_buffer task) (reply now task st m d n sv))"
  by (rule task_doneI [where st = st and m = m and d = d and n = n], simp only: reply_eq [OF assms(1)] option.map,
      use assms(2-) in \<open>auto simp: frees_def free_buffer_def\<close>)+

lemma check_user_done:
  assumes "\<And>db. task_done now task n sv (no_user (sv\<lparr>sv_db := db\<rparr>))" "\<And>db. task_done now task n sv (body (sv\<lparr>sv_db := db\<rparr>))"
  shows "task_done now task n sv (check_user E task no_user body sv)"
  using assms by (simp add: check_user_def Let_def split: prod.split)

lemma with_lock_done:
  assumes "lm_idle (sv_lm sv)"
    and "\<And>k m. file_lock_release m k = sv_lm sv \<Longrightarrow> task_done now task n sv0 (body k (sv\<lparr>sv_lm := m\<rparr>))"
  shows "task_done now task n sv0 (with_lock me task no_lock body sv)"
proof -
  from lock_and_release [OF assms(1), of me "t_username task" "t_filename task"] obtain k m where
    "file_lock_acquire me (sv_lm sv) (t_username task) (t_filename task) = Some (Some k, m)"
    "file_lock_release m k = sv_lm sv" by blast
  then show ?thesis using assms(2) [of m k] by (simp add: with_lock_def)
qed

lemmas done_simps = upload_open_error_def download_open_error_def delete_error_def list_error_def unlock_def

lemma upload_locked_done:
  assumes "sm_wf (sv_sm sv)" "file_lock_release (sv_lm sv) k = sv_lm sv0"
    "sv_sm sv = sv_sm sv0" "sv_freed sv = sv_freed sv0"
  shows "task_done now task (frees task) sv0 (upload_locked E now task k sv)"
proof -
  obtain r fs1 where o: "fs_fopen_wb (file_path task) (sv_fs sv) = (r, fs1)" by fastforce
  show ?thesis
  proof (cases r)
    case (Inl e)
    with o assms show ?thesis by (simp add: upload_locked_def done_simps task_done_reply(2))
  next
    case (Inr p)
    let ?data = "case t_data_buffer task of None \<Rightarrow> [] | Some b \<Rightarrow> take (unat (t_filesize task)) b"
    obtain acc ferr fs2 where w: "fs_fwrite ?data fs1 = (acc, ferr, fs2)" by (metis prod_cases3)
    obtain rc fs3 where c: "fs_fclose_w p acc fs2 = (rc, fs3)" by fastforce
    obtain r4 fs4 where rm: "fs_remove (file_path task) fs3 = (r4, fs4)" by fastforce
    obtain meta db where m: "user_add_file E (Some (t_username task)) (Some (t_filename task)) (t_filesize task) (sv_db sv)
        = (meta, db)" by fastforce
    show ?thesis
      unfolding upload_locked_def o Inr prod.case sum.case Let_def w c
      by (rule if_split [THEN iffD2]) (use assms in \<open>simp add: rm m done_simps task_done_reply(2)\<close>)
  qed
qed

lemma download_locked_done:
  assumes "sm_wf (sv_sm sv)" "file_lock_release (sv_lm sv) k = sv_lm sv0"
    "sv_sm sv = sv_sm sv0" "sv_freed sv = sv_freed sv0"
  shows "task_done now task 0 sv0 (download_locked now task k sv)"
proof -
  obtain r fs1 where o: "fs_fopen_rb (file_path task) (sv_fs sv) = (r, fs1)" by fastforce
  show ?thesis
  proof (cases r)
    case (Inl e)
    with o assms show ?thesis by (simp add: download_locked_def done_simps task_done_reply(1))
  next
    case (Inr p)
    obtain rc2 fs2 where s: "fs_fseek p fs1 = (rc2, fs2)" by fastforce
    obtain n fs3 where t: "fs_ftell_end p fs2 = (n, fs3)" by fastforce
    obtain rc4 fs4 where s': "fs_fseek p fs3 = (rc4, fs4)" by fastforce
    obtain ok fs5 where m: "fs_malloc fs4 = (ok, fs5)" by fastforce
    obtain b ferr fs6 where f: "fs_fread p (nat n) fs5 = (b, ferr, fs6)" by (metis prod_cases3)
    show ?thesis
      unfolding download_locked_def o Inr prod.case sum.case Let_def s t s' m f
      using assms by (simp add: done_simps task_done_reply(1))
  qed
qed

lemma delete_locked_done:
  assumes "sm_wf (sv_sm sv)" "file_lock_release (sv_lm sv) k = sv_lm sv0"
    "sv_sm sv = sv_sm sv0" "sv_freed sv = sv_freed sv0"
  shows "task_done now task 0 sv0 (delete_locked E now task k sv)"
proof -
  obtain r fs1 where o: "fs_remove (file_path task) (sv_fs sv) = (r, fs1)" by fastforce
  obtain meta db where m: "user_remove_file E (Some (t_username task)) (Some (t_filename task)) (sv_db sv) = (meta, db)"
    by fastforce
  show ?thesis
    by (cases r) (use o m assms in \<open>simp_all add: delete_locked_def done_simps task_done_reply(1)\<close>)
qed

lemma task_list_done:
  assumes "sm_wf (sv_sm sv)"
  shows "task_done now task 0 sv (task_list E now task sv)"
  unfolding task_list_def
proof (rule check_user_done)
  fix db
  let ?sv = "sv\<lparr>sv_db := db\<rparr>"
  show "task_done now task 0 sv (reply_error now task (''LIST FAILED: User not found'' @ [LF]) ?sv)"
    using assms by (simp add: task_done_reply(1))
  obtain r fs1 where o: "fs_opendir (user_path task) (sv_fs ?sv) = (r, fs1)" by fastforce
  show "task_done now task 0 sv (case fs_opendir (user_path task) (sv_fs ?sv) of
      (Inl e, fs) \<Rightarrow> list_error now task e (?sv\<lparr>sv_fs := fs\<rparr>)
    | (Inr p, fs) \<Rightarrow>
        (let (names, fs) = fs_readdir p fs;
             list_data = list_text names;
             (ok, fs) = fs_malloc fs;
             sv = ?sv\<lparr>sv_fs := fs\<rparr>
         in if ok then reply now task RESPONSE_SUCCESS '''' (Some (list_data @ [NUL])) (length list_data) sv
            else reply_error now task (''LIST ERROR: Server memory allocation failed'' @ [LF]) sv))"
  proof (cases r)
    case (Inl e)
    with o assms show ?thesis by (simp add: done_simps task_done_reply(1))
  next
    case (Inr p)
    obtain names fs2 where d: "fs_readdir p fs1 = (names, fs2)" by fastforce
    obtain ok fs3 where m: "fs_malloc fs2 = (ok, fs3)" by fastforce
    show ?thesis unfolding o Inr prod.case sum.case Let_def d m
      using assms by (simp add: task_done_reply(1))
  qed
qed

lemma task_done_start:
  "task_done now task n sv res \<Longrightarrow> sv_sm sv = sv_sm sv0 \<Longrightarrow> sv_lm sv = sv_lm sv0 \<Longrightarrow> sv_freed sv = sv_freed sv0 \<Longrightarrow>
     task_done now task n sv0 res"
  by (simp add: task_done_def)

lemma worker_task_done:
  assumes "sm_wf (sv_sm sv)" "lm_idle (sv_lm sv)"
  shows "task_done now task (if t_type task = TASK_UPLOAD then frees task else 0) sv (worker_task E me now task sv)"
proof -
  let ?sv = "make_dirs task sv"
  have same: "sv_sm ?sv = sv_sm sv" "sv_lm ?sv = sv_lm sv" "sv_freed ?sv = sv_freed sv"
    by (simp_all add: make_dirs_def)
  have wf: "sm_wf (sv_sm ?sv)" "lm_idle (sv_lm ?sv)" using assms by (simp_all add: same)
  have "task_done now task (frees task) ?sv (task_upload E me now task ?sv)"
    unfolding task_upload_def
    by (rule check_user_done) (use wf in \<open>auto intro!: with_lock_done upload_locked_done task_done_reply(2)\<close>)
  moreover have "task_done now task 0 ?sv (task_download E me now task ?sv)"
    unfolding task_download_def
    by (rule check_user_done) (use wf in \<open>auto intro!: with_lock_done download_locked_done task_done_reply(1)\<close>)
  moreover have "task_done now task 0 ?sv (task_delete E me now task ?sv)"
    unfolding task_delete_def
    by (rule check_user_done) (use wf in \<open>auto intro!: with_lock_done delete_locked_done task_done_reply(1)\<close>)
  moreover have "task_done now task 0 ?sv (task_list E now task ?sv)" by (rule task_list_done [OF wf(1)])
  ultimately have "task_done now task (if t_type task = TASK_UPLOAD then frees task else 0) ?sv
      (worker_task E me now task sv)"
    by (cases "t_type task") (simp_all add: worker_task_def Let_def)
  then show ?thesis using same by (rule task_done_start) 
qed

section \<open>Paths\<close>

text \<open>A task whose user and file names are plain and as long as the protocol allows.\<close>

definition plain_task :: "Task \<Rightarrow> bool" where
  "plain_task task \<longleftrightarrow> plain (t_username task) \<and> plain (t_filename task) \<and>
     length (t_username task) \<le> 63 \<and> length (t_filename task) \<le> 255"

definition target :: "fsys \<Rightarrow> Task \<Rightarrow> path" where
  "target fs task = fs_cwd fs @ [''storage'', t_username task, t_filename task]"

lemma plain_storage: "plain ''storage''"
  by (simp add: plain_def)

lemma file_path_components:
  assumes "plain_task task"
  shows "file_path task = ''storage/'' @ t_username task @ ''/'' @ t_filename task"
    "components (file_path task) = [''storage'', t_username task, t_filename task]"
    "components (user_path task) = [''storage'', t_username task]"
proof -
  have short: "length (''storage/'' @ t_username task @ ''/'' @ t_filename task) < 512"
    "length (''storage/'' @ t_username task) < 512"
    using assms by (simp_all add: plain_task_def)
  show p: "file_path task = ''storage/'' @ t_username task @ ''/'' @ t_filename task"
    unfolding file_path_def by (rule fit_short [OF short(1)])
  have u: "user_path task = ''storage/'' @ t_username task"
    unfolding user_path_def by (rule fit_short [OF short(2)])
  have no: "CHR ''/'' \<notin> set (t_username task)" "CHR ''/'' \<notin> set (t_filename task)"
    using assms by (simp_all add: plain_task_def plain_def)
  show "components (file_path task) = [''storage'', t_username task, t_filename task]"
    using components_slash [OF no(1), of "t_filename task"] no(2) by (simp add: p components_plain)
  show "components (user_path task) = [''storage'', t_username task]"
    using no(1) by (simp add: u components_plain)
qed

lemma file_path_hd: "plain_task task \<Longrightarrow> file_path task \<noteq> [] \<and> hd (file_path task) \<noteq> CHR ''/''"
  by (simp add: file_path_components)

lemma lookup_file_path:
  assumes "plain_task task" "is_dir fs (fs_cwd fs @ [''storage''])"
    "is_dir fs (fs_cwd fs @ [''storage'', t_username task])"
  shows "lookup fs (file_path task) = Inr (target fs task)"
proof -
  have "plain (t_username task)" "plain (t_filename task)" using assms(1) by (simp_all add: plain_task_def)
  then show ?thesis using file_path_hd [OF assms(1)] assms(2,3)
    by (simp add: lookup_def file_path_components(2) [OF assms(1)] plain_def target_def)
qed

text \<open>Wherever the walk of a plain path ends, it can only end at its target.\<close>

lemma lookup_only_target:
  assumes "plain_task task" "lookup fs (file_path task) = Inr p"
  shows "p = target fs task"
proof -
  have "plain (t_username task)" "plain (t_filename task)" using assms(1) by (simp_all add: plain_task_def)
  then show ?thesis using file_path_hd [OF assms(1)] assms(2)
    by (auto simp: lookup_def file_path_components(2) [OF assms(1)] plain_def target_def split: if_splits)
qed

section \<open>Isolation\<close>

text \<open>Trees that agree on every file but one.\<close>

definition agree_off :: "path \<Rightarrow> fsys \<Rightarrow> fsys \<Rightarrow> bool" where
  "agree_off p a b \<longleftrightarrow> fs_cwd a = fs_cwd b \<and> (\<forall>q. q \<noteq> p \<longrightarrow> file_at a q = file_at b q)"

lemma agree_off_refl [simp]: "agree_off p a a"
  by (simp add: agree_off_def)

lemma agree_off_trans: "agree_off p a b \<Longrightarrow> agree_off p b c \<Longrightarrow> agree_off p a c"
  by (simp add: agree_off_def)

lemma agree_off_next: "io_next fs = (e, fs') \<Longrightarrow> agree_off p fs' fs"
  using same_tree_reads(1) [OF io_next_tree] by (simp add: agree_off_def)

lemma unset_file_cwd [simp]: "fs_cwd (unset_file p fs) = fs_cwd fs" "fs_dirs (unset_file p fs) = fs_dirs fs"
  "fs_script (unset_file p fs) = fs_script fs"
  by (simp_all add: unset_file_def)

lemma agree_off_set: "agree_off p a b \<Longrightarrow> agree_off p (set_file p c a) b"
  "agree_off p a b \<Longrightarrow> agree_off p (unset_file p a) b"
  by (auto simp: agree_off_def file_at_set_file file_at_unset_file)

lemma agree_off_dirs: "agree_off p a b \<Longrightarrow> agree_off p (a\<lparr>fs_dirs := ds\<rparr>) b"
  by (simp add: agree_off_def file_at_def)

lemma agree_mkdir: "agree_off p (fs_mkdir s fs) fs"
  by (auto simp: fs_mkdir_def Let_def split: prod.split io_event.split sum.split
      intro: agree_off_next agree_off_dirs)

lemma agree_calls:
  assumes "\<And>fs p. lookup fs s = Inr p \<Longrightarrow> fs_cwd fs = c \<Longrightarrow> p = t" "fs_cwd fs = c"
  shows "fs_fopen_wb s fs = (r, fs') \<Longrightarrow> agree_off t fs' fs \<and> (\<forall>p. r = Inr p \<longrightarrow> p = t)"
    and "fs_fopen_rb s fs = (r', fs') \<Longrightarrow> agree_off t fs' fs \<and> (\<forall>p. r' = Inr p \<longrightarrow> p = t)"
    and "fs_remove s fs = (r'', fs') \<Longrightarrow> agree_off t fs' fs"
proof -
  obtain e fs1 where n: "io_next fs = (e, fs1)" by fastforce
  have c: "fs_cwd fs1 = c" using n assms(2) by simp
  have a: "agree_off t fs1 fs" by (rule agree_off_next [OF n])
  show "fs_fopen_wb s fs = (r, fs') \<Longrightarrow> agree_off t fs' fs \<and> (\<forall>p. r = Inr p \<longrightarrow> p = t)"
    using assms(1) [OF _ c] a agree_off_set(1) [OF a]
    by (auto simp: fs_fopen_wb_def n split: io_event.splits sum.splits if_splits)
  show "fs_fopen_rb s fs = (r', fs') \<Longrightarrow> agree_off t fs' fs \<and> (\<forall>p. r' = Inr p \<longrightarrow> p = t)"
    using assms(1) [OF _ c] a
    by (auto simp: fs_fopen_rb_def n split: io_event.splits sum.splits if_splits)
  show "fs_remove s fs = (r'', fs') \<Longrightarrow> agree_off t fs' fs"
    using assms(1) [OF _ c] a agree_off_set(2) [OF a] agree_off_dirs [OF a]
    by (auto simp: fs_remove_def n split: io_event.splits sum.splits if_splits)
qed

lemma agree_stream:
  "fs_fwrite b fs = (acc, e, fs') \<Longrightarrow> agree_off p fs' fs"
  "fs_fclose_w p b fs = (rc, fs') \<Longrightarrow> agree_off p fs' fs"
  "fs_fseek q fs = (rc, fs') \<Longrightarrow> agree_off p fs' fs"
  "fs_ftell_end q fs = (n, fs') \<Longrightarrow> agree_off p fs' fs"
  "fs_fread q k fs = (b, e, fs') \<Longrightarrow> agree_off p fs' fs"
  "fs_malloc fs = (ok, fs') \<Longrightarrow> agree_off p fs' fs"
  "agree_off p (fs_fclose_r fs) fs"
  "fs_opendir s fs = (r, fs') \<Longrightarrow> agree_off p fs' fs"
  "fs_readdir q fs = (ns, fs') \<Longrightarrow> agree_off p fs' fs"
proof -
  obtain ev fs1 where n: "io_next fs = (ev, fs1)" by fastforce
  note a = agree_off_next [OF n, of p]
  show "fs_fwrite b fs = (acc, e, fs') \<Longrightarrow> agree_off p fs' fs"
    using a by (auto simp: fs_fwrite_def n split: io_event.splits)
  show "fs_fclose_w p b fs = (rc, fs') \<Longrightarrow> agree_off p fs' fs"
    using a agree_off_set(1) [OF a] by (auto simp: fs_fclose_w_def n split: io_event.splits)
  show "fs_fseek q fs = (rc, fs') \<Longrightarrow> agree_off p fs' fs"
    using a by (auto simp: fs_fseek_def n split: io_event.splits)
  show "fs_ftell_end q fs = (n, fs') \<Longrightarrow> agree_off p fs' fs" for n
    using a by (auto simp: fs_ftell_end_def n split: io_event.splits option.splits)
  show "fs_fread q k fs = (b, e, fs') \<Longrightarrow> agree_off p fs' fs"
    using a by (auto simp: fs_fread_def n split: io_event.splits option.splits)
  show "fs_malloc fs = (ok, fs') \<Longrightarrow> agree_off p fs' fs"
    using a by (auto simp: fs_malloc_def n split: io_event.splits)
  show "agree_off p (fs_fclose_r fs) fs" using a by (simp add: fs_fclose_r_def n)
  show "fs_opendir s fs = (r, fs') \<Longrightarrow> agree_off p fs' fs"
    using a by (auto simp: fs_opendir_def n split: io_event.splits sum.splits if_splits)
  show "fs_readdir q fs = (ns, fs') \<Longrightarrow> agree_off p fs' fs"
    using a by (auto simp: fs_readdir_def n split: io_event.splits)
qed

text \<open>Handlers only touch the target of the task.\<close>

lemma task_fs:
  assumes "reply now task st m d n sv = Some sv'" shows "sv_fs sv' = sv_fs sv"
  using assms by (auto simp: reply_def)

lemma free_buffer_fs [simp]: "sv_fs (free_buffer task sv) = sv_fs sv"
  by (simp add: free_buffer_def)

lemma target_only:
  assumes "plain_task task"
  shows "lookup fs (file_path task) = Inr p \<Longrightarrow> fs_cwd fs = c \<Longrightarrow> p = c @ [''storage'', t_username task, t_filename task]"
  using lookup_only_target [OF assms] by (auto simp: target_def)

lemma upload_locked_agree:
  assumes "plain_task task" "upload_locked E now task k sv = Some sv'"
  shows "agree_off (target (sv_fs sv) task) (sv_fs sv') (sv_fs sv)"
proof -
  let ?t = "target (sv_fs sv) task"
  have T: "lookup fs (file_path task) = Inr p \<Longrightarrow> fs_cwd fs = fs_cwd (sv_fs sv) \<Longrightarrow> p = ?t" for fs p
    using target_only [OF assms(1)] by (auto simp: target_def)
  obtain r fs1 where o: "fs_fopen_wb (file_path task) (sv_fs sv) = (r, fs1)" by fastforce
  have a1: "agree_off ?t fs1 (sv_fs sv)" and r: "\<And>p. r = Inr p \<Longrightarrow> p = ?t"
    using agree_calls(1) [OF T refl o] by auto
  show ?thesis
  proof (cases r)
    case (Inl e)
    with assms(2) o a1 show ?thesis by (auto simp: upload_locked_def unlock_def dest!: task_fs)
  next
    case (Inr p)
    let ?data = "case t_data_buffer task of None \<Rightarrow> [] | Some b \<Rightarrow> take (unat (t_filesize task)) b"
    obtain acc ferr fs2 where w: "fs_fwrite ?data fs1 = (acc, ferr, fs2)" by (metis prod_cases3)
    obtain rc fs3 where c: "fs_fclose_w p acc fs2 = (rc, fs3)" by fastforce
    obtain r4 fs4 where rm: "fs_remove (file_path task) fs3 = (r4, fs4)" by fastforce
    obtain meta db where m: "user_add_file E (Some (t_username task)) (Some (t_filename task)) (t_filesize task) (sv_db sv)
        = (meta, db)" by fastforce
    have p: "p = ?t" using r Inr by blast
    have a3: "agree_off ?t fs3 (sv_fs sv)"
      using agree_off_trans [OF agree_stream(2) [OF c] agree_off_trans [OF agree_stream(1) [OF w]]] a1
      by (simp add: p)
    then have cwd: "fs_cwd fs3 = fs_cwd (sv_fs sv)" by (simp add: agree_off_def)
    have "agree_off ?t fs4 (sv_fs sv)" by (rule agree_off_trans [OF agree_calls(3) [OF T cwd rm] a3])
    with a3 assms(2) show ?thesis unfolding upload_locked_def o Inr prod.case sum.case Let_def w c
      by (auto simp: rm m unlock_def split: if_splits dest!: task_fs)
  qed
qed

lemma download_locked_agree:
  assumes "download_locked now task k sv = Some sv'"
  shows "agree_off t (sv_fs sv') (sv_fs sv)"
proof -
  obtain r fs1 where o: "fs_fopen_rb (file_path task) (sv_fs sv) = (r, fs1)" by fastforce
  have a1: "agree_off t fs1 (sv_fs sv)"
    using o io_next_tree same_tree_reads(1) by (auto simp: fs_fopen_rb_def agree_off_def
        split: prod.splits io_event.splits sum.splits if_splits)
  show ?thesis
  proof (cases r)
    case (Inl e)
    with assms o a1 show ?thesis
      by (auto simp: download_locked_def download_open_error_def unlock_def split: if_splits dest!: task_fs)
  next
    case (Inr p)
    obtain rc2 fs2 where s: "fs_fseek p fs1 = (rc2, fs2)" by fastforce
    obtain n fs3 where t: "fs_ftell_end p fs2 = (n, fs3)" by fastforce
    obtain rc4 fs4 where s': "fs_fseek p fs3 = (rc4, fs4)" by fastforce
    obtain ok fs5 where m: "fs_malloc fs4 = (ok, fs5)" by fastforce
    obtain b ferr fs6 where f: "fs_fread p (nat n) fs5 = (b, ferr, fs6)" by (metis prod_cases3)
    have a2: "agree_off t fs2 (sv_fs sv)" using agree_off_trans [OF agree_stream(3) [OF s] a1] .
    have a3: "agree_off t fs3 (sv_fs sv)" using agree_off_trans [OF agree_stream(4) [OF t] a2] .
    have a4: "agree_off t fs4 (sv_fs sv)" using agree_off_trans [OF agree_stream(3) [OF s'] a3] .
    have a5: "agree_off t fs5 (sv_fs sv)" using agree_off_trans [OF agree_stream(6) [OF m] a4] .
    have a6: "agree_off t fs6 (sv_fs sv)" using agree_off_trans [OF agree_stream(5) [OF f] a5] .
    note close = agree_off_trans [OF agree_stream(7)]
    show ?thesis
      using assms close [OF a2] close [OF a3] close [OF a4] close [OF a5] close [OF a6]
      unfolding download_locked_def o Inr prod.case sum.case Let_def s t s' m f
      by (auto simp: unlock_def split: if_splits dest!: task_fs)
  qed
qed

lemma delete_locked_agree:
  assumes "plain_task task" "delete_locked E now task k sv = Some sv'"
  shows "agree_off (target (sv_fs sv) task) (sv_fs sv') (sv_fs sv)"
proof -
  let ?t = "target (sv_fs sv) task"
  have T: "lookup fs (file_path task) = Inr p \<Longrightarrow> fs_cwd fs = fs_cwd (sv_fs sv) \<Longrightarrow> p = ?t" for fs p
    using target_only [OF assms(1)] by (auto simp: target_def)
  obtain r fs1 where o: "fs_remove (file_path task) (sv_fs sv) = (r, fs1)" by fastforce
  have a: "agree_off ?t fs1 (sv_fs sv)" by (rule agree_calls(3) [OF T refl o])
  obtain meta db where m: "user_remove_file E (Some (t_username task)) (Some (t_filename task)) (sv_db sv) = (meta, db)"
    by fastforce
  show ?thesis using assms(2) o a m
    by (cases r) (auto simp: delete_locked_def delete_error_def unlock_def split: if_splits dest!: task_fs)
qed

lemma task_list_agree:
  assumes "task_list E now task sv = Some sv'"
  shows "agree_off t (sv_fs sv') (sv_fs sv)"
proof -
  obtain r fs1 where o: "fs_opendir (user_path task) (sv_fs sv) = (r, fs1)" by fastforce
  note a1 = agree_stream(8) [OF o]
  obtain ex db where u: "user_exists E (Some (t_username task)) (sv_db sv) = (ex, db)" by fastforce
  show ?thesis
  proof (cases r)
    case (Inl e)
    with assms o a1 u show ?thesis
      by (auto simp: task_list_def check_user_def list_error_def Let_def split: if_splits dest!: task_fs)
  next
    case (Inr p)
    obtain names fs2 where d: "fs_readdir p fs1 = (names, fs2)" by fastforce
    obtain ok fs3 where m: "fs_malloc fs2 = (ok, fs3)" by fastforce
    have "agree_off t fs3 (sv_fs sv)"
      using agree_off_trans [OF agree_stream(6) [OF m] agree_off_trans [OF agree_stream(9) [OF d] a1]] .
    with assms u show ?thesis unfolding task_list_def
      by (auto simp: check_user_def Let_def o Inr d m split: if_splits dest!: task_fs)
  qed
qed

lemma file_task_agree:
  assumes run: "check_user E task no_user (with_lock me task no_lock body) sv = Some sv'"
    and no_user: "\<And>sv sv'. no_user sv = Some sv' \<Longrightarrow> sv_fs sv' = sv_fs sv"
    and no_lock: "\<And>sv sv'. no_lock sv = Some sv' \<Longrightarrow> sv_fs sv' = sv_fs sv"
    and body: "\<And>k sv sv'. body k sv = Some sv' \<Longrightarrow> agree_off (t (sv_fs sv)) (sv_fs sv') (sv_fs sv)"
  shows "agree_off (t (sv_fs sv)) (sv_fs sv') (sv_fs sv)"
proof -
  obtain ex db where u: "user_exists E (Some (t_username task)) (sv_db sv) = (ex, db)" by fastforce
  let ?sv = "sv\<lparr>sv_db := db\<rparr>"
  show ?thesis
  proof (cases ex)
    case False
    with run u have "no_user ?sv = Some sv'" by (simp add: check_user_def)
    with no_user [OF this] show ?thesis by simp
  next
    case True
    with run u have w: "with_lock me task no_lock body ?sv = Some sv'" by (simp add: check_user_def)
    then obtain r m where a: "file_lock_acquire me (sv_lm sv) (t_username task) (t_filename task) = Some (r, m)"
      by (auto simp: with_lock_def split: option.splits)
    show ?thesis
    proof (cases r)
      case None
      with w a have "no_lock (?sv\<lparr>sv_lm := m\<rparr>) = Some sv'" by (simp add: with_lock_def)
      with no_lock [OF this] show ?thesis by simp
    next
      case (Some k)
      with w a have "body k (?sv\<lparr>sv_lm := m\<rparr>) = Some sv'" by (simp add: with_lock_def)
      with body [OF this] show ?thesis by simp
    qed
  qed
qed

lemma worker_task_agree:
  assumes p: "plain_task task" and run: "worker_task E me now task sv = Some sv'"
  shows "agree_off (target (sv_fs sv) task) (sv_fs sv') (sv_fs sv)"
proof -
  let ?sv = "make_dirs task sv" and ?t = "target (sv_fs sv) task"
  have fs: "sv_fs ?sv = fs_mkdir (user_path task) (fs_mkdir ''storage'' (sv_fs sv))" by (simp add: make_dirs_def)
  have d: "agree_off ?t (sv_fs ?sv) (sv_fs sv)" unfolding fs by (rule agree_off_trans [OF agree_mkdir agree_mkdir])
  then have t: "target (sv_fs ?sv) task = ?t" by (simp add: target_def agree_off_def)
  have "agree_off (target (sv_fs ?sv) task) (sv_fs sv') (sv_fs ?sv)"
  proof (cases "t_type task")
    case TASK_UPLOAD
    with run have u: "task_upload E me now task ?sv = Some sv'" by (simp add: worker_task_def Let_def)
    show ?thesis
      by (rule file_task_agree [where t = "\<lambda>fs. target fs task", OF u [unfolded task_upload_def]])
        (auto dest!: task_fs intro: upload_locked_agree [OF p])
  next
    case TASK_DOWNLOAD
    with run have u: "task_download E me now task ?sv = Some sv'" by (simp add: worker_task_def Let_def)
    show ?thesis
      by (rule file_task_agree [where t = "\<lambda>fs. target fs task", OF u [unfolded task_download_def]])
        (auto dest!: task_fs intro: download_locked_agree)
  next
    case TASK_DELETE
    with run have u: "task_delete E me now task ?sv = Some sv'" by (simp add: worker_task_def Let_def)
    show ?thesis
      by (rule file_task_agree [where t = "\<lambda>fs. target fs task", OF u [unfolded task_delete_def]])
        (auto dest!: task_fs intro: delete_locked_agree [OF p])
  next
    case TASK_LIST
    with run have u: "task_list E now task ?sv = Some sv'" by (simp add: worker_task_def Let_def)
    show ?thesis by (rule task_list_agree [OF u])
  qed
  then have "agree_off ?t (sv_fs sv') (sv_fs ?sv)" by (simp only: t)
  then show ?thesis by (rule agree_off_trans [OF _ d])
qed

end
