(* ===== verification/System.thy ===== *)
theory System
  imports Server_Main Worker_Props
begin

text \<open>
  The server as a whole: the main thread, the client threads and the workers, as a step relation on the state
  they share. In a step one thread takes a turn (a worker handles a task in one turn: the interleaving inside
  the handlers is the subject of \<open>Worker_Pool\<close>), a signal arrives, or the network delivers to a connection.
  With \<open>w\<close>, client threads create sessions only while the identifiers in use are within one table length of
  the next, so that lookups find them (\<open>Session_Protocol\<close>).
\<close>

section \<open>Steps\<close>

datatype wk_phase = Wk_idle | Wk_busy Task | Wk_exit

text \<open>The loop of \<open>worker_worker\<close>, cut where the worker may sleep.\<close>

definition worker_turn ::
  "'d sqlite \<Rightarrow> nat \<Rightarrow> int \<Rightarrow> wk_phase \<Rightarrow> 'd shared \<Rightarrow> (wk_phase \<times> 'd shared) turn" where
  "worker_turn E me now wk sh =
     (case wk of
        Wk_idle \<Rightarrow>
          (case task_queue_pop (sh_tasks sh) of
             Wait cv \<Rightarrow> Blocked
           | Leave (rc, out) q ns \<Rightarrow>
               (case out of
                  Some task \<Rightarrow> if rc = 0 then Goes (Wk_busy task, sh\<lparr>sh_tasks := q\<rparr>) else Goes (Wk_exit, sh\<lparr>sh_tasks := q\<rparr>)
                | None \<Rightarrow> Goes (Wk_exit, sh\<lparr>sh_tasks := q\<rparr>)))
      | Wk_busy task \<Rightarrow>
          (case worker_task E me now task (sh_server sh) of
             None \<Rightarrow> Dangling
           | Some sv \<Rightarrow> Goes (Wk_idle, sh\<lparr>sh_server := sv\<rparr>))
      | Wk_exit \<Rightarrow> Blocked)"

record 'd system =
  sy_shared :: "'d shared"
  sy_clients :: "client list"
  sy_workers :: "wk_phase list"
  sy_main :: main_state

abbreviation sy_sm :: "'d system \<Rightarrow> SessionManager" where
  "sy_sm sy \<equiv> sv_sm (sh_server (sy_shared sy))"

text \<open>The two loops that join the threads: the main thread sleeps until all of them have returned.\<close>

definition join_clients :: "client list \<Rightarrow> main_state \<Rightarrow> main_state turn" where
  "join_clients clients mn =
     (if \<forall>ct \<in> set clients. ct_phase ct = Ct_exit then Goes (mn\<lparr>mn_phase := Mn_join_workers\<rparr>) else Blocked)"

definition join_workers :: "wk_phase list \<Rightarrow> main_state \<Rightarrow> main_state turn" where
  "join_workers workers mn =
     (if \<forall>wk \<in> set workers. wk = Wk_exit then Goes (mn\<lparr>mn_phase := Mn_done\<rparr>) else Blocked)"

text \<open>\<open>calloc\<close> returns a block that is not in use, and the counter of identifiers is not run to its end.\<close>

definition chance_ok :: "bool \<Rightarrow> chance \<Rightarrow> SessionManager \<Rightarrow> bool" where
  "chance_ok w c sm \<longleftrightarrow> (\<forall>a. ch_calloc c = Some a \<longrightarrow> sm_heap sm a = None) \<and>
     unat (sm_next sm) < 2 ^ 64 - 1 \<and> (w \<longrightarrow> window sm)"

inductive sys_step :: "bool \<Rightarrow> (bytes \<Rightarrow> bytes) \<Rightarrow> 'd sqlite \<Rightarrow> 'd system \<Rightarrow> 'd system \<Rightarrow> bool" for w sha E where
  client: "i < length (sy_clients sy) \<Longrightarrow> chance_ok w c (sy_sm sy) \<Longrightarrow>
    client_worker sha E c (sy_clients sy ! i) (sy_shared sy) = Goes (ct, sh) \<Longrightarrow>
    sys_step w sha E sy (sy\<lparr>sy_clients := (sy_clients sy)[i := ct], sy_shared := sh\<rparr>)"
| worker: "i < length (sy_workers sy) \<Longrightarrow>
    worker_turn E i now (sy_workers sy ! i) (sy_shared sy) = Goes (wk, sh) \<Longrightarrow>
    sys_step w sha E sy (sy\<lparr>sy_workers := (sy_workers sy)[i := wk], sy_shared := sh\<rparr>)"
| main_accept: "mn_phase (sy_main sy) = Mn_accept \<Longrightarrow>
    accept_turn conn (sy_main sy) (sy_shared sy) = Goes (mn, sh) \<Longrightarrow>
    sys_step w sha E sy (sy\<lparr>sy_main := mn, sy_shared := sh\<rparr>)"
| main_push: "mn_phase (sy_main sy) = Mn_push cfd \<Longrightarrow>
    accept_push_turn cfd (sy_main sy) (sy_shared sy) = Goes (mn, sh) \<Longrightarrow>
    sys_step w sha E sy (sy\<lparr>sy_main := mn, sy_shared := sh\<rparr>)"
| main_join_clients: "mn_phase (sy_main sy) = Mn_join_clients \<Longrightarrow>
    join_clients (sy_clients sy) (sy_main sy) = Goes mn \<Longrightarrow> sys_step w sha E sy (sy\<lparr>sy_main := mn\<rparr>)"
| main_join_workers: "mn_phase (sy_main sy) = Mn_join_workers \<Longrightarrow>
    join_workers (sy_workers sy) (sy_main sy) = Goes mn \<Longrightarrow> sys_step w sha E sy (sy\<lparr>sy_main := mn\<rparr>)"
| signal: "int_handler (sy_main sy) (sy_shared sy) = (mn, sh) \<Longrightarrow>
    sys_step w sha E sy (sy\<lparr>sy_main := mn, sy_shared := sh\<rparr>)"
| network: "sys_step w sha E sy
    (sy\<lparr>sy_shared := (sy_shared sy)\<lparr>sh_net := (sh_net (sy_shared sy))(fd := s)\<rparr>\<rparr>)"

inductive sys_reach :: "bool \<Rightarrow> (bytes \<Rightarrow> bytes) \<Rightarrow> 'd sqlite \<Rightarrow> 'd system \<Rightarrow> 'd system \<Rightarrow> bool" for w sha E sy0 where
  start: "sys_reach w sha E sy0 sy0"
| more: "sys_reach w sha E sy0 sy \<Longrightarrow> sys_step w sha E sy sy' \<Longrightarrow> sys_reach w sha E sy0 sy'"

text \<open>The state in which the threads have just been created.\<close>

definition idle_client :: client where
  "idle_client = \<lparr>ct_phase = Ct_next, ct_fd = - 1, ct_session_id = 0, ct_session = 0\<rparr>"

definition initial :: "'d started \<Rightarrow> nat \<Rightarrow> nat \<Rightarrow> 'd system \<Rightarrow> bool" where
  "initial st clients workers sy \<longleftrightarrow> (\<exists>sh fd live. st = Started sh fd live \<and>
     sy = \<lparr>sy_shared = sh, sy_clients = replicate clients idle_client, sy_workers = replicate workers Wk_idle,
       sy_main = \<lparr>mn_phase = Mn_accept, mn_keep_running = True, mn_listen_fd = fd, mn_handler_called = False\<rparr>\<rparr>)"

text \<open>The loops that create the threads, with what every \<open>pthread_create\<close> returns: a thread that could not be created is
  left out.\<close>

fun create_pool :: "int list \<Rightarrow> 'a \<Rightarrow> 'a list" where
  "create_pool [] thread = []"
| "create_pool (rc # rcs) thread = (if rc \<noteq> 0 then create_pool rcs thread else thread # create_pool rcs thread)"

fun create_threads :: "int list \<Rightarrow> int list \<Rightarrow> 'd started \<Rightarrow> 'd system option" where
  "create_threads worker_rcs client_rcs (Failed rc live) = None"
| "create_threads worker_rcs client_rcs (Started sh fd live) =
     Some \<lparr>sy_shared = sh, sy_clients = create_pool (take CLIENT_THREAD_COUNT client_rcs) idle_client,
       sy_workers = create_pool (take WORKER_THREAD_COUNT worker_rcs) Wk_idle,
       sy_main = \<lparr>mn_phase = Mn_accept, mn_keep_running = True, mn_listen_fd = fd, mn_handler_called = False\<rparr>\<rparr>"

lemma create_pool_replicate: "create_pool rcs thread = replicate (length (filter (\<lambda>rc. rc = 0) rcs)) thread"
  by (induction rcs) auto

lemma create_threads_initial:
  "create_threads worker_rcs client_rcs st = Some sy \<Longrightarrow>
    \<exists>clients \<le> CLIENT_THREAD_COUNT. \<exists>workers \<le> WORKER_THREAD_COUNT. initial st clients workers sy"
proof (cases st)
  case (Started sh fd live)
  have "length (filter P (take n xs)) \<le> n" for P n and xs :: "int list"
    by (rule le_trans [OF length_filter_le]) simp
  moreover assume "create_threads worker_rcs client_rcs st = Some sy"
  ultimately show ?thesis using Started by (auto simp: initial_def create_pool_replicate)
qed simp

section \<open>Sessions that clients hold\<close>

definition sm_good :: "bool \<Rightarrow> SessionManager \<Rightarrow> bool" where
  "sm_good w m \<longleftrightarrow> sm_wf m \<and> (w \<longrightarrow> sessions_homed m)"

definition in_session :: "client \<Rightarrow> bool" where
  "in_session ct \<longleftrightarrow> ct_phase ct \<noteq> Ct_next \<and> ct_phase ct \<noteq> Ct_exit"

fun carried :: "ct_phase \<Rightarrow> Task option" where
  "carried (Ct_recv t) = Some t"
| "carried (Ct_push t) = Some t"
| "carried _ = None"

definition task_of :: "client \<Rightarrow> Session \<Rightarrow> Task \<Rightarrow> bool" where
  "task_of ct s t \<longleftrightarrow> t_session_id t = ct_session_id ct \<and> t_username t = fit MAX_USERNAME_LEN (se_username s) \<and>
     (t_data_buffer t \<noteq> None \<longrightarrow> t_type t = TASK_UPLOAD) \<and>
     (t_type t = TASK_UPLOAD \<longrightarrow> (\<exists>b. t_data_buffer t = Some b \<and> length b \<le> unat (t_filesize t)))"

text \<open>What holds of the session of a client at each point of its thread.\<close>

definition session_ok :: "SessionManager \<Rightarrow> client \<Rightarrow> bool" where
  "session_ok sm ct \<longleftrightarrow> (\<exists>s. sm_heap sm (ct_session ct) = Some s \<and> se_id s = ct_session_id ct \<and> se_active s \<and>
     (ct_phase ct \<noteq> Ct_auth \<longrightarrow> se_auth s) \<and>
     (\<forall>t. carried (ct_phase ct) = Some t \<longrightarrow> task_of ct s t) \<and>
     (\<forall>t. ct_phase ct = Ct_recv t \<longrightarrow> t_type t = TASK_UPLOAD) \<and>
     (\<forall>t. ct_phase ct = Ct_push t \<longrightarrow> \<not> r_ready (se_response s) \<and>
        (\<forall>b. t_data_buffer t = Some b \<longrightarrow> length b = unat (t_filesize t))))"

definition answer_ready :: "SessionManager \<Rightarrow> client \<Rightarrow> bool" where
  "answer_ready sm ct \<longleftrightarrow> (\<exists>s. sm_heap sm (ct_session ct) = Some s \<and> r_ready (se_response s))"

lemma sm_good_wf: "sm_good w m \<Longrightarrow> sm_wf m"
  by (simp add: sm_good_def)

lemma created_good:
  "sm_good w m \<Longrightarrow> sm_heap m a = None \<Longrightarrow> i < MAX_SESSIONS \<Longrightarrow> sm_sessions m ! i = None \<Longrightarrow>
     st.chained m (sm_next m) i \<Longrightarrow> unat (sm_next m) < 2 ^ 64 - 1 \<Longrightarrow> w \<longrightarrow> window m \<Longrightarrow>
     sm_good w (created m i a fd now)"
  by (simp add: sm_good_def created_wf created_homed)

lemma next_good: "sm_good w m \<Longrightarrow> unat (sm_next m) < 2 ^ 64 - 1 \<Longrightarrow> sm_good w (m\<lparr>sm_next := sm_next m + 1\<rparr>)"
  by (simp add: sm_good_def next_wf next_homed)

lemma destroyed_good:
  "sm_good w m \<Longrightarrow> i < MAX_SESSIONS \<Longrightarrow> sm_sessions m ! i = Some a \<Longrightarrow> sm_good w (destroyed m i a s)"
  by (simp add: sm_good_def destroyed_wf destroyed_homed)

lemma touched_good: "sm_good w m \<Longrightarrow> keeps_id f \<Longrightarrow> sm_good w (touched m a f)"
  by (simp add: sm_good_def touched_wf touched_homed)

lemma find_slot_touched [simp]: "keeps_id f \<Longrightarrow> find_slot (touched m a f) k = find_slot m k"
  by (simp add: find_slot_def)

lemma live_slot:
  assumes "sm_wf m" "sm_heap m a = Some s"
  obtains i where "i < MAX_SESSIONS" "sm_sessions m ! i = Some a" "id_at m i = Some (se_id s)" "se_id s \<noteq> 0"
    "unat (se_id s) < unat (sm_next m)"
proof -
  from sm_wf_owned [OF assms(1), of a] assms(2) obtain i where i: "i < MAX_SESSIONS" "sm_sessions m ! i = Some a"
    by auto
  from sm_wf_entry [OF assms(1) i] assms(2) have "se_id s \<noteq> 0" "unat (se_id s) < unat (sm_next m)" by auto
  with i assms(2) show thesis by (intro that [of i]) (simp_all add: id_at_def)
qed

lemma live_inj:
  assumes "sm_wf m" "sm_heap m a = Some s" "sm_heap m b = Some t" "se_id s = se_id t"
  shows "a = b"
proof -
  obtain i where i: "i < MAX_SESSIONS" "sm_sessions m ! i = Some a" "id_at m i = Some (se_id s)"
    by (rule live_slot [OF assms(1,2)])
  obtain j where j: "j < MAX_SESSIONS" "sm_sessions m ! j = Some b" "id_at m j = Some (se_id t)"
    by (rule live_slot [OF assms(1,3)])
  from i j assms(4) have "i = j" by (auto intro: st.unique_keysD [OF sm_wf_unique [OF assms(1)]])
  with i j show ?thesis by simp
qed

lemma find_live:
  assumes "sm_wf m" "sm_heap m a = Some s" "find_slot m (se_id s) = Some i"
  shows "i < MAX_SESSIONS \<and> sm_sessions m ! i = Some a"
proof -
  from assms(3) have i: "i < MAX_SESSIONS" "id_at m i = Some (se_id s)" by (simp_all add: find_slot_iff [OF assms(1)])
  from id_at_Some [OF assms(1) i] obtain b t where b: "sm_sessions m ! i = Some b" "sm_heap m b = Some t"
    "se_id t = se_id s" by blast
  with live_inj [OF assms(1,2)] i show ?thesis by auto
qed

lemma find_homed:
  assumes "sm_good True m" "sm_heap m a = Some s"
  obtains i where "find_slot m (se_id s) = Some i"
proof -
  have wf: "sm_wf m" and h: "sessions_homed m" using assms(1) by (simp_all add: sm_good_def)
  obtain i where i: "i < MAX_SESSIONS" "id_at m i = Some (se_id s)" by (rule live_slot [OF wf assms(2)])
  with h have "hash_session_id (se_id s) = i" by (simp add: sessions_homed_def)
  with i chained_home [of m "se_id s"] show thesis by (intro that [of i]) (simp add: find_slot_iff [OF wf])
qed

text \<open>Leaving: the client's own session goes, if the lookup finds it, and no other changes.\<close>

lemma leave_outcome:
  assumes g: "sm_good w m" and s: "sm_heap m a = Some s" "se_id s = k"
  defines "m' \<equiv> session_destroy (session_mark_inactive m k) k"
  shows "sm_good w m'" "b \<noteq> a \<Longrightarrow> sm_heap m' b = sm_heap m b"
    "find_slot m k \<noteq> None \<Longrightarrow> sm_heap m' a = None" "sm_next m' = sm_next m"
proof -
  have wf: "sm_wf m" by (rule sm_good_wf [OF g])
  have "sm_good w m' \<and> (b \<noteq> a \<longrightarrow> sm_heap m' b = sm_heap m b) \<and> (find_slot m k \<noteq> None \<longrightarrow> sm_heap m' a = None)
      \<and> sm_next m' = sm_next m"
  proof (cases "find_slot m k")
    case None
    then have "session_mark_inactive m k = m" by (simp add: session_mark_inactive_def)
    with None g show ?thesis by (simp add: m'_def session_destroy_missing)
  next
    case (Some i)
    with find_live [OF wf s(1)] s(2) have i: "i < MAX_SESSIONS" "sm_sessions m ! i = Some a" by auto
    have k: "k \<noteq> 0" using live_slot [OF wf s(1)] s(2) by blast
    let ?f = "\<lambda>s. s\<lparr>se_active := False\<rparr>"
    let ?m = "touched m a ?f"
    have mark: "session_mark_inactive m k = ?m" using Some k i by (simp add: session_mark_inactive_touch)
    have "m' = destroyed ?m i a (?f s)"
      unfolding m'_def mark by (rule session_destroy_found) (use Some k i s in \<open>simp_all add: touched_heap\<close>)
    moreover have "sm_good w ?m" using g by (simp add: touched_good)
    ultimately show ?thesis using i Some destroyed_good [of w ?m i a "?f s"] by (auto simp: destroyed_def touched_heap)
  qed
  then show "sm_good w m'" "b \<noteq> a \<Longrightarrow> sm_heap m' b = sm_heap m b"
    "find_slot m k \<noteq> None \<Longrightarrow> sm_heap m' a = None" "sm_next m' = sm_next m" by blast+
qed

section \<open>What a turn of a client can do\<close>

definition held :: "client \<Rightarrow> nat" where
  "held ct = (case carried (ct_phase ct) of None \<Rightarrow> 0 | Some t \<Rightarrow> frees t)"

text \<open>The guarantees of a turn from \<open>(ct, sh)\<close> to \<open>(ct', sh')\<close>: no other session changes; the client's own is
  in order, and gone once it left; a task is queued only by a push, and only a client with a response leaves the wait;
  the buffers it allocated are freed, held or queued.\<close>

definition client_effect :: "bool \<Rightarrow> client \<Rightarrow> 'd shared \<Rightarrow> client \<Rightarrow> 'd shared \<Rightarrow> bool" where
  "client_effect w ct sh ct' sh' \<longleftrightarrow>
     sm_good w (sv_sm (sh_server sh')) \<and> sv_lm (sh_server sh') = sv_lm (sh_server sh) \<and>
     (\<forall>a. sm_heap (sv_sm (sh_server sh)) a \<noteq> None \<longrightarrow> \<not> (in_session ct \<and> a = ct_session ct) \<longrightarrow>
        sm_heap (sv_sm (sh_server sh')) a = sm_heap (sv_sm (sh_server sh)) a) \<and>
     (\<forall>a. sm_heap (sv_sm (sh_server sh')) a \<noteq> None \<longrightarrow>
        sm_heap (sv_sm (sh_server sh)) a \<noteq> None \<or> (in_session ct' \<and> a = ct_session ct')) \<and>
     (w \<longrightarrow> in_session ct \<longrightarrow> \<not> in_session ct' \<longrightarrow> sm_heap (sv_sm (sh_server sh')) (ct_session ct) = None) \<and>
     (in_session ct' \<longrightarrow> session_ok (sv_sm (sh_server sh')) ct' \<and>
        (if in_session ct then ct_session_id ct' = ct_session_id ct \<and> ct_session ct' = ct_session ct
         else ct_session_id ct' = sm_next (sv_sm (sh_server sh)) \<and>
           sm_heap (sv_sm (sh_server sh)) (ct_session ct') = None)) \<and>
     (ct_phase ct = Ct_wait \<longrightarrow> answer_ready (sv_sm (sh_server sh)) ct) \<and>
     (sh_tasks sh' = sh_tasks sh \<and> ct_phase ct' \<noteq> Ct_wait \<and>
        sh_allocs sh' + sv_freed (sh_server sh) + held ct = sh_allocs sh + sv_freed (sh_server sh') + held ct' \<or>
      (\<exists>t ns. ct_phase ct = Ct_push t \<and> ct_phase ct' = Ct_wait \<and>
         sv_sm (sh_server sh') = sv_sm (sh_server sh) \<and> sv_freed (sh_server sh') = sv_freed (sh_server sh) \<and>
         sh_allocs sh' = sh_allocs sh \<and> task_queue_push (sh_tasks sh) t = Leave 0 (sh_tasks sh') ns))"

definition turn_ok :: "(client \<Rightarrow> 'd shared \<Rightarrow> bool) \<Rightarrow> 'd client_turn \<Rightarrow> bool" where
  "turn_ok P tr \<longleftrightarrow> tr \<noteq> Dangling \<and> (\<forall>ct sh. tr = Goes (ct, sh) \<longrightarrow> P ct sh)"

lemma turn_ok_simps [simp]:
  "turn_ok P Blocked" "\<not> turn_ok P Dangling" "turn_ok P (Goes (ct, sh)) = P ct sh"
  by (simp_all add: turn_ok_def)

text \<open>What the guarantees do not look at.\<close>

lemma client_effect_untracked [simp]:
  "client_effect w ct sh ct' (sh'\<lparr>sh_net := n\<rparr>) = client_effect w ct sh ct' sh'"
  "client_effect w ct sh ct' (sh'\<lparr>sh_net := n, sh_server := v\<rparr>) = client_effect w ct sh ct' (sh'\<lparr>sh_server := v\<rparr>)"
  "client_effect w ct sh ct' (sh'\<lparr>sh_fds := q\<rparr>) = client_effect w ct sh ct' sh'"
  "client_effect w ct sh ct' (sh'\<lparr>sh_closed := c\<rparr>) = client_effect w ct sh ct' sh'"
  "client_effect w ct sh ct' (on_db db sh') = client_effect w ct sh ct' sh'"
  by (simp_all add: client_effect_def)

lemma on_net_ok:
  "(\<And>r n. turn_ok P (body r (sh\<lparr>sh_net := n\<rparr>))) \<Longrightarrow> turn_ok P (on_net fd call sh body)"
  by (auto simp: on_net_def split: option.split prod.split)

lemma complain_ok: "(\<And>n. P ct (sh\<lparr>sh_net := n\<rparr>)) \<Longrightarrow> turn_ok P (complain m ct sh)"
  unfolding complain_def by (rule on_net_ok) simp

section \<open>The kinds of turns\<close>

lemma in_session_phase [simp]:
  "\<not> in_session ct \<Longrightarrow> held ct = 0" "\<not> in_session ct \<Longrightarrow> ct_phase ct \<noteq> Ct_wait"
  by (auto simp: in_session_def held_def)

lemma session_okD:
  assumes "session_ok sm ct"
  obtains s where "sm_heap sm (ct_session ct) = Some s" "se_id s = ct_session_id ct" "se_active s"
    "ct_phase ct \<noteq> Ct_auth \<Longrightarrow> se_auth s" "\<And>t. carried (ct_phase ct) = Some t \<Longrightarrow> task_of ct s t"
    "\<And>t. ct_phase ct = Ct_recv t \<Longrightarrow> t_type t = TASK_UPLOAD"
    "\<And>t. ct_phase ct = Ct_push t \<Longrightarrow> \<not> r_ready (se_response s)"
    "\<And>t b. ct_phase ct = Ct_push t \<Longrightarrow> t_data_buffer t = Some b \<Longrightarrow> length b = unat (t_filesize t)"
  using assms unfolding session_ok_def by blast

lemma touched_ident [simp]: "touched m a (\<lambda>s. s) = m"
  by (cases m) (simp add: touched_def option.map_ident fun_upd_idem)

text \<open>No session.\<close>

lemma effect_idle:
  assumes "\<not> in_session ct" "\<not> in_session ct'" "sm_good w (sv_sm (sh_server sh'))"
    "sm_heap (sv_sm (sh_server sh')) = sm_heap (sv_sm (sh_server sh))" "sv_lm (sh_server sh') = sv_lm (sh_server sh)"
    "sh_tasks sh' = sh_tasks sh" "sh_allocs sh' = sh_allocs sh" "sv_freed (sh_server sh') = sv_freed (sh_server sh)"
  shows "client_effect w ct sh ct' sh'"
  using assms by (simp add: client_effect_def)

lemma find_created:
  assumes "sm_wf m" "sm_heap m a = None" "i < MAX_SESSIONS" "sm_sessions m ! i = None" "st.chained m (sm_next m) i"
    "unat (sm_next m) < 2 ^ 64 - 1"
  shows "find_slot (created m i a fd now) (sm_next m) = Some i"
  using find_slot_iff [OF created_wf [OF assms(1-4,6)], of fd now "sm_next m" i]
    id_at_created [OF assms(1-3,3)] created_chained [OF assms(1-3,5)] assms(3) by simp

text \<open>A session that was just created is found.\<close>

lemma get_created:
  assumes "sm_wf m" "sm_heap m a = None" "i < MAX_SESSIONS" "sm_sessions m ! i = None" "st.chained m (sm_next m) i"
    "unat (sm_next m) < 2 ^ 64 - 1"
  shows "session_get (created m i a fd now) (sm_next m) = Some a"
proof -
  have "sm_next m \<noteq> 0" using assms(1) by (auto simp: sm_wf_def)
  with find_created [OF assms, of fd now] assms show ?thesis
    by (simp add: session_get_def created_def sm_wf_len new_session_def)
qed

text \<open>A new session, and one that is left at once.\<close>

lemma effect_open:
  assumes "\<not> in_session ct" "sm_good w (created (sv_sm (sh_server sh)) i a fd now)"
    "sm_heap (sv_sm (sh_server sh)) a = None"
    "sv_sm (sh_server sh') = created (sv_sm (sh_server sh)) i a fd now" "sv_lm (sh_server sh') = sv_lm (sh_server sh)"
    "sh_tasks sh' = sh_tasks sh" "sh_allocs sh' = sh_allocs sh" "sv_freed (sh_server sh') = sv_freed (sh_server sh)"
    "ct' = \<lparr>ct_phase = Ct_auth, ct_fd = fd', ct_session_id = sm_next (sv_sm (sh_server sh)), ct_session = a\<rparr>"
  shows "client_effect w ct sh ct' sh'"
proof -
  have "session_ok (sv_sm (sh_server sh')) ct'"
    using assms(4,9) by (simp add: session_ok_def created_def new_session_def)
  then show ?thesis using assms by (auto simp: client_effect_def created_def held_def in_session_def)
qed

lemma effect_open_leave:
  assumes "\<not> in_session ct" "\<not> in_session ct'" "sm_good w (created (sv_sm (sh_server sh)) i a fd now)"
    "sm_heap (sv_sm (sh_server sh)) a = None"
    "find_slot (created (sv_sm (sh_server sh)) i a fd now) k \<noteq> None" "k = sm_next (sv_sm (sh_server sh))"
    "sv_sm (sh_server sh') =
      session_destroy (session_mark_inactive (created (sv_sm (sh_server sh)) i a fd now) k) k"
    "sv_lm (sh_server sh') = sv_lm (sh_server sh)"
    "sh_tasks sh' = sh_tasks sh" "sh_allocs sh' = sh_allocs sh" "sv_freed (sh_server sh') = sv_freed (sh_server sh)"
  shows "client_effect w ct sh ct' sh'"
proof -
  have h: "sm_heap (created (sv_sm (sh_server sh)) i a fd now) a = Some (new_session k fd now)"
    and o: "b \<noteq> a \<Longrightarrow> sm_heap (created (sv_sm (sh_server sh)) i a fd now) b = sm_heap (sv_sm (sh_server sh)) b" for b
    using assms(6) by (simp_all add: created_def)
  have "se_id (new_session k fd now) = k" by (simp add: new_session_def)
  note l = leave_outcome [OF assms(3) h this]
  have "sm_heap (sv_sm (sh_server sh')) = sm_heap (sv_sm (sh_server sh))"
    using l(2) l(3) [OF assms(5)] o assms(4) by (intro ext) (metis assms(7))
  moreover have "sm_good w (sv_sm (sh_server sh'))" using l(1) by (simp add: assms(7))
  ultimately show ?thesis by (intro effect_idle) (use assms in simp_all)
qed

text \<open>A turn within the session.\<close>

lemma effect_stay:
  assumes "sm_good w (sv_sm (sh_server sh))" "in_session ct" "in_session ct'" "ct_phase ct' \<noteq> Ct_wait"
    "ct_session_id ct' = ct_session_id ct" "ct_session ct' = ct_session ct"
    "sv_sm (sh_server sh') = touched (sv_sm (sh_server sh)) (ct_session ct) f" "keeps_id f"
    "session_ok (sv_sm (sh_server sh')) ct'" "ct_phase ct = Ct_wait \<Longrightarrow> answer_ready (sv_sm (sh_server sh)) ct"
    "sv_lm (sh_server sh') = sv_lm (sh_server sh)" "sh_tasks sh' = sh_tasks sh"
    "sh_allocs sh' + sv_freed (sh_server sh) + held ct = sh_allocs sh + sv_freed (sh_server sh') + held ct'"
  shows "client_effect w ct sh ct' sh'"
  unfolding client_effect_def using assms touched_good [OF assms(1,8), of "ct_session ct"]
  by (auto simp: touched_heap)

text \<open>The end of the session.\<close>

lemma effect_leave:
  assumes g: "sm_good w (sv_sm (sh_server sh))" and s: "session_ok (sv_sm (sh_server sh)) ct"
    and p: "in_session ct" "held ct = 0" "\<not> in_session ct'"
      "ct_phase ct = Ct_wait \<Longrightarrow> answer_ready (sv_sm (sh_server sh)) ct"
    and sm: "sv_sm (sh_server sh') = session_destroy
      (session_mark_inactive (sv_sm (sh_server sh)) (ct_session_id ct)) (ct_session_id ct)"
    and r: "sv_lm (sh_server sh') = sv_lm (sh_server sh)" "sh_tasks sh' = sh_tasks sh" "sh_allocs sh' = sh_allocs sh"
      "sv_freed (sh_server sh') = sv_freed (sh_server sh)"
  shows "client_effect w ct sh ct' sh'"
proof -
  obtain x where x: "sm_heap (sv_sm (sh_server sh)) (ct_session ct) = Some x" "se_id x = ct_session_id ct"
    by (rule session_okD [OF s])
  note l = leave_outcome [OF g x, folded sm]
  have "sm_heap (sv_sm (sh_server sh')) (ct_session ct) = None" if W: w
  proof -
    obtain i where "find_slot (sv_sm (sh_server sh)) (se_id x) = Some i"
      by (rule find_homed [OF _ x(1)]) (use g W in \<open>simp add: sm_good_def\<close>)
    with l(3) x(2) show ?thesis by simp
  qed
  moreover have "sm_heap (sv_sm (sh_server sh)) a \<noteq> None" if "sm_heap (sv_sm (sh_server sh')) a \<noteq> None" for a
    using that l(2) [of a] x(1) by (cases "a = ct_session ct") auto
  moreover have "sm_heap (sv_sm (sh_server sh')) a = sm_heap (sv_sm (sh_server sh)) a" if "a \<noteq> ct_session ct" for a
    by (rule l(2) [OF that])
  ultimately show ?thesis using l(1) p r unfolding client_effect_def by simp
qed

text \<open>A push.\<close>

lemma effect_push:
  assumes g: "sm_good w (sv_sm (sh_server sh))" and s: "session_ok (sv_sm (sh_server sh)) ct"
    and t: "ct_phase ct = Ct_push t" "task_queue_push (sh_tasks sh) t = Leave 0 q ns"
  shows "client_effect w ct sh (ct\<lparr>ct_phase := Ct_wait\<rparr>) (sh\<lparr>sh_tasks := q\<rparr>)"
proof -
  have "session_ok (sv_sm (sh_server sh)) (ct\<lparr>ct_phase := Ct_wait\<rparr>)"
    using s t(1) by (auto simp: session_ok_def)
  with g t show ?thesis by (auto simp: client_effect_def in_session_def)
qed

section \<open>Every turn\<close>

lemma session_create_either:
  assumes wf: "sm_wf m"
  obtains (none) m' where "session_create m fd now alloc rm rc mr = (0, m')" "m' = m \<or> m' = m\<lparr>sm_next := sm_next m + 1\<rparr>"
  | (made) a i where "alloc = Some a" "i < MAX_SESSIONS" "sm_sessions m ! i = None" "st.chained m (sm_next m) i"
      "session_create m fd now alloc rm rc mr = (sm_next m, created m i a fd now)"
proof (cases "0 \<le> fd \<and> alloc \<noteq> None \<and> rm = 0 \<and> rc = 0 \<and> mr = 0")
  case True
  then obtain a where a: "alloc = Some a" by blast
  show thesis
    by (rule session_create_cases [OF wf, of fd now a]) (use True a that in auto)
next
  case False
  then have "session_create m fd now alloc rm rc mr \<in> {(0, m), (0, m\<lparr>sm_next := sm_next m + 1\<rparr>)}"
    by (auto simp: session_create_def response_init_def Let_def split: option.split prod.split)
  then show thesis using none by blast
qed

lemma accept_ok:
  assumes ct: "ct_phase ct = Ct_next" and g: "sm_good w (sv_sm (sh_server sh))"
    and c: "chance_ok w c (sv_sm (sh_server sh))"
  shows "turn_ok (client_effect w ct sh) (client_accept c ct sh)"
proof -
  let ?sm = "sv_sm (sh_server sh)"
  have out: "\<not> in_session ct" "\<not> in_session (ct\<lparr>ct_phase := Ct_exit\<rparr>)" "\<not> in_session (ct\<lparr>ct_phase := Ct_next\<rparr>)"
    using ct by (simp_all add: in_session_def)
  have n: "unat (sm_next ?sm) < 2 ^ 64 - 1" "w \<longrightarrow> window ?sm" using c by (simp_all add: chance_ok_def)
  show ?thesis
  proof (cases "client_queue_pop (sh_fds sh)")
    case (Wait cv)
    then show ?thesis by (simp add: client_accept_def)
  next
    case (Leave cfd q ns)
    show ?thesis
    proof (cases "cfd < 0")
      case True
      with Leave g out show ?thesis by (simp add: client_accept_def effect_idle)
    next
      case False
      show ?thesis
      proof (rule session_create_either [OF sm_good_wf [OF g], of cfd "ch_now c" "ch_calloc c" "ch_resp_mtx c"
            "ch_resp_cv c" "ch_mtx c"])
        fix m' assume m: "session_create ?sm cfd (ch_now c) (ch_calloc c) (ch_resp_mtx c) (ch_resp_cv c) (ch_mtx c) = (0, m')"
          "m' = ?sm \<or> m' = ?sm\<lparr>sm_next := sm_next ?sm + 1\<rparr>"
        from m(2) g next_good [OF g n(1)] have "sm_good w m'" "sm_heap m' = sm_heap ?sm" by auto
        with Leave False m(1) out show ?thesis by (simp add: client_accept_def effect_idle)
      next
        fix a i assume a: "ch_calloc c = Some a" and i: "i < MAX_SESSIONS" "sm_sessions ?sm ! i = None"
            "st.chained ?sm (sm_next ?sm) i"
          and m: "session_create ?sm cfd (ch_now c) (ch_calloc c) (ch_resp_mtx c) (ch_resp_cv c) (ch_mtx c) =
            (sm_next ?sm, created ?sm i a cfd (ch_now c))"
        have fresh: "sm_heap ?sm a = None" using c a by (simp add: chance_ok_def)
        have ne: "sm_next ?sm \<noteq> 0" using sm_good_wf [OF g] by (auto simp: sm_wf_def)
        note found = find_created [OF sm_good_wf [OF g] fresh i n(1)] get_created [OF sm_good_wf [OF g] fresh i n(1)]
        have good: "sm_good w (created ?sm i a cfd (ch_now c))" by (rule created_good) (use g fresh i n in auto)
        let ?ct = "\<lparr>ct_phase = Ct_auth, ct_fd = cfd, ct_session_id = sm_next ?sm, ct_session = a\<rparr>"
        let ?sh = "on_sm (\<lambda>_. created ?sm i a cfd (ch_now c)) (sh\<lparr>sh_fds := q\<rparr>)"
        have "client_effect w ct sh ?ct ?sh" by (rule effect_open) (use out good fresh in simp_all)
        moreover have "turn_ok (client_effect w ct sh) (client_leave ?ct (?sh\<lparr>sh_net := x\<rparr>))" for x
          unfolding client_leave_def turn_ok_simps
          by (rule effect_open_leave) (use out good fresh found in \<open>simp_all add: in_session_def\<close>)
        ultimately show ?thesis
          using Leave False m ne found(2)
          by (simp add: client_accept_def Let_def) (rule on_net_ok, simp)
      qed
    qed
  qed
qed

text \<open>Two states that agree on what the guarantees look at.\<close>

definition alike :: "'d shared \<Rightarrow> 'd shared \<Rightarrow> bool" where
  "alike sh sh' \<longleftrightarrow> sv_sm (sh_server sh') = sv_sm (sh_server sh) \<and> sv_lm (sh_server sh') = sv_lm (sh_server sh) \<and>
     sh_tasks sh' = sh_tasks sh \<and> sh_allocs sh' = sh_allocs sh \<and> sv_freed (sh_server sh') = sv_freed (sh_server sh)"

lemma alike_simps [simp]:
  "alike sh sh" "alike sh (sh'\<lparr>sh_net := n\<rparr>) = alike sh sh'" "alike sh (on_db db sh') = alike sh sh'"
  by (simp_all add: alike_def)

lemma leave_ok:
  assumes "sm_good w (sv_sm (sh_server sh))" "session_ok (sv_sm (sh_server sh)) ct" "in_session ct" "held ct = 0"
    "ct_phase ct = Ct_wait \<Longrightarrow> answer_ready (sv_sm (sh_server sh)) ct"
    "ct_session_id ct' = ct_session_id ct" "alike sh sh'"
  shows "turn_ok (client_effect w ct sh) (client_leave ct' sh')"
  unfolding client_leave_def turn_ok_simps
  by (rule effect_leave) (use assms in \<open>simp_all add: in_session_def alike_def\<close>)

lemma stay_ok:
  assumes "sm_good w (sv_sm (sh_server sh))" "session_ok (sv_sm (sh_server sh)) ct'" "in_session ct" "in_session ct'"
    "ct_phase ct' \<noteq> Ct_wait" "ct_phase ct = Ct_wait \<Longrightarrow> answer_ready (sv_sm (sh_server sh)) ct"
    "ct_session_id ct' = ct_session_id ct" "ct_session ct' = ct_session ct" "held ct' = held ct" "alike sh sh'"
  shows "client_effect w ct sh ct' sh'"
  by (rule effect_stay [where f = "\<lambda>s. s"]) (use assms in \<open>simp_all add: alike_def keeps_id_def\<close>)

lemma with_session_ok:
  assumes "session_ok (sv_sm (sh_server sh)) ct" "sv_sm (sh_server sh') = sv_sm (sh_server sh)"
    "\<And>s. sm_heap (sv_sm (sh_server sh)) (ct_session ct) = Some s \<Longrightarrow> turn_ok P (body s)"
  shows "turn_ok P (with_session ct sh' body)"
  by (rule session_okD [OF assms(1)]) (use assms in \<open>simp add: with_session_def\<close>)

lemma client_recv_ok:
  assumes "sm_good w (sv_sm (sh_server sh))" "session_ok (sv_sm (sh_server sh)) ct" "in_session ct" "held ct = 0"
    "ct_phase ct \<noteq> Ct_wait" "\<And>cmd n. turn_ok (client_effect w ct sh) (body cmd (sh\<lparr>sh_net := n\<rparr>))"
  shows "turn_ok (client_effect w ct sh) (client_recv ct sh body)"
  unfolding client_recv_def
proof (rule on_net_ok)
  fix r :: "errno + bytes" and n
  have "turn_ok (client_effect w ct sh) (client_leave ct (sh\<lparr>sh_net := n\<rparr>))"
    by (rule leave_ok) (use assms in simp_all)
  with assms(6) show "turn_ok (client_effect w ct sh) (case r of Inl e \<Rightarrow> client_leave ct (sh\<lparr>sh_net := n\<rparr>)
      | Inr cmd \<Rightarrow> if cmd = [] then client_leave ct (sh\<lparr>sh_net := n\<rparr>) else body cmd (sh\<lparr>sh_net := n\<rparr>))"
    by (auto split: sum.split)
qed

subsection \<open>Authentication\<close>

lemma auth_accept_ok:
  assumes g: "sm_good w (sv_sm (sh_server sh))" and s: "session_ok (sv_sm (sh_server sh)) ct"
    and p: "ct_phase ct = Ct_auth" and a: "alike sh sh'"
  shows "turn_ok (client_effect w ct sh) (auth_accept c m u ct sh')"
  unfolding auth_accept_def
proof (rule on_net_ok)
  fix r :: int and n
  have i: "in_session ct" "held ct = 0" using p by (simp_all add: in_session_def held_def)
  obtain x where x: "sm_heap (sv_sm (sh_server sh)) (ct_session ct) = Some x" "se_id x = ct_session_id ct" "se_active x"
    by (rule session_okD [OF s])
  let ?f = "\<lambda>s. s\<lparr>se_username := fit MAX_USERNAME_LEN u, se_auth := True, se_authenticated_at := ch_now c,
    se_last_activity := ch_now c\<rparr>"
  let ?sm = "touched (sv_sm (sh_server sh)) (ct_session ct) ?f"
  have set: "session_set_username (ct_session ct) u (ch_now c) (sv_sm (sh_server sh)) = Some ?sm"
    using x by (simp add: session_set_username_def on_session_touched)
  have "client_effect w ct sh ct (on_sm (\<lambda>_. ?sm) sh')"
    by (rule effect_stay [where f = ?f])
      (use g i p a x in \<open>simp_all add: alike_def session_ok_def touched_heap\<close>)
  moreover have "turn_ok (client_effect w ct sh) (client_leave ct (sh'\<lparr>sh_net := n\<rparr>))"
    by (rule leave_ok) (use g s i p a in simp_all)
  ultimately show "turn_ok (client_effect w ct sh) (if r \<noteq> 0 then client_leave ct (sh'\<lparr>sh_net := n\<rparr>)
      else set_session (\<lambda>a. session_set_username a u (ch_now c)) ct (sh'\<lparr>sh_net := n\<rparr>) (\<lambda>sh. Goes (ct, sh)))"
    using set a by (simp add: set_session_def alike_def)
qed

lemma auth_ok:
  assumes g: "sm_good w (sv_sm (sh_server sh))" and s: "session_ok (sv_sm (sh_server sh)) ct" and p: "ct_phase ct = Ct_auth"
  shows "turn_ok (client_effect w ct sh) (client_auth_turn sha E c ct sh)"
proof -
  have i: "in_session ct" "held ct = 0" using p by (simp_all add: in_session_def held_def)
  have same: "client_effect w ct sh ct sh'" if "alike sh sh'" for sh'
    by (rule stay_ok) (use g s i p that in simp_all)
  have leave: "turn_ok (client_effect w ct sh) (client_leave ct sh')" if "alike sh sh'" for sh'
    by (rule leave_ok) (use g s i p that in simp_all)
  have comp: "turn_ok (client_effect w ct sh) (complain m ct sh')" if "alike sh sh'" for m sh'
    by (rule complain_ok) (use same that in simp)
  have "turn_ok (client_effect w ct sh) (client_auth_command sha E c cmd ct (sh\<lparr>sh_net := n\<rparr>))" for cmd n
    unfolding client_auth_command_def
    by (simp add: Let_def alike_def comp auth_accept_ok [OF g s p] split: auth_command.split prod.split)
  then have "turn_ok (client_effect w ct sh)
      (client_recv ct sh (\<lambda>cmd sh. client_auth_command sha E c (takeWhile (\<lambda>x. x \<noteq> LF) (cstr cmd)) ct sh))"
    by (intro client_recv_ok) (use g s i p in simp_all)
  moreover have "turn_ok (client_effect w ct sh) (on_net (ct_fd ct) (send_success file_menu) sh
      (\<lambda>rc sh. if rc \<noteq> 0 then client_leave ct sh else Goes (ct\<lparr>ct_phase := Ct_file\<rparr>, sh)))" if "se_auth x"
    "sm_heap (sv_sm (sh_server sh)) (ct_session ct) = Some x" for x
  proof (rule on_net_ok)
    fix r :: int and n
    have "session_ok (sv_sm (sh_server sh)) (ct\<lparr>ct_phase := Ct_file\<rparr>)"
      using s that by (auto simp: session_ok_def)
    then have "client_effect w ct sh (ct\<lparr>ct_phase := Ct_file\<rparr>) sh"
      by (intro stay_ok) (use g i p in \<open>simp_all add: in_session_def held_def\<close>)
    with leave [of "sh\<lparr>sh_net := n\<rparr>"] show "turn_ok (client_effect w ct sh) (if r \<noteq> 0
        then client_leave ct (sh\<lparr>sh_net := n\<rparr>) else Goes (ct\<lparr>ct_phase := Ct_file\<rparr>, sh\<lparr>sh_net := n\<rparr>))"
      by simp
  qed
  ultimately show ?thesis unfolding client_auth_turn_def
    by (intro with_session_ok [OF s]) auto
qed

subsection \<open>File commands\<close>

lemma submit_ok:
  assumes g: "sm_good w (sv_sm (sh_server sh))" and s: "session_ok (sv_sm (sh_server sh)) ct"
    and p: "in_session ct" "ct_phase ct \<noteq> Ct_wait" "ct_phase ct \<noteq> Ct_auth"
    and x: "sm_heap (sv_sm (sh_server sh)) (ct_session ct) = Some x" "task_of ct x t"
      "\<And>b. t_data_buffer t = Some b \<Longrightarrow> length b = unat (t_filesize t)"
    and sh': "sv_sm (sh_server sh') = sv_sm (sh_server sh)" "sv_lm (sh_server sh') = sv_lm (sh_server sh)"
      "sh_tasks sh' = sh_tasks sh"
      "sh_allocs sh' + sv_freed (sh_server sh) + held ct = sh_allocs sh + sv_freed (sh_server sh') + frees t"
  shows "turn_ok (client_effect w ct sh) (client_submit t ct sh')"
proof -
  let ?f = "\<lambda>s. s\<lparr>se_response := (se_response s)\<lparr>r_ready := False, r_status := RESPONSE_SUCCESS, r_message := '''',
    r_data := None, r_data_size := 0\<rparr>\<rparr>"
  let ?sm = "touched (sv_sm (sh_server sh)) (ct_session ct) ?f" and ?ct = "ct\<lparr>ct_phase := Ct_push t\<rparr>"
  obtain y where y: "sm_heap (sv_sm (sh_server sh)) (ct_session ct) = Some y" "se_id y = ct_session_id ct" "se_active y"
    "se_auth y" by (rule session_okD [OF s]) (use p in blast)
  have "session_ok ?sm ?ct" using x y by (auto simp: session_ok_def touched_heap task_of_def)
  then have "client_effect w ct sh ?ct (on_sm (\<lambda>_. ?sm) sh')"
    by (intro effect_stay [where f = ?f])
      (use g p sh' in \<open>simp_all add: in_session_def keeps_id_def held_def\<close>)
  then show ?thesis
    using x(1) sh'(1) by (simp add: client_submit_def set_session_def reset_response_def on_session_touched)
qed

lemma length_leftover: "length (leftover cmd n) \<le> n"
  by (auto simp: leftover_def Let_def split: option.split)

lemma file_ok:
  assumes g: "sm_good w (sv_sm (sh_server sh))" and s: "session_ok (sv_sm (sh_server sh)) ct" and p: "ct_phase ct = Ct_file"
  shows "turn_ok (client_effect w ct sh) (client_file_turn E c ct sh)"
proof -
  have i: "in_session ct" "held ct = 0" "ct_phase ct \<noteq> Ct_wait" "ct_phase ct \<noteq> Ct_auth"
    using p by (simp_all add: in_session_def held_def)
  have same: "client_effect w ct sh ct sh'" if "alike sh sh'" for sh'
    by (rule stay_ok) (use g s i p that in simp_all)
  have leave: "turn_ok (client_effect w ct sh) (client_leave ct sh')" if "alike sh sh'" for sh'
    by (rule leave_ok) (use g s i p that in simp_all)
  have comp: "turn_ok (client_effect w ct sh) (complain m ct sh')" if "alike sh sh'" for m sh'
    by (rule complain_ok) (use same that in simp)
  have cmd: "turn_ok (client_effect w ct sh) (client_file_command E c cmd x ct sh')"
    if x: "sm_heap (sv_sm (sh_server sh)) (ct_session ct) = Some x" and a: "alike sh sh'" for cmd x sh'
  proof -
    have t: "task_of ct x (t\<lparr>t_type := k, t_filename := f\<rparr>)" "frees (t\<lparr>t_type := k, t_filename := f\<rparr>) = 0"
      if "t = new_task ct x" "k \<noteq> TASK_UPLOAD" for t k f
      using that by (simp_all add: new_task_def task_of_def zero_task_def frees_def)
    have sub: "turn_ok (client_effect w ct sh) (client_submit ((new_task ct x)\<lparr>t_type := k, t_filename := f\<rparr>) ct sh')"
      if "k \<noteq> TASK_UPLOAD" for k f
      by (rule submit_ok [OF g s i(1,3,4) x])
        (use a i that t in \<open>simp_all add: alike_def\<close>, simp add: new_task_def zero_task_def)
    have sub': "turn_ok (client_effect w ct sh) (client_submit ((new_task ct x)\<lparr>t_type := TASK_LIST\<rparr>) ct sh')"
      using sub [of TASK_LIST "''''"] by (simp add: new_task_def zero_task_def)
    have up: "turn_ok (client_effect w ct sh) (client_upload E c cmd t x ct sh')"
      if "t = (new_task ct x)\<lparr>t_type := TASK_UPLOAD, t_filename := f, t_filesize := n\<rparr>" for t f n
    proof -
      obtain q db where q: "user_check_quota E (Some (se_username x)) (t_filesize t) (sv_db (sh_server sh')) = (q, db)"
        by fastforce
      let ?t = "t\<lparr>t_data_buffer := Some (leftover cmd (unat (t_filesize t)))\<rparr>"
      let ?sh = "(on_db db sh')\<lparr>sh_allocs := sh_allocs sh' + 1\<rparr>"
      have t: "task_of ct x ?t" "frees ?t = 1"
        using that length_leftover by (simp_all add: new_task_def task_of_def zero_task_def frees_def)
      have "session_ok (sv_sm (sh_server sh)) (ct\<lparr>ct_phase := Ct_recv ?t\<rparr>)"
        using s t(1) p x that by (auto simp: session_ok_def task_of_def)
      then have "client_effect w ct sh (ct\<lparr>ct_phase := Ct_recv ?t\<rparr>) ?sh"
        by (intro effect_stay [where f = "\<lambda>s. s"])
          (use g i a t(2) in \<open>simp_all add: alike_def keeps_id_def in_session_def held_def\<close>)
      moreover have "turn_ok (client_effect w ct sh) (client_submit ?t ct ?sh)"
        if "\<not> length (leftover cmd (unat (t_filesize t))) < unat (t_filesize t)"
        by (rule submit_ok [OF g s i(1,3,4) x t(1)])
          (use a i t(2) that length_leftover [of cmd "unat (t_filesize t)"] in \<open>simp_all add: alike_def\<close>)
      ultimately show ?thesis
        using a by (simp add: client_upload_def q Let_def comp)
    qed
    have quit: "turn_ok (client_effect w ct sh)
        (on_net (ct_fd ct) (send_success m) sh' (\<lambda>rc sh. client_leave ct sh))" for m
      by (rule on_net_ok) (use a leave in simp)
    show ?thesis unfolding client_file_command_def
      using sub sub' up quit comp [OF a] by (simp add: Let_def split: file_command.split)
  qed
  show ?thesis unfolding client_file_turn_def
    by (rule client_recv_ok [OF g s i(1-3)], rule with_session_ok [OF s]) (simp_all add: cmd)
qed

lemma recv_ok:
  assumes g: "sm_good w (sv_sm (sh_server sh))" and s: "session_ok (sv_sm (sh_server sh)) ct"
    and p: "ct_phase ct = Ct_recv t"
  shows "turn_ok (client_effect w ct sh) (client_recv_turn t ct sh)"
proof -
  have i: "in_session ct" "ct_phase ct \<noteq> Ct_wait" "ct_phase ct \<noteq> Ct_auth" using p by (simp_all add: in_session_def)
  obtain x where x: "sm_heap (sv_sm (sh_server sh)) (ct_session ct) = Some x" "task_of ct x t" and up: "t_type t = TASK_UPLOAD"
    by (rule session_okD [OF s]) (use p in simp)
  from x(2) up obtain b where b: "t_data_buffer t = Some b" "length b \<le> unat (t_filesize t)"
    unfolding task_of_def by blast
  have h: "held ct = 1" using p b by (simp add: held_def frees_def)
  let ?ct = "ct\<lparr>ct_phase := Ct_file\<rparr>"
  have "session_ok (sv_sm (sh_server sh)) ?ct" using s p by (auto simp: session_ok_def)
  then have "client_effect w ct sh ?ct (free_upload sh)"
    by (intro effect_stay [where f = "\<lambda>s. s"])
      (use g i h p in \<open>simp_all add: free_upload_def keeps_id_def in_session_def held_def\<close>)
  then have fail: "turn_ok (client_effect w ct sh) (complain m ?ct (free_upload (sh\<lparr>sh_net := n\<rparr>)))" for m n
    by (intro complain_ok) (simp add: free_upload_def)
  have "turn_ok (client_effect w ct sh)
      (client_submit (t\<lparr>t_data_buffer := Some (b @ data)\<rparr>) ct (sh\<lparr>sh_net := n\<rparr>))"
    if "length data = unat (t_filesize t) - length b" for data n
    by (rule submit_ok [OF g s i x(1)])
      (use x(2) up b h that in \<open>auto simp: task_of_def frees_def\<close>)
  moreover have "length data = k" if "recv_full k m = Some (int k, data, m')" for k data m m'
    using that by (auto simp: recv_full_def split: if_splits option.splits)
  ultimately show ?thesis
    using fail b
    by (auto simp: client_recv_turn_def Let_def on_net_def split: option.split)
qed

lemma push_ok:
  assumes g: "sm_good w (sv_sm (sh_server sh))" and s: "session_ok (sv_sm (sh_server sh)) ct"
    and p: "ct_phase ct = Ct_push t"
  shows "turn_ok (client_effect w ct sh) (client_push_turn t ct sh)"
proof (cases "task_queue_push (sh_tasks sh) t")
  case (Wait cv)
  then show ?thesis by (simp add: client_push_turn_def)
next
  case (Leave rc q ns)
  let ?ct = "ct\<lparr>ct_phase := Ct_file\<rparr>"
  let ?sh = "if t_data_buffer t \<noteq> None then free_upload sh else sh"
  have "session_ok (sv_sm (sh_server sh)) ?ct" using s p by (auto simp: session_ok_def)
  then have "client_effect w ct sh ?ct ?sh"
    by (intro effect_stay [where f = "\<lambda>s. s"])
      (use g p in \<open>simp_all add: free_upload_def keeps_id_def in_session_def held_def frees_def\<close>)
  then have "turn_ok (client_effect w ct sh) (complain m ?ct ?sh)" for m
    by (intro complain_ok) simp
  moreover have "q = sh_tasks sh" if "rc \<noteq> 0"
    using Leave that by (auto simp: task_queue_push_def split: if_splits)
  moreover have "client_effect w ct sh (ct\<lparr>ct_phase := Ct_wait\<rparr>) (sh\<lparr>sh_tasks := q\<rparr>)" if "rc = 0"
    using effect_push [OF g s p] Leave that by simp
  ultimately show ?thesis using Leave by (auto simp: client_push_turn_def Let_def)
qed

lemma answer_ok:
  assumes g: "sm_good w (sv_sm (sh_server sh))" and s: "session_ok (sv_sm (sh_server sh)) ct" and p: "ct_phase ct = Ct_wait"
  shows "turn_ok (client_effect w ct sh) (client_answer_turn ct sh)"
proof (cases "answer_ready (sv_sm (sh_server sh)) ct")
  case False
  obtain x where "sm_heap (sv_sm (sh_server sh)) (ct_session ct) = Some x" by (rule session_okD [OF s])
  with False show ?thesis
    by (simp add: client_answer_turn_def with_session_def answer_ready_def response_wait_def)
next
  case True
  have i: "in_session ct" "held ct = 0" using p by (simp_all add: in_session_def held_def)
  let ?ct = "ct\<lparr>ct_phase := Ct_file\<rparr>"
  have "session_ok (sv_sm (sh_server sh)) ?ct" using s p by (auto simp: session_ok_def)
  then have filed: "client_effect w ct sh ?ct sh'" if "alike sh sh'" for sh'
    by (intro stay_ok) (use g i p True that in \<open>simp_all add: in_session_def held_def\<close>)
  have leave: "turn_ok (client_effect w ct sh) (client_leave ?ct sh')" if "alike sh sh'" for sh'
    by (rule leave_ok) (use g s i p True that in simp_all)
  have msg: "turn_ok (client_effect w ct sh) (send_message m ?ct sh')" if "alike sh sh'" for m sh'
    unfolding send_message_def using filed leave that
    by (simp del: client_effect_untracked) (rule impI, rule on_net_ok, simp del: client_effect_untracked)
  have "turn_ok (client_effect w ct sh) (send_response resp ?ct sh)" for resp
    unfolding send_response_def
    by (auto simp: msg leave simp del: client_effect_untracked intro!: on_net_ok split: option.split)
  with s show ?thesis unfolding client_answer_turn_def
    by (intro with_session_ok [OF s]) (auto simp: session_ok_def response_wait_def)
qed

text \<open>Every turn of a client keeps the guarantees, and never uses a session that was freed.\<close>

lemma client_turn_ok:
  assumes "sm_good w (sv_sm (sh_server sh))" "chance_ok w c (sv_sm (sh_server sh))"
    "in_session ct \<Longrightarrow> session_ok (sv_sm (sh_server sh)) ct"
  shows "turn_ok (client_effect w ct sh) (client_worker sha E c ct sh)"
  using assms accept_ok [of ct w sh c] auth_ok [of w sh ct sha E c] file_ok [of w sh ct E c]
    recv_ok [of w sh ct] push_ok [of w sh ct] answer_ok [of w sh ct]
  by (simp add: client_worker_def in_session_def split: ct_phase.split)

end
