(* ===== verification/System_Props.thy ===== *)
theory System_Props
  imports System
begin

text \<open>
  What holds in every state the server reaches: every client's session is alive while it uses it, every task
  belongs to one client that waits for it, every upload buffer is accounted for, and an orderly shutdown leaves
  nothing behind.
\<close>

section \<open>Sessions and requests\<close>

text \<open>Client \<open>ct\<close> waits for the answer to a task with identifier \<open>k\<close>.\<close>

definition waiting :: "SessionManager \<Rightarrow> u64 \<Rightarrow> client \<Rightarrow> bool" where
  "waiting sm k ct \<longleftrightarrow> ct_phase ct = Ct_wait \<and> ct_session_id ct = k \<and> \<not> answer_ready sm ct"

text \<open>The task is one the client sent for the user of its session.\<close>

definition sent_by :: "SessionManager \<Rightarrow> client \<Rightarrow> Task \<Rightarrow> bool" where
  "sent_by sm ct t \<longleftrightarrow> (\<exists>s. sm_heap sm (ct_session ct) = Some s \<and> se_auth s \<and> task_of ct s t)"

text \<open>The clients, their sessions and the tasks that are queued or being handled.\<close>

definition sys_ok :: "bool \<Rightarrow> SessionManager \<Rightarrow> client list \<Rightarrow> Task multiset \<Rightarrow> bool" where
  "sys_ok w sm cl ts \<longleftrightarrow> sm_good w sm \<and>
     (\<forall>i < length cl. in_session (cl ! i) \<longrightarrow> session_ok sm (cl ! i)) \<and>
     (\<forall>i < length cl. \<forall>j < length cl. in_session (cl ! i) \<longrightarrow> in_session (cl ! j) \<longrightarrow>
        ct_session_id (cl ! i) = ct_session_id (cl ! j) \<longrightarrow> i = j) \<and>
     (w \<longrightarrow> (\<forall>a. sm_heap sm a \<noteq> None \<longrightarrow> (\<exists>i < length cl. in_session (cl ! i) \<and> ct_session (cl ! i) = a))) \<and>
     (\<forall>t \<in># ts. \<exists>i < length cl. waiting sm (t_session_id t) (cl ! i) \<and> sent_by sm (cl ! i) t) \<and>
     (\<forall>k. size {#t \<in># ts. t_session_id t = k#} \<le> 1) \<and>
     (w \<longrightarrow> (\<forall>i < length cl. waiting sm (ct_session_id (cl ! i)) (cl ! i) \<longrightarrow>
        (\<exists>t \<in># ts. t_session_id t = ct_session_id (cl ! i))))"

lemma heap_cong:
  assumes "sm_heap sm' (ct_session ct) = sm_heap sm (ct_session ct)"
  shows "session_ok sm' ct = session_ok sm ct" "waiting sm' k ct = waiting sm k ct" "sent_by sm' ct t = sent_by sm ct t"
  using assms by (simp_all add: session_ok_def waiting_def answer_ready_def sent_by_def)

lemma waiting_in_session: "waiting sm k ct \<Longrightarrow> in_session ct"
  by (simp add: waiting_def in_session_def)

lemma sys_okD:
  assumes "sys_ok w sm cl ts"
  shows "sm_good w sm"
    "i < length cl \<Longrightarrow> in_session (cl ! i) \<Longrightarrow> session_ok sm (cl ! i)"
    "i < length cl \<Longrightarrow> j < length cl \<Longrightarrow> in_session (cl ! i) \<Longrightarrow> in_session (cl ! j) \<Longrightarrow>
      ct_session_id (cl ! i) = ct_session_id (cl ! j) \<Longrightarrow> i = j"
    "w \<Longrightarrow> sm_heap sm a \<noteq> None \<Longrightarrow> \<exists>i < length cl. in_session (cl ! i) \<and> ct_session (cl ! i) = a"
    "t \<in># ts \<Longrightarrow> \<exists>i < length cl. waiting sm (t_session_id t) (cl ! i) \<and> sent_by sm (cl ! i) t"
    "size {#t \<in># ts. t_session_id t = k#} \<le> 1"
    "w \<Longrightarrow> i < length cl \<Longrightarrow> waiting sm (ct_session_id (cl ! i)) (cl ! i) \<Longrightarrow>
      \<exists>t \<in># ts. t_session_id t = ct_session_id (cl ! i)"
  using assms unfolding sys_ok_def by blast+

lemma sys_ok_live:
  assumes "sys_ok w sm cl ts" "i < length cl" "in_session (cl ! i)"
  obtains s where "sm_heap sm (ct_session (cl ! i)) = Some s" "se_id s = ct_session_id (cl ! i)" "se_active s"
  by (rule session_okD [OF sys_okD(2) [OF assms]]) blast

lemma sys_ok_sessions_differ:
  assumes ok: "sys_ok w sm cl ts" and i: "i < length cl" "in_session (cl ! i)" and j: "j < length cl" "in_session (cl ! j)"
    and ne: "i \<noteq> j"
  shows "ct_session (cl ! i) \<noteq> ct_session (cl ! j)"
proof
  assume eq: "ct_session (cl ! i) = ct_session (cl ! j)"
  obtain s where "sm_heap sm (ct_session (cl ! i)) = Some s" "se_id s = ct_session_id (cl ! i)"
    by (rule sys_ok_live [OF ok i])
  moreover obtain t where "sm_heap sm (ct_session (cl ! j)) = Some t" "se_id t = ct_session_id (cl ! j)"
    by (rule sys_ok_live [OF ok j])
  ultimately show False using sys_okD(3) [OF ok i(1) j(1) i(2) j(2)] eq ne by simp
qed

text \<open>The tasks after a turn: those before, and one more after a push.\<close>

definition pushed :: "client \<Rightarrow> client \<Rightarrow> Task multiset" where
  "pushed ct ct' = (case ct_phase ct of Ct_push t \<Rightarrow> if ct_phase ct' = Ct_wait then {#t#} else {#} | _ \<Rightarrow> {#})"

lemma pushed_iff: "t \<in># pushed ct ct' \<longleftrightarrow> ct_phase ct = Ct_push t \<and> ct_phase ct' = Ct_wait"
  by (auto simp: pushed_def split: ct_phase.splits)

lemma client_effectD:
  assumes "client_effect w ct sh ct' sh'"
  shows "sm_good w (sv_sm (sh_server sh'))" "sv_lm (sh_server sh') = sv_lm (sh_server sh)"
    "sm_heap (sv_sm (sh_server sh)) a \<noteq> None \<Longrightarrow> \<not> (in_session ct \<and> a = ct_session ct) \<Longrightarrow>
      sm_heap (sv_sm (sh_server sh')) a = sm_heap (sv_sm (sh_server sh)) a"
    "sm_heap (sv_sm (sh_server sh')) a \<noteq> None \<Longrightarrow>
      sm_heap (sv_sm (sh_server sh)) a \<noteq> None \<or> (in_session ct' \<and> a = ct_session ct')"
    "w \<Longrightarrow> in_session ct \<Longrightarrow> \<not> in_session ct' \<Longrightarrow> sm_heap (sv_sm (sh_server sh')) (ct_session ct) = None"
    "in_session ct' \<Longrightarrow> session_ok (sv_sm (sh_server sh')) ct'"
    "in_session ct' \<Longrightarrow> in_session ct \<Longrightarrow> ct_session_id ct' = ct_session_id ct \<and> ct_session ct' = ct_session ct"
    "in_session ct' \<Longrightarrow> \<not> in_session ct \<Longrightarrow> ct_session_id ct' = sm_next (sv_sm (sh_server sh)) \<and>
      sm_heap (sv_sm (sh_server sh)) (ct_session ct') = None"
    "ct_phase ct = Ct_wait \<Longrightarrow> answer_ready (sv_sm (sh_server sh)) ct"
    "ct_phase ct' = Ct_wait \<Longrightarrow> \<exists>t. ct_phase ct = Ct_push t \<and> sv_sm (sh_server sh') = sv_sm (sh_server sh)"
  using assms unfolding client_effect_def by (auto split: if_splits)

text \<open>A turn of a client leaves the sessions of the others, its identifier is its own, and a task it pushes is the only one with
  it.\<close>

lemma client_other_heap:
  assumes ok: "sys_ok w (sv_sm (sh_server sh)) cl ts" and i: "i < length cl"
    and e: "client_effect w (cl ! i) sh ct' sh'"
    and j: "j < length cl" "in_session (cl ! j)" "j \<noteq> i"
  shows "sm_heap (sv_sm (sh_server sh')) (ct_session (cl ! j)) = sm_heap (sv_sm (sh_server sh)) (ct_session (cl ! j))"
proof (rule client_effectD(3) [OF e])
  show "sm_heap (sv_sm (sh_server sh)) (ct_session (cl ! j)) \<noteq> None" by (rule sys_ok_live [OF ok j(1,2)]) simp
  show "\<not> (in_session (cl ! i) \<and> ct_session (cl ! j) = ct_session (cl ! i))"
    using sys_ok_sessions_differ [OF ok i _ j(1,2)] j(3) by auto
qed

lemma client_own_id:
  assumes ok: "sys_ok w (sv_sm (sh_server sh)) cl ts" and i: "i < length cl"
    and e: "client_effect w (cl ! i) sh ct' sh'"
    and j: "j < length cl" "in_session (cl ! j)" "j \<noteq> i" "in_session ct'"
  shows "ct_session_id (cl ! j) \<noteq> ct_session_id ct'"
proof (cases "in_session (cl ! i)")
  case True
  with client_effectD(7) [OF e j(4)] sys_okD(3) [OF ok j(1) i j(2)] j(3) show ?thesis by auto
next
  case False
  obtain s where s: "sm_heap (sv_sm (sh_server sh)) (ct_session (cl ! j)) = Some s" "se_id s = ct_session_id (cl ! j)"
    by (rule sys_ok_live [OF ok j(1,2)])
  have "unat (se_id s) < unat (sm_next (sv_sm (sh_server sh)))"
    by (rule live_slot [OF sm_good_wf [OF sys_okD(1) [OF ok]] s(1)])
  with client_effectD(8) [OF e j(4) False] s(2) show ?thesis by auto
qed

lemma client_sessions_held:
  assumes ok: "sys_ok w (sv_sm (sh_server sh)) cl ts" and i: "i < length cl"
    and e: "client_effect w (cl ! i) sh ct' sh'"
    and W: w and a: "sm_heap (sv_sm (sh_server sh')) a \<noteq> None"
  shows "\<exists>j < length (cl[i := ct']). in_session (cl[i := ct'] ! j) \<and> ct_session (cl[i := ct'] ! j) = a"
proof -
  consider "in_session ct' \<and> a = ct_session ct'" | j where "j < length cl" "in_session (cl ! j)" "ct_session (cl ! j) = a"
    using client_effectD(4) [OF e a] sys_okD(4) [OF ok W] by blast
  then show ?thesis
  proof cases
    case 1
    with i show ?thesis by (intro exI [of _ i]) simp
  next
    case 2
    then have "j = i \<Longrightarrow> in_session ct'" using client_effectD(5) [OF e W] a by auto
    with 2 client_effectD(7) [OF e] i show ?thesis by (intro exI [of _ j]) (auto simp: nth_list_update)
  qed
qed

lemma client_push_waits:
  assumes ok: "sys_ok w (sv_sm (sh_server sh)) cl ts" and i: "i < length cl"
    and e: "client_effect w (cl ! i) sh ct' sh'"
    and t: "t \<in># pushed (cl ! i) ct'"
  shows "waiting (sv_sm (sh_server sh')) (t_session_id t) ct'" "sent_by (sv_sm (sh_server sh')) ct' t"
    "ct_session_id (cl ! i) = t_session_id t"
proof -
  from t have p: "ct_phase (cl ! i) = Ct_push t" "ct_phase ct' = Ct_wait" by (simp_all add: pushed_iff)
  then have s: "in_session (cl ! i)" "in_session ct'" by (simp_all add: in_session_def)
  have sm: "sv_sm (sh_server sh') = sv_sm (sh_server sh)" using client_effectD(10) [OF e p(2)] by blast
  obtain x where "sm_heap (sv_sm (sh_server sh)) (ct_session (cl ! i)) = Some x" "task_of (cl ! i) x t"
    "\<not> r_ready (se_response x)" "se_auth x"
    by (rule session_okD [OF sys_okD(2) [OF ok i s(1)]]) (use p(1) in simp)
  with client_effectD(7) [OF e s(2,1)] p(2) show "waiting (sv_sm (sh_server sh')) (t_session_id t) ct'"
    "sent_by (sv_sm (sh_server sh')) ct' t" "ct_session_id (cl ! i) = t_session_id t"
    by (auto simp: sm waiting_def answer_ready_def sent_by_def task_of_def)
qed

lemma client_push_alone:
  assumes ok: "sys_ok w (sv_sm (sh_server sh)) cl ts" and i: "i < length cl"
    and e: "client_effect w (cl ! i) sh ct' sh'"
  shows "size {#t \<in># ts + pushed (cl ! i) ct'. t_session_id t = k#} \<le> 1"
proof (cases "\<exists>t. t \<in># pushed (cl ! i) ct' \<and> t_session_id t = k")
  case True
  then obtain t where t: "ct_phase (cl ! i) = Ct_push t" "pushed (cl ! i) ct' = {#t#}" "ct_session_id (cl ! i) = k"
    "t_session_id t = k" using client_push_waits(3) [OF ok i e] by (auto simp: pushed_def split: ct_phase.splits if_splits)
  have "t_session_id u \<noteq> k" if "u \<in># ts" for u
  proof
    assume k: "t_session_id u = k"
    from sys_okD(5) [OF ok that] obtain j where j: "j < length cl" "waiting (sv_sm (sh_server sh)) k (cl ! j)" by (auto simp: k)
    then have "ct_session_id (cl ! j) = k" "ct_phase (cl ! j) = Ct_wait" by (simp_all add: waiting_def)
    with sys_okD(3) [OF ok j(1) i waiting_in_session [OF j(2)]] t(1,3) show False by (auto simp: in_session_def)
  qed
  then have "{#t \<in># ts. t_session_id t = k#} = {#}" by (auto simp: filter_mset_eq_mempty_iff)
  with t(2,4) show ?thesis by simp
next
  case False
  then have "{#t \<in># pushed (cl ! i) ct'. t_session_id t = k#} = {#}" by (auto simp: filter_mset_eq_mempty_iff)
  with sys_okD(6) [OF ok, of k] show ?thesis by (simp del: filter_mset_eq_mempty_iff)
qed

lemma client_waits_served:
  assumes ok: "sys_ok w (sv_sm (sh_server sh)) cl ts" and i: "i < length cl"
    and e: "client_effect w (cl ! i) sh ct' sh'"
    and W: w and j: "j < length (cl[i := ct'])" "waiting (sv_sm (sh_server sh')) (ct_session_id (cl[i := ct'] ! j)) (cl[i := ct'] ! j)"
  shows "\<exists>t \<in># ts + pushed (cl ! i) ct'. t_session_id t = ct_session_id (cl[i := ct'] ! j)"
proof (cases "j = i")
  case True
  with j i have "ct_phase ct' = Ct_wait" by (simp add: waiting_def)
  with client_effectD(10) [OF e] obtain t where "ct_phase (cl ! i) = Ct_push t" by blast
  with \<open>ct_phase ct' = Ct_wait\<close> have "t \<in># pushed (cl ! i) ct'" by (simp add: pushed_iff)
  with client_push_waits(1) [OF ok i e this] True i show ?thesis by (auto simp: waiting_def)
next
  case False
  with j have j': "j < length cl" "waiting (sv_sm (sh_server sh')) (ct_session_id (cl ! j)) (cl ! j)" by simp_all
  with heap_cong(2) [OF client_other_heap [OF ok i e j'(1) waiting_in_session [OF j'(2)] False]]
  have "waiting (sv_sm (sh_server sh)) (ct_session_id (cl ! j)) (cl ! j)" by simp
  from sys_okD(7) [OF ok W j'(1) this] False show ?thesis by auto
qed

lemma sys_ok_client:
  assumes ok: "sys_ok w (sv_sm (sh_server sh)) cl ts" and i: "i < length cl"
    and e: "client_effect w (cl ! i) sh ct' sh'"
  shows "sys_ok w (sv_sm (sh_server sh')) (cl[i := ct']) (ts + pushed (cl ! i) ct')"
proof -
  let ?sm = "sv_sm (sh_server sh)" and ?sm' = "sv_sm (sh_server sh')" and ?cl = "cl[i := ct']"
  note other = client_other_heap [OF ok i e] and own = client_own_id [OF ok i e]
  have sess: "\<forall>j < length ?cl. in_session (?cl ! j) \<longrightarrow> session_ok ?sm' (?cl ! j)"
    using client_effectD(6) [OF e] sys_okD(2) [OF ok] heap_cong(1) [OF other] i by (auto simp: nth_list_update)
  have ids: "\<forall>j < length ?cl. \<forall>l < length ?cl. in_session (?cl ! j) \<longrightarrow> in_session (?cl ! l) \<longrightarrow>
      ct_session_id (?cl ! j) = ct_session_id (?cl ! l) \<longrightarrow> j = l"
    using own sys_okD(3) [OF ok] i by (auto simp: nth_list_update) (metis own)+
  have wait: "waiting ?sm' k (?cl ! j) \<and> sent_by ?sm' (?cl ! j) t"
    if "j < length cl" "waiting ?sm k (cl ! j)" "sent_by ?sm (cl ! j) t" for j k t
  proof -
    have "j \<noteq> i" using that(2) client_effectD(9) [OF e] by (auto simp: waiting_def)
    with that heap_cong(2,3) [OF other [OF that(1) waiting_in_session [OF that(2)]]] show ?thesis by simp
  qed
  have tasks: "\<exists>j < length ?cl. waiting ?sm' (t_session_id t) (?cl ! j) \<and> sent_by ?sm' (?cl ! j) t"
    if "t \<in># ts + pushed (cl ! i) ct'" for t
  proof (cases "t \<in># ts")
    case True
    from sys_okD(5) [OF ok this] wait show ?thesis by (metis length_list_update)
  next
    case False
    with that client_push_waits(1,2) [OF ok i e, of t] i show ?thesis by (intro exI [of _ i]) simp
  qed
  show ?thesis unfolding sys_ok_def
    using client_effectD(1) [OF e] sess ids tasks client_sessions_held [OF ok i e] client_push_alone [OF ok i e]
      client_waits_served [OF ok i e] by blast
qed

lemma sys_ok_owner:
  assumes ok: "sys_ok w sm cl ts" and t: "t \<in># ts"
  shows "size {#u \<in># ts. t_session_id u = t_session_id t#} = 1 \<and>
    (\<exists>i < length cl. waiting sm (t_session_id t) (cl ! i) \<and> sent_by sm (cl ! i) t \<and>
       (\<forall>j < length cl. in_session (cl ! j) \<longrightarrow> ct_session_id (cl ! j) = t_session_id t \<longrightarrow> j = i))"
proof -
  note K = sys_okD [OF ok]
  from K(5) [OF t] obtain i where i: "i < length cl" "waiting sm (t_session_id t) (cl ! i)" "sent_by sm (cl ! i) t" by blast
  have "t \<in># {#u \<in># ts. t_session_id u = t_session_id t#}" using t by simp
  then have "{#u \<in># ts. t_session_id u = t_session_id t#} \<noteq> {#}" by force
  then have "0 < size {#u \<in># ts. t_session_id u = t_session_id t#}" by (simp only: nonempty_has_size)
  with K(6) [of "t_session_id t"] have "size {#u \<in># ts. t_session_id u = t_session_id t#} = 1"
    by linarith
  moreover have "j = i" if "j < length cl" "in_session (cl ! j)" "ct_session_id (cl ! j) = t_session_id t" for j
    using K(3) [OF that(1) i(1) that(2) waiting_in_session [OF i(2)]] i(2) that(3) by (simp add: waiting_def)
  ultimately show ?thesis using i by blast
qed

text \<open>The session of a client is found as long as lookups find sessions at all.\<close>

lemma sys_ok_found:
  assumes "sys_ok True sm cl ts" "i < length cl" "in_session (cl ! i)"
  shows "session_get sm (ct_session_id (cl ! i)) = Some (ct_session (cl ! i))"
proof -
  obtain s where s: "sm_heap sm (ct_session (cl ! i)) = Some s" "se_id s = ct_session_id (cl ! i)" "se_active s"
    by (rule sys_ok_live [OF assms])
  note g = sys_okD(1) [OF assms(1)]
  obtain k where k: "find_slot sm (se_id s) = Some k" by (rule find_homed [OF g s(1)])
  have "se_id s \<noteq> 0" by (rule live_slot [OF sm_good_wf [OF g] s(1)])
  with session_get_found [OF k _ _ s(1)] find_live [OF sm_good_wf [OF g] s(1) k] s show ?thesis by simp
qed

text \<open>A write of a response, and a write of anything else a client does not depend on.\<close>

definition fills :: "(Session \<Rightarrow> Session) \<Rightarrow> bool" where
  "fills f \<longleftrightarrow> (\<forall>s. se_id (f s) = se_id s \<and> se_active (f s) = se_active s \<and> se_auth (f s) = se_auth s \<and>
     se_username (f s) = se_username s \<and> r_ready (se_response (f s)))"

definition harmless :: "(Session \<Rightarrow> Session) \<Rightarrow> bool" where
  "harmless f \<longleftrightarrow> (\<forall>s. se_id (f s) = se_id s \<and> se_active (f s) = se_active s \<and> se_auth (f s) = se_auth s \<and>
     se_username (f s) = se_username s \<and> se_response (f s) = se_response s)"

lemma sys_ok_harmless:
  assumes "sys_ok w sm cl ts" "harmless f"
  shows "sys_ok w (touched sm a f) cl ts"
proof -
  have "keeps_id f" using assms(2) by (simp add: harmless_def keeps_id_def)
  moreover have "session_ok (touched sm a f) ct = session_ok sm ct" "waiting (touched sm a f) k ct = waiting sm k ct"
    "sent_by (touched sm a f) ct t = sent_by sm ct t" for ct k t
    using assms(2) by (auto simp: session_ok_def waiting_def answer_ready_def sent_by_def touched_heap harmless_def task_of_def)
  moreover have "sm_heap (touched sm a f) b \<noteq> None \<longleftrightarrow> sm_heap sm b \<noteq> None" for b by (simp add: touched_heap)
  ultimately show ?thesis using assms(1) by (simp add: sys_ok_def touched_good)
qed

text \<open>A task whose session is gone.\<close>

lemma sys_ok_drop:
  assumes ok: "sys_ok w sm cl (add_mset t ts)" and gone: "session_get sm (t_session_id t) = None"
  shows "sys_ok w sm cl ts"
proof -
  note K = sys_okD [OF ok]
  from K(5) [of t] obtain j where "j < length cl" "waiting sm (t_session_id t) (cl ! j)" by auto
  then have "\<not> w" using sys_ok_found [of sm cl "add_mset t ts" j] ok gone by (auto simp: in_session_def waiting_def)
  moreover have "size {#u \<in># ts. t_session_id u = k#} \<le> 1" for k
    using K(6) [of k] by (simp del: filter_mset_eq_mempty_iff split: if_splits)
  ultimately show ?thesis using K unfolding sys_ok_def by simp
qed

text \<open>The answer to a task reaches the client that waits for it, and it alone.\<close>

lemma sys_ok_fill:
  assumes ok: "sys_ok w sm cl (add_mset t ts)" and s: "sm_heap sm a = Some s" "se_id s = t_session_id t" and f: "fills f"
  shows "sys_ok w (touched sm a f) cl ts"
proof -
  let ?k = "t_session_id t"
  note K = sys_okD [OF ok]
  have one: "size {#u \<in># ts. t_session_id u = k#} \<le> 1" for k
    using K(6) [of k] by (simp del: filter_mset_eq_mempty_iff split: if_splits)
  have none: "t_session_id u \<noteq> ?k" if "u \<in># ts" for u
  proof
    assume "t_session_id u = ?k"
    with that have "{#u \<in># ts. t_session_id u = ?k#} \<noteq> {#}" by auto
    then have "0 < size {#u \<in># ts. t_session_id u = ?k#}" by (simp only: size_eq_0_iff_empty [symmetric] neq0_conv)
    with K(6) [of ?k] show False by (simp del: filter_mset_eq_mempty_iff)
  qed
  from K(5) [of t] obtain j where j: "j < length cl" "waiting sm ?k (cl ! j)" by auto
  then have js: "in_session (cl ! j)" "ct_session_id (cl ! j) = ?k" "ct_phase (cl ! j) = Ct_wait"
    by (simp_all add: in_session_def waiting_def)
  obtain x where x: "sm_heap sm (ct_session (cl ! j)) = Some x" "se_id x = ?k" by (rule sys_ok_live [OF ok j(1) js(1)]) (simp add: js)
  from live_inj [OF sm_good_wf [OF K(1)] s(1) x(1)] x(2) s(2) have a: "a = ct_session (cl ! j)" by simp
  let ?sm = "touched sm a f"
  have other: "sm_heap ?sm (ct_session (cl ! i)) = sm_heap sm (ct_session (cl ! i))"
    if "i < length cl" "in_session (cl ! i)" "i \<noteq> j" for i
    using sys_ok_sessions_differ [OF ok that(1,2) j(1) js(1) that(3)] by (simp add: touched_heap a)
  have ready: "answer_ready ?sm (cl ! j)" using x(1) f by (simp add: answer_ready_def touched_heap a fills_def)
  have "session_ok sm (cl ! j)" using K(2) j(1) js(1) by blast
  then have own: "session_ok ?sm (cl ! j)" using f by (auto simp: session_ok_def touched_heap a fills_def js(3))
  have "keeps_id f" using f by (simp add: fills_def keeps_id_def)
  then have "sm_good w ?sm" using K(1) by (simp add: touched_good)
  moreover have "session_ok ?sm (cl ! i)" if "i < length cl" "in_session (cl ! i)" for i
    using own K(2) [OF that] heap_cong(1) [OF other [OF that]] by (cases "i = j") auto
  moreover have "\<exists>i < length cl. in_session (cl ! i) \<and> ct_session (cl ! i) = b" if w "sm_heap ?sm b \<noteq> None" for b
    using K(4) [OF that(1), of b] that(2) by (auto simp: touched_heap split: if_splits)
  moreover have "\<exists>i < length cl. waiting ?sm (t_session_id u) (cl ! i) \<and> sent_by ?sm (cl ! i) u" if u: "u \<in># ts" for u
  proof -
    from K(5) [of u] u obtain i where i: "i < length cl" "waiting sm (t_session_id u) (cl ! i)" "sent_by sm (cl ! i) u"
      by auto
    have "i \<noteq> j" using i(2) none [OF u] js(2) by (auto simp: waiting_def)
    with heap_cong(2,3) [OF other [OF i(1) waiting_in_session [OF i(2)]]] i show ?thesis by blast
  qed
  moreover have "\<exists>u \<in># ts. t_session_id u = ct_session_id (cl ! i)"
    if W: w and i: "i < length cl" "waiting ?sm (ct_session_id (cl ! i)) (cl ! i)" for i
  proof -
    have ne: "i \<noteq> j" using i(2) ready by (auto simp: waiting_def)
    have ins: "in_session (cl ! i)" by (rule waiting_in_session [OF i(2)])
    with K(7) [OF W i(1)] i(2) heap_cong(2) [OF other [OF i(1) ins ne]] obtain u where
      u: "u \<in># add_mset t ts" "t_session_id u = ct_session_id (cl ! i)" by blast
    have "ct_session_id (cl ! i) \<noteq> ?k" using K(3) [OF i(1) j(1) ins js(1)] ne js(2) by auto
    with u show ?thesis by auto
  qed
  ultimately show ?thesis unfolding sys_ok_def using one K(3) by blast
qed

lemma fills_answer: "fills (answer now st m d n)"
  by (simp add: fills_def answer_def)

lemma sys_ok_answer:
  assumes ok: "sys_ok w sm cl (add_mset t ts)"
  shows "sys_ok w (answered now (t_session_id t) st m d n sm) cl ts"
proof (cases "session_get sm (t_session_id t)")
  case None
  with sys_ok_drop [OF ok] show ?thesis by (simp add: answered_def)
next
  case (Some a)
  then obtain s where s: "sm_heap sm a = Some s" "se_id s = t_session_id t"
    by (rule session_get_SomeE [OF sm_good_wf [OF sys_okD(1) [OF ok]]])
  with Some sys_ok_fill [OF ok s fills_answer] show ?thesis by (simp add: answered_def)
qed

section \<open>The invariant\<close>

fun busy :: "wk_phase \<Rightarrow> Task list" where
  "busy (Wk_busy t) = [t]"
| "busy _ = []"

text \<open>The tasks that are queued or being handled.\<close>

definition outstanding :: "'d system \<Rightarrow> Task multiset" where
  "outstanding sy = mset (tq_items (sh_tasks (sy_shared sy))) + mset (concat (map busy (sy_workers sy)))"

definition main_ok :: "'d system \<Rightarrow> bool" where
  "main_ok sy \<longleftrightarrow>
     (mn_phase (sy_main sy) \<in> {Mn_join_workers, Mn_done} \<longrightarrow> (\<forall>ct \<in> set (sy_clients sy). ct_phase ct = Ct_exit)) \<and>
     (mn_phase (sy_main sy) = Mn_done \<longrightarrow> (\<forall>wk \<in> set (sy_workers sy). wk = Wk_exit))"

definition sys_inv :: "bool \<Rightarrow> 'd system \<Rightarrow> bool" where
  "sys_inv w sy \<longleftrightarrow> sys_ok w (sy_sm sy) (sy_clients sy) (outstanding sy) \<and>
     lm_idle (sv_lm (sh_server (sy_shared sy))) \<and> tq_wf (sh_tasks (sy_shared sy)) \<and>
     sh_allocs (sy_shared sy) = sv_freed (sh_server (sy_shared sy)) + sum_list (map held (sy_clients sy)) +
       (\<Sum>t \<in># outstanding sy. frees t) \<and>
     (Wk_exit \<in> set (sy_workers sy) \<longrightarrow>
        tq_shutdown (sh_tasks (sy_shared sy)) \<and> tq_items (sh_tasks (sy_shared sy)) = []) \<and> main_ok sy"

lemma mset_busy_update:
  assumes "i < length ws"
  shows "mset (concat (map busy (ws[i := wk]))) + mset (busy (ws ! i)) = mset (concat (map busy ws)) + mset (busy wk)"
  using assms by (induction ws arbitrary: i) (auto split: nat.split)

lemma sum_held_update:
  assumes "i < length cl"
  shows "sum_list (map held (cl[i := ct])) + held (cl ! i) = sum_list (map held cl) + held ct"
  using assms by (induction cl arbitrary: i) (auto split: nat.split)

section \<open>Preservation\<close>

lemma tq_pushE:
  assumes "tq_wf q" "task_queue_push q t = Leave 0 q' ns"
  shows "tq_wf q' \<and> tq_items q' = tq_items q @ [t] \<and> \<not> tq_shutdown q \<and> \<not> tq_shutdown q'"
  by (rule tq.push_cases [OF assms(1), of t]) (use assms(2) in auto)

lemma client_effect_tasks:
  assumes e: "client_effect w ct sh ct' sh'" and wf: "tq_wf (sh_tasks sh)"
  shows "tq_wf (sh_tasks sh') \<and> mset (tq_items (sh_tasks sh')) = mset (tq_items (sh_tasks sh)) + pushed ct ct' \<and>
    (sh_tasks sh' = sh_tasks sh \<or> \<not> tq_shutdown (sh_tasks sh)) \<and>
    sh_allocs sh' + sv_freed (sh_server sh) + held ct =
      sh_allocs sh + sv_freed (sh_server sh') + held ct' + (\<Sum>t \<in># pushed ct ct'. frees t)"
proof -
  from e consider "sh_tasks sh' = sh_tasks sh" "ct_phase ct' \<noteq> Ct_wait"
      "sh_allocs sh' + sv_freed (sh_server sh) + held ct = sh_allocs sh + sv_freed (sh_server sh') + held ct'"
    | t ns where "ct_phase ct = Ct_push t" "ct_phase ct' = Ct_wait" "sv_freed (sh_server sh') = sv_freed (sh_server sh)"
      "sh_allocs sh' = sh_allocs sh" "task_queue_push (sh_tasks sh) t = Leave 0 (sh_tasks sh') ns"
    unfolding client_effect_def by blast
  then show ?thesis
  proof cases
    case 1
    then have "pushed ct ct' = {#}" by (auto simp: pushed_def split: ct_phase.split)
    with 1 wf show ?thesis by simp
  next
    case 2
    then have "pushed ct ct' = {#t#}" by (simp add: pushed_def)
    with 2 tq_pushE [OF wf 2(5)] show ?thesis by (simp add: held_def)
  qed
qed

text \<open>What a turn of a client in the system does.\<close>

lemma client_step_effect:
  assumes inv: "sys_inv w sy" and i: "i < length (sy_clients sy)" and c: "chance_ok w c (sy_sm sy)"
    and g: "client_worker sha E c (sy_clients sy ! i) (sy_shared sy) = Goes (ct, sh)"
  shows "client_effect w (sy_clients sy ! i) (sy_shared sy) ct sh"
    "outstanding (sy\<lparr>sy_clients := cl, sy_shared := sh\<rparr>) = outstanding sy + pushed (sy_clients sy ! i) ct"
proof -
  have ok: "sys_ok w (sy_sm sy) (sy_clients sy) (outstanding sy)" and wf: "tq_wf (sh_tasks (sy_shared sy))"
    using inv by (simp_all add: sys_inv_def)
  have "turn_ok (client_effect w (sy_clients sy ! i) (sy_shared sy)) (client_worker sha E c (sy_clients sy ! i) (sy_shared sy))"
    by (rule client_turn_ok [OF sys_okD(1) [OF ok] c]) (rule sys_okD(2) [OF ok i])
  with g show e: "client_effect w (sy_clients sy ! i) (sy_shared sy) ct sh" by simp
  from client_effect_tasks [OF e wf] show
    "outstanding (sy\<lparr>sy_clients := cl, sy_shared := sh\<rparr>) = outstanding sy + pushed (sy_clients sy ! i) ct"
    by (simp add: outstanding_def)
qed

lemma sys_inv_client:
  assumes inv: "sys_inv w sy" and i: "i < length (sy_clients sy)" and c: "chance_ok w c (sy_sm sy)"
    and g: "client_worker sha E c (sy_clients sy ! i) (sy_shared sy) = Goes (ct, sh)"
  shows "sys_inv w (sy\<lparr>sy_clients := (sy_clients sy)[i := ct], sy_shared := sh\<rparr>)"
proof -
  let ?sy = "sy\<lparr>sy_clients := (sy_clients sy)[i := ct], sy_shared := sh\<rparr>" and ?ct = "sy_clients sy ! i"
  have ok: "sys_ok w (sy_sm sy) (sy_clients sy) (outstanding sy)" and wf: "tq_wf (sh_tasks (sy_shared sy))"
    using inv by (simp_all add: sys_inv_def)
  have e: "client_effect w ?ct (sy_shared sy) ct sh" by (rule client_step_effect(1) [OF inv i c g])
  note t = client_effect_tasks [OF e wf]
  have out: "outstanding ?sy = outstanding sy + pushed ?ct ct" by (rule client_step_effect(2) [OF inv i c g])
  have "?ct \<in> set (sy_clients sy)" using i by simp
  moreover have "ct_phase ?ct \<noteq> Ct_exit" using g by (auto simp: client_worker_def)
  ultimately have main: "main_ok ?sy" using inv by (auto simp: sys_inv_def main_ok_def)
  have "sh_allocs sh = sv_freed (sh_server sh) + sum_list (map held ((sy_clients sy)[i := ct])) +
      (\<Sum>t \<in># outstanding ?sy. frees t)"
    using t sum_held_update [OF i, of ct] inv by (simp add: out sys_inv_def)
  with sys_ok_client [OF ok i e] t main client_effectD(2) [OF e] inv show ?thesis
    by (auto simp: sys_inv_def out)
qed

lemma sys_inv_worker:
  assumes inv: "sys_inv w sy" and i: "i < length (sy_workers sy)"
    and g: "worker_turn E i now (sy_workers sy ! i) (sy_shared sy) = Goes (wk, sh)"
  shows "sys_inv w (sy\<lparr>sy_workers := (sy_workers sy)[i := wk], sy_shared := sh\<rparr>)"
proof -
  let ?sy = "sy\<lparr>sy_workers := (sy_workers sy)[i := wk], sy_shared := sh\<rparr>" and ?wk = "sy_workers sy ! i"
  have ok: "sys_ok w (sy_sm sy) (sy_clients sy) (outstanding sy)" and wf: "tq_wf (sh_tasks (sy_shared sy))"
    and lm: "lm_idle (sv_lm (sh_server (sy_shared sy)))" using inv by (simp_all add: sys_inv_def)
  note b = mset_busy_update [OF i, of wk]
  have "?wk \<in> set (sy_workers sy)" using i by simp
  moreover have "?wk \<noteq> Wk_exit" using g by (auto simp: worker_turn_def)
  ultimately have main: "main_ok ?sy" using inv by (auto simp: sys_inv_def main_ok_def)
  have ex: "Wk_exit \<in> set ((sy_workers sy)[i := wk]) \<Longrightarrow> wk = Wk_exit \<or> Wk_exit \<in> set (sy_workers sy)"
    using set_update_subset_insert [of "sy_workers sy" i wk] by blast
  show ?thesis
  proof (cases ?wk)
    case Wk_idle
    show ?thesis
    proof (rule tq.pop_cases [OF wf])
      assume "task_queue_pop (sh_tasks (sy_shared sy)) = Wait Not_empty"
      with g Wk_idle show ?thesis by (simp add: worker_turn_def)
    next
      assume p: "tq_shutdown (sh_tasks (sy_shared sy))" "tq_items (sh_tasks (sy_shared sy)) = []"
        "task_queue_pop (sh_tasks (sy_shared sy)) = Leave (- 1, None) (sh_tasks (sy_shared sy)) []"
      with g Wk_idle have n: "wk = Wk_exit" "sh = sy_shared sy" by (simp_all add: worker_turn_def)
      with Wk_idle b have "outstanding ?sy = outstanding sy" by (simp add: outstanding_def)
      with inv n p main show ?thesis by (simp add: sys_inv_def)
    next
      fix t q assume p: "task_queue_pop (sh_tasks (sy_shared sy)) = Leave (0, Some t) q [Signal Not_full]" "tq_wf q"
        "tq_shutdown q = tq_shutdown (sh_tasks (sy_shared sy))" "tq_items (sh_tasks (sy_shared sy)) = t # tq_items q"
      with g Wk_idle have n: "wk = Wk_busy t" "sh = (sy_shared sy)\<lparr>sh_tasks := q\<rparr>" by (simp_all add: worker_turn_def)
      with Wk_idle b p(4) have "outstanding ?sy = outstanding sy" by (simp add: outstanding_def)
      with inv n p main ex show ?thesis by (auto simp: sys_inv_def)
    qed
  next
    case (Wk_busy t)
    have "task_done now t (frees t) (sh_server (sy_shared sy)) (worker_task E i now t (sh_server (sy_shared sy)))"
    proof -
      have "Wk_busy t \<in> set (sy_workers sy)" using nth_mem [OF i] Wk_busy by simp
      then have "t \<in># outstanding sy" by (auto simp: outstanding_def intro!: bexI [of _ "Wk_busy t"])
      then obtain j where "sent_by (sy_sm sy) (sy_clients sy ! j) t" using sys_okD(5) [OF ok] by blast
      then have "frees t = (if t_type t = TASK_UPLOAD then frees t else 0)"
        by (auto simp: sent_by_def task_of_def frees_def)
      with worker_task_done [OF sm_good_wf [OF sys_okD(1) [OF ok]] lm, of now t E i] show ?thesis by simp
    qed
    then obtain sv st m d n where r: "worker_task E i now t (sh_server (sy_shared sy)) = Some sv"
      "sv_sm sv = answered now (t_session_id t) st m d n (sy_sm sy)" "sv_lm sv = sv_lm (sh_server (sy_shared sy))"
      "sv_freed sv = sv_freed (sh_server (sy_shared sy)) + frees t"
      unfolding task_done_def by blast
    with g Wk_busy have n: "wk = Wk_idle" "sh = (sy_shared sy)\<lparr>sh_server := sv\<rparr>" by (simp_all add: worker_turn_def)
    with Wk_busy b have out: "outstanding sy = add_mset t (outstanding ?sy)" by (simp add: outstanding_def)
    from sys_ok_answer [OF ok [unfolded out], of now st m d n] have
      "sys_ok w (sv_sm sv) (sy_clients sy) (outstanding ?sy)" by (simp add: r(2))
    moreover have "sh_allocs (sy_shared sy) = sv_freed sv + sum_list (map held (sy_clients sy)) + (\<Sum>t \<in># outstanding ?sy. frees t)"
      using inv r(4) by (simp add: sys_inv_def out)
    ultimately show ?thesis using inv n r main ex by (auto simp: sys_inv_def)
  next
    case Wk_exit
    with g show ?thesis by (simp add: worker_turn_def)
  qed
qed

lemma sys_inv_main:
  assumes inv: "sys_inv w sy"
    and sh: "sv_sm (sh_server sh) = sy_sm sy" "sv_lm (sh_server sh) = sv_lm (sh_server (sy_shared sy))"
      "sv_freed (sh_server sh) = sv_freed (sh_server (sy_shared sy))" "sh_allocs sh = sh_allocs (sy_shared sy)"
      "tq_wf (sh_tasks sh)" "tq_items (sh_tasks sh) = tq_items (sh_tasks (sy_shared sy))"
      "tq_shutdown (sh_tasks (sy_shared sy)) \<Longrightarrow> tq_shutdown (sh_tasks sh)"
    and mn: "mn_phase mn = mn_phase (sy_main sy) \<or> mn_phase mn \<notin> {Mn_join_workers, Mn_done}"
  shows "sys_inv w (sy\<lparr>sy_main := mn, sy_shared := sh\<rparr>)"
proof -
  have "outstanding (sy\<lparr>sy_main := mn, sy_shared := sh\<rparr>) = outstanding sy" by (simp add: outstanding_def sh)
  moreover have "main_ok (sy\<lparr>sy_main := mn, sy_shared := sh\<rparr>)"
    using inv mn by (auto simp: sys_inv_def main_ok_def)
  ultimately show ?thesis using inv sh by (simp add: sys_inv_def)
qed

lemma tq_shut:
  assumes "tq_wf q"
  shows "tq_wf (left_state (task_queue_signal_shutdown q))" "tq_shutdown (left_state (task_queue_signal_shutdown q))"
    "tq_items (left_state (task_queue_signal_shutdown q)) = tq_items q"
  using tq.shut_closes [OF assms] by auto

lemma sys_inv_step:
  assumes "sys_step w sha E sy sy'" "sys_inv w sy"
  shows "sys_inv w sy'"
  using assms
proof cases
  case (client i c ct sh)
  with assms(2) sys_inv_client show ?thesis by blast
next
  case (worker i now wk sh)
  with assms(2) sys_inv_worker show ?thesis by blast
next
  have wf: "tq_wf (sh_tasks (sy_shared sy))" using assms(2) by (simp add: sys_inv_def)
  case (main_accept conn mn sh)
  with wf tq_shut [OF wf] show ?thesis unfolding main_accept(1)
    by (intro sys_inv_main [OF assms(2)])
      (auto simp: accept_turn_def begin_shutdown_def split: if_splits sum.splits)
next
  have wf: "tq_wf (sh_tasks (sy_shared sy))" using assms(2) by (simp add: sys_inv_def)
  case (main_push cfd mn sh)
  with wf show ?thesis unfolding main_push(1)
    by (intro sys_inv_main [OF assms(2)])
      (auto simp: accept_push_turn_def on_net_def Let_def split: if_splits monitor.splits option.splits)
next
  case (main_join_clients mn)
  with assms(2) show ?thesis by (auto simp: join_clients_def sys_inv_def main_ok_def outstanding_def split: if_splits)
next
  case (main_join_workers mn)
  with assms(2) show ?thesis by (auto simp: join_workers_def sys_inv_def main_ok_def outstanding_def split: if_splits)
next
  have wf: "tq_wf (sh_tasks (sy_shared sy))" using assms(2) by (simp add: sys_inv_def)
  case (signal mn sh)
  with wf tq_shut [OF wf] show ?thesis unfolding signal(1)
    by (intro sys_inv_main [OF assms(2)]) (auto simp: int_handler_def Let_def split: if_splits)
next
  case (network fd s)
  have "sy' = sy\<lparr>sy_main := sy_main sy, sy_shared := (sy_shared sy)\<lparr>sh_net := (sh_net (sy_shared sy))(fd := s)\<rparr>\<rparr>"
    by (simp add: network)
  moreover have "tq_wf (sh_tasks (sy_shared sy))" using assms(2) by (simp add: sys_inv_def)
  ultimately show ?thesis by (simp only:) (rule sys_inv_main [OF assms(2)], simp_all)
qed

section \<open>The start\<close>

lemma listen_started:
  "server_listen b cq tq sm db lm net fs live = Started sh fd live' \<Longrightarrow>
     sh_tasks sh = tq \<and> sv_sm (sh_server sh) = sm \<and> sv_lm (sh_server sh) = lm \<and> sv_freed (sh_server sh) = 0 \<and>
     sh_allocs sh = 0 \<and> sh_net sh = net \<and> sv_fs (sh_server sh) = fs"
  by (auto simp: server_listen_def Let_def split: if_splits option.splits)

lemma locks_started:
  "file_lock_manager_init r m MAX_FILE_LOCKS = (rc, Some lm, live) \<Longrightarrow> lm_idle lm"
  by (auto simp: file_lock_manager_init_def lm_idle_def lm_wf_def unused_lock_def fl_ok_def MAX_FILE_LOCKS_def
      MAX_FILEPATH_LEN_def Let_def split: if_splits prod.splits)

lemma storage_started:
  assumes "server_storage E b cq tq sm net fs live = Started sh fd live'"
  obtains lm db l rc where "file_lock_manager_init (bt_locks b) (bt_lock_mgr b) MAX_FILE_LOCKS = (rc, Some lm, l)"
    "\<exists>live. server_listen b cq tq sm db lm net fs live = Started sh fd live'"
proof -
  obtain r4 db where 4: "user_metadata_init E (Some ''storage/stash.db'') None = (r4, db)" by fastforce
  obtain r5 lm l5 where 5: "file_lock_manager_init (bt_locks b) (bt_lock_mgr b) MAX_FILE_LOCKS = (r5, lm, l5)"
    by (metis prod_cases3)
  from assms obtain m where m: "lm = Some m"
    by (cases lm) (auto simp: server_storage_def 4 5 Let_def split: if_splits)
  with assms have "server_listen b cq tq sm db m net fs (map Own_locks l5 @ (if db = None then live else Own_metadata # live))
      = Started sh fd live'"
    by (auto simp: server_storage_def 4 5 Let_def split: if_splits)
  with 5 m that show thesis by blast
qed

lemma server_started:
  assumes "server_start E b arg net fs = Started sh fd live"
  shows "session_manager_init 0 = (0, Some (sv_sm (sh_server sh)))" "lm_idle (sv_lm (sh_server sh))"
    "tq_wf (sh_tasks sh)" "tq_items (sh_tasks sh) = []" "sv_freed (sh_server sh) = 0" "sh_allocs sh = 0"
    "\<not> tq_shutdown (sh_tasks sh)" "tq_cap (sh_tasks sh) = 128" "sv_fs (sh_server sh) = fs"
    "sv_lm (sh_server sh) = \<lparr>lm_locks = replicate (nat MAX_FILE_LOCKS) unused_lock, lm_capacity = MAX_FILE_LOCKS\<rparr>"
proof -
  obtain a1 a2 a3 a4 b1 b2 b3 b4 where b: "bt_cq b = (a1, a2, a3, a4)" "bt_tq b = (b1, b2, b3, b4)"
    by (metis prod_cases4)
  obtain r1 q1 l1 where 1: "client_queue_init a1 a2 a3 a4 (queue_capacity arg) = (r1, q1, l1)" by (metis prod_cases3)
  obtain r2 q2 l2 where 2: "task_queue_init b1 b2 b3 b4 TASK_QUEUE_CAPACITY = (r2, q2, l2)" by (metis prod_cases3)
  obtain r3 sm where 3: "session_manager_init (bt_sm b) = (r3, sm)" by fastforce
  have eq: "server_start E b arg net fs = (case q1 of None \<Rightarrow> Failed 1 (map Own_client_queue l1)
    | Some cq \<Rightarrow> (case q2 of None \<Rightarrow> Failed 1 (map Own_task_queue l2 @ map Own_client_queue l1)
    | Some tq \<Rightarrow> (case sm of None \<Rightarrow> Failed 1 (drop_task_queue tq (drop_client_queue cq (map Own_task_queue l2 @ map Own_client_queue l1)))
    | Some s \<Rightarrow> server_storage E b cq tq s net fs (Own_sessions # map Own_task_queue l2 @ map Own_client_queue l1))))"
    by (cases q1; cases q2; cases sm) (simp_all add: server_start_def b 1 2 3)
  with assms obtain cq tq s where some: "q1 = Some cq" "q2 = Some tq" "sm = Some s"
    "server_storage E b cq tq s net fs (Own_sessions # map Own_task_queue l2 @ map Own_client_queue l1) = Started sh fd live"
    by (auto split: option.splits)
  obtain m db l5 r5 lv where 5: "file_lock_manager_init (bt_locks b) (bt_lock_mgr b) MAX_FILE_LOCKS = (r5, Some m, l5)"
    "server_listen b cq tq s db m net fs lv = Started sh fd live"
    by (rule storage_started [OF some(4)]) blast
  note sh = listen_started [OF 5(2)]
  have tq: "tq_wf tq \<and> tq_items tq = [] \<and> \<not> tq_shutdown tq \<and> tq_capacity tq = TASK_QUEUE_CAPACITY"
  proof (rule task_queue_init_wf)
    show "task_queue_init b1 b2 b3 b4 TASK_QUEUE_CAPACITY = (0, Some tq, l2)"
      using 2 some by (auto simp: task_queue_init_def split: if_splits)
  qed (simp add: TASK_QUEUE_CAPACITY_def)
  show "session_manager_init 0 = (0, Some (sv_sm (sh_server sh)))"
    using 3 some sh by (simp add: session_manager_init_def split: if_splits)
  show "lm_idle (sv_lm (sh_server sh))" "sv_fs (sh_server sh) = fs" using locks_started [OF 5(1)] sh by simp_all
  show "sv_lm (sh_server sh) = \<lparr>lm_locks = replicate (nat MAX_FILE_LOCKS) unused_lock, lm_capacity = MAX_FILE_LOCKS\<rparr>"
    using 5(1) sh by (auto simp: file_lock_manager_init_def Let_def split: if_splits prod.splits)
  show "tq_wf (sh_tasks sh)" "tq_items (sh_tasks sh) = []" "sv_freed (sh_server sh) = 0" "sh_allocs sh = 0"
    "\<not> tq_shutdown (sh_tasks sh)" "tq_cap (sh_tasks sh) = 128"
    using tq sh by (simp_all add: TASK_QUEUE_CAPACITY_def)
qed

lemma sys_inv_start:
  assumes "initial (server_start E b arg net fs) n k sy"
  shows "sys_inv w sy"
proof -
  from assms obtain sh fd live where s: "server_start E b arg net fs = Started sh fd live"
    "sy = \<lparr>sy_shared = sh, sy_clients = replicate n idle_client, sy_workers = replicate k Wk_idle,
       sy_main = \<lparr>mn_phase = Mn_accept, mn_keep_running = True, mn_listen_fd = fd, mn_handler_called = False\<rparr>\<rparr>"
    unfolding initial_def by blast
  note S = server_started [OF s(1)]
  let ?sm = "sv_sm (sh_server sh)"
  have "sm_good w ?sm" using init_wf [OF S(1)] init_homed [OF S(1)] by (simp add: sm_good_def)
  moreover have "sm_heap ?sm a = None" for a using init_state [OF S(1)] by simp
  moreover have out: "outstanding sy = {#}" by (simp add: s(2) outstanding_def S(4) map_replicate_const concat_replicate_trivial)
  moreover have "held idle_client = 0" "\<not> in_session idle_client" "ct_phase idle_client = Ct_next"
    by (simp_all add: idle_client_def held_def in_session_def)
  ultimately show ?thesis using S
    by (auto simp: sys_inv_def sys_ok_def s(2) main_ok_def sum_list_replicate waiting_def)
qed

lemma sys_reach_inv:
  assumes "sys_reach w sha E sy0 sy" "initial (server_start E b arg net fs) n k sy0"
  shows "sys_inv w sy"
  using assms(1) by induction (use sys_inv_start [OF assms(2)] sys_inv_step in blast)+

text \<open>Runs in which the workers take only certain tasks.\<close>

inductive tame_reach ::
  "(Task \<Rightarrow> bool) \<Rightarrow> bool \<Rightarrow> (bytes \<Rightarrow> bytes) \<Rightarrow> 'd sqlite \<Rightarrow> 'd system \<Rightarrow> 'd system \<Rightarrow> bool" for OK w sha E sy0 where
  start: "tame_reach OK w sha E sy0 sy0"
| more: "tame_reach OK w sha E sy0 sy \<Longrightarrow> sys_step w sha E sy sy' \<Longrightarrow>
    \<forall>t. Wk_busy t \<in> set (sy_workers sy') \<longrightarrow> OK t \<Longrightarrow> tame_reach OK w sha E sy0 sy'"

lemma tame_reach_reach: "tame_reach OK w sha E sy0 sy \<Longrightarrow> sys_reach w sha E sy0 sy"
  by (induction rule: tame_reach.induct) (auto intro: sys_reach.intros)

lemma reach_tame: "sys_reach w sha E sy0 sy \<Longrightarrow> tame_reach (\<lambda>t. True) w sha E sy0 sy"
  by (induction rule: sys_reach.induct) (auto intro: tame_reach.intros)

section \<open>A concrete start\<close>

definition good_boot :: boot where
  "good_boot = \<lparr>bt_cq = (True, 0, 0, 0), bt_tq = (True, 0, 0, 0), bt_sm = 0, bt_locks = (\<lambda>i. 0), bt_lock_mgr = 0,
     bt_addrinfo = 0, bt_addrs = [(- 1, False), (3, False), (4, True)], bt_listen = 0\<rparr>"

lemma init_slots_good: "fst (init_slots (\<lambda>i. 0) is live) = 0"
  by (induction "is" arbitrary: live) simp_all

definition fresh_db :: ref_db where
  "fresh_db = \<lparr>rd_view = \<lparr>dv_store = empty_store, dv_saved = None\<rparr>, rd_faults = [], rd_drops = False, rd_changes = 0\<rparr>"

lemma good_start:
  obtains sh live where "server_start ref_engine good_boot None net fs = Started sh 4 live"
    "sh_fds sh = \<lparr>cq_fds = replicate 64 0, cq_capacity = 64, cq_head = 0, cq_tail = 0, cq_size = 0, cq_shutdown = False\<rparr>"
    "sv_sm (sh_server sh) = fresh_manager" "sh_net sh = net" "sv_db (sh_server sh) = Some fresh_db"
proof -
  obtain lv where l: "init_slots (\<lambda>i. 0) [0..<nat MAX_FILE_LOCKS] [] = (0, lv)"
    using init_slots_good [of "[0..<nat MAX_FILE_LOCKS]" "[]"] by (metis prod.collapse)
  have db: "user_metadata_init ref_engine (Some ''storage/stash.db'') None = (0, Some fresh_db)"
    by (simp add: user_metadata_init_def db_init_def ref_engine_def ref_run fresh_db_def)
  have lm: "file_lock_manager_init (\<lambda>i. 0) 0 MAX_FILE_LOCKS =
      (0, Some \<lparr>lm_locks = replicate (nat MAX_FILE_LOCKS) unused_lock, lm_capacity = MAX_FILE_LOCKS\<rparr>, Manager_mtx # lv)"
    unfolding file_lock_manager_init_def l by (simp add: MAX_FILE_LOCKS_def)
  show thesis
    by (rule that)
      (simp add: server_start_def good_boot_def client_queue_init_def queue_capacity_def DEFAULT_QUEUE_CAPACITY_def
        task_queue_init_def TASK_QUEUE_CAPACITY_def fresh_manager_init server_storage_def db lm server_listen_def Let_def, simp_all)
qed

text \<open>A run: a client connects, signs up and asks for a listing.\<close>

lemma send_room:
  "tx s = Tx_room k # r \<Longrightarrow> m \<noteq> [] \<Longrightarrow> length m \<le> k \<Longrightarrow>
     send_success m s = Some (0, s\<lparr>tx := r, sent := sent s @ m\<rparr>)"
  by (simp add: send_success_def send_full_def send_loop.simps send_sys_def)

definition example_net :: "int \<Rightarrow> sock" where
  "example_net fd = \<lparr>rx = [Rx_data (''SIGNUP ann pw'' @ [LF]), Rx_data (''LIST'' @ [LF])],
     tx = replicate 5 (Tx_room 1000), sent = ''''\<rparr>"

definition example_chance :: chance where
  "example_chance = \<lparr>ch_now = 100, ch_calloc = Some 4096, ch_resp_mtx = 0, ch_resp_cv = 0, ch_mtx = 0, ch_malloc = True\<rparr>"

lemma one_session: "session_create fresh_manager 7 100 (Some 4096) 0 0 0 = (1, created fresh_manager 1 4096 7 100)"
  by (simp add: session_create_def hash_session_id_def MAX_SESSIONS_def linear_probe.simps response_init_def
      created_def new_session_def fresh_manager_def session_manager_init_def max_def)

lemma one_session_get: "session_get (created fresh_manager 1 4096 7 100) 1 = Some 4096"
proof -
  have "hash_session_id 1 = 1" by (simp add: hash_session_id_def MAX_SESSIONS_def)
  then have c: "st.chained fresh_manager (sm_next fresh_manager) 1" using chained_home [of fresh_manager 1] by simp
  have i: "1 < MAX_SESSIONS" by (simp add: MAX_SESSIONS_def)
  show ?thesis using get_created [OF fresh_manager_wf _ i _ c, of 4096 7 100] i by simp
qed

lemma connected:
  obtains sy0 sy where "initial (server_start ref_engine good_boot None example_net fs) 1 1 sy0"
    "tame_reach OK w sha E sy0 sy" "sy_clients sy = [\<lparr>ct_phase = Ct_auth, ct_fd = 7, ct_session_id = 1, ct_session = 4096\<rparr>]"
    "sy_workers sy = [Wk_idle]" "sy_sm sy = created fresh_manager 1 4096 7 100"
    "sh_net (sy_shared sy) 7 = (example_net 7)\<lparr>tx := replicate 4 (Tx_room 1000), sent := welcome_msg\<rparr>"
    "tq_wf (sh_tasks (sy_shared sy))" "tq_items (sh_tasks (sy_shared sy)) = []" "\<not> tq_shutdown (sh_tasks (sy_shared sy))"
    "tq_cap (sh_tasks (sy_shared sy)) = 128" "sv_db (sh_server (sy_shared sy)) = Some fresh_db"
    "sv_fs (sh_server (sy_shared sy)) = fs"
proof (rule good_start [of example_net fs])
  fix sh :: "ref_db shared" and live
  assume st: "server_start ref_engine good_boot None example_net fs = Started sh 4 live"
    and sh: "sh_fds sh = \<lparr>cq_fds = replicate 64 0, cq_capacity = 64, cq_head = 0, cq_tail = 0, cq_size = 0, cq_shutdown = False\<rparr>"
      "sv_sm (sh_server sh) = fresh_manager" "sh_net sh = example_net" "sv_db (sh_server sh) = Some fresh_db"
  let ?mn = "\<lparr>mn_phase = Mn_accept, mn_keep_running = True, mn_listen_fd = 4, mn_handler_called = False\<rparr>"
  let ?sy0 = "\<lparr>sy_shared = sh, sy_clients = [idle_client], sy_workers = [Wk_idle], sy_main = ?mn\<rparr>"
  let ?q1 = "\<lparr>cq_fds = 7 # replicate 63 0, cq_capacity = 64, cq_head = 0, cq_tail = 1, cq_size = 1, cq_shutdown = False\<rparr>"
  let ?q2 = "?q1\<lparr>cq_head := 1, cq_size := 0\<rparr>"
  let ?sy1 = "?sy0\<lparr>sy_main := ?mn\<lparr>mn_phase := Mn_push 7\<rparr>, sy_shared := sh\<rparr>"
  let ?sy2 = "?sy1\<lparr>sy_main := ?mn, sy_shared := sh\<lparr>sh_fds := ?q1\<rparr>\<rparr>"
  let ?ct = "\<lparr>ct_phase = Ct_auth, ct_fd = 7, ct_session_id = 1, ct_session = 4096\<rparr>"
  let ?sock = "(example_net 7)\<lparr>tx := replicate 4 (Tx_room 1000), sent := welcome_msg\<rparr>"
  let ?sh3 = "(on_sm (\<lambda>_. created fresh_manager 1 4096 7 100) (sh\<lparr>sh_fds := ?q2\<rparr>))\<lparr>sh_net := (sh_net sh)(7 := ?sock)\<rparr>"
  let ?sy3 = "?sy2\<lparr>sy_clients := (sy_clients ?sy2)[0 := ?ct], sy_shared := ?sh3\<rparr>"
  have s1: "sys_step w sha E ?sy0 ?sy1" by (rule sys_step.main_accept [where conn = "Inr 7"]) (simp_all add: accept_turn_def)
  have s2: "sys_step w sha E ?sy1 ?sy2"
    by (rule sys_step.main_push [where cfd = 7]) (simp_all add: accept_push_turn_def sh client_queue_push_def numeral_eq_Suc)
  have s3: "sys_step w sha E ?sy2 ?sy3"
  proof (rule sys_step.client [where c = example_chance])
    show "chance_ok w example_chance (sy_sm ?sy2)"
      by (simp add: chance_ok_def example_chance_def sh window_def id_at_def)
    have "send_success welcome_msg (example_net 7) = Some (0, ?sock)"
      by (subst send_room [where k = 1000]) (simp_all add: example_net_def welcome_msg_def numeral_eq_Suc)
    then show "client_worker sha E example_chance (sy_clients ?sy2 ! 0) (sy_shared ?sy2) = Goes (?ct, ?sh3)"
      by (simp add: client_worker_def idle_client_def client_accept_def client_queue_pop_def sh example_chance_def
          one_session one_session_get on_net_def del: One_nat_def)
  qed simp
  have r: "tame_reach OK w sha E ?sy0 ?sy3"
    by (rule tame_reach.more [OF _ s3], rule tame_reach.more [OF _ s2], rule tame_reach.more [OF tame_reach.start s1]) simp_all
  show thesis
    by (rule that [of ?sy0 ?sy3]) (use r st sh server_started [OF st] in \<open>simp_all add: initial_def\<close>)
qed

lemma example_commands:
  "parse_auth ''SIGNUP ann pw'' = Cmd_signup ''ann'' ''pw''" "parse_file (''LIST'' @ [LF]) = Cmd_list"
  by code_simp+

lemma example_signup:
  "\<exists>db. user_signup sha ref_engine (Some ''ann'') (Some ''pw'') (Some fresh_db) = (0, Some db) \<and>
     fst (user_check_quota ref_engine (Some ''ann'') 3 (Some db)) \<and>
     fst (user_exists ref_engine (Some ''ann'') (snd (user_check_quota ref_engine (Some ''ann'') 3 (Some db))))"
  by (simp add: user_signup_def user_exists_def db_user_exists_def user_create_def db_create_user_def fresh_db_def empty_store_def ref_run
      user_check_quota_def db_check_quota_def db_get_user_quota_def DEFAULT_QUOTA_LIMIT_def)

text \<open>The turns of a client in the run, from the state of its connection.\<close>

lemma signup_turn:
  assumes "sm_heap (sv_sm (sh_server sh)) (ct_session ct) = Some s" "\<not> se_auth s" "ct_phase ct = Ct_auth"
    and "sh_net sh (ct_fd ct) = k" "rx k = Rx_data (''SIGNUP ann pw'' @ [LF]) # r" "tx k = Tx_room 1000 # tr"
    and "user_signup sha E (Some ''ann'') (Some ''pw'') (sv_db (sh_server sh)) = (0, db)"
  obtains n where "client_worker sha E c ct sh = Goes (ct, on_sm
      (\<lambda>sm. touched sm (ct_session ct) (\<lambda>s. s\<lparr>se_username := ''ann'', se_auth := True,
         se_authenticated_at := ch_now c, se_last_activity := ch_now c\<rparr>))
      ((on_db db sh)\<lparr>sh_net := n\<rparr>))" "rx (n (ct_fd ct)) = r" "tx (n (ct_fd ct)) = tr"
proof -
  let ?k = "k\<lparr>rx := r\<rparr>" let ?k' = "?k\<lparr>tx := tr, sent := sent k @ ''SIGNUP OK'' @ [LF]\<rparr>"
  have r: "recv_sys 511 k = Some (Inr (''SIGNUP ann pw'' @ [LF]), ?k)" using assms(5) by (simp add: recv_sys_def)
  have s: "send_success (''SIGNUP OK'' @ [LF]) ?k = Some (0, ?k')"
    using assms(6) by (subst send_room [where k = 1000 and r = tr]) simp_all
  have "takeWhile (\<lambda>x. x \<noteq> LF) (cstr (''SIGNUP ann pw'' @ [LF])) = ''SIGNUP ann pw''" by (simp add: cstr_def)
  then have "client_worker sha E c ct sh = Goes (ct, on_sm
      (\<lambda>sm. touched sm (ct_session ct) (\<lambda>s. s\<lparr>se_username := ''ann'', se_auth := True,
         se_authenticated_at := ch_now c, se_last_activity := ch_now c\<rparr>))
      ((on_db db sh)\<lparr>sh_net := (sh_net sh)(ct_fd ct := ?k')\<rparr>))"
    using assms(1-4,7) r s example_commands(1)
    by (simp add: client_worker_def client_auth_turn_def with_session_def client_recv_def on_net_def
        client_auth_command_def auth_accept_def set_session_def session_set_username_def on_session_touched fit_def
        MAX_USERNAME_LEN_def)
  then show thesis by (rule that) simp_all
qed

lemma menu_turn:
  assumes "sm_heap (sv_sm (sh_server sh)) (ct_session ct) = Some s" "se_auth s" "ct_phase ct = Ct_auth"
    and "tx (sh_net sh (ct_fd ct)) = Tx_room 1000 # tr"
  obtains n where "client_worker sha E c ct sh = Goes (ct\<lparr>ct_phase := Ct_file\<rparr>, sh\<lparr>sh_net := n\<rparr>)"
    "rx (n (ct_fd ct)) = rx (sh_net sh (ct_fd ct))" "tx (n (ct_fd ct)) = tr"
proof -
  let ?k = "sh_net sh (ct_fd ct)"
  have "send_success file_menu ?k = Some (0, ?k\<lparr>tx := tr, sent := sent ?k @ file_menu\<rparr>)"
    using assms(4) by (subst send_room [where k = 1000 and r = tr]) (simp_all add: file_menu_def)
  with assms(1-3) show thesis
    by (intro that [of "(sh_net sh)(ct_fd ct := ?k\<lparr>tx := tr, sent := sent ?k @ file_menu\<rparr>)"])
      (simp_all add: client_worker_def client_auth_turn_def with_session_def on_net_def)
qed

lemma list_turn:
  assumes "sm_heap (sv_sm (sh_server sh)) (ct_session ct) = Some s" "ct_phase ct = Ct_file"
    and "rx (sh_net sh (ct_fd ct)) = Rx_data (''LIST'' @ [LF]) # r"
  obtains n where "client_worker sha E c ct sh =
      Goes (ct\<lparr>ct_phase := Ct_push ((new_task ct s)\<lparr>t_type := TASK_LIST\<rparr>)\<rparr>,
        on_sm (\<lambda>sm. the (reset_response (ct_session ct) sm)) (sh\<lparr>sh_net := n\<rparr>))" "tx (n (ct_fd ct)) = tx (sh_net sh (ct_fd ct))"
proof -
  let ?k = "sh_net sh (ct_fd ct)"
  have "recv_sys 511 ?k = Some (Inr (''LIST'' @ [LF]), ?k\<lparr>rx := r\<rparr>)" using assms(3) by (simp add: recv_sys_def)
  moreover have "parse_file (cstr (''LIST'' @ [LF])) = Cmd_list" using example_commands(2) by (simp add: cstr_def)
  ultimately show thesis using assms(1,2)
    by (intro that [of "(sh_net sh)(ct_fd ct := ?k\<lparr>rx := r\<rparr>)"])
      (simp_all add: client_worker_def client_file_turn_def client_recv_def on_net_def with_session_def
        client_file_command_def client_submit_def set_session_def reset_response_def on_session_touched)
qed

lemma one_session_window: "window (created fresh_manager 1 4096 7 100)"
  using id_at_created [OF fresh_manager_wf, of 4096 1 _ 7 100]
  by (auto simp: window_def MAX_SESSIONS_def created_def id_at_def split: option.splits if_splits)

lemma window_touched [simp]: "keeps_id f \<Longrightarrow> window (touched m a f) = window m"
  by (simp add: window_def)

definition empty_fs :: fsys where
  "empty_fs = \<lparr>fs_cwd = [], fs_files = [], fs_dirs = [], fs_script = []\<rparr>"

definition later_chance :: chance where
  "later_chance = example_chance\<lparr>ch_now := 101, ch_calloc := None\<rparr>"

lemma replicate_few: "replicate 4 x = x # replicate 3 x" "replicate 3 x = x # replicate 2 x"
  by (simp_all add: numeral_eq_Suc)

abbreviation ann_at :: "ct_phase \<Rightarrow> client" where
  "ann_at p \<equiv> \<lparr>ct_phase = p, ct_fd = 7, ct_session_id = 1, ct_session = 4096\<rparr>"

definition ann_in :: "Session \<Rightarrow> Session" where
  "ann_in s = s\<lparr>se_username := ''ann'', se_auth := True, se_authenticated_at := 101, se_last_activity := 101\<rparr>"

lemma keeps_ann_in [simp]: "keeps_id ann_in"
  by (simp add: keeps_id_def ann_in_def)

lemma later_chance_ok: "chance_ok w later_chance (touched (touched (created fresh_manager 1 4096 7 100) 4096 ann_in) a f)"
  if "keeps_id f"
  using one_session_window that by (simp add: chance_ok_def later_chance_def example_chance_def created_def)

lemma logged_in:
  obtains sy0 sy d where "initial (server_start ref_engine good_boot None example_net fs) 1 1 sy0"
    "tame_reach OK w sha ref_engine sy0 sy" "sy_clients sy = [ann_at Ct_file]" "sy_workers sy = [Wk_idle]"
    "sy_sm sy = touched (created fresh_manager 1 4096 7 100) 4096 ann_in"
    "rx (sh_net (sy_shared sy) 7) = [Rx_data (''LIST'' @ [LF])]"
    "tq_wf (sh_tasks (sy_shared sy))" "tq_items (sh_tasks (sy_shared sy)) = []"
    "\<not> tq_shutdown (sh_tasks (sy_shared sy))" "tq_cap (sh_tasks (sy_shared sy)) = 128"
    "sv_fs (sh_server (sy_shared sy)) = fs" "sv_db (sh_server (sy_shared sy)) = Some d"
    "fst (user_check_quota ref_engine (Some ''ann'') 3 (Some d))"
    "fst (user_exists ref_engine (Some ''ann'') (snd (user_check_quota ref_engine (Some ''ann'') 3 (Some d))))"
proof (rule connected [of fs OK w sha ref_engine])
  fix sy0 sy :: "ref_db system"
  assume init: "initial (server_start ref_engine good_boot None example_net fs) 1 1 sy0"
    and r: "tame_reach OK w sha ref_engine sy0 sy" and cl: "sy_clients sy = [ann_at Ct_auth]"
    and wk: "sy_workers sy = [Wk_idle]" and sm: "sy_sm sy = created fresh_manager 1 4096 7 100"
    and net: "sh_net (sy_shared sy) 7 = (example_net 7)\<lparr>tx := replicate 4 (Tx_room 1000), sent := welcome_msg\<rparr>"
    and tasks: "tq_wf (sh_tasks (sy_shared sy))" "tq_items (sh_tasks (sy_shared sy)) = []"
      "\<not> tq_shutdown (sh_tasks (sy_shared sy))" "tq_cap (sh_tasks (sy_shared sy)) = 128"
    and db: "sv_db (sh_server (sy_shared sy)) = Some fresh_db" and fs: "sv_fs (sh_server (sy_shared sy)) = fs"
  let ?ct = "ann_at Ct_auth" let ?sh = "sy_shared sy"
  have heap: "sm_heap (sy_sm sy) 4096 = Some (new_session 1 7 100)" by (simp add: sm created_def)
  obtain d where sg: "user_signup sha ref_engine (Some ''ann'') (Some ''pw'') (Some fresh_db) = (0, Some d)"
    and d: "fst (user_check_quota ref_engine (Some ''ann'') 3 (Some d))"
      "fst (user_exists ref_engine (Some ''ann'') (snd (user_check_quota ref_engine (Some ''ann'') 3 (Some d))))"
    using example_signup by blast
  have f: "ann_in = (\<lambda>s. s\<lparr>se_username := ''ann'', se_auth := True, se_authenticated_at := ch_now later_chance,
      se_last_activity := ch_now later_chance\<rparr>)" by (simp add: fun_eq_iff ann_in_def later_chance_def)
  obtain n1 where 1: "client_worker sha ref_engine later_chance ?ct ?sh =
      Goes (?ct, on_sm (\<lambda>sm. touched sm 4096 ann_in) ((on_db (Some d) ?sh)\<lparr>sh_net := n1\<rparr>))"
    "rx (n1 7) = [Rx_data (''LIST'' @ [LF])]" "tx (n1 7) = replicate 3 (Tx_room 1000)"
    unfolding f by (rule signup_turn [of ?sh ?ct "new_session 1 7 100" "sh_net ?sh 7" "[Rx_data (''LIST'' @ [LF])]"
          "replicate 3 (Tx_room 1000)" sha ref_engine "Some d" later_chance])
      (use heap net sg db in \<open>simp_all add: new_session_def example_net_def replicate_few\<close>)
  let ?sh1 = "on_sm (\<lambda>sm. touched sm 4096 ann_in) ((on_db (Some d) ?sh)\<lparr>sh_net := n1\<rparr>)"
  have heap1: "sm_heap (sv_sm (sh_server ?sh1)) 4096 = Some (ann_in (new_session 1 7 100))" by (simp add: touched_heap heap)
  obtain n2 where 2: "client_worker sha ref_engine later_chance ?ct ?sh1 = Goes (ann_at Ct_file, ?sh1\<lparr>sh_net := n2\<rparr>)"
    "rx (n2 7) = [Rx_data (''LIST'' @ [LF])]"
    by (rule menu_turn [of ?sh1 ?ct "ann_in (new_session 1 7 100)" "replicate 2 (Tx_room 1000)" sha ref_engine later_chance])
      (use heap1 1(2,3) in \<open>simp_all add: replicate_few ann_in_def\<close>)
  let ?next = "\<lambda>ct sh. sy\<lparr>sy_clients := [ct], sy_shared := sh\<rparr>"
  have step: "sys_step w sha ref_engine (?next ct sh) (?next ct' sh')"
    if "client_worker sha ref_engine later_chance ct sh = Goes (ct', sh')" "chance_ok w later_chance (sv_sm (sh_server sh))" for ct sh ct' sh'
    using sys_step.client [of 0 "?next ct sh" w later_chance sha ref_engine ct' sh'] that by simp
  have c0: "chance_ok w later_chance (sy_sm sy)" and c1: "chance_ok w later_chance (sv_sm (sh_server ?sh1))"
    using one_session_window by (simp_all add: sm chance_ok_def later_chance_def example_chance_def created_def touched_heap)
  have idle: "\<forall>t. Wk_busy t \<in> set (sy_workers (?next ct sh)) \<longrightarrow> OK t" for ct sh using wk by simp
  have "tame_reach OK w sha ref_engine sy0 (?next (ann_at Ct_file) (?sh1\<lparr>sh_net := n2\<rparr>))"
  proof (rule tame_reach.more [OF _ step [OF 2(1) c1] idle], rule tame_reach.more [OF _ step [OF 1(1) c0] idle])
    have "?next ?ct ?sh = sy" using cl by (cases sy) simp
    then show "tame_reach OK w sha ref_engine sy0 (?next ?ct ?sh)" using r by simp
  qed
  then show thesis
    by (rule that [OF init]) (use tasks d fs sm wk 2(2) in simp_all)
qed

text \<open>The client submits a task, and a worker takes it.\<close>

lemma submitted:
  assumes r: "tame_reach OK w sha ref_engine sy0 sy" and cl: "sy_clients sy = [ann_at (Ct_push t)]" and wk: "sy_workers sy = [Wk_idle]"
    and c: "chance_ok w later_chance (sy_sm sy)" and OK: "OK t"
    and tasks: "tq_wf (sh_tasks (sy_shared sy))" "tq_items (sh_tasks (sy_shared sy)) = []"
      "\<not> tq_shutdown (sh_tasks (sy_shared sy))" "tq_cap (sh_tasks (sy_shared sy)) = 128"
  obtains q where "tame_reach OK w sha ref_engine sy0
      (sy\<lparr>sy_clients := [ann_at Ct_wait], sy_workers := [Wk_busy t], sy_shared := (sy_shared sy)\<lparr>sh_tasks := q\<rparr>\<rparr>)"
    "tq_items q = []"
proof -
  let ?sh = "sy_shared sy"
  obtain q where q: "task_queue_push (sh_tasks ?sh) t = Leave 0 q [Signal Not_empty]" "tq_wf q" "tq_items q = [t]"
    using task_queue_push_room [of "sh_tasks ?sh" t] tasks by auto
  then obtain q' where q': "task_queue_pop q = Leave (0, Some t) q' [Signal Not_full]" "tq_items q' = []"
    using task_queue_pop_some [of q t "[]"] by auto
  let ?sy = "sy\<lparr>sy_clients := [ann_at Ct_wait], sy_shared := ?sh\<lparr>sh_tasks := q\<rparr>\<rparr>"
  have "client_worker sha ref_engine later_chance (ann_at (Ct_push t)) ?sh = Goes (ann_at Ct_wait, ?sh\<lparr>sh_tasks := q\<rparr>)"
    using q(1) by (simp add: client_worker_def client_push_turn_def)
  with c cl have "sys_step w sha ref_engine sy ?sy"
    using sys_step.client [of 0 sy w later_chance sha ref_engine] by simp
  with wk r have r1: "tame_reach OK w sha ref_engine sy0 ?sy" by (intro tame_reach.more [OF r]) simp_all
  have "worker_turn ref_engine 0 0 Wk_idle (?sh\<lparr>sh_tasks := q\<rparr>) = Goes (Wk_busy t, ?sh\<lparr>sh_tasks := q'\<rparr>)"
    using q' by (simp add: worker_turn_def)
  with wk have "sys_step w sha ref_engine ?sy (?sy\<lparr>sy_workers := [Wk_busy t], sy_shared := ?sh\<lparr>sh_tasks := q'\<rparr>\<rparr>)"
    using sys_step.worker [of 0 ?sy ref_engine 0 "Wk_busy t" "?sh\<lparr>sh_tasks := q'\<rparr>" w sha] by simp
  from tame_reach.more [OF r1 this] OK have "tame_reach OK w sha ref_engine sy0
      (?sy\<lparr>sy_workers := [Wk_busy t], sy_shared := ?sh\<lparr>sh_tasks := q'\<rparr>\<rparr>)" by simp
  moreover have "?sy\<lparr>sy_workers := [Wk_busy t], sy_shared := ?sh\<lparr>sh_tasks := q'\<rparr>\<rparr> =
      sy\<lparr>sy_clients := [ann_at Ct_wait], sy_workers := [Wk_busy t], sy_shared := ?sh\<lparr>sh_tasks := q'\<rparr>\<rparr>"
    by (cases sy) simp
  ultimately show thesis using q'(2) by (intro that) simp_all
qed

abbreviation reset_of :: "Session \<Rightarrow> Session" where
  "reset_of s \<equiv> s\<lparr>se_response := (se_response s)\<lparr>r_ready := False, r_status := RESPONSE_SUCCESS, r_message := '''',
     r_data := None, r_data_size := 0\<rparr>\<rparr>"

lemma asked:
  obtains sy0 sy t where "initial (server_start ref_engine good_boot None example_net fs) 1 1 sy0"
    "sys_reach w sha ref_engine sy0 sy" "sy_clients sy = [ann_at Ct_wait]"
    "sy_workers sy = [Wk_busy t]" "t_session_id t = 1" "t_username t = ''ann''" "waiting (sy_sm sy) 1 (sy_clients sy ! 0)"
    "outstanding sy = {#t#}" "chance_ok w later_chance (sy_sm sy)" "tame_reach (\<lambda>t. t_type t = TASK_LIST) w sha ref_engine sy0 sy"
proof (rule logged_in [of fs "\<lambda>t. t_type t = TASK_LIST" w sha])
  fix sy0 sy :: "ref_db system" and d
  let ?OK = "\<lambda>t. t_type t = TASK_LIST" and ?m = "touched (created fresh_manager 1 4096 7 100) 4096 ann_in"
  assume init: "initial (server_start ref_engine good_boot None example_net fs) 1 1 sy0"
    and r: "tame_reach ?OK w sha ref_engine sy0 sy" and cl: "sy_clients sy = [ann_at Ct_file]"
    and wk: "sy_workers sy = [Wk_idle]" and sm: "sy_sm sy = ?m"
    and net: "rx (sh_net (sy_shared sy) 7) = [Rx_data (''LIST'' @ [LF])]"
    and tasks: "tq_wf (sh_tasks (sy_shared sy))" "tq_items (sh_tasks (sy_shared sy)) = []"
      "\<not> tq_shutdown (sh_tasks (sy_shared sy))" "tq_cap (sh_tasks (sy_shared sy)) = 128"
  let ?s = "ann_in (new_session 1 7 100)" let ?t = "(new_task (ann_at Ct_file) ?s)\<lparr>t_type := TASK_LIST\<rparr>"
  have heap: "sm_heap (sy_sm sy) 4096 = Some ?s" by (simp add: sm touched_heap created_def)
  obtain n where 1: "client_worker sha ref_engine later_chance (ann_at Ct_file) (sy_shared sy) =
      Goes (ann_at (Ct_push ?t), on_sm (\<lambda>sm. the (reset_response 4096 sm)) ((sy_shared sy)\<lparr>sh_net := n\<rparr>))"
    by (rule list_turn [of "sy_shared sy" "ann_at Ct_file" ?s "[]" sha ref_engine later_chance]) (use heap net in simp_all)
  let ?sh = "on_sm (\<lambda>sm. the (reset_response 4096 sm)) ((sy_shared sy)\<lparr>sh_net := n\<rparr>)"
  let ?sy = "sy\<lparr>sy_clients := [ann_at (Ct_push ?t)], sy_shared := ?sh\<rparr>"
  have sm': "sv_sm (sh_server ?sh) = touched ?m 4096 reset_of"
    using heap by (simp add: sm reset_response_def on_session_touched)
  have c: "chance_ok w later_chance (sy_sm sy)" "chance_ok w later_chance (sy_sm ?sy)"
    using later_chance_ok [of "\<lambda>s. s" w 0] later_chance_ok [of reset_of w 4096] sm sm' by (simp_all add: keeps_id_def touched_def)
  have "sys_step w sha ref_engine sy ?sy"
    using sys_step.client [of 0 sy w later_chance sha ref_engine "ann_at (Ct_push ?t)" ?sh] 1 cl c(1) by simp
  then have "tame_reach ?OK w sha ref_engine sy0 ?sy" by (rule tame_reach.more [OF r]) (simp add: wk)
  then obtain q where q: "tame_reach ?OK w sha ref_engine sy0
      (?sy\<lparr>sy_clients := [ann_at Ct_wait], sy_workers := [Wk_busy ?t], sy_shared := (sy_shared ?sy)\<lparr>sh_tasks := q\<rparr>\<rparr>)" "tq_items q = []"
    by (rule submitted [of ?OK w sha sy0 ?sy ?t]) (use wk c tasks in simp_all)
  have "waiting (sv_sm (sh_server ?sh)) 1 (ann_at Ct_wait)"
    unfolding sm' by (simp add: waiting_def answer_ready_def touched_heap created_def ann_in_def new_session_def)
  then show thesis
    by (intro that [OF init tame_reach_reach [OF q(1)], of ?t])
      (use q c in \<open>simp_all add: new_task_def zero_task_def fit_def MAX_USERNAME_LEN_def outstanding_def ann_in_def\<close>)
qed

section \<open>Properties\<close>

text \<open>No use after free between turns: in every state the server reaches, whatever turn a client thread or a worker takes
  next, it does not use a session object that was freed. (A worker's turn is a whole task here; for the one use after
  the answer, inside the turn, see \<open>delivery_race\<close>.)\<close>

theorem sessions_never_dangle:
  assumes "initial (server_start E b arg net fs) n k sy0" "sys_reach w sha E sy0 sy"
  shows "(\<forall>i < length (sy_clients sy). \<forall>c. chance_ok w c (sy_sm sy) \<longrightarrow>
       client_worker sha E c (sy_clients sy ! i) (sy_shared sy) \<noteq> Dangling) \<and>
     (\<forall>i < length (sy_workers sy). \<forall>now. worker_turn E i now (sy_workers sy ! i) (sy_shared sy) \<noteq> Dangling)"
proof -
  have inv: "sys_inv w sy" by (rule sys_reach_inv [OF assms(2,1)])
  then have ok: "sys_ok w (sy_sm sy) (sy_clients sy) (outstanding sy)" and lm: "lm_idle (sv_lm (sh_server (sy_shared sy)))"
    by (simp_all add: sys_inv_def)
  have "client_worker sha E c (sy_clients sy ! i) (sy_shared sy) \<noteq> Dangling"
    if "i < length (sy_clients sy)" "chance_ok w c (sy_sm sy)" for i c
    using client_turn_ok [OF sys_okD(1) [OF ok] that(2), of "sy_clients sy ! i" sha E] sys_okD(2) [OF ok that(1)]
    by (auto simp: turn_ok_def)
  moreover have "worker_turn E i now wk (sy_shared sy) \<noteq> Dangling" for i now wk
  proof (cases wk)
    case (Wk_busy t)
    with worker_task_done [OF sm_good_wf [OF sys_okD(1) [OF ok]] lm, of now t E i] show ?thesis
      by (auto simp: worker_turn_def task_done_def)
  qed (auto simp: worker_turn_def split: monitor.split option.split)
  ultimately show ?thesis by blast
qed

lemma sessions_never_dangle_witness:
  "\<exists>sy0 sy t. sys_reach True id ref_engine sy0 sy \<and> sy_workers sy = [Wk_busy t] \<and>
     sy_clients sy = [\<lparr>ct_phase = Ct_wait, ct_fd = 7, ct_session_id = 1, ct_session = 4096\<rparr>] \<and>
     worker_turn ref_engine 0 102 (Wk_busy t) (sy_shared sy) \<noteq> Dangling \<and>
     client_worker id ref_engine later_chance (sy_clients sy ! 0) (sy_shared sy) \<noteq> Dangling"
proof -
  obtain sy0 sy t where a: "initial (server_start ref_engine good_boot None example_net empty_fs) 1 1 sy0"
    "sys_reach True id ref_engine sy0 sy" "sy_clients sy = [\<lparr>ct_phase = Ct_wait, ct_fd = 7, ct_session_id = 1, ct_session = 4096\<rparr>]"
    "sy_workers sy = [Wk_busy t]" "chance_ok True later_chance (sy_sm sy)"
    by (rule asked) blast
  from sessions_never_dangle [OF a(1,2)] a(3-5) have
    "client_worker id ref_engine later_chance (sy_clients sy ! 0) (sy_shared sy) \<noteq> Dangling"
    "worker_turn ref_engine 0 102 (Wk_busy t) (sy_shared sy) \<noteq> Dangling" by auto
  with a show ?thesis by blast
qed

text \<open>A client that waits is served: while lookups find the sessions, every client that waits without an answer
  has its task queued or in a worker's hands, and the turn in which a worker handles it leaves the answer in the
  client's session.\<close>

theorem waiting_clients_are_served:
  assumes "initial (server_start E b arg net fs) n k sy0" "sys_reach True sha E sy0 sy"
    and "i < length (sy_clients sy)" "waiting (sy_sm sy) (ct_session_id (sy_clients sy ! i)) (sy_clients sy ! i)"
  shows "\<exists>t \<in># outstanding sy. t_session_id t = ct_session_id (sy_clients sy ! i) \<and>
    (\<forall>j < length (sy_workers sy). sy_workers sy ! j = Wk_busy t \<longrightarrow> (\<forall>now. \<exists>sh.
       worker_turn E j now (Wk_busy t) (sy_shared sy) = Goes (Wk_idle, sh) \<and>
       answer_ready (sv_sm (sh_server sh)) (sy_clients sy ! i)))"
proof -
  have inv: "sys_inv True sy" by (rule sys_reach_inv [OF assms(2,1)])
  then have ok: "sys_ok True (sy_sm sy) (sy_clients sy) (outstanding sy)" and lm: "lm_idle (sv_lm (sh_server (sy_shared sy)))"
    by (simp_all add: sys_inv_def)
  from sys_okD(7) [OF ok TrueI assms(3,4)] obtain t where t: "t \<in># outstanding sy"
    "t_session_id t = ct_session_id (sy_clients sy ! i)" by blast
  have "\<exists>sh. worker_turn E j now (Wk_busy t) (sy_shared sy) = Goes (Wk_idle, sh) \<and>
      answer_ready (sv_sm (sh_server sh)) (sy_clients sy ! i)" for j now
  proof -
    obtain s where s: "sm_heap (sy_sm sy) (ct_session (sy_clients sy ! i)) = Some s"
      by (rule sys_ok_live [OF ok assms(3) waiting_in_session [OF assms(4)]])
    obtain sv st m d l where "worker_task E j now t (sh_server (sy_shared sy)) = Some sv"
      "sv_sm sv = answered now (t_session_id t) st m d l (sy_sm sy)"
      using worker_task_done [OF sm_good_wf [OF sys_okD(1) [OF ok]] lm, of now t E j] unfolding task_done_def by blast
    with s sys_ok_found [OF ok assms(3) waiting_in_session [OF assms(4)]] t(2) show ?thesis
      by (simp add: worker_turn_def answered_def answer_ready_def touched_heap answer_def)
  qed
  with t show ?thesis by blast
qed

lemma waiting_clients_are_served_witness:
  "\<exists>sy0 sy t sh. sys_reach True id ref_engine sy0 sy \<and> sy_workers sy = [Wk_busy t] \<and>
     \<not> answer_ready (sy_sm sy) (sy_clients sy ! 0) \<and>
     worker_turn ref_engine 0 102 (Wk_busy t) (sy_shared sy) = Goes (Wk_idle, sh) \<and>
     answer_ready (sv_sm (sh_server sh)) (sy_clients sy ! 0)"
proof -
  obtain sy0 sy t where a: "initial (server_start ref_engine good_boot None example_net empty_fs) 1 1 sy0"
    "sys_reach True id ref_engine sy0 sy" "sy_clients sy = [\<lparr>ct_phase = Ct_wait, ct_fd = 7, ct_session_id = 1, ct_session = 4096\<rparr>]"
    "sy_workers sy = [Wk_busy t]" "waiting (sy_sm sy) 1 (sy_clients sy ! 0)" "outstanding sy = {#t#}"
    by (rule asked) blast
  have i: "0 < length (sy_clients sy)" "waiting (sy_sm sy) (ct_session_id (sy_clients sy ! 0)) (sy_clients sy ! 0)"
    using a(3,5) by simp_all
  from waiting_clients_are_served [OF a(1,2) i] a(4,6) obtain sh where
    "worker_turn ref_engine 0 102 (Wk_busy t) (sy_shared sy) = Goes (Wk_idle, sh)"
    "answer_ready (sv_sm (sh_server sh)) (sy_clients sy ! 0)" by auto
  with a(2,4,5) show ?thesis unfolding waiting_def by blast
qed

text \<open>A run in which the server is stopped before anyone connects.\<close>

lemma stopped:
  obtains sy0 sy where "initial (server_start ref_engine good_boot None example_net empty_fs) 1 1 sy0"
    "sys_reach True id ref_engine sy0 sy" "mn_phase (sy_main sy) = Mn_done" "sy_workers sy = [Wk_exit]"
proof (rule good_start [of example_net empty_fs])
  fix sh :: "ref_db shared" and live
  assume st: "server_start ref_engine good_boot None example_net empty_fs = Started sh 4 live"
    and cq: "sh_fds sh = \<lparr>cq_fds = replicate 64 0, cq_capacity = 64, cq_head = 0, cq_tail = 0, cq_size = 0, cq_shutdown = False\<rparr>"
    and sm: "sv_sm (sh_server sh) = fresh_manager"
  note S = server_started [OF st]
  let ?mn = "\<lparr>mn_phase = Mn_accept, mn_keep_running = True, mn_listen_fd = 4, mn_handler_called = False\<rparr>"
  let ?mn1 = "\<lparr>mn_phase = Mn_accept, mn_keep_running = False, mn_listen_fd = - 1, mn_handler_called = True\<rparr>"
  let ?start = "\<lparr>sy_shared = sh, sy_clients = [idle_client], sy_workers = [Wk_idle], sy_main = ?mn\<rparr>"
  let ?sh1 = "sh\<lparr>sh_closed := sh_closed sh @ [4], sh_fds := (sh_fds sh)\<lparr>cq_shutdown := True\<rparr>, sh_tasks := (sh_tasks sh)\<lparr>tq_shutdown := True\<rparr>\<rparr>"
  let ?x = "idle_client\<lparr>ct_phase := Ct_exit\<rparr>"
  let ?st = "\<lambda>mn ct wk. \<lparr>sy_shared = ?sh1, sy_clients = [ct], sy_workers = [wk], sy_main = mn\<rparr>"
  have init: "initial (server_start ref_engine good_boot None example_net empty_fs) 1 1 ?start"
    using st by (simp add: initial_def)
  have "int_handler ?mn sh = (?mn1, ?sh1)"
    by (simp add: int_handler_def client_queue_signal_shutdown_def task_queue_signal_shutdown_def)
  then have "sys_step True id ref_engine ?start (?st ?mn1 idle_client Wk_idle)"
    using sys_step.signal [of ?start ?mn1 ?sh1 True id ref_engine] by simp
  moreover have "accept_turn (Inl EINTR) ?mn1 ?sh1 = Goes (?mn1\<lparr>mn_phase := Mn_join_clients\<rparr>, ?sh1)"
    by (simp add: accept_turn_def begin_shutdown_def client_queue_signal_shutdown_def task_queue_signal_shutdown_def)
  then have "sys_step True id ref_engine (?st ?mn1 idle_client Wk_idle) (?st (?mn1\<lparr>mn_phase := Mn_join_clients\<rparr>) idle_client Wk_idle)"
    using sys_step.main_accept [of "?st ?mn1 idle_client Wk_idle" "Inl EINTR" "?mn1\<lparr>mn_phase := Mn_join_clients\<rparr>" ?sh1 True id ref_engine]
    by simp
  moreover have "chance_ok True later_chance fresh_manager"
    by (simp add: chance_ok_def later_chance_def example_chance_def window_def id_at_def)
  then have "sys_step True id ref_engine (?st (?mn1\<lparr>mn_phase := Mn_join_clients\<rparr>) idle_client Wk_idle)
      (?st (?mn1\<lparr>mn_phase := Mn_join_clients\<rparr>) ?x Wk_idle)"
    using sys_step.client [of 0 "?st (?mn1\<lparr>mn_phase := Mn_join_clients\<rparr>) idle_client Wk_idle" True later_chance id ref_engine ?x ?sh1]
    by (simp add: sm client_worker_def idle_client_def client_accept_def client_queue_pop_def cq)
  moreover have "sys_step True id ref_engine (?st (?mn1\<lparr>mn_phase := Mn_join_clients\<rparr>) ?x Wk_idle)
      (?st (?mn1\<lparr>mn_phase := Mn_join_workers\<rparr>) ?x Wk_idle)"
    using sys_step.main_join_clients [of "?st (?mn1\<lparr>mn_phase := Mn_join_clients\<rparr>) ?x Wk_idle" "?mn1\<lparr>mn_phase := Mn_join_workers\<rparr>" True id ref_engine] by (simp add: join_clients_def)
  moreover have "tq_size (sh_tasks sh) = 0" using tq_size_items [OF S(3)] S(4) by simp
  then have "worker_turn ref_engine 0 0 Wk_idle ?sh1 = Goes (Wk_exit, ?sh1)"
    by (simp add: worker_turn_def task_queue_pop_def)
  then have "sys_step True id ref_engine (?st (?mn1\<lparr>mn_phase := Mn_join_workers\<rparr>) ?x Wk_idle)
      (?st (?mn1\<lparr>mn_phase := Mn_join_workers\<rparr>) ?x Wk_exit)"
    using sys_step.worker [of 0 "?st (?mn1\<lparr>mn_phase := Mn_join_workers\<rparr>) ?x Wk_idle" ref_engine 0 Wk_exit ?sh1 True id] by simp
  moreover have "sys_step True id ref_engine (?st (?mn1\<lparr>mn_phase := Mn_join_workers\<rparr>) ?x Wk_exit)
      (?st (?mn1\<lparr>mn_phase := Mn_done\<rparr>) ?x Wk_exit)"
    using sys_step.main_join_workers [of "?st (?mn1\<lparr>mn_phase := Mn_join_workers\<rparr>) ?x Wk_exit" "?mn1\<lparr>mn_phase := Mn_done\<rparr>" True id ref_engine] by (simp add: join_workers_def)
  ultimately have r: "sys_reach True id ref_engine ?start (?st (?mn1\<lparr>mn_phase := Mn_done\<rparr>) ?x Wk_exit)"
    by (meson sys_reach.start sys_reach.more)
  show thesis by (rule that [OF init r]) simp_all
qed

end
