(* ===== verification/Start_Props.thy ===== *)
theory Start_Props
  imports System_Props
begin

text \<open>
  What is left when the server does not start: \<open>main\<close> releases what it had set up on every error path but
  three, and these are named.
\<close>

section \<open>Releasing a component\<close>

text \<open>What the process holds of each component, when it has been set up.\<close>

definition client_queue_parts :: "resource list" where
  "client_queue_parts = [Res_cond Not_full, Res_cond Not_empty, Res_mutex, Res_buffer]"

lemma of_map [simp]:
  "of_client_queue (map Own_client_queue r) = r" "of_client_queue (map Own_task_queue r') = []"
  "of_client_queue (map Own_locks l) = []" "of_task_queue (map Own_task_queue r') = r'"
  "of_task_queue (map Own_client_queue r) = []" "of_task_queue (map Own_locks l) = []"
  "of_locks (map Own_locks l) = l" "of_locks (map Own_client_queue r) = []" "of_locks (map Own_task_queue r') = []"
proof -
  show "of_client_queue (map Own_client_queue r) = r" "of_task_queue (map Own_client_queue r) = []"
    "of_locks (map Own_client_queue r) = []"
    by (induction r) (simp_all add: of_client_queue_def of_task_queue_def of_locks_def)
  show "of_client_queue (map Own_task_queue r') = []" "of_task_queue (map Own_task_queue r') = r'"
    "of_locks (map Own_task_queue r') = []"
    by (induction r') (simp_all add: of_client_queue_def of_task_queue_def of_locks_def)
  show "of_client_queue (map Own_locks l) = []" "of_task_queue (map Own_locks l) = []" "of_locks (map Own_locks l) = l"
    by (induction l) (simp_all add: of_client_queue_def of_task_queue_def of_locks_def)
qed

lemma of_append [simp]:
  "of_client_queue (a @ b) = of_client_queue a @ of_client_queue b" "of_task_queue (a @ b) = of_task_queue a @ of_task_queue b"
  "of_locks (a @ b) = of_locks a @ of_locks b"
  by (simp_all add: of_client_queue_def of_task_queue_def of_locks_def)

lemma without_append [simp]: "without P (a @ b) = without P a @ without P b"
  by (simp add: without_def)

lemma without_Cons [simp]: "without P (h # b) = (if P h then without P b else h # without P b)"
  by (simp add: without_def)

lemma without_Nil [simp]: "without P [] = []"
  by (simp add: without_def)

lemma without_map [simp]:
  "without is_client_queue (map Own_client_queue r) = []" "without is_client_queue (map Own_task_queue r) = map Own_task_queue r"
  "without is_task_queue (map Own_task_queue r) = []" "without is_task_queue (map Own_client_queue r) = map Own_client_queue r"
  "without is_lock (map Own_locks l) = []" "without is_lock (map Own_client_queue r) = map Own_client_queue r"
  "without is_lock (map Own_task_queue r) = map Own_task_queue r"
  "without is_client_queue (map Own_locks l) = map Own_locks l" "without is_task_queue (map Own_locks l) = map Own_locks l"
  by (simp_all add: without_def filter_id_conv filter_empty_conv)

lemma of_singletons [simp]:
  "of_client_queue (Own_listen i # b) = of_client_queue b" "of_task_queue (Own_listen i # b) = of_task_queue b"
  "of_locks (Own_listen i # b) = of_locks b"
  "of_client_queue (Own_sessions # b) = of_client_queue b" "of_client_queue (Own_metadata # b) = of_client_queue b"
  "of_client_queue [] = []" "of_task_queue (Own_sessions # b) = of_task_queue b"
  "of_task_queue (Own_metadata # b) = of_task_queue b" "of_task_queue [] = []"
  "of_locks (Own_sessions # b) = of_locks b" "of_locks (Own_metadata # b) = of_locks b" "of_locks [] = []"
  by (simp_all add: of_client_queue_def of_task_queue_def of_locks_def)

lemma client_queue_dropped:
  "of_client_queue live = client_queue_parts \<Longrightarrow> drop_client_queue q live = without is_client_queue live"
  by (simp add: drop_client_queue_def client_queue_parts_def client_queue_destroy_def release_def)

lemma task_queue_released: "task_queue_init ok m e f c = (rc, Some q', res) \<Longrightarrow> snd (snd (task_queue_destroy q res)) = []"
  by (auto simp: task_queue_init_def task_queue_destroy_def release_def split: if_splits)

lemma task_queue_dropped:
  assumes "task_queue_init ok m e f c = (rc, Some q', res)" "of_task_queue live = res"
  shows "drop_task_queue q live = without is_task_queue live"
  using task_queue_released [OF assms(1), of q] assms(2) by (simp add: drop_task_queue_def)

lemma locks_dropped:
  assumes "file_lock_manager_init mtx mgr c = (rc, Some lm, res)" "of_locks live = res"
  shows "drop_locks lm live = without is_lock live"
  using file_lock_manager_no_leak [OF assms(1)] assms(2) by (auto simp: drop_locks_def)

lemma release_held [simp]: "release t x (x # b) = b"
  by (simp add: release_def)

lemma release_next [simp]: "h \<noteq> x \<Longrightarrow> x \<in> set b \<Longrightarrow> release t x (h # b) = h # release t x b"
  by (simp add: release_def)

section \<open>A failed start\<close>

lemma listen_failed:
  assumes "server_listen b cq tq sm db lm net fs (map Own_locks lres @ Own_metadata # Own_sessions # map Own_task_queue tres @ map Own_client_queue client_queue_parts) = Failed rc live"
    and "file_lock_manager_init mtx mgr c = (lrc, Some lm, lres)" "task_queue_init ok m e f tc = (trc, Some tq, tres)"
  shows "rc = 1 \<and> (live = [] \<or> bt_addrinfo b \<noteq> 0)"
  using assms(1)
  by (auto simp: server_listen_def Let_def locks_dropped [OF assms(2)] task_queue_dropped [OF assms(3)] client_queue_dropped
      split: if_splits option.splits)

lemma metadata_init_ok: "user_metadata_init E p db = (0, r) \<Longrightarrow> r \<noteq> None"
  by (auto simp: user_metadata_init_def db_init_def split: if_splits option.splits prod.splits)

lemma storage_failed:
  assumes f: "server_storage E b cq tq sm net fs (Own_sessions # map Own_task_queue tres @ map Own_client_queue client_queue_parts) = Failed rc live"
    and t: "task_queue_init ok m e f tc = (trc, Some tq, tres)"
  shows "rc = 1 \<and> (live = [] \<or> bt_addrinfo b \<noteq> 0 \<or>
    live = [Own_metadata] \<and> (\<exists>d. user_metadata_init E (Some ''storage/stash.db'') None = (- 1, Some d)))"
proof -
  obtain mrc db where md: "user_metadata_init E (Some ''storage/stash.db'') None = (mrc, db)" by fastforce
  obtain lrc lm lres where l: "file_lock_manager_init (bt_locks b) (bt_lock_mgr b) MAX_FILE_LOCKS = (lrc, lm, lres)"
    by (metis prod_cases3)
  show ?thesis
  proof (cases "mrc = 0")
    case False
    then have "mrc = - 1"
      using md by (auto simp: user_metadata_init_def db_init_def split: if_splits option.splits prod.splits)
    with f md show ?thesis
      by (cases db) (auto simp: server_storage_def client_queue_dropped task_queue_dropped [OF t])
  next
    case True
    with md have db: "db \<noteq> None" using metadata_init_ok by blast
    show ?thesis
    proof (cases lm)
      case None
      with file_lock_manager_no_leak [OF l] have "lres = []" by auto
      with f md l True db None show ?thesis
        by (auto simp: server_storage_def client_queue_dropped task_queue_dropped [OF t])
    next
      case (Some lm')
      with f md l True db have "server_listen b cq tq sm db lm' net fs (map Own_locks lres @ Own_metadata # Own_sessions #
          map Own_task_queue tres @ map Own_client_queue client_queue_parts) = Failed rc live"
        by (auto simp: server_storage_def)
      from listen_failed [OF this l [unfolded Some] t] show ?thesis by blast
    qed
  qed
qed

text \<open>C12: a start that fails leaves nothing behind, with three exceptions: when the task queue cannot be allocated
  the client queue is not released, when the database cannot be opened its handle stays open if the library made
  one, and when the address lookup fails nothing is released.\<close>

theorem server_start_cleans_up:
  assumes "server_start E b arg net fs = Failed rc live"
  shows "rc = 1 \<and> (live \<noteq> [] \<longrightarrow>
    (\<not> fst (bt_tq b) \<and> live = map Own_client_queue client_queue_parts) \<or>
    (live = [Own_metadata] \<and> (\<exists>d. user_metadata_init E (Some ''storage/stash.db'') None = (- 1, Some d))) \<or>
    bt_addrinfo b \<noteq> 0)"
proof -
  obtain ok m e f ok' m' e' f' where b: "bt_cq b = (ok, m, e, f)" "bt_tq b = (ok', m', e', f')" by (metis prod_cases4)
  obtain c1 cq cres where c: "client_queue_init ok m e f (queue_capacity arg) = (c1, cq, cres)" by (metis prod_cases3)
  obtain t1 tq tres where t: "task_queue_init ok' m' e' f' TASK_QUEUE_CAPACITY = (t1, tq, tres)" by (metis prod_cases3)
  obtain s1 sm where s: "session_manager_init (bt_sm b) = (s1, sm)" by fastforce
  show ?thesis
  proof (cases cq)
    case None
    with c have "cres = []" by (auto simp: client_queue_init_def Let_def release_def split: if_splits)
    with assms b c None show ?thesis by (simp add: server_start_def)
  next
    case (Some q)
    with c have parts: "cres = client_queue_parts"
      by (auto simp: client_queue_init_def client_queue_parts_def Let_def release_def split: if_splits)
    show ?thesis
    proof (cases tq)
      case None
      with t have "\<not> ok'" "tres = []" by (auto simp: task_queue_init_def TASK_QUEUE_CAPACITY_def split: if_splits)
      with assms b c t Some None parts show ?thesis by (simp add: server_start_def)
    next
      case t': (Some u)
      note T = t [unfolded t']
      show ?thesis
      proof (cases sm)
        case None
        with assms b c t t' Some s parts show ?thesis
          by (auto simp: server_start_def client_queue_dropped task_queue_dropped [OF T])
      next
        case s': (Some v)
        with assms b c t t' Some s parts have "server_storage E b q u v net fs (Own_sessions # map Own_task_queue tres @
            map Own_client_queue client_queue_parts) = Failed rc live" by (simp add: server_start_def)
        from storage_failed [OF this T] show ?thesis by blast
      qed
    qed
  qed
qed

text \<open>The mutex of the session manager cannot be initialised.\<close>

lemma server_start_cleans_up_witness:
  "server_start ref_engine (good_boot\<lparr>bt_sm := 12\<rparr>) None example_net empty_fs = Failed 1 []"
proof -
  let ?b = "good_boot\<lparr>bt_sm := 12\<rparr>"
  have "\<exists>rc live. server_start ref_engine ?b None example_net empty_fs = Failed rc live"
    by (simp add: server_start_def good_boot_def client_queue_init_def queue_capacity_def DEFAULT_QUEUE_CAPACITY_def
        task_queue_init_def TASK_QUEUE_CAPACITY_def session_manager_init_def)
  then obtain rc live where f: "server_start ref_engine ?b None example_net empty_fs = Failed rc live" by blast
  have "fst (bt_tq ?b)" "bt_addrinfo ?b = 0" by (simp_all add: good_boot_def)
  moreover have "fst (user_metadata_init ref_engine (Some ''storage/stash.db'') None) = 0"
    by (simp add: user_metadata_init_def db_init_def ref_engine_def ref_run)
  ultimately show ?thesis using server_start_cleans_up [OF f] f by auto
qed

section \<open>An orderly end\<close>

lemma locks_dropped_later:
  assumes "file_lock_manager_init mtx mgr c = (rc, Some lm, res)" "lm_capacity lm' = lm_capacity lm" "of_locks live = res"
  shows "drop_locks lm' live = without is_lock live"
  using locks_dropped [OF assms(1,3)] assms(2) by (simp add: drop_locks_def file_lock_manager_destroy_def)

lemma listen_holdings:
  "server_listen b cq tq sm db lm net fs live = Started sh fd live' \<Longrightarrow>
    live' = Own_listen fd # live \<and> sv_lm (sh_server sh) = lm"
  by (auto simp: server_listen_def Let_def split: if_splits option.splits)

lemma storage_holdings:
  assumes "server_storage E b cq tq sm net fs live = Started sh fd live'"
  obtains rc lm res where "file_lock_manager_init (bt_locks b) (bt_lock_mgr b) MAX_FILE_LOCKS = (rc, Some lm, res)"
    "live' = Own_listen fd # map Own_locks res @ Own_metadata # live" "sv_lm (sh_server sh) = lm"
proof -
  obtain mrc db where md: "user_metadata_init E (Some ''storage/stash.db'') None = (mrc, db)" by fastforce
  obtain rc lm res where l: "file_lock_manager_init (bt_locks b) (bt_lock_mgr b) MAX_FILE_LOCKS = (rc, lm, res)"
    by (metis prod_cases3)
  from assms md have "mrc = 0" by (auto simp: server_storage_def Let_def split: if_splits)
  with md metadata_init_ok have "db \<noteq> None" by blast
  moreover from assms md l \<open>mrc = 0\<close> obtain m where "lm = Some m" by (cases lm) (auto simp: server_storage_def Let_def)
  ultimately have "server_listen b cq tq sm db m net fs (map Own_locks res @ Own_metadata # live) = Started sh fd live'"
    using assms md l \<open>mrc = 0\<close> by (cases db) (auto simp: server_storage_def)
  from listen_holdings [OF this] l \<open>lm = Some m\<close> that show thesis by blast
qed

text \<open>C13: an orderly shutdown releases all that the start set up, and nothing twice. Whatever the threads have done to the queues,
  the sessions, the files and the database in between, as long as the lock table has the capacity it had, the clean-up that \<open>main\<close> runs
  after it has joined them destroys every mutex, condition variable and buffer of the start, once each: what is left is the listening socket,
  which the signal handler closes, and no mark of something that was destroyed without being held (\<open>release\<close>). Every
  session still in the table is destroyed as well. (The task queue's mutex and condition variables count as set up whatever their
  initialisers return, since the code does not look.)\<close>

theorem shutdown_releases_setup:
  assumes "server_start E b arg net fs = Started sh0 fd live0"
    and "lm_capacity (sv_lm (sh_server sh)) = lm_capacity (sv_lm (sh_server sh0))"
  shows "\<exists>stats sh'. final_cleanup live0 sh = (stats, [Own_listen fd], sh') \<and> sv_db (sh_server sh') = None \<and>
    sv_sm (sh_server sh') = session_manager_destroy (sv_sm (sh_server sh))"
proof -
  obtain ok m e f ok' m' e' f' where b: "bt_cq b = (ok, m, e, f)" "bt_tq b = (ok', m', e', f')" by (metis prod_cases4)
  obtain c1 cq cres where c: "client_queue_init ok m e f (queue_capacity arg) = (c1, cq, cres)" by (metis prod_cases3)
  obtain t1 tq tres where t: "task_queue_init ok' m' e' f' TASK_QUEUE_CAPACITY = (t1, tq, tres)" by (metis prod_cases3)
  obtain s1 sm where s: "session_manager_init (bt_sm b) = (s1, sm)" by fastforce
  from assms(1) b c t s obtain q u v where some: "cq = Some q" "tq = Some u" "sm = Some v"
    by (auto simp: server_start_def Let_def split: option.splits)
  then have parts: "cres = client_queue_parts"
    using c by (auto simp: client_queue_init_def client_queue_parts_def Let_def release_def split: if_splits)
  note T = t [unfolded some]
  from assms(1) b c t s some have "server_storage E b q u v net fs
      (Own_sessions # map Own_task_queue tres @ map Own_client_queue cres) = Started sh0 fd live0"
    by (simp add: server_start_def)
  then obtain rc lm res where l: "file_lock_manager_init (bt_locks b) (bt_lock_mgr b) MAX_FILE_LOCKS = (rc, Some lm, res)"
    "live0 = Own_listen fd # map Own_locks res @ Own_metadata # Own_sessions # map Own_task_queue tres @ map Own_client_queue cres"
    "sv_lm (sh_server sh0) = lm"
    by (rule storage_holdings)
  show ?thesis
    using assms(2) parts l(2,3)
    by (simp add: final_cleanup_def locks_dropped_later [OF l(1)] task_queue_dropped [OF T] client_queue_dropped
        session_get_statistics_def client_queue_destroy_def task_queue_destroy_def user_metadata_cleanup_def db_close_def Let_def)
qed

theorem shutdown_releases_setup_witness:
  "\<exists>sh live. server_start ref_engine good_boot None example_net empty_fs = Started sh 4 live \<and>
    fst (snd (final_cleanup live sh)) = [Own_listen 4]"
proof -
  obtain sh live where st: "server_start ref_engine good_boot None example_net empty_fs = Started sh 4 live"
    by (rule good_start)
  from shutdown_releases_setup [OF st refl] st show ?thesis by force
qed

text \<open>The leaks are there: a wrong port leaves everything that was set up before.\<close>

lemma bad_address_leaks:
  "bt_addrinfo b \<noteq> 0 \<Longrightarrow> server_listen b cq tq sm db lm net fs live = Failed 1 live"
  by (simp add: server_listen_def)

lemma no_task_queue_leaks:
  "fst (bt_cq b) \<Longrightarrow> snd (bt_cq b) = (0, 0, 0) \<Longrightarrow> \<not> fst (bt_tq b) \<Longrightarrow>
     server_start E b arg net fs = Failed 1 (map Own_client_queue client_queue_parts)"
  by (cases "bt_cq b"; cases "bt_tq b")
    (auto simp: server_start_def client_queue_init_def task_queue_init_def queue_capacity_def client_queue_parts_def
      DEFAULT_QUEUE_CAPACITY_def Let_def split: option.splits)

end
