(* ===== verification/Storage_Props.thy ===== *)
theory Storage_Props
  imports Worker_Props
begin

text \<open>
  The properties of the storage workers, and concrete runs of them.
\<close>

section \<open>Runs in which every call succeeds\<close>

lemma io_next_Nil [simp]: "fs_script fs = [] \<Longrightarrow> io_next fs = (Io_ok, fs)"
  by (simp add: io_next_def)

lemma guarded_run:
  assumes "fst (user_exists E (Some (t_username task)) (sv_db sv))" "lm_idle (sv_lm sv)"
  obtains k m where "file_lock_release m k = sv_lm sv"
    "check_user E task no_user (with_lock me task no_lock body) sv =
       body k (sv\<lparr>sv_db := snd (user_exists E (Some (t_username task)) (sv_db sv)), sv_lm := m\<rparr>)"
proof -
  obtain db where u: "user_exists E (Some (t_username task)) (sv_db sv) = (True, db)"
    using assms(1) by (cases "user_exists E (Some (t_username task)) (sv_db sv)") simp
  from lock_and_release [OF assms(2), of me "t_username task" "t_filename task"] obtain k m where
    "file_lock_acquire me (sv_lm sv) (t_username task) (t_filename task) = Some (Some k, m)"
    "file_lock_release m k = sv_lm sv" by blast
  with u show thesis by (intro that [of m k]) (simp_all add: check_user_def with_lock_def)
qed

text \<open>The tree has no file where the task's directories belong.\<close>

definition dirs_free :: "fsys \<Rightarrow> Task \<Rightarrow> bool" where
  "dirs_free fs task \<longleftrightarrow> file_at fs (fs_cwd fs @ [''storage'']) = None \<and>
     file_at fs (fs_cwd fs @ [''storage'', t_username task]) = None"

lemma mkdir_ok:
  assumes "fst (io_next fs) = Io_ok" "lookup fs s = Inr p" "file_at fs p = None"
  shows "is_dir (fs_mkdir s fs) p" "fs_files (fs_mkdir s fs) = fs_files fs" "fs_cwd (fs_mkdir s fs) = fs_cwd fs"
    "fs_script (fs_mkdir s fs) = fs_script (snd (io_next fs))" "is_dir fs q \<Longrightarrow> is_dir (fs_mkdir s fs) q"
    "q \<noteq> p \<Longrightarrow> is_dir (fs_mkdir s fs) q = is_dir fs q"
proof -
  obtain fs1 where n: "io_next fs = (Io_ok, fs1)" using assms(1) by (cases "io_next fs") simp
  note t = io_next_tree [OF n] and r = same_tree_reads [OF io_next_tree [OF n]]
  have "lookup fs1 s = Inr p" "file_at fs1 p = None" using assms r by simp_all
  then have m: "fs_mkdir s fs = (if is_dir fs1 p then fs1 else fs1\<lparr>fs_dirs := fs_dirs fs1 @ [p]\<rparr>)"
    by (simp add: fs_mkdir_def n)
  show "is_dir (fs_mkdir s fs) p" "fs_files (fs_mkdir s fs) = fs_files fs" "fs_cwd (fs_mkdir s fs) = fs_cwd fs"
    "fs_script (fs_mkdir s fs) = fs_script (snd (io_next fs))" "is_dir fs q \<Longrightarrow> is_dir (fs_mkdir s fs) q"
    "q \<noteq> p \<Longrightarrow> is_dir (fs_mkdir s fs) q = is_dir fs q"
    using r(2) [of q] n t by (auto simp: m is_dir_def same_tree_def)
qed

text \<open>The state after the directories were made, with the events they took off the script.\<close>

lemma make_dirs_ok:
  assumes p: "plain_task task" and free: "dirs_free (sv_fs sv) task"
    and ev: "fs_script (sv_fs sv) = [] \<and> es = [] \<or> fs_script (sv_fs sv) = Io_ok # Io_ok # es"
  shows "fs_script (sv_fs (make_dirs task sv)) = es" "fs_files (sv_fs (make_dirs task sv)) = fs_files (sv_fs sv)"
    "lookup (sv_fs (make_dirs task sv)) (file_path task) = Inr (target (sv_fs sv) task)"
    "is_dir (sv_fs (make_dirs task sv)) (target (sv_fs sv) task) = is_dir (sv_fs sv) (target (sv_fs sv) task)"
    "fs_cwd (sv_fs (make_dirs task sv)) = fs_cwd (sv_fs sv)"
    "dirs_free (sv_fs (make_dirs task sv)) task"
proof -
  let ?f0 = "sv_fs sv" let ?f1 = "fs_mkdir ''storage'' ?f0" let ?f2 = "fs_mkdir (user_path task) ?f1"
  let ?c = "fs_cwd ?f0" let ?s = "?c @ [''storage'']" and ?u = "?c @ [''storage'', t_username task]"
  have pu: "plain (t_username task)" using p by (simp add: plain_task_def)
  have up: "user_path task \<noteq> [] \<and> hd (user_path task) \<noteq> CHR ''/''"
    using p by (simp add: user_path_def fit_def plain_task_def)
  have l0: "lookup ?f0 ''storage'' = Inr ?s" by (simp add: lookup_def)
  have e0: "fst (io_next ?f0) = Io_ok" using ev by (auto simp: io_next_def)
  note m1 = mkdir_ok [OF e0 l0]
  have fr: "file_at ?f0 ?s = None" "file_at ?f0 ?u = None" using free by (simp_all add: dirs_free_def)
  have c1: "fs_cwd ?f1 = ?c" and files1: "fs_files ?f1 = fs_files ?f0" using m1(2,3) fr by simp_all
  have d1: "is_dir ?f1 ?s" using m1(1) fr by blast
  have l1: "lookup ?f1 (user_path task) = Inr ?u"
    using up pu d1 by (simp add: lookup_def file_path_components(3) [OF p] c1 plain_def)
  have e1: "fst (io_next ?f1) = Io_ok" using ev m1(4) fr by (auto simp: io_next_def)
  have fr1: "file_at ?f1 ?u = None" using fr files1 by (simp add: file_at_def)
  note m2 = mkdir_ok [OF e1 l1 fr1]
  have eq: "sv_fs (make_dirs task sv) = ?f2" by (simp add: make_dirs_def)
  have c2: "fs_cwd ?f2 = ?c" and files2: "fs_files ?f2 = fs_files ?f0" using m2 c1 files1 by simp_all
  have d2: "is_dir ?f2 ?s" "is_dir ?f2 ?u" using m2(5) [OF d1] m2(1) by blast+
  show "fs_script (sv_fs (make_dirs task sv)) = es" using ev m2(4) m1(4) fr by (auto simp: eq io_next_def)
  show "fs_files (sv_fs (make_dirs task sv)) = fs_files (sv_fs sv)"
    "fs_cwd (sv_fs (make_dirs task sv)) = fs_cwd (sv_fs sv)" using files2 c2 by (simp_all add: eq)
  show "lookup (sv_fs (make_dirs task sv)) (file_path task) = Inr (target (sv_fs sv) task)"
    using lookup_file_path [OF p, of ?f2] d2 c2 by (simp add: eq target_def)
  show "is_dir (sv_fs (make_dirs task sv)) (target (sv_fs sv) task) = is_dir (sv_fs sv) (target (sv_fs sv) task)"
    using m2(6) [of "target ?f0 task"] m1(6) [of "target ?f0 task"] fr by (simp add: eq target_def)
  show "dirs_free (sv_fs (make_dirs task sv)) task"
    using fr files2 c2 by (simp add: eq dirs_free_def file_at_def)
qed

section \<open>The bodies under the lock\<close>

lemma upload_locked_ok:
  assumes "lookup (sv_fs sv) (file_path task) = Inr p" "\<not> is_dir (sv_fs sv) p" "fs_script (sv_fs sv) = []"
    and "t_data_buffer task = Some b" "unat (t_filesize task) = length b"
  shows "upload_locked E now task k sv =
    map_option (free_buffer task) (reply now task RESPONSE_SUCCESS (''UPLOAD OK'' @ [LF]) None 0
      (unlock k (sv\<lparr>sv_fs := set_file p b (set_file p [] (sv_fs sv)),
        sv_db := snd (user_add_file E (Some (t_username task)) (Some (t_filename task)) (t_filesize task) (sv_db sv))\<rparr>)))"
proof -
  obtain meta db where m: "user_add_file E (Some (t_username task)) (Some (t_filename task)) (t_filesize task) (sv_db sv)
      = (meta, db)" by fastforce
  show ?thesis
    unfolding upload_locked_def using assms
    by (simp add: fs_fopen_wb_def fs_fwrite_def fs_fclose_w_def m)
qed

lemma download_locked_ok:
  assumes "lookup (sv_fs sv) (file_path task) = Inr p" "\<not> is_dir (sv_fs sv) p" "fs_script (sv_fs sv) = []"
    and "file_at (sv_fs sv) p = Some b"
  shows "download_locked now task k sv =
    reply now task RESPONSE_SUCCESS ([LF] @ ''DOWNLOAD OK'' @ [LF]) (Some b) (length b) (unlock k sv)"
  unfolding download_locked_def using assms
  by (simp add: fs_fopen_rb_def fs_fseek_def fs_ftell_end_def fs_malloc_def fs_fread_def fs_fclose_r_def)

lemma download_locked_missing:
  assumes "lookup (sv_fs sv) (file_path task) = Inr p" "\<not> is_dir (sv_fs sv) p" "fs_script (sv_fs sv) = []"
    and "file_at (sv_fs sv) p = None"
  shows "download_locked now task k sv =
    reply now task RESPONSE_FILE_NOT_FOUND (''DOWNLOAD ERROR: File not found'' @ [LF]) None 0 (unlock k sv)"
  unfolding download_locked_def using assms by (simp add: fs_fopen_rb_def download_open_error_def)

lemma delete_locked_ok:
  assumes "lookup (sv_fs sv) (file_path task) = Inr p" "fs_script (sv_fs sv) = []" "file_at (sv_fs sv) p \<noteq> None"
  shows "delete_locked E now task k sv =
    reply now task RESPONSE_SUCCESS (''DELETE OK'' @ [LF]) None 0
      (unlock k (sv\<lparr>sv_fs := unset_file p (sv_fs sv),
        sv_db := snd (user_remove_file E (Some (t_username task)) (Some (t_filename task)) (sv_db sv))\<rparr>))"
proof -
  obtain meta db where m: "user_remove_file E (Some (t_username task)) (Some (t_filename task)) (sv_db sv) = (meta, db)"
    by fastforce
  show ?thesis unfolding delete_locked_def using assms by (simp add: fs_remove_def m)
qed

section \<open>Whole tasks\<close>

text \<open>A state in which a task can be carried out.\<close>

definition can_serve :: "'d sqlite \<Rightarrow> Task \<Rightarrow> 'd server \<Rightarrow> bool" where
  "can_serve E task sv \<longleftrightarrow> sm_wf (sv_sm sv) \<and> lm_idle (sv_lm sv) \<and> plain_task task \<and>
     fst (user_exists E (Some (t_username task)) (sv_db sv)) \<and>
     fs_script (sv_fs sv) = [] \<and> dirs_free (sv_fs sv) task \<and> \<not> is_dir (sv_fs sv) (target (sv_fs sv) task)"

lemma make_dirs_simps [simp]:
  "sv_sm (make_dirs task sv) = sv_sm sv" "sv_lm (make_dirs task sv) = sv_lm sv"
  "sv_db (make_dirs task sv) = sv_db sv" "sv_freed (make_dirs task sv) = sv_freed sv"
  by (simp_all add: make_dirs_def)

lemma can_serve_dirs:
  assumes "can_serve E task sv"
  shows "fs_script (sv_fs (make_dirs task sv)) = []" "fs_files (sv_fs (make_dirs task sv)) = fs_files (sv_fs sv)"
    "lookup (sv_fs (make_dirs task sv)) (file_path task) = Inr (target (sv_fs sv) task)"
    "\<not> is_dir (sv_fs (make_dirs task sv)) (target (sv_fs sv) task)"
    "fs_cwd (sv_fs (make_dirs task sv)) = fs_cwd (sv_fs sv)"
    "file_at (sv_fs (make_dirs task sv)) q = file_at (sv_fs sv) q"
    "dirs_free (sv_fs (make_dirs task sv)) task"
proof -
  from assms have h: "plain_task task" "dirs_free (sv_fs sv) task"
    "fs_script (sv_fs sv) = [] \<and> [] = ([] :: io_event list) \<or> fs_script (sv_fs sv) = Io_ok # Io_ok # []"
    "\<not> is_dir (sv_fs sv) (target (sv_fs sv) task)" by (simp_all add: can_serve_def)
  note d = make_dirs_ok [OF h(1-3)]
  show "fs_script (sv_fs (make_dirs task sv)) = []" "fs_files (sv_fs (make_dirs task sv)) = fs_files (sv_fs sv)"
    "lookup (sv_fs (make_dirs task sv)) (file_path task) = Inr (target (sv_fs sv) task)"
    "fs_cwd (sv_fs (make_dirs task sv)) = fs_cwd (sv_fs sv)" "dirs_free (sv_fs (make_dirs task sv)) task"
    by (fact d)+
  show "\<not> is_dir (sv_fs (make_dirs task sv)) (target (sv_fs sv) task)" using d(4) h(4) by simp
  show "file_at (sv_fs (make_dirs task sv)) q = file_at (sv_fs sv) q" by (simp add: file_at_def d(2))
qed

lemma sv_fs_more:
  "reply now task st m d n sv = Some sv' \<Longrightarrow> sv_fs sv' = sv_fs sv \<and> sv_lm sv' = sv_lm sv \<and> sv_db sv' = sv_db sv"
  by (auto simp: reply_def)

lemma upload_run:
  assumes c: "can_serve E task sv" and t: "t_type task = TASK_UPLOAD"
    and b: "t_data_buffer task = Some b" "unat (t_filesize task) = length b"
  obtains sv' where "worker_task E me now task sv = Some sv'"
    "sv_sm sv' = answered now (t_session_id task) RESPONSE_SUCCESS (''UPLOAD OK'' @ [LF]) None 0 (sv_sm sv)"
    "sv_lm sv' = sv_lm sv" "file_at (sv_fs sv') (target (sv_fs sv) task) = Some b"
    "sv_db sv' = snd (user_add_file E (Some (t_username task)) (Some (t_filename task)) (t_filesize task)
      (snd (user_exists E (Some (t_username task)) (sv_db sv))))"
    "fs_script (sv_fs sv') = []" "fs_cwd (sv_fs sv') = fs_cwd (sv_fs sv)" "dirs_free (sv_fs sv') task"
    "\<not> is_dir (sv_fs sv') (target (sv_fs sv) task)"
proof -
  let ?sv = "make_dirs task sv" let ?p = "target (sv_fs sv) task"
  note d = can_serve_dirs [OF c]
  have u: "fst (user_exists E (Some (t_username task)) (sv_db ?sv))" and l: "lm_idle (sv_lm ?sv)"
    and wf: "sm_wf (sv_sm sv)" using c by (simp_all add: can_serve_def)
  obtain k m where rel: "file_lock_release m k = sv_lm ?sv" and run: "task_upload E me now task ?sv =
      upload_locked E now task k (?sv\<lparr>sv_db := snd (user_exists E (Some (t_username task)) (sv_db ?sv)), sv_lm := m\<rparr>)"
    unfolding task_upload_def by (rule guarded_run [OF u l])
  let ?svk = "?sv\<lparr>sv_db := snd (user_exists E (Some (t_username task)) (sv_db ?sv)), sv_lm := m\<rparr>"
  have run': "worker_task E me now task sv = upload_locked E now task k ?svk"
    using t run by (simp add: worker_task_def Let_def)
  have up: "upload_locked E now task k ?svk =
    map_option (free_buffer task) (reply now task RESPONSE_SUCCESS (''UPLOAD OK'' @ [LF]) None 0
      (unlock k (?svk\<lparr>sv_fs := set_file ?p b (set_file ?p [] (sv_fs ?svk)),
        sv_db := snd (user_add_file E (Some (t_username task)) (Some (t_filename task)) (t_filesize task) (sv_db ?svk))\<rparr>)))"
    by (rule upload_locked_ok) (use d b in simp_all)
  have far: "fs_cwd (sv_fs sv) @ [''storage''] \<noteq> ?p" "fs_cwd (sv_fs sv) @ [''storage'', t_username task] \<noteq> ?p"
    by (simp_all add: target_def)
  let ?svu = "unlock k (?svk\<lparr>sv_fs := set_file ?p b (set_file ?p [] (sv_fs ?svk)),
        sv_db := snd (user_add_file E (Some (t_username task)) (Some (t_filename task)) (t_filesize task) (sv_db ?svk))\<rparr>)"
  have wfu: "sm_wf (sv_sm ?svu)" using wf by (simp add: unlock_def)
  have fin: "worker_task E me now task sv = Some (free_buffer task (?svu\<lparr>sv_sm :=
      answered now (t_session_id task) RESPONSE_SUCCESS (''UPLOAD OK'' @ [LF]) None 0 (sv_sm ?svu)\<rparr>))"
    by (simp only: run' up reply_eq [OF wfu] option.map)
  show thesis
    by (rule that [OF fin])
      (use rel d far in \<open>simp_all add: unlock_def free_buffer_def file_at_set_file dirs_free_def\<close>)
qed

lemma download_run:
  assumes c: "can_serve E task sv" and t: "t_type task = TASK_DOWNLOAD"
  shows "\<exists>sv'. worker_task E me now task sv = Some sv' \<and> sv_sm sv' =
    (case file_at (sv_fs sv) (target (sv_fs sv) task) of
       Some b \<Rightarrow> answered now (t_session_id task) RESPONSE_SUCCESS ([LF] @ ''DOWNLOAD OK'' @ [LF])
                   (Some b) (length b) (sv_sm sv)
     | None \<Rightarrow> answered now (t_session_id task) RESPONSE_FILE_NOT_FOUND
                   (''DOWNLOAD ERROR: File not found'' @ [LF]) None 0 (sv_sm sv))"
proof -
  let ?sv = "make_dirs task sv" let ?p = "target (sv_fs sv) task"
  note d = can_serve_dirs [OF c]
  have u: "fst (user_exists E (Some (t_username task)) (sv_db ?sv))" and l: "lm_idle (sv_lm ?sv)"
    and wf: "sm_wf (sv_sm sv)" using c by (simp_all add: can_serve_def)
  obtain k m where run: "task_download E me now task ?sv =
      download_locked now task k (?sv\<lparr>sv_db := snd (user_exists E (Some (t_username task)) (sv_db ?sv)), sv_lm := m\<rparr>)"
    unfolding task_download_def by (rule guarded_run [OF u l])
  let ?svk = "?sv\<lparr>sv_db := snd (user_exists E (Some (t_username task)) (sv_db ?sv)), sv_lm := m\<rparr>"
  have run': "worker_task E me now task sv = download_locked now task k ?svk"
    using t run by (simp add: worker_task_def Let_def)
  show ?thesis
  proof (cases "file_at (sv_fs sv) ?p")
    case None
    then have "download_locked now task k ?svk = reply now task RESPONSE_FILE_NOT_FOUND
        (''DOWNLOAD ERROR: File not found'' @ [LF]) None 0 (unlock k ?svk)"
      by (intro download_locked_missing [where p = ?p]) (use d in simp_all)
    with None wf show ?thesis by (simp add: run' reply_eq unlock_def)
  next
    case (Some b)
    then have "download_locked now task k ?svk = reply now task RESPONSE_SUCCESS
        ([LF] @ ''DOWNLOAD OK'' @ [LF]) (Some b) (length b) (unlock k ?svk)"
      by (intro download_locked_ok [where p = ?p]) (use d in simp_all)
    with Some wf show ?thesis by (simp add: run' reply_eq unlock_def)
  qed
qed

section \<open>Properties\<close>

text \<open>A server with no session, the database of \<open>ann\<close>, her file and a file of another user.\<close>

definition small_locks :: FileLockManager where
  "small_locks = \<lparr>lm_locks = [unused_lock, unused_lock], lm_capacity = 2\<rparr>"

definition small_fs :: "io_event list \<Rightarrow> fsys" where
  "small_fs es = \<lparr>fs_cwd = [''srv''], fs_files = [([''srv'', ''storage'', ''ann'', ''a.txt''], ''secret''),
      ([''srv'', ''storage'', ''stash.db''], ''db'')],
    fs_dirs = [[''srv''], [''srv'', ''storage''], [''srv'', ''storage'', ''ann'']], fs_script = es\<rparr>"

definition small_server :: "io_event list \<Rightarrow> ref_db server" where
  "small_server es = \<lparr>sv_sm = two_sessions, sv_lm = small_locks, sv_db = Some (ann_db []),
     sv_fs = small_fs es, sv_freed = 0\<rparr>"

definition ann_upload :: Task where
  "ann_upload = zero_task\<lparr>t_type := TASK_UPLOAD, t_session_id := 2, t_username := ''ann'',
     t_filename := ''b.txt'', t_filesize := 3, t_data_buffer := Some ''xyz''\<rparr>"

definition ann_download :: Task where
  "ann_download = zero_task\<lparr>t_type := TASK_DOWNLOAD, t_session_id := 2, t_username := ''ann'',
     t_filename := ''b.txt''\<rparr>"

lemma small_locks_idle: "lm_idle small_locks"
  by (simp add: lm_idle_def lm_wf_def small_locks_def unused_lock_def fl_ok_def MAX_FILE_LOCKS_def
      MAX_FILEPATH_LEN_def less_2_cases_iff nth_Cons')

lemma small_server_wf: "sm_wf (sv_sm (small_server es))" "lm_idle (sv_lm (small_server es))"
  by (simp_all add: small_server_def two_sessions_wf small_locks_idle)

lemma ann_exists: "fst (user_exists ref_engine (Some ''ann'') (Some (ann_db [])))"
  by (simp add: user_exists_def db_user_exists_def ref_run)

lemma small_can_serve:
  assumes "t_username task = ''ann''" "t_filename task = ''b.txt''"
  shows "can_serve ref_engine task (small_server [])"
  using assms small_server_wf [of "[]"] ann_exists
  by (simp add: can_serve_def plain_task_def plain_def dirs_free_def target_def)
    (simp add: small_server_def small_fs_def is_dir_def file_at_def)

text \<open>C17: every task is answered exactly once, whatever call of the file system, the database or the
  allocator fails: the handler returns, sets the response of the task's session once (with a message or
  data, and a size the data has) if the session is still there, leaves the lock table as it found it and
  frees the buffer of an upload exactly once.\<close>

theorem worker_answers_every_task:
  assumes "sm_wf (sv_sm sv)" "lm_idle (sv_lm sv)"
  shows "\<exists>sv' st m d n. worker_task E me now task sv = Some sv' \<and>
    sv_sm sv' = answered now (t_session_id task) st m d n (sv_sm sv) \<and>
    (m \<noteq> [] \<or> d \<noteq> None) \<and> length m < 512 \<and> (case d of None \<Rightarrow> n = 0 | Some b \<Rightarrow> n \<le> length b) \<and>
    sv_lm sv' = sv_lm sv \<and>
    sv_freed sv' = sv_freed sv + (if t_type task = TASK_UPLOAD \<and> t_data_buffer task \<noteq> None then 1 else 0)"
proof -
  have "(if t_type task = TASK_UPLOAD then frees task else 0)
      = (if t_type task = TASK_UPLOAD \<and> t_data_buffer task \<noteq> None then 1 else 0)" by (simp add: frees_def)
  with worker_task_done [OF assms, of now task E me] show ?thesis
    unfolding task_done_def by (simp only:)
qed

lemma worker_answers_every_task_witness:
  "\<exists>sv'. worker_task ref_engine 0 200 ann_upload (small_server [Io_ok, Io_error ENOSPC, Io_error EACCES]) = Some sv' \<and>
    sv_freed sv' = 1 \<and> sv_lm sv' = small_locks"
proof -
  let ?sv = "small_server [Io_ok, Io_error ENOSPC, Io_error EACCES]"
  have "sv_lm ?sv = small_locks" "sv_freed ?sv = 0" "t_type ann_upload = TASK_UPLOAD" "t_data_buffer ann_upload \<noteq> None"
    by (simp_all add: small_server_def ann_upload_def)
  with worker_answers_every_task [OF small_server_wf, of ref_engine 0 200 ann_upload
      "[Io_ok, Io_error ENOSPC, Io_error EACCES]"] show ?thesis by auto
qed

text \<open>C18: what is uploaded is what is downloaded: when no call fails, an upload of the bytes \<open>b\<close> is answered
  with \<open>UPLOAD OK\<close>, and a download of the file by that user after it, with whatever session, with exactly
  those bytes.\<close>

theorem upload_download_roundtrip:
  assumes "can_serve E up sv" "t_type up = TASK_UPLOAD" "t_data_buffer up = Some b" "unat (t_filesize up) = length b"
    and "worker_task E me now up sv = Some sv1"
    and "t_type dn = TASK_DOWNLOAD" "t_username dn = t_username up" "t_filename dn = t_filename up"
    and "fst (user_exists E (Some (t_username dn)) (sv_db sv1))"
  shows "sv_sm sv1 = answered now (t_session_id up) RESPONSE_SUCCESS (''UPLOAD OK'' @ [LF]) None 0 (sv_sm sv) \<and>
    (\<exists>sv2. worker_task E me' now' dn sv1 = Some sv2 \<and> sv_sm sv2 =
       answered now' (t_session_id dn) RESPONSE_SUCCESS ([LF] @ ''DOWNLOAD OK'' @ [LF]) (Some b) (length b) (sv_sm sv1))"
proof (rule upload_run [OF assms(1-4), of me now])
  fix sv' assume r: "worker_task E me now up sv = Some sv'"
    "sv_sm sv' = answered now (t_session_id up) RESPONSE_SUCCESS (''UPLOAD OK'' @ [LF]) None 0 (sv_sm sv)"
    "sv_lm sv' = sv_lm sv" "file_at (sv_fs sv') (target (sv_fs sv) up) = Some b"
    "fs_script (sv_fs sv') = []" "fs_cwd (sv_fs sv') = fs_cwd (sv_fs sv)" "dirs_free (sv_fs sv') up"
    "\<not> is_dir (sv_fs sv') (target (sv_fs sv) up)"
  have eq: "sv1 = sv'" using assms(5) r(1) by simp
  have t: "target (sv_fs sv1) dn = target (sv_fs sv) up" using r(6) assms(7,8) by (simp add: eq target_def)
  have "can_serve E dn sv1"
    using assms(1,7-9) r t by (simp add: eq can_serve_def plain_task_def dirs_free_def answered_wf)
  from download_run [OF this assms(6), of me' now'] r(2,4) t show ?thesis by (simp add: eq)
qed

lemma upload_download_roundtrip_witness:
  "\<exists>sv1 sv2. worker_task ref_engine 0 200 ann_upload (small_server []) = Some sv1 \<and>
     worker_task ref_engine 2 201 ann_download sv1 = Some sv2 \<and>
     sv_sm sv2 = answered 201 2 RESPONSE_SUCCESS ([LF] @ ''DOWNLOAD OK'' @ [LF]) (Some ''xyz'') (length ''xyz'') (sv_sm sv1)"
proof -
  have c: "can_serve ref_engine ann_upload (small_server [])" by (rule small_can_serve) (simp_all add: ann_upload_def)
  obtain sv1 where r: "worker_task ref_engine 0 200 ann_upload (small_server []) = Some sv1"
    and db: "sv_db sv1 = snd (user_add_file ref_engine (Some ''ann'') (Some ''b.txt'') 3
      (snd (user_exists ref_engine (Some ''ann'') (Some (ann_db [])))))"
    by (rule upload_run [OF c, of "''xyz''" 0 200]) (simp_all add: ann_upload_def small_server_def)
  have "fst (user_exists ref_engine (Some ''ann'') (sv_db sv1))"
    unfolding db by (simp add: user_add_file_def user_exists_def db_user_exists_def db_add_or_update_file_def ref_run)
  then have ex: "fst (user_exists ref_engine (Some (t_username ann_download)) (sv_db sv1))"
    by (simp add: ann_download_def)
  have u: "t_type ann_upload = TASK_UPLOAD" "t_data_buffer ann_upload = Some ''xyz''"
    "unat (t_filesize ann_upload) = length ''xyz''" by (simp_all add: ann_upload_def)
  have d: "t_type ann_download = TASK_DOWNLOAD" "t_username ann_download = t_username ann_upload"
    "t_filename ann_download = t_filename ann_upload" "t_session_id ann_download = 2"
    by (simp_all add: ann_upload_def ann_download_def)
  from upload_download_roundtrip [OF c u r d(1-3) ex, of 2 201] r show ?thesis unfolding d(4) by blast
qed

text \<open>C19: users with plain names are isolated: whatever task a worker carries out and whatever fails, the
  only file whose contents can change is the task's own, \<open>storage/<user>/<file>\<close>.\<close>

theorem worker_touches_own_file_only:
  assumes "plain_task task" "worker_task E me now task sv = Some sv'"
    and "p \<noteq> fs_cwd (sv_fs sv) @ [''storage'', t_username task, t_filename task]"
  shows "file_at (sv_fs sv') p = file_at (sv_fs sv) p"
  using worker_task_agree [OF assms(1,2)] assms(3) by (simp add: agree_off_def target_def)

lemma worker_touches_own_file_only_witness:
  "\<exists>sv'. worker_task ref_engine 0 200 ann_upload (small_server [Io_ok, Io_ok, Io_ok, Io_short 1]) = Some sv' \<and>
    file_at (sv_fs sv') [''srv'', ''storage'', ''ann'', ''a.txt''] = Some ''secret''"
proof -
  let ?sv = "small_server [Io_ok, Io_ok, Io_ok, Io_short 1]"
  from worker_task_done [OF small_server_wf] obtain sv' where r: "worker_task ref_engine 0 200 ann_upload ?sv = Some sv'"
    unfolding task_done_def by blast
  have p: "plain_task ann_upload" by (simp add: plain_task_def plain_def ann_upload_def)
  have a: "file_at (sv_fs ?sv) [''srv'', ''storage'', ''ann'', ''a.txt''] = Some ''secret''"
    by (simp add: small_server_def small_fs_def file_at_def)
  have n: "[''srv'', ''storage'', ''ann'', ''a.txt''] \<noteq>
      fs_cwd (sv_fs ?sv) @ [''storage'', t_username ann_upload, t_filename ann_upload]"
    by (simp add: ann_upload_def small_server_def small_fs_def)
  from worker_touches_own_file_only [OF p r n] r a show ?thesis by auto
qed

text \<open>A second account, \<open>bob\<close>, that downloads a file by any name.\<close>

definition bob_download :: "string \<Rightarrow> Task" where
  "bob_download f = zero_task\<lparr>t_type := TASK_DOWNLOAD, t_session_id := 2, t_username := ''bob'', t_filename := f\<rparr>"

definition bob_server :: "ref_db server" where
  "bob_server = (small_server [])\<lparr>sv_db := snd (user_create ref_engine (Some ''bob'') (Some ''k'') (Some (ann_db [])))\<rparr>"

lemma fs_mkdir_files: "fs_files (fs_mkdir s fs) = fs_files fs"
proof -
  obtain e fs1 where n: "io_next fs = (e, fs1)" by fastforce
  then show ?thesis by (simp add: fs_mkdir_def split: io_event.split sum.split)
qed

lemma fs_mkdir_script: "fs_script fs = [] \<Longrightarrow> fs_script (fs_mkdir s fs) = []"
  by (simp add: fs_mkdir_def split: sum.split)

lemma bob_runs:
  assumes "lookup (fs_mkdir ''storage/bob'' (fs_mkdir ''storage'' (small_fs []))) (fit 512 (''storage/bob/'' @ f)) = Inr p"
    and "file_at (small_fs []) p = Some b" "\<not> is_dir (fs_mkdir ''storage/bob'' (fs_mkdir ''storage'' (small_fs []))) p"
  shows "map_option sv_sm (worker_task ref_engine 0 200 (bob_download f) bob_server) =
     Some (answered 200 2 RESPONSE_SUCCESS ([LF] @ ''DOWNLOAD OK'' @ [LF]) (Some b) (length b) two_sessions)"
proof -
  let ?t = "bob_download f" let ?sv = "make_dirs ?t bob_server"
  have names: "t_username ?t = ''bob''" "t_filename ?t = f" "t_type ?t = TASK_DOWNLOAD" "t_session_id ?t = 2"
    by (simp_all add: bob_download_def)
  have path: "user_path ?t = ''storage/bob''" "file_path ?t = fit 512 (''storage/bob/'' @ f)"
    unfolding user_path_def file_path_def names by (simp_all add: fit_def)
  have fs: "sv_fs ?sv = fs_mkdir ''storage/bob'' (fs_mkdir ''storage'' (small_fs []))"
    by (simp add: make_dirs_def path bob_server_def small_server_def)
  have tree: "fs_files (sv_fs ?sv) = fs_files (small_fs [])" "fs_script (sv_fs ?sv) = []"
    by (simp_all add: fs fs_mkdir_files fs_mkdir_script small_fs_def)
  have u: "fst (user_exists ref_engine (Some (t_username ?t)) (sv_db ?sv))"
    by (simp add: names bob_server_def user_exists_def user_create_def db_create_user_def db_user_exists_def ref_run)
  have l: "lm_idle (sv_lm ?sv)" and wf: "sm_wf (sv_sm ?sv)"
    using small_server_wf [of "[]"] by (simp_all add: bob_server_def)
  obtain k m where run: "task_download ref_engine 0 200 ?t ?sv =
      download_locked 200 ?t k (?sv\<lparr>sv_db := snd (user_exists ref_engine (Some (t_username ?t)) (sv_db ?sv)), sv_lm := m\<rparr>)"
    unfolding task_download_def by (rule guarded_run [OF u l])
  let ?svk = "?sv\<lparr>sv_db := snd (user_exists ref_engine (Some (t_username ?t)) (sv_db ?sv)), sv_lm := m\<rparr>"
  have "download_locked 200 ?t k ?svk =
      reply 200 ?t RESPONSE_SUCCESS ([LF] @ ''DOWNLOAD OK'' @ [LF]) (Some b) (length b) (unlock k ?svk)"
    by (rule download_locked_ok [where p = p])
      (use assms tree in \<open>simp_all add: path fs file_at_def\<close>)
  with run wf names(3,4) show ?thesis
    by (simp add: worker_task_def Let_def reply_eq unlock_def) (simp add: bob_server_def small_server_def)
qed

text \<open>File names are not plain by themselves: nothing removes \<open>..\<close> from them, and a user downloads
  another user's file, or the database of the server, by a name that climbs out of the user's directory.\<close>

theorem download_path_traversal:
  "map_option sv_sm (worker_task ref_engine 0 200 (bob_download ''../ann/a.txt'') bob_server) =
     Some (answered 200 2 RESPONSE_SUCCESS ([LF] @ ''DOWNLOAD OK'' @ [LF]) (Some ''secret'') (length ''secret'') two_sessions) \<and>
   map_option sv_sm (worker_task ref_engine 0 200 (bob_download ''../stash.db'') bob_server) =
     Some (answered 200 2 RESPONSE_SUCCESS ([LF] @ ''DOWNLOAD OK'' @ [LF]) (Some ''db'') (length ''db'') two_sessions)"
proof
  have fs: "fs_mkdir ''storage/bob'' (fs_mkdir ''storage'' (small_fs [])) =
      (small_fs [])\<lparr>fs_dirs := [[''srv''], [''srv'', ''storage''], [''srv'', ''storage'', ''ann''], [''srv'', ''storage'', ''bob'']]\<rparr>"
    by (simp add: fs_mkdir_def small_fs_def io_next_def lookup_def is_dir_def file_at_def)
  show "map_option sv_sm (worker_task ref_engine 0 200 (bob_download ''../ann/a.txt'') bob_server) =
     Some (answered 200 2 RESPONSE_SUCCESS ([LF] @ ''DOWNLOAD OK'' @ [LF]) (Some ''secret'') (length ''secret'') two_sessions)"
    by (rule bob_runs [where p = "[''srv'', ''storage'', ''ann'', ''a.txt'']"], unfold fs)
      (simp_all add: small_fs_def lookup_def is_dir_def file_at_def fit_def)
  show "map_option sv_sm (worker_task ref_engine 0 200 (bob_download ''../stash.db'') bob_server) =
     Some (answered 200 2 RESPONSE_SUCCESS ([LF] @ ''DOWNLOAD OK'' @ [LF]) (Some ''db'') (length ''db'') two_sessions)"
    by (rule bob_runs [where p = "[''srv'', ''storage'', ''stash.db'']"], unfold fs)
      (simp_all add: small_fs_def lookup_def is_dir_def file_at_def fit_def)
qed


section \<open>Listings\<close>

definition shown :: "string list \<Rightarrow> string list" where
  "shown names = filter (\<lambda>n. n \<notin> {''.'', ''..'', ''metadata.txt'', ''metadata.tmp''}) names"

definition lines_of :: "string list \<Rightarrow> string" where
  "lines_of names = concat (map (\<lambda>n. n @ [LF]) names)"

abbreviation hidden :: "string \<Rightarrow> bool" where
  "hidden n \<equiv> n \<in> {''.'', ''..'', ''metadata.txt'', ''metadata.tmp''}"

lemma list_loop_hidden: "hidden n \<Longrightarrow> list_loop (n # ns) buf = list_loop ns buf"
  by (simp only: list_loop.simps insert_iff empty_iff) auto

lemma list_loop_fits:
  assumes "\<not> hidden n" "length buf + length n + 2 < LIST_BUFFER"
  shows "list_loop (n # ns) buf = list_loop ns (buf @ n @ [LF])"
proof -
  have "n \<noteq> ''.'' \<and> n \<noteq> ''..''" "n \<noteq> ''metadata.txt'' \<and> n \<noteq> ''metadata.tmp''"
    using assms(1) by blast+
  moreover have "\<not> LIST_BUFFER - length buf - 1 \<le> length n + 1" using assms(2) by linarith
  ultimately show ?thesis using assms(2) by (simp only: list_loop.simps Let_def if_False) simp
qed

lemma list_loop_full:
  assumes "\<not> hidden n" "LIST_BUFFER \<le> length buf + length n + 2"
  shows "list_loop (n # ns) buf = buf"
proof -
  have "n \<noteq> ''.'' \<and> n \<noteq> ''..''" "n \<noteq> ''metadata.txt'' \<and> n \<noteq> ''metadata.tmp''"
    using assms(1) by blast+
  moreover have "LIST_BUFFER - length buf - 1 \<le> length n + 1" using assms(2) by linarith
  ultimately show ?thesis by (simp only: list_loop.simps Let_def if_True) simp
qed

lemma list_loop_bound:
  "length buf < LIST_BUFFER - 1 \<Longrightarrow> length (list_loop names buf) < LIST_BUFFER - 1"
proof (induction names arbitrary: buf)
  case (Cons n ns)
  consider "hidden n" | "\<not> hidden n" "length buf + length n + 2 < LIST_BUFFER"
    | "\<not> hidden n" "LIST_BUFFER \<le> length buf + length n + 2" by linarith
  then show ?case
  proof cases
    case 1
    then show ?thesis using Cons.IH [OF Cons.prems] by (simp only: list_loop_hidden)
  next
    case 2
    then have "length (buf @ n @ [LF]) < LIST_BUFFER - 1" by simp
    with Cons.IH show ?thesis by (simp only: list_loop_fits [OF 2])
  next
    case 3
    then show ?thesis using Cons.prems by (simp only: list_loop_full [OF 3])
  qed
qed simp

lemma list_loop_all:
  "length buf + length (lines_of (shown names)) < LIST_BUFFER - 1 \<Longrightarrow>
     list_loop names buf = buf @ lines_of (shown names)"
proof (induction names arbitrary: buf)
  case Nil
  show ?case by (simp add: shown_def lines_of_def)
next
  case (Cons n ns)
  show ?case
  proof (cases "hidden n")
    case True
    then have "shown (n # ns) = shown ns" unfolding shown_def by (simp only: filter.simps not_True_eq_False if_False)
    with Cons.IH [of buf] Cons.prems show ?thesis by (simp only: list_loop_hidden [OF True])
  next
    case False
    then have "shown (n # ns) = n # shown ns" unfolding shown_def by (simp only: filter.simps not_False_eq_True if_True)
    then have s: "lines_of (shown (n # ns)) = n @ LF # lines_of (shown ns)" by (simp add: lines_of_def)
    from Cons.prems have f: "length buf + length n + 2 < LIST_BUFFER" by (simp add: s)
    have "list_loop ns (buf @ n @ [LF]) = buf @ lines_of (shown (n # ns))"
      using Cons.IH [of "buf @ n @ [LF]"] Cons.prems by (simp add: s)
    then show ?thesis by (simp only: list_loop_fits [OF False f])
  qed
qed

text \<open>The entries of a directory but itself and its parent.\<close>

definition dir_entries :: "string list \<Rightarrow> string list" where
  "dir_entries names = filter (\<lambda>n. n \<noteq> ''.'' \<and> n \<noteq> ''..'') names"

lemma shown_dir_entries: "''metadata.txt'' \<notin> set names \<Longrightarrow> ''metadata.tmp'' \<notin> set names \<Longrightarrow> shown names = dir_entries names"
  by (auto simp: shown_def dir_entries_def intro: filter_cong)

text \<open>C29: a listing is complete: when the directory has no entry called \<open>metadata.txt\<close> or \<open>metadata.tmp\<close>, and the names and
  their line ends take at most 4086 bytes, the data sent is one line for every entry but \<open>.\<close> and \<open>..\<close>, in directory
  order, and then \<open>LIST END\<close>; and the string in the buffer never exceeds its 4095 characters, whatever the names are.\<close>

theorem list_text_complete:
  "(''metadata.txt'' \<notin> set names \<and> ''metadata.tmp'' \<notin> set names \<and> length (lines_of (dir_entries names)) \<le> 4086 \<longrightarrow>
     list_text names = lines_of (dir_entries names) @ ''LIST END'' @ [LF]) \<and> length (list_text names) \<le> 4095"
proof
  show "''metadata.txt'' \<notin> set names \<and> ''metadata.tmp'' \<notin> set names \<and> length (lines_of (dir_entries names)) \<le> 4086 \<longrightarrow>
      list_text names = lines_of (dir_entries names) @ ''LIST END'' @ [LF]"
  proof (intro impI, elim conjE)
    assume "''metadata.txt'' \<notin> set names" "''metadata.tmp'' \<notin> set names" "length (lines_of (dir_entries names)) \<le> 4086"
    with list_loop_all [of "[]" names] shown_dir_entries [of names]
    show "list_text names = lines_of (dir_entries names) @ ''LIST END'' @ [LF]"
      by (simp add: list_text_def LIST_BUFFER_def Let_def)
  qed
  show "length (list_text names) \<le> 4095"
    using list_loop_bound [of "[]" names] by (simp add: list_text_def LIST_BUFFER_def Let_def)
qed

lemma list_text_complete_witness:
  "list_text [''.'', ''..'', ''a.txt'', ''b''] = ''a.txt'' @ [LF] @ ''b'' @ [LF] @ ''LIST END'' @ [LF]"
  using list_text_complete [of "[''.'', ''..'', ''a.txt'', ''b'']"]
  by (simp add: dir_entries_def lines_of_def)

text \<open>A user's own file of one of the two names can be uploaded and downloaded, but it is left out of the listing, which
  ends as if it were complete.\<close>

lemma list_omits_metadata:
  assumes "''metadata.txt'' \<notin> set names" "''metadata.tmp'' \<notin> set names" "length (lines_of (dir_entries names)) \<le> 4086"
  shows "list_text (''metadata.txt'' # names) = list_text names"
proof -
  have "shown (''metadata.txt'' # names) = shown names" by (simp add: shown_def)
  with assms list_loop_all [of "[]" "''metadata.txt'' # names"] list_loop_all [of "[]" names] shown_dir_entries [OF assms(1,2)]
  show ?thesis by (simp add: list_text_def LIST_BUFFER_def Let_def)
qed

text \<open>Beyond that bound the end mark itself is cut: with one name of 4092 bytes (or many shorter ones) the
  listing ends in \<open>LI\<close>, and a client that waits for \<open>LIST END\<close> waits on.\<close>

lemma list_end_is_cut:
  assumes "length n = 4092" "\<not> hidden n"
  shows "list_text [n] = n @ [LF] @ ''LI''"
proof -
  have "list_loop [n] [] = n @ [LF]" using list_loop_fits [OF assms(2), of "[]" "[]"] assms(1)
    by (simp add: LIST_BUFFER_def)
  then show ?thesis using assms(1) by (simp add: list_text_def LIST_BUFFER_def)
qed

end
