(* ===== verification/Worker_Steps.thy ===== *)
theory Worker_Steps
  imports Storage_Props Client_Thread
begin

text \<open>
  The handlers of \<open>src/threads/worker_thread.c\<close> once more, cut at every point where another thread can come between:
  a step makes at most one access to what the threads share, be it a critical section of the lock table, a call
  on a file that others may have open, a call of the database, or a use of a session. \<open>run_task\<close> lets one worker take
  its steps undisturbed; it is \<open>worker_task\<close> (\<open>run_task_eq\<close>), so that this is the same program.
\<close>

section \<open>Control points\<close>

text \<open>The answer to a task: status, message, data and their size.\<close>

record answer =
  an_status :: response_status
  an_message :: string
  an_data :: "bytes option"
  an_size :: nat

abbreviation failed :: "string \<Rightarrow> answer" where
  "failed message \<equiv> \<lparr>an_status = RESPONSE_ERROR, an_message = message @ [LF], an_data = None, an_size = 0\<rparr>"

abbreviation not_found :: "string \<Rightarrow> answer" where
  "not_found message \<equiv> \<lparr>an_status = RESPONSE_FILE_NOT_FOUND, an_message = message @ [LF], an_data = None, an_size = 0\<rparr>"

abbreviation success :: "string \<Rightarrow> answer" where
  "success message \<equiv> \<lparr>an_status = RESPONSE_SUCCESS, an_message = message @ [LF], an_data = None, an_size = 0\<rparr>"

text \<open>Where a worker is; \<open>nat\<close> is the slot of its lock, \<open>path\<close> the file of its stream. \<open>At_clear\<close> is the removal of
  an upload that could not be written.\<close>

datatype wk_pc =
  At_idle
| At_dirs Task
| At_check Task
| At_list Task
| At_acquire Task
| At_lock Task nat
| At_open Task nat
| At_write Task nat path
| At_close Task nat path bytes bool
| At_meta Task nat
| At_size Task nat path
| At_read Task nat path nat
| At_unlock Task nat answer bool
| At_drop Task nat answer bool
| At_clear Task answer
| At_reply Task answer
| At_set Task answer nat
| At_count Task nat
| At_free Task

section \<open>Steps\<close>

definition command_name :: "Task \<Rightarrow> string" where
  "command_name task =
     (case t_type task of TASK_UPLOAD \<Rightarrow> ''UPLOAD'' | TASK_DOWNLOAD \<Rightarrow> ''DOWNLOAD'' | TASK_DELETE \<Rightarrow> ''DELETE''
      | TASK_LIST \<Rightarrow> ''LIST'')"

definition upload_data :: "Task \<Rightarrow> bytes" where
  "upload_data task = (case t_data_buffer task of None \<Rightarrow> [] | Some b \<Rightarrow> take (unat (t_filesize task)) b)"

definition download_error :: "errno \<Rightarrow> answer" where
  "download_error e =
     (if e = ENOENT then not_found ''DOWNLOAD ERROR: File not found''
      else if e = EACCES then failed ''DOWNLOAD ERROR: Permission denied''
      else failed ''DOWNLOAD ERROR: Cannot open file'')"

definition remove_error :: "errno \<Rightarrow> answer" where
  "remove_error e =
     (if e = ENOENT then not_found ''DELETE ERROR: File not found''
      else if e = EACCES \<or> e = EPERM then failed ''DELETE ERROR: Permission denied''
      else failed ''DELETE ERROR: Cannot delete file'')"

definition directory_error :: "errno \<Rightarrow> answer" where
  "directory_error e =
     (if e = ENOENT then failed ''LIST ERROR: User directory not found''
      else if e = EACCES then failed ''LIST ERROR: Permission denied''
      else failed ''LIST ERROR: Cannot open directory'')"

text \<open>\<open>fopen\<close> of an upload and of a download, \<open>remove\<close> of a deletion.\<close>

definition open_step :: "Task \<Rightarrow> nat \<Rightarrow> 'd server \<Rightarrow> wk_pc \<times> 'd server" where
  "open_step task k sv =
     (case t_type task of
        TASK_UPLOAD \<Rightarrow>
          (case fs_fopen_wb (file_path task) (sv_fs sv) of
             (Inl e, fs) \<Rightarrow> (At_unlock task k \<lparr>an_status = RESPONSE_ERROR, an_message = upload_open_error e, an_data = None,
                 an_size = 0\<rparr> False, sv\<lparr>sv_fs := fs\<rparr>)
           | (Inr p, fs) \<Rightarrow> (At_write task k p, sv\<lparr>sv_fs := fs\<rparr>))
      | TASK_DELETE \<Rightarrow>
          (case fs_remove (file_path task) (sv_fs sv) of
             (Inl e, fs) \<Rightarrow> (At_unlock task k (remove_error e) False, sv\<lparr>sv_fs := fs\<rparr>)
           | (Inr u, fs) \<Rightarrow> (At_meta task k, sv\<lparr>sv_fs := fs\<rparr>))
      | _ \<Rightarrow>
          (case fs_fopen_rb (file_path task) (sv_fs sv) of
             (Inl e, fs) \<Rightarrow> (At_unlock task k (download_error e) False, sv\<lparr>sv_fs := fs\<rparr>)
           | (Inr p, fs) \<Rightarrow> (At_size task k p, sv\<lparr>sv_fs := fs\<rparr>)))"

text \<open>\<open>fseek\<close>, \<open>ftell\<close>, \<open>fseek\<close>, \<open>malloc\<close>: only \<open>ftell\<close> looks at the file.\<close>

definition size_step :: "Task \<Rightarrow> nat \<Rightarrow> path \<Rightarrow> 'd server \<Rightarrow> wk_pc \<times> 'd server" where
  "size_step task k p sv =
     (let leave = (\<lambda>message fs. (At_unlock task k (failed message) False, sv\<lparr>sv_fs := fs_fclose_r fs\<rparr>));
          (rc, fs) = fs_fseek p (sv_fs sv)
      in if rc \<noteq> 0 then leave ''DOWNLOAD ERROR: Cannot determine file size'' fs
      else let (file_size, fs) = fs_ftell_end p fs
      in if file_size < 0 then leave ''DOWNLOAD ERROR: Cannot determine file size'' fs
      else let (rc, fs) = fs_fseek p fs
      in if rc \<noteq> 0 then leave ''DOWNLOAD ERROR: File seek error'' fs
      else let (ok, fs) = fs_malloc fs
      in if \<not> ok then leave ''DOWNLOAD FAILED: Memory allocation failed'' fs
      else (At_read task k p (nat file_size), sv\<lparr>sv_fs := fs\<rparr>))"

definition read_step :: "Task \<Rightarrow> nat \<Rightarrow> path \<Rightarrow> nat \<Rightarrow> 'd server \<Rightarrow> wk_pc \<times> 'd server" where
  "read_step task k p file_size sv =
     (let (file_data, ferr, fs) = fs_fread p file_size (sv_fs sv)
      in (At_unlock task k
            (if ferr \<or> length file_data \<noteq> file_size then failed ''DOWNLOAD ERROR: File read error''
             else \<lparr>an_status = RESPONSE_SUCCESS, an_message = [LF] @ ''DOWNLOAD OK'' @ [LF], an_data = Some file_data,
                   an_size = length file_data\<rparr>) False,
          sv\<lparr>sv_fs := fs_fclose_r fs\<rparr>))"

definition list_step :: "Task \<Rightarrow> 'd server \<Rightarrow> wk_pc \<times> 'd server" where
  "list_step task sv =
     (case fs_opendir (user_path task) (sv_fs sv) of
        (Inl e, fs) \<Rightarrow> (At_reply task (directory_error e), sv\<lparr>sv_fs := fs\<rparr>)
      | (Inr p, fs) \<Rightarrow>
          (let (names, fs) = fs_readdir p fs;
               list_data = list_text names;
               (ok, fs) = fs_malloc fs
           in (At_reply task
                 (if ok then \<lparr>an_status = RESPONSE_SUCCESS, an_message = '''', an_data = Some (list_data @ [NUL]),
                     an_size = length list_data\<rparr>
                  else failed ''LIST ERROR: Server memory allocation failed''),
               sv\<lparr>sv_fs := fs\<rparr>)))"

definition meta_step :: "'d sqlite \<Rightarrow> Task \<Rightarrow> nat \<Rightarrow> 'd server \<Rightarrow> wk_pc \<times> 'd server" where
  "meta_step E task k sv =
     (if t_type task = TASK_UPLOAD
      then let (meta_result, db) =
                 user_add_file E (Some (t_username task)) (Some (t_filename task)) (t_filesize task) (sv_db sv)
           in (At_unlock task k (success ''UPLOAD OK'') False, sv\<lparr>sv_db := db\<rparr>)
      else let (meta_result, db) = user_remove_file E (Some (t_username task)) (Some (t_filename task)) (sv_db sv)
           in (At_unlock task k (success ''DELETE OK'') False, sv\<lparr>sv_db := db\<rparr>))"

fun worker_step :: "'d sqlite \<Rightarrow> nat \<Rightarrow> int \<Rightarrow> wk_pc \<Rightarrow> 'd server \<Rightarrow> (wk_pc \<times> 'd server) turn" where
  "worker_step E me now At_idle sv = Blocked"
| "worker_step E me now (At_dirs task) sv = Goes (At_check task, make_dirs task sv)"
| "worker_step E me now (At_check task) sv =
     (let (ex, db) = user_exists E (Some (t_username task)) (sv_db sv)
      in Goes (if \<not> ex then At_reply task (failed (command_name task @ '' FAILED: User not found''))
               else if t_type task = TASK_LIST then At_list task else At_acquire task,
               sv\<lparr>sv_db := db\<rparr>))"
| "worker_step E me now (At_list task) sv = Goes (list_step task sv)"
| "worker_step E me now (At_acquire task) sv =
     (case acquire_slot (sv_lm sv) (lock_key (t_username task) (t_filename task)) of
        (None, lm) \<Rightarrow> Goes (At_reply task (failed (command_name task @ '' FAILED: Could not acquire file lock'')), sv\<lparr>sv_lm := lm\<rparr>)
      | (Some k, lm) \<Rightarrow> Goes (At_lock task k, sv\<lparr>sv_lm := lm\<rparr>))"
| "worker_step E me now (At_lock task k) sv =
     (case lock_slot me k (sv_lm sv) of
        None \<Rightarrow> Blocked
      | Some lm \<Rightarrow> Goes (At_open task k, sv\<lparr>sv_lm := lm\<rparr>))"
| "worker_step E me now (At_open task k) sv = Goes (open_step task k sv)"
| "worker_step E me now (At_write task k p) sv =
     (let (accepted, ferr, fs) = fs_fwrite (upload_data task) (sv_fs sv)
      in Goes (At_close task k p accepted ferr, sv\<lparr>sv_fs := fs\<rparr>))"
| "worker_step E me now (At_close task k p accepted ferr) sv =
     (let (rc, fs) = fs_fclose_w p accepted (sv_fs sv)
      in Goes (if ferr \<or> length accepted \<noteq> unat (t_filesize task)
               then At_unlock task k (failed ''UPLOAD ERROR: File write failed'') True else At_meta task k,
               sv\<lparr>sv_fs := fs\<rparr>))"
| "worker_step E me now (At_meta task k) sv = Goes (meta_step E task k sv)"
| "worker_step E me now (At_size task k p) sv = Goes (size_step task k p sv)"
| "worker_step E me now (At_read task k p file_size) sv = Goes (read_step task k p file_size sv)"
| "worker_step E me now (At_unlock task k a clear) sv = Goes (At_drop task k a clear, sv\<lparr>sv_lm := unlock_slot k (sv_lm sv)\<rparr>)"
| "worker_step E me now (At_drop task k a clear) sv =
     Goes (if clear then At_clear task a else At_reply task a, sv\<lparr>sv_lm := release_slot k (sv_lm sv)\<rparr>)"
| "worker_step E me now (At_clear task a) sv =
     (let (r, fs) = fs_remove (file_path task) (sv_fs sv) in Goes (At_reply task a, sv\<lparr>sv_fs := fs\<rparr>))"
| "worker_step E me now (At_reply task a) sv =
     (case session_get (sv_sm sv) (t_session_id task) of
        None \<Rightarrow> Goes (At_free task, sv)
      | Some session \<Rightarrow> Goes (At_set task a session, sv))"
| "worker_step E me now (At_set task a session) sv =
     (case response_fill session (an_status a) (an_message a) (an_data a) (an_size a) (sv_sm sv) of
        None \<Rightarrow> Dangling
      | Some sm \<Rightarrow> Goes (At_count task session, sv\<lparr>sv_sm := sm\<rparr>))"
| "worker_step E me now (At_count task session) sv =
     (case session_increment_operations session now (sv_sm sv) of
        None \<Rightarrow> Dangling
      | Some sm \<Rightarrow> Goes (At_free task, sv\<lparr>sv_sm := sm\<rparr>))"
| "worker_step E me now (At_free task) sv =
     Goes (At_idle, if t_type task = TASK_UPLOAD then free_buffer task sv else sv)"

text \<open>Every step comes nearer to the end of the task.\<close>

fun steps_left :: "wk_pc \<Rightarrow> nat" where
  "steps_left At_idle = 0" | "steps_left (At_free _) = 1" | "steps_left (At_count _ _) = 2"
| "steps_left (At_set _ _ _) = 3" | "steps_left (At_reply _ _) = 4" | "steps_left (At_clear _ _) = 5"
| "steps_left (At_drop _ _ _ _) = 6" | "steps_left (At_unlock _ _ _ _) = 7" | "steps_left (At_meta _ _) = 8"
| "steps_left (At_read _ _ _ _) = 8" | "steps_left (At_size _ _ _) = 9" | "steps_left (At_close _ _ _ _ _) = 9"
| "steps_left (At_write _ _ _) = 10" | "steps_left (At_open _ _) = 11" | "steps_left (At_lock _ _) = 12"
| "steps_left (At_acquire _) = 13" | "steps_left (At_list _) = 13" | "steps_left (At_check _) = 14" | "steps_left (At_dirs _) = 15"

lemma open_step_less: "open_step task k sv = (pc, sv') \<Longrightarrow> steps_left pc < 11"
  by (auto simp: open_step_def split: task_type.splits prod.splits sum.splits)

lemma size_step_less: "size_step task k p sv = (pc, sv') \<Longrightarrow> steps_left pc < 9"
  by (auto simp: size_step_def Let_def split: if_splits prod.splits)

lemma worker_step_less: "worker_step E me now pc sv = Goes (pc', sv') \<Longrightarrow> steps_left pc' < steps_left pc"
  by (cases pc)
    (auto simp: Let_def list_step_def read_step_def meta_step_def
      split: prod.splits option.splits sum.splits if_splits dest: open_step_less size_step_less)

function run_task :: "'d sqlite \<Rightarrow> nat \<Rightarrow> int \<Rightarrow> wk_pc \<Rightarrow> 'd server \<Rightarrow> 'd server turn" where
  "run_task E me now pc sv =
     (if pc = At_idle then Goes sv
      else case worker_step E me now pc sv of
        Blocked \<Rightarrow> Blocked
      | Dangling \<Rightarrow> Dangling
      | Goes (pc', sv') \<Rightarrow> run_task E me now pc' sv')"
  by pat_completeness auto
termination by (relation "measure (\<lambda>(E, me, now, pc, sv). steps_left pc)") (auto dest: worker_step_less)

declare run_task.simps [simp del]

section \<open>A worker alone\<close>

lemma run_idle [simp]: "run_task E me now At_idle sv = Goes sv"
  by (simp add: run_task.simps)

lemma run_goes: "\<lbrakk>worker_step E me now pc sv = Goes (pc', sv'); pc \<noteq> At_idle\<rbrakk> \<Longrightarrow>
    run_task E me now pc sv = run_task E me now pc' sv'"
  by (simp add: run_task.simps [of E me now pc])

lemma run_stuck: "\<lbrakk>worker_step E me now pc sv = Blocked; pc \<noteq> At_idle\<rbrakk> \<Longrightarrow> run_task E me now pc sv = Blocked"
    "\<lbrakk>worker_step E me now pc sv = Dangling; pc \<noteq> At_idle\<rbrakk> \<Longrightarrow> run_task E me now pc sv = Dangling"
  by (simp_all add: run_task.simps [of E me now pc])

fun finished :: "'a turn \<Rightarrow> 'a option" where
  "finished (Goes x) = Some x"
| "finished Blocked = None"
| "finished Dangling = None"

definition wrap_up :: "Task \<Rightarrow> 'd server \<Rightarrow> 'd server" where
  "wrap_up task sv = (if t_type task = TASK_UPLOAD then free_buffer task sv else sv)"

text \<open>The end of a task, from its answer on.\<close>

definition close_task :: "int \<Rightarrow> Task \<Rightarrow> answer \<Rightarrow> 'd server \<Rightarrow> 'd server option" where
  "close_task now task a sv =
     map_option (wrap_up task) (reply now task (an_status a) (an_message a) (an_data a) (an_size a) sv)"

lemma run_free [simp]: "run_task E me now (At_free task) sv = Goes (wrap_up task sv)"
  by (simp add: run_goes [of _ _ _ "At_free task"] wrap_up_def)

lemma run_reply [simp]: "finished (run_task E me now (At_reply task a) sv) = close_task now task a sv"
proof (cases "session_get (sv_sm sv) (t_session_id task)")
  case None
  then show ?thesis
    by (simp add: run_goes [of _ _ _ "At_reply task a"] close_task_def reply_def deliver_response_def)
next
  case (Some s)
  then have get: "run_task E me now (At_reply task a) sv = run_task E me now (At_set task a s) sv"
    by (simp add: run_goes)
  show ?thesis
  proof (cases "response_fill s (an_status a) (an_message a) (an_data a) (an_size a) (sv_sm sv)")
    case None
    with Some get show ?thesis
      by (simp add: run_stuck(2) [of _ _ _ "At_set task a s"] close_task_def reply_def deliver_response_def)
  next
    case fill: (Some sm)
    then have set: "run_task E me now (At_set task a s) sv = run_task E me now (At_count task s) (sv\<lparr>sv_sm := sm\<rparr>)"
      by (simp add: run_goes)
    show ?thesis
    proof (cases "session_increment_operations s now sm")
      case None
      with Some get fill set show ?thesis
        by (simp add: run_stuck(2) [of _ _ _ "At_count task s"] close_task_def reply_def deliver_response_def)
    next
      case (Some sm')
      with \<open>session_get _ _ = Some s\<close> get fill set show ?thesis
        by (simp add: run_goes [of _ _ _ "At_count task s"] close_task_def reply_def deliver_response_def)
    qed
  qed
qed

lemma run_unlock [simp]:
  "run_task E me now (At_unlock task k a clear) sv =
     run_task E me now (if clear then At_clear task a else At_reply task a) (unlock k sv)"
  by (simp add: run_goes [of _ _ _ "At_unlock task k a clear"] run_goes [of _ _ _ "At_drop task k a clear"]
      unlock_def file_lock_release_def)

lemma run_clear [simp]:
  "finished (run_task E me now (At_clear task a) sv) =
     close_task now task a (sv\<lparr>sv_fs := snd (fs_remove (file_path task) (sv_fs sv))\<rparr>)"
  by (cases "fs_remove (file_path task) (sv_fs sv)") (simp add: run_goes [of _ _ _ "At_clear task a"])

lemma close_task_eq:
  fixes sv :: "'d server"
  shows "t_type task = TASK_UPLOAD \<Longrightarrow> close_task now task a sv =
     map_option (free_buffer task) (reply now task (an_status a) (an_message a) (an_data a) (an_size a) sv)"
  "t_type task \<noteq> TASK_UPLOAD \<Longrightarrow> close_task now task a sv =
     reply now task (an_status a) (an_message a) (an_data a) (an_size a) sv"
proof -
  assume "t_type task = TASK_UPLOAD"
  then have "wrap_up task = (free_buffer task :: 'd server \<Rightarrow> _)" by (simp add: wrap_up_def fun_eq_iff)
  then show "close_task now task a sv =
     map_option (free_buffer task) (reply now task (an_status a) (an_message a) (an_data a) (an_size a) sv)"
    by (simp add: close_task_def)
next
  assume "t_type task \<noteq> TASK_UPLOAD"
  then have "wrap_up task = (id :: 'd server \<Rightarrow> _)" by (simp add: wrap_up_def fun_eq_iff)
  then show "close_task now task a sv = reply now task (an_status a) (an_message a) (an_data a) (an_size a) sv"
    by (simp add: close_task_def option.map_id)
qed

lemma run_upload:
  assumes "t_type task = TASK_UPLOAD"
  shows "finished (run_task E me now (At_open task k) sv) = upload_locked E now task k sv"
proof -
  have "run_task E me now (At_open task k) sv = run_task E me now (fst (open_step task k sv)) (snd (open_step task k sv))"
    by (simp add: run_goes)
  with assms show ?thesis
    by (auto simp: open_step_def upload_locked_def upload_data_def close_task_eq meta_step_def
        run_goes [of _ _ _ "At_write _ _ _"] run_goes [of _ _ _ "At_close _ _ _ _ _"] run_goes [of _ _ _ "At_meta _ _"]
        unlock_def split: prod.split sum.split)
qed

lemma run_delete:
  assumes "t_type task = TASK_DELETE"
  shows "finished (run_task E me now (At_open task k) sv) = delete_locked E now task k sv"
proof -
  have "run_task E me now (At_open task k) sv = run_task E me now (fst (open_step task k sv)) (snd (open_step task k sv))"
    by (simp add: run_goes)
  with assms show ?thesis
    by (auto simp: open_step_def delete_locked_def close_task_eq meta_step_def remove_error_def delete_error_def
        run_goes [of _ _ _ "At_meta _ _"] unlock_def split: prod.split sum.split)
qed

lemma run_download:
  assumes "t_type task = TASK_DOWNLOAD"
  shows "finished (run_task E me now (At_open task k) sv) = download_locked now task k sv"
proof -
  have open': "run_task E me now (At_open task k) sv = run_task E me now (fst (open_step task k sv)) (snd (open_step task k sv))"
    by (simp add: run_goes)
  have size: "run_task E me now (At_size task k p) sv = run_task E me now (fst (size_step task k p sv)) (snd (size_step task k p sv))"
    and read: "run_task E me now (At_read task k p n) sv = run_task E me now (fst (read_step task k p n sv)) (snd (read_step task k p n sv))"
    for p n and sv :: "'a server"
    by (simp_all add: run_goes)
  show ?thesis
    using assms
    by (auto simp: open' size read open_step_def size_step_def read_step_def download_locked_def download_open_error_def
        download_error_def close_task_eq Let_def unlock_def split: prod.split sum.split)
qed

lemma run_list [simp]:
  "t_type task = TASK_LIST \<Longrightarrow> finished (run_task E me now (At_list task) sv) =
     (case fs_opendir (user_path task) (sv_fs sv) of
        (Inl e, fs) \<Rightarrow> list_error now task e (sv\<lparr>sv_fs := fs\<rparr>)
      | (Inr p, fs) \<Rightarrow>
          (let (names, fs) = fs_readdir p fs;
               list_data = list_text names;
               (ok, fs) = fs_malloc fs;
               sv = sv\<lparr>sv_fs := fs\<rparr>
           in if ok then reply now task RESPONSE_SUCCESS '''' (Some (list_data @ [NUL])) (length list_data) sv
              else reply_error now task (''LIST ERROR: Server memory allocation failed'' @ [LF]) sv))"
proof -
  have "run_task E me now (At_list task) sv = run_task E me now (fst (list_step task sv)) (snd (list_step task sv))"
    by (simp add: run_goes)
  moreover assume "t_type task = TASK_LIST"
  ultimately show ?thesis
    by (auto simp: list_step_def list_error_def directory_error_def close_task_eq Let_def split: prod.split sum.split)
qed

lemma run_lock:
  assumes "\<And>k sv. finished (run_task E me now (At_open task k) sv) = body k sv"
    and "\<And>sv. close_task now task (failed (command_name task @ '' FAILED: Could not acquire file lock'')) sv = no_lock sv"
  shows "finished (run_task E me now (At_acquire task) sv) = with_lock me task no_lock body sv"
proof (cases "acquire_slot (sv_lm sv) (lock_key (t_username task) (t_filename task))")
  case (Pair r lm)
  show ?thesis
  proof (cases r)
    case None
    with Pair assms(2) show ?thesis
      by (simp add: run_goes [of _ _ _ "At_acquire task"] with_lock_def file_lock_acquire_def)
  next
    case (Some k)
    then have queue: "run_task E me now (At_acquire task) sv = run_task E me now (At_lock task k) (sv\<lparr>sv_lm := lm\<rparr>)"
      using Pair by (simp add: run_goes)
    show ?thesis
      using Pair Some queue assms(1)
      by (cases "lock_slot me k lm")
        (simp_all add: with_lock_def file_lock_acquire_def run_stuck(1) [of _ _ _ "At_lock task k"] run_goes [of _ _ _ "At_lock task k"])
  qed
qed

text \<open>The two models of a worker agree. Taken one after the other without interference, the steps of
  a task do to the sessions, the locks, the database, the files and the buffers exactly what \<open>worker_task\<close> does, on every
  path: for all four commands, all failures of the file system, a full lock table, missing users, and sessions that
  are gone.\<close>

theorem run_task_eq: "finished (run_task E me now (At_dirs task) sv) = worker_task E me now task sv"
proof -
  obtain ex db where user: "user_exists E (Some (t_username task)) (sv_db (make_dirs task sv)) = (ex, db)" by fastforce
  let ?sv = "(make_dirs task sv)\<lparr>sv_db := db\<rparr>"
  have check: "run_task E me now (At_dirs task) sv = run_task E me now
      (if \<not> ex then At_reply task (failed (command_name task @ '' FAILED: User not found''))
       else if t_type task = TASK_LIST then At_list task else At_acquire task) ?sv"
    using user by (simp add: run_goes [of _ _ _ "At_dirs task"] run_goes [of _ _ _ "At_check task"])
  show ?thesis
  proof (cases "t_type task")
    case TASK_UPLOAD
    show ?thesis unfolding worker_task_def Let_def TASK_UPLOAD task_type.case task_upload_def check_user_def user prod.case
      using TASK_UPLOAD
      by (auto simp: check command_name_def close_task_eq intro!: run_lock run_upload)
  next
    case TASK_DOWNLOAD
    show ?thesis unfolding worker_task_def Let_def TASK_DOWNLOAD task_type.case task_download_def check_user_def user prod.case
      using TASK_DOWNLOAD
      by (auto simp: check command_name_def close_task_eq intro!: run_lock run_download)
  next
    case TASK_DELETE
    show ?thesis unfolding worker_task_def Let_def TASK_DELETE task_type.case task_delete_def check_user_def user prod.case
      using TASK_DELETE
      by (auto simp: check command_name_def close_task_eq intro!: run_lock run_delete)
  next
    case TASK_LIST
    show ?thesis unfolding worker_task_def Let_def TASK_LIST task_type.case task_list_def check_user_def user prod.case
      using TASK_LIST
      by (auto simp: check command_name_def close_task_eq Let_def split: prod.split sum.split)
  qed
qed

end
