(* ===== verification/Worker_Pool.thy ===== *)
theory Worker_Pool
  imports Worker_Steps
begin

text \<open>
  Several workers at the grain of \<open>Worker_Steps\<close>: their steps interleave freely with each other and with client threads,
  which change the sessions and the database. The lock table sees the runs of \<open>Lock_Protocol\<close> (\<open>pool_locks\<close>), whatever
  fails, so its theorems hold here.
\<close>

section \<open>The pool\<close>

record 'd pool =
  po_server :: "'d server"
  po_pcs :: "wk_pc list"

text \<open>What a step does to the files, as an atomic store would say it.\<close>

datatype file_op = Op_put path bytes | Op_delete path | Op_get path bytes

fun effect :: "fsys \<Rightarrow> wk_pc \<Rightarrow> wk_pc \<Rightarrow> file_op list" where
  "effect fs (At_open task k) (At_write task' k' p) = [Op_put (target fs task) (upload_data task)]"
| "effect fs (At_open task k) (At_meta task' k') = [Op_delete (target fs task)]"
| "effect fs (At_read task k p n) (At_unlock task' k' a clear) =
     (case an_data a of None \<Rightarrow> [] | Some b \<Rightarrow> [Op_get (target fs task) b])"
| "effect fs pc pc' = []"

text \<open>\<open>OK\<close> are the tasks that may come; client threads change sessions, accounts and buffers in any way.\<close>

inductive pool_step :: "(Task \<Rightarrow> bool) \<Rightarrow> 'd sqlite \<Rightarrow> 'd pool \<Rightarrow> file_op list \<Rightarrow> 'd pool \<Rightarrow> bool" for OK E where
  take: "OK task \<Longrightarrow> i < length (po_pcs s) \<Longrightarrow> po_pcs s ! i = At_idle \<Longrightarrow>
    pool_step OK E s [] (s\<lparr>po_pcs := (po_pcs s)[i := At_dirs task]\<rparr>)"
| work: "i < length (po_pcs s) \<Longrightarrow> worker_step E i now (po_pcs s ! i) (po_server s) = Goes (pc, sv) \<Longrightarrow>
    pool_step OK E s (effect (sv_fs (po_server s)) (po_pcs s ! i) pc) \<lparr>po_server = sv, po_pcs = (po_pcs s)[i := pc]\<rparr>"
| others: "pool_step OK E s [] (s\<lparr>po_server := (po_server s)\<lparr>sv_sm := sm, sv_db := db, sv_freed := freed\<rparr>\<rparr>)"

inductive pool_run :: "(Task \<Rightarrow> bool) \<Rightarrow> 'd sqlite \<Rightarrow> 'd pool \<Rightarrow> file_op list \<Rightarrow> 'd pool \<Rightarrow> bool" for OK E s0 where
  start: "pool_run OK E s0 [] s0"
| more: "pool_run OK E s0 tr s \<Longrightarrow> pool_step OK E s ops s' \<Longrightarrow> pool_run OK E s0 (tr @ ops) s'"

definition pool_start :: "int \<Rightarrow> nat \<Rightarrow> 'd pool \<Rightarrow> bool" where
  "pool_start c n s \<longleftrightarrow> po_pcs s = replicate n At_idle \<and> sv_lm (po_server s) = ls_mgr (lock_start c n)"

section \<open>The locks of the pool\<close>

abbreviation key_of :: "Task \<Rightarrow> string" where
  "key_of task \<equiv> lock_key (t_username task) (t_filename task)"

fun task_at :: "wk_pc \<Rightarrow> Task option" where
  "task_at At_idle = None"
| "task_at (At_dirs t) = Some t" | "task_at (At_check t) = Some t" | "task_at (At_list t) = Some t"
| "task_at (At_acquire t) = Some t" | "task_at (At_lock t k) = Some t" | "task_at (At_open t k) = Some t"
| "task_at (At_write t k p) = Some t" | "task_at (At_close t k p b e) = Some t" | "task_at (At_meta t k) = Some t"
| "task_at (At_size t k p) = Some t" | "task_at (At_read t k p n) = Some t" | "task_at (At_unlock t k a c) = Some t"
| "task_at (At_drop t k a c) = Some t" | "task_at (At_clear t a) = Some t" | "task_at (At_reply t a) = Some t"
| "task_at (At_set t a s) = Some t" | "task_at (At_count t s) = Some t" | "task_at (At_free t) = Some t"

text \<open>The critical section of a file: from the lock of its mutex to the unlock.\<close>

fun section_slot :: "wk_pc \<Rightarrow> nat option" where
  "section_slot (At_open t k) = Some k" | "section_slot (At_write t k p) = Some k"
| "section_slot (At_close t k p b e) = Some k" | "section_slot (At_meta t k) = Some k"
| "section_slot (At_size t k p) = Some k" | "section_slot (At_read t k p n) = Some k"
| "section_slot (At_unlock t k a c) = Some k" | "section_slot _ = None"

fun lock_view :: "wk_pc \<Rightarrow> lock_pc" where
  "lock_view (At_lock t k) = Queued (key_of t) k"
| "lock_view (At_drop t k a c) = Dropping (key_of t) k"
| "lock_view pc = (case (section_slot pc, task_at pc) of (Some k, Some t) \<Rightarrow> Holding (key_of t) k | _ \<Rightarrow> Idle)"

definition locks_of :: "'d pool \<Rightarrow> lock_sys" where
  "locks_of s = \<lparr>ls_mgr = sv_lm (po_server s), ls_pcs = map lock_view (po_pcs s)\<rparr>"

text \<open>The files that may be locked; a listing takes no lock.\<close>

definition names :: "(Task \<Rightarrow> bool) \<Rightarrow> string \<Rightarrow> string \<Rightarrow> bool" where
  "names OK u f \<longleftrightarrow> (\<exists>task. OK task \<and> t_type task \<noteq> TASK_LIST \<and> u = t_username task \<and> f = t_filename task)"

lemma make_dirs_lm [simp]: "sv_lm (make_dirs task sv) = sv_lm sv" "sv_sm (make_dirs task sv) = sv_sm sv"
  by (simp_all add: make_dirs_def)

text \<open>A step keeps its task until it is done, and changes the lock table at four points only.\<close>

lemma step_task:
  "worker_step E i now pc sv = Goes (pc', sv') \<Longrightarrow> pc' = At_idle \<or> task_at pc' = task_at pc"
  by (cases pc)
    (auto simp: Let_def open_step_def size_step_def read_step_def list_step_def meta_step_def
      split: prod.splits option.splits sum.splits if_splits task_type.splits)

lemma step_lock:
  assumes "worker_step E i now pc sv = Goes (pc', sv')"
  obtains (acquire) t k where "pc = At_acquire t" "pc' = At_lock t k" "acquire_slot (sv_lm sv) (key_of t) = (Some k, sv_lm sv')"
  | (full) t a where "pc = At_acquire t" "pc' = At_reply t a" "acquire_slot (sv_lm sv) (key_of t) = (None, sv_lm sv')"
  | (lock) t k where "pc = At_lock t k" "pc' = At_open t k" "lock_slot i k (sv_lm sv) = Some (sv_lm sv')"
  | (unlock) t k a c where "pc = At_unlock t k a c" "pc' = At_drop t k a c" "sv_lm sv' = unlock_slot k (sv_lm sv)"
  | (drop) t k a c where "pc = At_drop t k a c" "lock_view pc' = Idle" "sv_lm sv' = release_slot k (sv_lm sv)"
  | (stay) "lock_view pc' = lock_view pc" "sv_lm sv' = sv_lm sv"
  using assms
  by (cases pc)
    (auto simp: Let_def open_step_def size_step_def read_step_def list_step_def meta_step_def free_buffer_def
      split: prod.splits option.splits sum.splits if_splits task_type.splits)

definition tasks_ok :: "(Task \<Rightarrow> bool) \<Rightarrow> 'd pool \<Rightarrow> bool" where
  "tasks_ok OK s \<longleftrightarrow> (\<forall>i < length (po_pcs s).
     (\<forall>t. task_at (po_pcs s ! i) = Some t \<longrightarrow> OK t) \<and> (\<forall>t. po_pcs s ! i = At_acquire t \<longrightarrow> t_type t \<noteq> TASK_LIST))"

lemma step_acquire:
  "worker_step E i now pc sv = Goes (At_acquire t, sv') \<Longrightarrow> t_type t \<noteq> TASK_LIST"
  by (cases pc)
    (auto simp: Let_def open_step_def size_step_def read_step_def list_step_def meta_step_def
      split: prod.splits option.splits sum.splits if_splits task_type.splits)

lemma tasks_ok_step: "\<lbrakk>pool_step OK E s ops s'; tasks_ok OK s\<rbrakk> \<Longrightarrow> tasks_ok OK s'"
proof (induction rule: pool_step.induct)
  case (work i s now pc sv)
  with step_task [OF work(2)] step_acquire [of E i now "po_pcs s ! i" "po_server s" _ sv] show ?case
    by (auto simp: tasks_ok_def nth_list_update)
qed (auto simp: tasks_ok_def nth_list_update)

text \<open>The lock table of the pool goes through the states of \<open>Lock_Protocol\<close>.\<close>

lemma pool_lock_step:
  assumes "pool_step OK E s ops s'" "tasks_ok OK s"
  shows "lock_step (names OK) (locks_of s) (locks_of s') \<or> locks_of s' = locks_of s"
  using assms
proof (induction rule: pool_step.induct)
  case (take task i s)
  then have "(map lock_view (po_pcs s))[i := Idle] = map lock_view (po_pcs s)"
    by (intro nth_equalityI) (auto simp: nth_list_update)
  then show ?case by (simp add: locks_of_def map_update)
next
  case (work i s now pc sv)
  note i = work(1)
  have P: "names OK (t_username t) (t_filename t)" if "po_pcs s ! i = At_acquire t" for t
    unfolding names_def using work(3) i that by (intro exI [of _ t]) (simp add: tasks_ok_def)
  let ?s' = "\<lparr>po_server = sv, po_pcs = (po_pcs s)[i := pc]\<rparr>"
  have to: "locks_of ?s' = \<lparr>ls_mgr = sv_lm sv, ls_pcs = (ls_pcs (locks_of s))[i := lock_view pc]\<rparr>"
    by (simp add: locks_of_def map_update)
  have at: "i < length (ls_pcs (locks_of s))" "ls_pcs (locks_of s) ! i = lock_view (po_pcs s ! i)"
    "ls_mgr (locks_of s) = sv_lm (po_server s)"
    using i by (simp_all add: locks_of_def)
  show ?case
    using work(2)
  proof (cases rule: step_lock)
    case (acquire t k)
    then show ?thesis unfolding to using at P [of t]
      by (intro disjI1) (auto intro!: lock_step.take_ref [of _ "t_username t" "t_filename t"])
  next
    case (full t a)
    then have "lock_view pc = ls_pcs (locks_of s) ! i" using at by simp
    then have "(ls_pcs (locks_of s))[i := lock_view pc] = ls_pcs (locks_of s)" by simp
    then have "locks_of ?s' = (locks_of s)\<lparr>ls_mgr := sv_lm sv\<rparr>" unfolding to by simp
    with full at P [of t] show ?thesis by (auto intro!: lock_step.table_full [of _ "t_username t" "t_filename t"])
  next
    case (lock t k)
    then show ?thesis unfolding to using at
      by (intro disjI1) (auto intro!: lock_step.lock)
  next
    case (unlock t k a c)
    then show ?thesis unfolding to using at lock_step.unlock [of i "locks_of s" "key_of t" k "names OK"]
      by (intro disjI1) simp
  next
    case (drop t k a c)
    then show ?thesis unfolding to using at lock_step.drop_ref [of i "locks_of s" "key_of t" k "names OK"]
      by (intro disjI1) simp
  next
    case stay
    then show ?thesis unfolding to using at by (simp add: locks_of_def list_update_same_conv)
  qed
next
  case (others s sm db freed)
  then show ?case by (simp add: locks_of_def)
qed

lemma pool_locks:
  assumes "pool_run OK E s0 tr s" "pool_start c n s0" "0 < c"
  shows "lock_reach (names OK) c n (locks_of s) \<and> tasks_ok OK s"
  using assms(1)
proof (induction rule: pool_run.induct)
  case start
  have "locks_of s0 = lock_start c n"
    using assms(2) by (simp add: pool_start_def locks_of_def lock_start_def)
  then show ?case
    using assms(2) lock_reach_start [of "names OK" c n] by (auto simp: tasks_ok_def pool_start_def)
next
  case (more tr s ops s')
  with pool_lock_step [of OK E s ops s'] tasks_ok_step [of OK E s ops s'] show ?case
    by (metis lock_reach_step)
qed

lemma holding_view: "section_slot pc = Some k \<Longrightarrow> task_at pc = Some t \<Longrightarrow> lock_view pc = Holding (key_of t) k"
  by (cases pc) auto

text \<open>Without collisions no two workers are in the critical sections of one file.\<close>

lemma pool_exclusive:
  assumes "pool_run OK E s0 tr s" "pool_start c n s0" "0 < c" "c \<le> MAX_FILE_LOCKS" "collision_free (names OK) c"
    and "i < length (po_pcs s)" "j < length (po_pcs s)" "section_slot (po_pcs s ! i) = Some k" "section_slot (po_pcs s ! j) = Some k'"
    and "task_at (po_pcs s ! i) = Some t" "task_at (po_pcs s ! j) = Some t'" "key_of t = key_of t'"
  shows "i = j"
proof -
  have reach: "lock_reach (names OK) c n (locks_of s)" using pool_locks [OF assms(1-3)] by blast
  have n: "length (po_pcs s) = n" using lock_reach_shape [OF reach assms(3,4)] by (simp add: locks_of_def)
  have "ls_pcs (locks_of s) ! i = Holding (key_of t) k" "ls_pcs (locks_of s) ! j = Holding (key_of t) k'"
    using assms(6-12) by (auto simp: locks_of_def holding_view)
  from lock_holders_unique [OF reach assms(3-5) _ _ this] assms(6,7) n show ?thesis by simp
qed


section \<open>No deadlock\<close>

text \<open>Only a worker in front of a locked file waits.\<close>

lemma blocked_cases:
  "worker_step E i now pc sv = Blocked \<Longrightarrow> pc = At_idle \<or> (\<exists>t k. pc = At_lock t k \<and> lock_slot i k (sv_lm sv) = None)"
  by (cases pc) (auto simp: Let_def split: prod.splits option.splits)

lemma holding_section: "lock_view pc = Holding p k \<Longrightarrow> section_slot pc = Some k"
  by (cases pc) auto

lemma queued_lock_step:
  "\<lbrakk>lock_step P s t; ls_pcs s ! i = Queued p k; ls_pcs t ! i = Holding p k'; i < length (ls_pcs s)\<rbrakk> \<Longrightarrow>
     lock_slot i k (ls_mgr s) \<noteq> None"
  by (erule lock_step.cases) (auto simp: nth_list_update split: if_splits)

text \<open>A worker that waits for a lock waits for one inside the section of the file, which can go on.\<close>

lemma lock_holder_goes:
  assumes "pool_run OK E s0 tr s" "pool_start c n s0" "0 < c" "c \<le> MAX_FILE_LOCKS"
    and "i < length (po_pcs s)" "po_pcs s ! i \<noteq> At_idle" "worker_step E i now (po_pcs s ! i) (po_server s) = Blocked"
  shows "\<exists>j < length (po_pcs s). section_slot (po_pcs s ! j) \<noteq> None"
proof -
  from blocked_cases assms(6,7) obtain t k where t: "po_pcs s ! i = At_lock t k" "lock_slot i k (sv_lm (po_server s)) = None"
    by metis
  have reach: "lock_reach (names OK) c n (locks_of s)" using pool_locks [OF assms(1-3)] by blast
  have n: "length (po_pcs s) = n" using lock_reach_shape [OF reach assms(3,4)] by (simp add: locks_of_def)
  have pcs: "ls_pcs (locks_of s) ! i = Queued (key_of t) k" "length (ls_pcs (locks_of s)) = n"
    using t assms(5) n by (simp_all add: locks_of_def)
  from queued_can_go [OF reach assms(3,4) _ pcs(1)] assms(5) n
  consider (self) u where "lock_step (names OK) (locks_of s) u" "ls_pcs u ! i = Holding (key_of t) k"
    | (holder) j where "j < n" "ls_pcs (locks_of s) ! j = Holding (key_of t) k" by auto
  then show ?thesis
  proof cases
    case self
    from queued_lock_step [OF self(1) pcs(1) self(2)] pcs(2) t(2) assms(5) n show ?thesis by (simp add: locks_of_def)
  next
    case holder
    then have "section_slot (po_pcs s ! j) = Some k" using n by (auto simp: locks_of_def intro: holding_section)
    with holder(1) n show ?thesis by (intro exI [of _ j]) simp
  qed
qed

lemma section_goes: "section_slot pc \<noteq> None \<Longrightarrow> \<exists>pc' sv'. worker_step E i now pc sv = Goes (pc', sv')"
  by (cases pc) (auto split: prod.split)

lemma someone_goes:
  assumes "pool_run OK E s0 tr s" "pool_start c n s0" "0 < c" "c \<le> MAX_FILE_LOCKS"
    and "i < length (po_pcs s)" "po_pcs s ! i \<noteq> At_idle"
  shows "\<exists>j < length (po_pcs s). po_pcs s ! j \<noteq> At_idle \<and> worker_step E j now (po_pcs s ! j) (po_server s) \<noteq> Blocked"
proof (cases "worker_step E i now (po_pcs s ! i) (po_server s)")
  case Blocked
  from lock_holder_goes [OF assms this] obtain j where j: "j < length (po_pcs s)" "section_slot (po_pcs s ! j) \<noteq> None" by blast
  with section_goes [OF j(2), of E j now "po_server s"] show ?thesis by (intro exI [of _ j]) auto
qed (use assms in auto)

definition work_left :: "'d pool \<Rightarrow> nat" where
  "work_left s = sum_list (map steps_left (po_pcs s))"

lemma steps_left_max: "steps_left pc \<le> 15"
  by (cases pc) simp_all

lemma work_left_less:
  assumes "worker_step E i now (po_pcs s ! i) (po_server s) = Goes (pc, sv)" "i < length (po_pcs s)"
  shows "work_left \<lparr>po_server = sv, po_pcs = (po_pcs s)[i := pc]\<rparr> < work_left s"
proof -
  have "steps_left (po_pcs s ! i) \<le> sum_list (map steps_left (po_pcs s))"
    using assms(2) by (intro member_le_sum_list) auto
  with sum_list_update [of i "map steps_left (po_pcs s)" "steps_left pc"] worker_step_less [OF assms(1)] assms(2)
  show ?thesis by (simp add: work_left_def map_update)
qed

text \<open>C7: the workers never deadlock and never run on. Whatever they do, with faults and with colliding lock names, as long as
  one of them has a task some worker with a task is not blocked, so that they never all wait for locks; and
  every step brings the pool nearer to rest, by a measure of at most 15 steps for a task. (A worker that is not blocked goes on,
  unless it is about to use a session that was freed, which \<open>sessions_dangle_only_after_answer\<close> confines to one point.)\<close>

theorem workers_never_stuck:
  assumes "pool_run OK E s0 tr s" "pool_start c n s0" "0 < c" "c \<le> MAX_FILE_LOCKS"
  shows "((\<exists>i < n. po_pcs s ! i \<noteq> At_idle) \<longrightarrow>
      (\<exists>j < n. po_pcs s ! j \<noteq> At_idle \<and> worker_step E j now (po_pcs s ! j) (po_server s) \<noteq> Blocked)) \<and>
    (\<forall>i pc sv. i < n \<longrightarrow> worker_step E i now (po_pcs s ! i) (po_server s) = Goes (pc, sv) \<longrightarrow>
      work_left \<lparr>po_server = sv, po_pcs = (po_pcs s)[i := pc]\<rparr> < work_left s) \<and>
    work_left s \<le> 15 * n"
proof -
  have "lock_reach (names OK) c n (locks_of s)" using pool_locks [OF assms(1-3)] by blast
  then have n: "length (po_pcs s) = n" using lock_reach_shape assms(3,4) by (fastforce simp: locks_of_def)
  have "sum_list (map steps_left pcs) \<le> 15 * length pcs" for pcs
    using steps_left_max by (induction pcs) (auto intro: add_mono)
  with n have "work_left s \<le> 15 * n" by (auto simp: work_left_def)
  with someone_goes [OF assms] work_left_less [where s = s] n show ?thesis by blast
qed


text \<open>Two workers, two clients' uploads of one file.\<close>

definition two_idle :: "ref_db pool" where
  "two_idle = \<lparr>po_server = small_server [], po_pcs = [At_idle, At_idle]\<rparr>"

lemma two_idle_start: "pool_start 2 2 two_idle"
  by (simp add: two_idle_def pool_start_def lock_start_def small_server_def small_locks_def numeral_2_eq_2)

lemma workers_never_stuck_witness:
  "\<exists>s. pool_run (\<lambda>t. t = ann_upload) ref_engine two_idle [] s \<and> po_pcs s = [At_dirs ann_upload, At_dirs ann_upload] \<and>
     (\<exists>j < 2. po_pcs s ! j \<noteq> At_idle \<and> worker_step ref_engine j 200 (po_pcs s ! j) (po_server s) \<noteq> Blocked)"
proof -
  let ?OK = "\<lambda>t. t = ann_upload"
  have "pool_run ?OK ref_engine two_idle [] (two_idle\<lparr>po_pcs := [At_dirs ann_upload, At_idle]\<rparr>)"
    using pool_run.more [OF pool_run.start pool_step.take [of ?OK ann_upload 0 two_idle]] by (simp add: two_idle_def)
  from pool_run.more [OF this pool_step.take [of ?OK ann_upload 1]]
  have run: "pool_run ?OK ref_engine two_idle [] (two_idle\<lparr>po_pcs := [At_dirs ann_upload, At_dirs ann_upload]\<rparr>)"
    by (simp add: two_idle_def)
  from workers_never_stuck [OF this two_idle_start] have
    "\<exists>j < 2. [At_dirs ann_upload, At_dirs ann_upload] ! j \<noteq> At_idle \<and>
       worker_step ref_engine j 200 ([At_dirs ann_upload, At_dirs ann_upload] ! j) (po_server two_idle) \<noteq> Blocked"
    by (fastforce simp: MAX_FILE_LOCKS_def)
  with run show ?thesis by (intro exI [of _ "two_idle\<lparr>po_pcs := [At_dirs ann_upload, At_dirs ann_upload]\<rparr>"]) simp
qed

end
