(* ===== verification/Pool_Files.thy ===== *)
theory Pool_Files
  imports Worker_Pool
begin

text \<open>
  What the workers of a pool do to the files. While no file operation fails, the files behave as if every command took
  effect at one point: the pool refines an atomic store (\<open>storage_linearizable\<close>). The last section shows what goes wrong
  otherwise.
\<close>

section \<open>The files of the pool\<close>

text \<open>The tasks of the atomicity theorem: plain names, and an upload brings all of its data.\<close>

definition whole_task :: "Task \<Rightarrow> bool" where
  "whole_task t \<longleftrightarrow> (t_type t \<noteq> TASK_LIST \<longrightarrow> plain_task t) \<and> (t_type t = TASK_UPLOAD \<longrightarrow> length (upload_data t) = unat (t_filesize t))"

text \<open>An upload counts from the moment \<open>fopen\<close> has truncated the file; until \<open>fclose\<close> its data are pending.\<close>

fun pending :: "fsys \<Rightarrow> wk_pc \<Rightarrow> (path \<times> bytes) option" where
  "pending fs (At_write t k p) = Some (target fs t, upload_data t)"
| "pending fs (At_close t k p b e) = Some (target fs t, upload_data t)"
| "pending fs pc = None"

text \<open>What the store holds: the pending uploads over the files.\<close>

definition contents :: "'d pool \<Rightarrow> path \<Rightarrow> bytes option" where
  "contents s p =
     (case map_of (List.map_filter (pending (sv_fs (po_server s))) (po_pcs s)) p of
        Some b \<Rightarrow> Some b
      | None \<Rightarrow> file_at (sv_fs (po_server s)) p)"

text \<open>The atomic store: a command takes effect at one point, and a read returns what is there.\<close>

fun replay :: "file_op list \<Rightarrow> (path \<Rightarrow> bytes option) \<Rightarrow> path \<Rightarrow> bytes option" where
  "replay [] m = m"
| "replay (Op_put p b # tr) m = replay tr (m(p \<mapsto> b))"
| "replay (Op_delete p # tr) m = replay tr (m(p := None))"
| "replay (Op_get p b # tr) m = replay tr m"

fun legal :: "file_op list \<Rightarrow> (path \<Rightarrow> bytes option) \<Rightarrow> bool" where
  "legal [] m = True"
| "legal (Op_get p b # tr) m = (m p = Some b \<and> legal tr m)"
| "legal (op # tr) m = legal tr (replay [op] m)"

lemma replay_append: "replay (a @ b) m = replay b (replay a m)"
proof (induction a arbitrary: m)
  case (Cons op a)
  then show ?case by (cases op) (auto simp: fun_upd_def)
qed simp

lemma legal_append: "legal (a @ b) m \<longleftrightarrow> legal a m \<and> legal b (replay a m)"
proof (induction a arbitrary: m)
  case (Cons op a)
  then show ?case by (cases op) (auto simp: fun_upd_def)
qed simp

text \<open>What is known of a worker at each point, when nothing fails.\<close>

fun in_order :: "fsys \<Rightarrow> wk_pc \<Rightarrow> bool" where
  "in_order fs (At_list t) = True"
| "in_order fs (At_acquire t) = (t_type t \<noteq> TASK_LIST)" | "in_order fs (At_lock t k) = (t_type t \<noteq> TASK_LIST)"
| "in_order fs (At_open t k) = (t_type t \<noteq> TASK_LIST)"
| "in_order fs (At_write t k p) = (t_type t = TASK_UPLOAD \<and> p = target fs t)"
| "in_order fs (At_close t k p b e) = (t_type t = TASK_UPLOAD \<and> p = target fs t \<and> b = upload_data t \<and> \<not> e)"
| "in_order fs (At_size t k p) = (p = target fs t)"
| "in_order fs (At_read t k p n) = (p = target fs t \<and> (\<forall>b. file_at fs p = Some b \<longrightarrow> length b = n))"
| "in_order fs (At_unlock t k a c) = (\<not> c)" | "in_order fs (At_drop t k a c) = (\<not> c)"
| "in_order fs (At_clear t a) = False"
| "in_order fs pc = True"

lemma in_order_cong:
  "\<lbrakk>in_order fs pc; fs_cwd fs' = fs_cwd fs; \<And>t. task_at pc = Some t \<Longrightarrow> section_slot pc \<noteq> None \<Longrightarrow>
     file_at fs' (target fs t) = file_at fs (target fs t)\<rbrakk> \<Longrightarrow> in_order fs' pc"
  by (cases pc) (auto simp: target_def)

lemma pending_cong: "fs_cwd fs' = fs_cwd fs \<Longrightarrow> pending fs' pc = pending fs pc"
  by (cases pc) (simp_all add: target_def)

text \<open>The file calls when none fails.\<close>

lemma file_at_dirs [simp]: "file_at (fs\<lparr>fs_dirs := ds\<rparr>) = file_at fs"
  by (simp add: file_at_def fun_eq_iff)

lemma calls_ok:
  assumes "fs_script fs = []"
  shows "fs_fopen_wb s fs = (r, fs') \<Longrightarrow> fs' = (case r of Inl e \<Rightarrow> fs | Inr p \<Rightarrow> set_file p [] fs) \<and> (\<forall>p. r = Inr p \<longrightarrow> lookup fs s = Inr p)"
    and "fs_fopen_rb s fs = (r, fs') \<Longrightarrow> fs' = fs \<and> (\<forall>p. r = Inr p \<longrightarrow> lookup fs s = Inr p)"
    and "fs_fwrite b fs = (b, False, fs)" "fs_fclose_w p b fs = (0, set_file p b fs)"
    and "fs_fseek p fs = (0, fs)" "fs_fclose_r fs = fs" "fs_malloc fs = (True, fs)"
    and "fs_ftell_end p fs = ((case file_at fs p of None \<Rightarrow> 9223372036854775807 | Some b \<Rightarrow> int (length b)), fs)"
    and "fs_fread p n fs = (case file_at fs p of None \<Rightarrow> ([], True, fs) | Some b \<Rightarrow> (take n b, False, fs))"
  using assms
  by (auto simp: fs_fopen_wb_def fs_fopen_rb_def fs_fwrite_def fs_fclose_w_def fs_fseek_def fs_fclose_r_def
      fs_malloc_def fs_ftell_end_def fs_fread_def split: sum.splits if_splits option.splits)

lemma remove_ok:
  assumes "fs_script fs = []" "fs_remove s fs = (u, fs')"
  shows "fs_script fs' = [] \<and> fs_cwd fs' = fs_cwd fs \<and>
    (case u of Inl e \<Rightarrow> file_at fs' = file_at fs
     | Inr x \<Rightarrow> \<exists>p. lookup fs s = Inr p \<and> file_at fs' = (file_at fs)(p := None))"
proof (cases "lookup fs s")
  case (Inl e)
  with assms show ?thesis by (auto simp: fs_remove_def)
next
  case (Inr p)
  have "unset_file p fs = fs\<lparr>fs_files := fs_files (unset_file p fs)\<rparr>" by (simp add: unset_file_def)
  then have "fs_script (unset_file p fs) = fs_script fs" "fs_cwd (unset_file p fs) = fs_cwd fs" by (simp_all add: unset_file_def)
  with assms Inr show ?thesis
    by (auto simp: fs_remove_def fun_eq_iff file_at_unset_file split: if_splits)
qed

lemma list_step_files:
  assumes "fs_script (sv_fs sv) = []" "list_step t sv = (pc, sv')"
  shows "sv_fs sv' = sv_fs sv \<and> (\<exists>a. pc = At_reply t a)"
  using assms by (auto simp: list_step_def fs_opendir_def fs_readdir_def fs_malloc_def Let_def split: sum.splits if_splits prod.splits)

lemma open_files:
  assumes "fs_script (sv_fs sv) = []" "plain_task t" "t_type t \<noteq> TASK_LIST" "open_step t k sv = (pc, sv')"
  obtains (failed) a where "pc = At_unlock t k a False" "file_at (sv_fs sv') = file_at (sv_fs sv)"
      "fs_script (sv_fs sv') = []" "fs_cwd (sv_fs sv') = fs_cwd (sv_fs sv)"
  | (opens) "t_type t = TASK_UPLOAD" "pc = At_write t k (target (sv_fs sv) t)"
      "sv_fs sv' = set_file (target (sv_fs sv) t) [] (sv_fs sv)"
  | (gone) "t_type t = TASK_DELETE" "pc = At_meta t k" "file_at (sv_fs sv') = (file_at (sv_fs sv))(target (sv_fs sv) t := None)"
      "fs_script (sv_fs sv') = []" "fs_cwd (sv_fs sv') = fs_cwd (sv_fs sv)"
  | (read) "t_type t = TASK_DOWNLOAD" "pc = At_size t k (target (sv_fs sv) t)" "sv_fs sv' = sv_fs sv"
proof (cases "t_type t")
  case TASK_UPLOAD
  obtain r fs where call: "fs_fopen_wb (file_path t) (sv_fs sv) = (r, fs)" by fastforce
  show ?thesis
  proof (cases r)
    case (Inl e)
    with TASK_UPLOAD call calls_ok(1) [OF assms(1) call] assms(1,4) show ?thesis
      by (intro failed) (auto simp: open_step_def)
  next
    case (Inr p)
    with TASK_UPLOAD call calls_ok(1) [OF assms(1) call] assms(4) lookup_only_target [OF assms(2), of "sv_fs sv" p] show ?thesis
      by (intro opens) (auto simp: open_step_def)
  qed
next
  case TASK_DELETE
  obtain r fs where call: "fs_remove (file_path t) (sv_fs sv) = (r, fs)" by fastforce
  show ?thesis
  proof (cases r)
    case (Inl e)
    with TASK_DELETE call remove_ok [OF assms(1) call] assms(4) show ?thesis
      by (intro failed) (auto simp: open_step_def)
  next
    case (Inr u)
    with remove_ok [OF assms(1) call] obtain p where "lookup (sv_fs sv) (file_path t) = Inr p" "file_at fs = (file_at (sv_fs sv))(p := None)"
      by auto
    with TASK_DELETE Inr call remove_ok [OF assms(1) call] assms(4) lookup_only_target [OF assms(2), of "sv_fs sv" p] show ?thesis
      by (intro gone) (auto simp: open_step_def)
  qed
next
  case TASK_DOWNLOAD
  obtain r fs where call: "fs_fopen_rb (file_path t) (sv_fs sv) = (r, fs)" by fastforce
  show ?thesis
  proof (cases r)
    case (Inl e)
    with TASK_DOWNLOAD call calls_ok(2) [OF assms(1) call] assms(1,4) show ?thesis
      by (intro failed) (auto simp: open_step_def)
  next
    case (Inr p)
    with TASK_DOWNLOAD call calls_ok(2) [OF assms(1) call] assms(4) lookup_only_target [OF assms(2), of "sv_fs sv" p] show ?thesis
      by (intro read) (auto simp: open_step_def)
  qed
next
  case TASK_LIST
  with assms(3) show ?thesis by simp
qed

lemma set_file_script [simp]: "fs_script (set_file p b fs) = fs_script fs"
  by (simp add: set_file_def)

lemma target_cong: "fs_cwd fs' = fs_cwd fs \<Longrightarrow> target fs' t = target fs t"
  by (simp add: target_def)

fun touches :: "wk_pc \<Rightarrow> bool" where
  "touches (At_dirs t) = True" | "touches (At_open t k) = True" | "touches (At_close t k p b e) = True"
| "touches (At_read t k p n) = True" | "touches (At_clear t a) = True" | "touches pc = False"

text \<open>The steps that leave the files alone.\<close>

lemma untouched:
  assumes "worker_step E i now pc sv = Goes (pc', sv')" "fs_script (sv_fs sv) = []" "in_order (sv_fs sv) pc" "\<not> touches pc"
  shows "sv_fs sv' = sv_fs sv" "in_order (sv_fs sv) pc'" "pending (sv_fs sv) pc' = pending (sv_fs sv) pc"
    "effect (sv_fs sv) pc pc' = []"
proof -
  have "sv_fs sv' = sv_fs sv \<and> in_order (sv_fs sv) pc' \<and> pending (sv_fs sv) pc' = pending (sv_fs sv) pc \<and>
      effect (sv_fs sv) pc pc' = []"
  proof (cases pc)
    case (At_list t)
    with assms(1) list_step_files [OF assms(2), of t pc' sv'] show ?thesis by auto
  next
    case (At_check t)
    with assms show ?thesis by (auto simp: Let_def split: prod.splits)
  next
    case (At_acquire t)
    with assms show ?thesis by (auto split: prod.splits option.splits)
  next
    case (At_lock t k)
    with assms show ?thesis by (auto split: option.splits)
  next
    case (At_write t k p)
    with assms show ?thesis by (auto simp: calls_ok)
  next
    case (At_meta t k)
    with assms show ?thesis by (auto simp: meta_step_def Let_def split: prod.splits if_splits)
  next
    case (At_size t k p)
    with assms show ?thesis by (auto simp: size_step_def calls_ok Let_def split: option.splits if_splits)
  next
    case (At_unlock t k a c)
    with assms show ?thesis by auto
  next
    case (At_drop t k a c)
    with assms show ?thesis by auto
  next
    case (At_reply t a)
    with assms show ?thesis by (auto split: option.splits)
  next
    case (At_set t a b)
    with assms show ?thesis by (auto split: option.splits)
  next
    case (At_count t b)
    with assms show ?thesis by (auto split: option.splits)
  next
    case (At_free t)
    with assms show ?thesis by (auto simp: free_buffer_def split: if_splits)
  qed (use assms in simp_all)
  then show "sv_fs sv' = sv_fs sv" "in_order (sv_fs sv) pc'" "pending (sv_fs sv) pc' = pending (sv_fs sv) pc"
    "effect (sv_fs sv) pc pc' = []" by simp_all
qed

text \<open>What a step does to the files, in four cases.\<close>

lemma step_files:
  assumes "worker_step E i now pc sv = Goes (pc', sv')" "fs_script (sv_fs sv) = []" "in_order (sv_fs sv) pc"
    and "\<forall>t. task_at pc = Some t \<longrightarrow> whole_task t"
  obtains (quiet) "file_at (sv_fs sv') = file_at (sv_fs sv)" "pending (sv_fs sv) pc' = pending (sv_fs sv) pc"
      "effect (sv_fs sv) pc pc' = []"
  | (read) t k b where "file_at (sv_fs sv') = file_at (sv_fs sv)" "pending (sv_fs sv) pc' = None" "pending (sv_fs sv) pc = None"
      "effect (sv_fs sv) pc pc' = [Op_get (target (sv_fs sv) t) b]" "file_at (sv_fs sv) (target (sv_fs sv) t) = Some b"
      "task_at pc = Some t" "section_slot pc = Some k"
  | (opened) t k where "file_at (sv_fs sv') = (file_at (sv_fs sv))(target (sv_fs sv) t \<mapsto> [])"
      "pending (sv_fs sv) pc = None" "pending (sv_fs sv) pc' = Some (target (sv_fs sv) t, upload_data t)"
      "effect (sv_fs sv) pc pc' = [Op_put (target (sv_fs sv) t) (upload_data t)]" "task_at pc = Some t" "section_slot pc = Some k"
  | (closed) t k where "file_at (sv_fs sv') = (file_at (sv_fs sv))(target (sv_fs sv) t \<mapsto> upload_data t)"
      "pending (sv_fs sv) pc = Some (target (sv_fs sv) t, upload_data t)" "pending (sv_fs sv) pc' = None"
      "effect (sv_fs sv) pc pc' = []" "task_at pc = Some t" "section_slot pc = Some k"
  | (removed) t k where "file_at (sv_fs sv') = (file_at (sv_fs sv))(target (sv_fs sv) t := None)"
      "pending (sv_fs sv) pc = None" "pending (sv_fs sv) pc' = None"
      "effect (sv_fs sv) pc pc' = [Op_delete (target (sv_fs sv) t)]" "task_at pc = Some t" "section_slot pc = Some k"
proof (cases pc)
  case (At_open t k)
  then have step: "open_step t k sv = (pc', sv')" and kind: "t_type t \<noteq> TASK_LIST" and plain: "plain_task t"
    using assms by (auto simp: whole_task_def)
  show ?thesis
    using assms(2) plain kind step
  proof (cases rule: open_files)
    case (failed a)
    with At_open show ?thesis by (intro quiet) simp_all
  next
    case opens
    with At_open show ?thesis by (intro opened [of t k]) (simp_all add: fun_eq_iff file_at_set_file)
  next
    case gone
    with At_open show ?thesis by (intro removed [of t k]) simp_all
  next
    case read
    with At_open show ?thesis by (intro quiet) simp_all
  qed
next
  case (At_read t k p n)
  show ?thesis
  proof (cases "file_at (sv_fs sv) p")
    case None
    with At_read assms(1-3) show ?thesis
      by (intro quiet) (auto simp: read_step_def calls_ok)
  next
    case (Some b)
    with At_read assms(1-3) show ?thesis
      by (intro read) (auto simp: read_step_def calls_ok)
  qed
next
  case (At_close t k p b e)
  with assms show ?thesis
    by (intro closed) (auto simp: calls_ok whole_task_def fun_eq_iff file_at_set_file)
next
  case (At_dirs t)
  with assms(1) show ?thesis
    by (intro quiet) (auto simp: make_dirs_def file_at_def fun_eq_iff fs_mkdir_files)
next
  case (At_clear t a)
  with assms(3) show ?thesis by simp
qed (use untouched [OF assms(1-3)] in \<open>simp_all add: quiet\<close>)

lemma step_in_order:
  assumes "worker_step E i now pc sv = Goes (pc', sv')" "fs_script (sv_fs sv) = []" "in_order (sv_fs sv) pc"
    and "\<forall>t. task_at pc = Some t \<longrightarrow> whole_task t"
  shows "fs_script (sv_fs sv') = [] \<and> fs_cwd (sv_fs sv') = fs_cwd (sv_fs sv) \<and> in_order (sv_fs sv') pc'"
proof (cases pc)
  case (At_open t k)
  then have step: "open_step t k sv = (pc', sv')" and kind: "t_type t \<noteq> TASK_LIST" and plain: "plain_task t"
    using assms by (auto simp: whole_task_def)
  show ?thesis
    using assms(2) plain kind step
    by (cases rule: open_files) (simp_all add: assms(2) target_cong [of "set_file _ _ _"])
next
  case (At_close t k p b e)
  with assms show ?thesis by (auto simp: calls_ok whole_task_def)
next
  case (At_read t k p n)
  with assms(1-3) show ?thesis by (auto simp: read_step_def calls_ok split: option.splits)
next
  case (At_dirs t)
  have "fs_cwd (fs_mkdir s fs) = fs_cwd fs" for s fs using agree_mkdir [of _ s fs] by (simp add: agree_off_def)
  with At_dirs assms(1,2) show ?thesis by (auto simp: make_dirs_def fs_mkdir_script)
next
  case (At_clear t a)
  with assms(3) show ?thesis by simp
qed (use untouched [OF assms(1-3)] assms(2) in simp_all)

section \<open>Pending uploads\<close>

lemma map_of_filter_None:
  "map_of (List.map_filter f xs) p = None \<longleftrightarrow> (\<forall>i < length xs. \<forall>b. f (xs ! i) \<noteq> Some (p, b))"
proof (induction xs)
  case (Cons x xs)
  then show ?case
    by (cases "f x") (auto simp: map_filter_simps All_less_Suc2 split: if_splits)
qed (simp add: map_filter_simps)

lemma map_of_filter_Some:
  assumes "i < length xs" "f (xs ! i) = Some (p, b)" "\<And>j c. j < length xs \<Longrightarrow> f (xs ! j) = Some (p, c) \<Longrightarrow> j = i"
  shows "map_of (List.map_filter f xs) p = Some b"
  using assms
proof (induction xs arbitrary: i)
  case (Cons x xs)
  show ?case
  proof (cases i)
    case 0
    with Cons.prems(2) show ?thesis by (simp add: map_filter_simps)
  next
    case (Suc k)
    have "fst c \<noteq> p" if "f x = Some c" for c
      using Cons.prems(3) [of 0 "snd c"] that Suc by (cases c) auto
    moreover have "map_of (List.map_filter f xs) p = Some b"
      using Cons.IH [of k] Cons.prems Suc by fastforce
    ultimately show ?thesis by (cases "f x") (auto simp: map_filter_simps)
  qed
qed simp

definition no_other :: "'d pool \<Rightarrow> nat \<Rightarrow> path \<Rightarrow> bool" where
  "no_other s i p \<longleftrightarrow> (\<forall>j < length (po_pcs s). \<forall>b. pending (sv_fs (po_server s)) (po_pcs s ! j) = Some (p, b) \<longrightarrow> j = i)"

lemma contents_own:
  assumes "i < length (po_pcs s)" "no_other s i p"
  shows "contents s p = (case pending (sv_fs (po_server s)) (po_pcs s ! i) of
    Some (q, b) \<Rightarrow> if q = p then Some b else file_at (sv_fs (po_server s)) p | None \<Rightarrow> file_at (sv_fs (po_server s)) p)"
proof (cases "\<exists>b. pending (sv_fs (po_server s)) (po_pcs s ! i) = Some (p, b)")
  case True
  then obtain b where b: "pending (sv_fs (po_server s)) (po_pcs s ! i) = Some (p, b)" by blast
  from map_of_filter_Some [where f = "pending (sv_fs (po_server s))", OF assms(1) b] assms(2)
  show ?thesis by (auto simp: contents_def no_other_def b)
next
  case False
  then have "map_of (List.map_filter (pending (sv_fs (po_server s))) (po_pcs s)) p = None"
    unfolding map_of_filter_None using assms(2) unfolding no_other_def by metis
  with False show ?thesis by (auto simp: contents_def split: option.split)
qed

text \<open>A step of one worker does not touch what the others have pending.\<close>

lemma contents_other:
  assumes "i < length (po_pcs s)" "fs_cwd (sv_fs sv) = fs_cwd (sv_fs (po_server s))"
    and "\<And>b. pending (sv_fs (po_server s)) (po_pcs s ! i) \<noteq> Some (p, b)" "\<And>b. pending (sv_fs (po_server s)) pc \<noteq> Some (p, b)"
    and "file_at (sv_fs sv) p = file_at (sv_fs (po_server s)) p"
  shows "contents \<lparr>po_server = sv, po_pcs = (po_pcs s)[i := pc]\<rparr> p = contents s p"
proof -
  let ?f = "pending (sv_fs (po_server s))"
  have skip: "map_of (List.map_filter ?f (xs @ x # ys)) p = map_of (List.map_filter ?f (xs @ ys)) p"
    if "\<And>b. ?f x \<noteq> Some (p, b)" for x xs ys
  proof (induction xs)
    case Nil
    have "fst c \<noteq> p" if "?f x = Some c" for c using \<open>\<And>b. ?f x \<noteq> Some (p, b)\<close> [of "snd c"] that by (cases c) auto
    then show ?case by (cases "?f x") (auto simp: map_filter_simps)
  next
    case (Cons y xs)
    then show ?case by (cases "?f y") (auto simp: map_filter_simps)
  qed
  have "po_pcs s = take i (po_pcs s) @ po_pcs s ! i # drop (Suc i) (po_pcs s)" using assms(1) by (rule id_take_nth_drop)
  moreover have "(po_pcs s)[i := pc] = take i (po_pcs s) @ pc # drop (Suc i) (po_pcs s)"
    using assms(1) by (rule upd_conv_take_nth_drop)
  ultimately have "map_of (List.map_filter ?f ((po_pcs s)[i := pc])) p = map_of (List.map_filter ?f (po_pcs s)) p"
    using skip [OF assms(3)] skip [OF assms(4)] by metis
  moreover have "pending (sv_fs sv) = ?f" using pending_cong [OF assms(2)] by (simp add: fun_eq_iff)
  ultimately show ?thesis using assms(5) by (simp add: contents_def split: option.split)
qed


section \<open>Refinement of the atomic store\<close>

lemma pending_section:
  "pending fs pc = Some (p, b) \<Longrightarrow> \<exists>t k. task_at pc = Some t \<and> section_slot pc = Some k \<and> p = target fs t"
  by (cases pc) auto

lemma target_key: "target fs t = target fs t' \<Longrightarrow> key_of t = key_of t'"
  by (simp add: target_def)

lemma map_filter_update:
  "f y = f (xs ! i) \<Longrightarrow> List.map_filter f (xs[i := y]) = List.map_filter f xs"
proof (induction xs arbitrary: i)
  case (Cons x xs)
  then show ?case by (cases i) (simp_all add: map_filter_simps split: option.split)
qed simp

text \<open>The conditions under which the pool is atomic.\<close>

definition atomic_pool :: "(Task \<Rightarrow> bool) \<Rightarrow> int \<Rightarrow> nat \<Rightarrow> 'd pool \<Rightarrow> bool" where
  "atomic_pool OK c n s0 \<longleftrightarrow>
     pool_start c n s0 \<and> 0 < c \<and> c \<le> MAX_FILE_LOCKS \<and> collision_free (names OK) c \<and> (\<forall>t. OK t \<longrightarrow> whole_task t) \<and>
     fs_script (sv_fs (po_server s0)) = []"

definition files_inv :: "'d pool \<Rightarrow> bool" where
  "files_inv s \<longleftrightarrow> fs_script (sv_fs (po_server s)) = [] \<and>
     (\<forall>i < length (po_pcs s). in_order (sv_fs (po_server s)) (po_pcs s ! i))"

lemma alone:
  assumes "atomic_pool OK c n s0" "pool_run OK E s0 tr s"
    and "i < length (po_pcs s)" "task_at (po_pcs s ! i) = Some t" "section_slot (po_pcs s ! i) = Some k"
    and "j < length (po_pcs s)" "task_at (po_pcs s ! j) = Some t'" "section_slot (po_pcs s ! j) = Some k'"
    and "target fs t = target fs t'"
  shows "j = i"
  using pool_exclusive [OF assms(2), of c n j i k' k t' t] assms target_key [OF assms(9)] by (simp add: atomic_pool_def)

lemma alone_no_other:
  assumes "atomic_pool OK c n s0" "pool_run OK E s0 tr s"
    and "i < length (po_pcs s)" "task_at (po_pcs s ! i) = Some t" "section_slot (po_pcs s ! i) = Some k"
  shows "no_other s i (target (sv_fs (po_server s)) t)"
  unfolding no_other_def using alone [OF assms] pending_section by metis

lemma step_here:
  assumes "no_other s i p" "fs_cwd (sv_fs sv) = fs_cwd (sv_fs (po_server s))"
  shows "no_other \<lparr>po_server = sv, po_pcs = (po_pcs s)[i := pc]\<rparr> i p"
proof -
  have "j = i" if "j < length (po_pcs s)" "pending (sv_fs (po_server s)) ((po_pcs s)[i := pc] ! j) = Some (p, b)" for j b
    using assms(1) that by (cases "j = i") (auto simp: no_other_def)
  then show ?thesis using pending_cong [OF assms(2)] by (auto simp: no_other_def)
qed

text \<open>What a step does to the contents: nothing, or one file changes that no other worker has pending.\<close>

lemma contents_same:
  assumes "file_at (sv_fs sv) = file_at (sv_fs (po_server s))" "fs_cwd (sv_fs sv) = fs_cwd (sv_fs (po_server s))"
    and "pending (sv_fs (po_server s)) pc = pending (sv_fs (po_server s)) (po_pcs s ! i)"
  shows "contents \<lparr>po_server = sv, po_pcs = (po_pcs s)[i := pc]\<rparr> = contents s"
proof -
  have pend: "pending (sv_fs sv) = pending (sv_fs (po_server s))" using pending_cong [OF assms(2)] by (simp add: fun_eq_iff)
  show ?thesis
    unfolding contents_def pool.select_convs pend assms(1) map_filter_update [of "pending (sv_fs (po_server s))", OF assms(3)] ..
qed

lemma contents_changed:
  assumes i: "i < length (po_pcs s)" and cwd: "fs_cwd (sv_fs sv) = fs_cwd (sv_fs (po_server s))" and alone: "no_other s i p"
    and before: "\<And>q b. pending (sv_fs (po_server s)) (po_pcs s ! i) = Some (q, b) \<Longrightarrow> q = p"
    and after: "\<And>q b. pending (sv_fs (po_server s)) pc = Some (q, b) \<Longrightarrow> q = p"
    and files: "\<And>q. q \<noteq> p \<Longrightarrow> file_at (sv_fs sv) q = file_at (sv_fs (po_server s)) q"
  shows "contents \<lparr>po_server = sv, po_pcs = (po_pcs s)[i := pc]\<rparr> = (contents s)
    (p := (case pending (sv_fs (po_server s)) pc of Some (q, b) \<Rightarrow> Some b | None \<Rightarrow> file_at (sv_fs sv) p))"
proof
  fix q
  let ?s = "\<lparr>po_server = sv, po_pcs = (po_pcs s)[i := pc]\<rparr>"
  show "contents ?s q = ((contents s)(p := (case pending (sv_fs (po_server s)) pc of
      Some (q, b) \<Rightarrow> Some b | None \<Rightarrow> file_at (sv_fs sv) p))) q"
  proof (cases "q = p")
    case True
    with contents_own [of i ?s p] step_here [OF alone cwd, of pc] i after pending_cong [OF cwd, of pc] show ?thesis
      by (auto split: option.split)
  next
    case False
    with before after files contents_other [OF i cwd, of q pc] show ?thesis by auto
  qed
qed

text \<open>The other workers stay in order, as only the file changes whose lock the worker holds.\<close>

lemma others_in_order:
  assumes atomic: "atomic_pool OK c n s0" and run: "pool_run OK E s0 tr s" and inv: "files_inv s" and i: "i < length (po_pcs s)"
    and new: "fs_script (sv_fs sv) = []" "fs_cwd (sv_fs sv) = fs_cwd (sv_fs (po_server s))" "in_order (sv_fs sv) pc"
    and changes: "\<And>p. file_at (sv_fs sv) p \<noteq> file_at (sv_fs (po_server s)) p \<Longrightarrow>
      \<exists>t k. task_at (po_pcs s ! i) = Some t \<and> section_slot (po_pcs s ! i) = Some k \<and> p = target (sv_fs (po_server s)) t"
  shows "files_inv \<lparr>po_server = sv, po_pcs = (po_pcs s)[i := pc]\<rparr>"
proof -
  let ?fs = "sv_fs (po_server s)"
  have "in_order (sv_fs sv) (po_pcs s ! j)" if "j < length (po_pcs s)" "j \<noteq> i" for j
  proof (rule in_order_cong [OF _ new(2)])
    show "in_order ?fs (po_pcs s ! j)" using inv that(1) by (simp add: files_inv_def)
    fix t assume t: "task_at (po_pcs s ! j) = Some t" "section_slot (po_pcs s ! j) \<noteq> None"
    then obtain k where k: "section_slot (po_pcs s ! j) = Some k" by auto
    show "file_at (sv_fs sv) (target ?fs t) = file_at ?fs (target ?fs t)"
      using changes alone [OF atomic run i _ _ that(1) t(1) k] that(2) by metis
  qed
  then have "in_order (sv_fs sv) ((po_pcs s)[i := pc] ! j)" if "j < length (po_pcs s)" for j
    using new that by (cases "j = i") auto
  then show ?thesis using new(1) by (simp add: files_inv_def)
qed

text \<open>One step of a worker: the store makes the step's effect.\<close>

lemma work_refines:
  assumes atomic: "atomic_pool OK c n s0" and run: "pool_run OK E s0 tr s" and inv: "files_inv s" and i: "i < length (po_pcs s)"
    and step: "worker_step E i now (po_pcs s ! i) (po_server s) = Goes (pc, sv)"
  defines "s' \<equiv> \<lparr>po_server = sv, po_pcs = (po_pcs s)[i := pc]\<rparr>"
    and "ops \<equiv> effect (sv_fs (po_server s)) (po_pcs s ! i) pc"
  shows "files_inv s' \<and> legal ops (contents s) \<and> contents s' = replay ops (contents s)"
proof -
  let ?fs = "sv_fs (po_server s)"
  have script: "fs_script ?fs = []" and order: "in_order ?fs (po_pcs s ! i)" using inv i by (simp_all add: files_inv_def)
  have tasks: "\<forall>t. task_at (po_pcs s ! i) = Some t \<longrightarrow> whole_task t"
    using pool_locks [OF run] atomic i by (auto simp: atomic_pool_def tasks_ok_def)
  note new = step_in_order [OF step script order tasks]
  then have cwd: "fs_cwd (sv_fs sv) = fs_cwd ?fs" by blast
  have others: "files_inv s'"
    if "\<And>p. file_at (sv_fs sv) p \<noteq> file_at ?fs p \<Longrightarrow>
      \<exists>t k. task_at (po_pcs s ! i) = Some t \<and> section_slot (po_pcs s ! i) = Some k \<and> p = target ?fs t"
    unfolding s'_def using new that by (intro others_in_order [OF atomic run inv i]) blast+
  note same = contents_same [OF _ cwd, of pc i, folded s'_def] and changed = contents_changed [OF i cwd, of _ pc, folded s'_def]
  from step script order tasks show ?thesis
  proof (cases rule: step_files)
    case quiet
    with same others show ?thesis by (simp add: ops_def)
  next
    case (read t k b)
    have "contents s (target ?fs t) = Some b"
      using contents_own [OF i alone_no_other [OF atomic run i read(6,7)]] read by simp
    with same read others show ?thesis by (simp add: ops_def)
  next
    case (opened t k)
    note lone = alone_no_other [OF atomic run i opened(5,6)]
    have "contents s' = (contents s)(target ?fs t \<mapsto> upload_data t)"
      by (subst changed [OF lone]) (simp_all add: opened)
    moreover have "files_inv s'" using opened by (intro others) (auto split: if_splits)
    ultimately show ?thesis using opened by (simp add: ops_def)
  next
    case (closed t k)
    note lone = alone_no_other [OF atomic run i closed(5,6)]
    have "contents s (target ?fs t) = Some (upload_data t)" using contents_own [OF i lone] closed by simp
    then have "contents s' = contents s"
      by (subst changed [OF lone]) (simp_all add: closed fun_upd_idem)
    moreover have "files_inv s'" using closed by (intro others) (auto split: if_splits)
    ultimately show ?thesis using closed by (simp add: ops_def)
  next
    case (removed t k)
    note lone = alone_no_other [OF atomic run i removed(5,6)]
    have "contents s' = (contents s)(target ?fs t := None)"
      by (subst changed [OF lone]) (simp_all add: removed)
    moreover have "files_inv s'" using removed by (intro others) (auto split: if_splits)
    ultimately show ?thesis using removed by (simp add: ops_def)
  qed
qed

lemma pool_refines:
  assumes "pool_run OK E s0 tr s" "atomic_pool OK c n s0"
  shows "files_inv s \<and> legal tr (contents s0) \<and> contents s = replay tr (contents s0)"
  using assms(1)
proof (induction rule: pool_run.induct)
  case start
  then show ?case using assms(2) by (auto simp: files_inv_def atomic_pool_def pool_start_def)
next
  case (more tr s ops s')
  have "files_inv s' \<and> legal ops (contents s) \<and> contents s' = replay ops (contents s)"
    using more(2)
  proof (cases rule: pool_step.cases)
    case (take task i)
    then have "contents s' = contents s"
      using map_filter_update [of "pending (sv_fs (po_server s))" "At_dirs task" "po_pcs s" i]
      by (simp add: contents_def fun_eq_iff split: option.split)
    with take more.IH show ?thesis by (auto simp: files_inv_def nth_list_update)
  next
    case (work i now pc sv)
    with work_refines [OF assms(2) more(1)] more.IH show ?thesis by simp
  next
    case (others sm db freed)
    then have "contents s' = contents s" by (simp add: contents_def fun_eq_iff split: option.split)
    with others more.IH show ?thesis by (simp add: files_inv_def)
  qed
  with more.IH show ?case by (simp add: legal_append replay_append)
qed

lemma contents_settled:
  "(\<forall>pc \<in> set (po_pcs s). pending (sv_fs (po_server s)) pc = None) \<Longrightarrow> contents s = file_at (sv_fs (po_server s))"
  by (auto simp: contents_def fun_eq_iff map_of_filter_None split: option.split)
     (metis map_of_filter_None nth_mem option.distinct(1))

text \<open>The storage of a pool of workers is linearizable. However the steps of the workers interleave with each other and with the
  client threads, the files behave as an atomic store in which each upload and deletion takes effect at one point and
  every successful download returns, whole, the version that is current at one point: the trace of effects is a legal
  history of the store, and once no upload is between \<open>fopen\<close> and \<open>fclose\<close> the files are what the history leaves. This needs file names without path
  components, uploads whose data arrived whole, no failing file calls, and lock names that do not collide.\<close>

theorem storage_linearizable:
  assumes "pool_start c n s0" "0 < c" "c \<le> MAX_FILE_LOCKS" "collision_free (names OK) c" "\<And>t. OK t \<Longrightarrow> whole_task t"
    and "fs_script (sv_fs (po_server s0)) = []" "pool_run OK E s0 tr s"
  shows "legal tr (file_at (sv_fs (po_server s0))) \<and> contents s = replay tr (file_at (sv_fs (po_server s0))) \<and>
    ((\<forall>pc \<in> set (po_pcs s). pending (sv_fs (po_server s)) pc = None) \<longrightarrow>
       file_at (sv_fs (po_server s)) = replay tr (file_at (sv_fs (po_server s0))))"
proof -
  have "contents s0 = file_at (sv_fs (po_server s0))"
    using assms(1) by (intro contents_settled) (auto simp: pool_start_def)
  with pool_refines [OF assms(7), of c n] assms(1-6) contents_settled [of s] show ?thesis
    by (auto simp: atomic_pool_def)
qed


section \<open>What the locks do not cover\<close>

text \<open>The answer wakes the client thread, which may then end the session (a broken connection, or \<open>QUIT\<close> in its buffer): the
  worker counts the operation in a session that is gone.\<close>

lemma delivery_race:
  assumes "session_get (sv_sm sv) (t_session_id task) = Some a"
    and "response_fill a st m d n (sv_sm sv) = Some sm"
  shows "worker_step E i now (At_count task a) (sv\<lparr>sv_sm := session_destroy sm (t_session_id task)\<rparr>) = Dangling"
proof -
  let ?f = "\<lambda>s. s\<lparr>se_response := left_state (response_set (se_response s) st (Some m) d n)\<rparr>"
  have sm: "sm = touched (sv_sm sv) a ?f" "keeps_id ?f"
    using assms(2) by (auto simp: response_fill_def on_session_touched keeps_id_def split: if_splits)
  from assms(1) obtain j s where at: "find_slot (sv_sm sv) (t_session_id task) = Some j" "t_session_id task \<noteq> 0"
      "sm_sessions (sv_sm sv) ! j = Some a" "sm_heap (sv_sm sv) a = Some s"
    by (auto simp: session_get_def split: if_splits option.splits)
  with sm have "session_destroy sm (t_session_id task) = destroyed sm j a (?f s)"
    by (intro session_destroy_found) (simp_all add: touched_heap find_slot_def)
  then show ?thesis by (simp add: session_increment_operations_def on_session_def destroyed_def)
qed

text \<open>A failed upload removes its file after it has left the critical section: it removes whatever is there,
  also what another worker has uploaded in the meantime, or is about to write with the lock in its hands.\<close>

lemma cleanup_ignores_locks:
  assumes "fs_script (sv_fs sv) = []" "lookup (sv_fs sv) (file_path t) = Inr (target (sv_fs sv) t)"
    and "file_at (sv_fs sv) (target (sv_fs sv) t) = Some b"
  shows "\<exists>fs. worker_step E i now (At_clear t a) sv = Goes (At_reply t a, sv\<lparr>sv_fs := fs\<rparr>) \<and>
    file_at fs (target (sv_fs sv) t) = None" "lock_view (At_clear t a) = Idle"
proof -
  show "\<exists>fs. worker_step E i now (At_clear t a) sv = Goes (At_reply t a, sv\<lparr>sv_fs := fs\<rparr>) \<and>
    file_at fs (target (sv_fs sv) t) = None"
    using assms by (intro exI [of _ "unset_file (target (sv_fs sv) t) (sv_fs sv)"]) (simp add: fs_remove_def file_at_unset_file)
  show "lock_view (At_clear t a) = Idle" by simp
qed

end
