(* ===== verification/Fine_System.thy ===== *)
theory Fine_System
  imports System_Props Pool_Files
begin

text \<open>
  The server as a whole, at the grain of \<open>Worker_Steps\<close>: client threads take their turns, workers their single steps, in
  any order. A run of it is a run of \<open>Worker_Pool\<close>, so that what is shown there holds of the server: its storage is
  linearizable. A client thread never uses a session that was freed; a worker does at one point only.
\<close>

section \<open>Steps\<close>

text \<open>A worker is at one of its control points, or has returned.\<close>

record 'd fine =
  fi_shared :: "'d shared"
  fi_clients :: "client list"
  fi_workers :: "wk_pc option list"
  fi_main :: main_state

abbreviation fi_sm :: "'d fine \<Rightarrow> SessionManager" where
  "fi_sm fi \<equiv> sv_sm (sh_server (fi_shared fi))"

definition fine_turn ::
  "'d sqlite \<Rightarrow> nat \<Rightarrow> int \<Rightarrow> wk_pc option \<Rightarrow> 'd shared \<Rightarrow> (wk_pc option \<times> 'd shared) turn" where
  "fine_turn E me now wk sh =
     (case wk of
        None \<Rightarrow> Blocked
      | Some pc \<Rightarrow>
          (if pc = At_idle then
             (case task_queue_pop (sh_tasks sh) of
                Wait cv \<Rightarrow> Blocked
              | Leave (rc, out) q ns \<Rightarrow>
                  (case out of
                     Some task \<Rightarrow> if rc = 0 then Goes (Some (At_dirs task), sh\<lparr>sh_tasks := q\<rparr>) else Goes (None, sh\<lparr>sh_tasks := q\<rparr>)
                   | None \<Rightarrow> Goes (None, sh\<lparr>sh_tasks := q\<rparr>)))
           else
             (case worker_step E me now pc (sh_server sh) of
                Blocked \<Rightarrow> Blocked
              | Dangling \<Rightarrow> Dangling
              | Goes (pc', sv) \<Rightarrow> Goes (Some pc', sh\<lparr>sh_server := sv\<rparr>))))"

definition pc_of :: "wk_pc option \<Rightarrow> wk_pc" where
  "pc_of wk = (case wk of None \<Rightarrow> At_idle | Some pc \<Rightarrow> pc)"

text \<open>The steps of the main thread, of the signal handler and of the network.\<close>

inductive main_step :: "'d fine \<Rightarrow> main_state \<Rightarrow> 'd shared \<Rightarrow> bool" for fi where
  accept: "mn_phase (fi_main fi) = Mn_accept \<Longrightarrow>
    accept_turn conn (fi_main fi) (fi_shared fi) = Goes (mn, sh) \<Longrightarrow> main_step fi mn sh"
| push: "mn_phase (fi_main fi) = Mn_push cfd \<Longrightarrow>
    accept_push_turn cfd (fi_main fi) (fi_shared fi) = Goes (mn, sh) \<Longrightarrow> main_step fi mn sh"
| join_clients: "mn_phase (fi_main fi) = Mn_join_clients \<Longrightarrow>
    join_clients (fi_clients fi) (fi_main fi) = Goes mn \<Longrightarrow> main_step fi mn (fi_shared fi)"
| join_workers: "mn_phase (fi_main fi) = Mn_join_workers \<Longrightarrow> \<forall>wk \<in> set (fi_workers fi). wk = None \<Longrightarrow>
    main_step fi ((fi_main fi)\<lparr>mn_phase := Mn_done\<rparr>) (fi_shared fi)"
| signal: "int_handler (fi_main fi) (fi_shared fi) = (mn, sh) \<Longrightarrow> main_step fi mn sh"
| network: "main_step fi (fi_main fi) ((fi_shared fi)\<lparr>sh_net := (sh_net (fi_shared fi))(fd := s)\<rparr>)"

text \<open>A step, with what it does to the files. The tasks workers take satisfy \<open>OK\<close>.\<close>

inductive fine_step ::
  "(Task \<Rightarrow> bool) \<Rightarrow> bool \<Rightarrow> (bytes \<Rightarrow> bytes) \<Rightarrow> 'd sqlite \<Rightarrow> 'd fine \<Rightarrow> file_op list \<Rightarrow> 'd fine \<Rightarrow> bool" for OK w sha E where
  client: "i < length (fi_clients fi) \<Longrightarrow> chance_ok w c (fi_sm fi) \<Longrightarrow>
    client_worker sha E c (fi_clients fi ! i) (fi_shared fi) = Goes (ct, sh) \<Longrightarrow>
    fine_step OK w sha E fi [] (fi\<lparr>fi_clients := (fi_clients fi)[i := ct], fi_shared := sh\<rparr>)"
| worker: "i < length (fi_workers fi) \<Longrightarrow>
    fine_turn E i now (fi_workers fi ! i) (fi_shared fi) = Goes (wk, sh) \<Longrightarrow>
    \<forall>t. wk = Some (At_dirs t) \<longrightarrow> OK t \<Longrightarrow>
    fine_step OK w sha E fi (effect (sv_fs (sh_server (fi_shared fi))) (pc_of (fi_workers fi ! i)) (pc_of wk))
      (fi\<lparr>fi_workers := (fi_workers fi)[i := wk], fi_shared := sh\<rparr>)"
| main: "main_step fi mn sh \<Longrightarrow> fine_step OK w sha E fi [] (fi\<lparr>fi_main := mn, fi_shared := sh\<rparr>)"

inductive fine_run ::
  "(Task \<Rightarrow> bool) \<Rightarrow> bool \<Rightarrow> (bytes \<Rightarrow> bytes) \<Rightarrow> 'd sqlite \<Rightarrow> 'd fine \<Rightarrow> file_op list \<Rightarrow> 'd fine \<Rightarrow> bool" for OK w sha E fi0 where
  start: "fine_run OK w sha E fi0 [] fi0"
| more: "fine_run OK w sha E fi0 tr fi \<Longrightarrow> fine_step OK w sha E fi ops fi' \<Longrightarrow> fine_run OK w sha E fi0 (tr @ ops) fi'"

definition fine_start :: "'d started \<Rightarrow> nat \<Rightarrow> nat \<Rightarrow> 'd fine \<Rightarrow> bool" where
  "fine_start st clients workers fi \<longleftrightarrow> (\<exists>sh fd live. st = Started sh fd live \<and>
     fi = \<lparr>fi_shared = sh, fi_clients = replicate clients idle_client, fi_workers = replicate workers (Some At_idle),
       fi_main = \<lparr>mn_phase = Mn_accept, mn_keep_running = True, mn_listen_fd = fd, mn_handler_called = False\<rparr>\<rparr>)"

section \<open>The invariant\<close>

text \<open>The tasks that were not answered yet.\<close>

fun unanswered :: "wk_pc \<Rightarrow> Task list" where
  "unanswered At_idle = []" | "unanswered (At_count t s) = []" | "unanswered (At_free t) = []"
| "unanswered pc = (case task_at pc of None \<Rightarrow> [] | Some t \<Rightarrow> [t])"

definition fine_out :: "'d fine \<Rightarrow> Task multiset" where
  "fine_out fi = mset (tq_items (sh_tasks (fi_shared fi))) + mset (concat (map (unanswered \<circ> pc_of) (fi_workers fi)))"

text \<open>An answer that is about to be written goes to a session with the task's identifier.\<close>

definition addressed :: "SessionManager \<Rightarrow> wk_pc \<Rightarrow> bool" where
  "addressed sm pc \<longleftrightarrow> (\<forall>t a s. pc = At_set t a s \<longrightarrow> (\<exists>x. sm_heap sm s = Some x \<and> se_id x = t_session_id t))"

definition whole_upload :: "Task \<Rightarrow> bool" where
  "whole_upload t \<longleftrightarrow> (t_type t = TASK_UPLOAD \<longrightarrow> length (upload_data t) = unat (t_filesize t))"

definition fine_inv :: "bool \<Rightarrow> 'd fine \<Rightarrow> bool" where
  "fine_inv w fi \<longleftrightarrow> sys_ok w (fi_sm fi) (fi_clients fi) (fine_out fi) \<and> tq_wf (sh_tasks (fi_shared fi)) \<and>
     (\<forall>i < length (fi_workers fi). addressed (fi_sm fi) (pc_of (fi_workers fi ! i))) \<and>
     (\<forall>t \<in># fine_out fi. whole_upload t)"

lemma mset_unanswered_update:
  assumes "i < length ws"
  shows "mset (concat (map (unanswered \<circ> pc_of) (ws[i := wk]))) + mset (unanswered (pc_of (ws ! i))) =
    mset (concat (map (unanswered \<circ> pc_of) ws)) + mset (unanswered (pc_of wk))"
  using assms by (induction ws arbitrary: i) (auto split: nat.split)

lemma unanswered_at: "t \<in> set (unanswered pc) \<Longrightarrow> task_at pc = Some t"
  by (cases pc) auto

lemma unanswered_in:
  assumes "i < length (fi_workers fi)" "t \<in> set (unanswered (pc_of (fi_workers fi ! i)))"
  shows "t \<in># fine_out fi"
  using assms by (auto simp: fine_out_def intro!: bexI [of _ "fi_workers fi ! i"])

text \<open>A client does not touch a session another one's answer goes to.\<close>

lemma addressed_client:
  assumes ok: "sys_ok w (sv_sm (sh_server sh)) cl ts" and i: "i < length cl"
    and e: "client_effect w (cl ! i) sh ct sh'" and a: "addressed (sv_sm (sh_server sh)) pc"
    and t: "\<forall>t \<in> set (unanswered pc). t \<in># ts"
  shows "addressed (sv_sm (sh_server sh')) pc"
  unfolding addressed_def
proof (intro allI impI)
  fix t b s assume pc: "pc = At_set t b s"
  with a obtain x where x: "sm_heap (sv_sm (sh_server sh)) s = Some x" "se_id x = t_session_id t"
    by (auto simp: addressed_def)
  from pc t have "t \<in># ts" by simp
  with sys_okD(5) [OF ok] obtain j where j: "j < length cl" "waiting (sv_sm (sh_server sh)) (t_session_id t) (cl ! j)" by blast
  have "\<not> (in_session (cl ! i) \<and> s = ct_session (cl ! i))"
  proof
    assume own: "in_session (cl ! i) \<and> s = ct_session (cl ! i)"
    then obtain y where "sm_heap (sv_sm (sh_server sh)) s = Some y" "se_id y = ct_session_id (cl ! i)"
      using sys_ok_live [OF ok i] by metis
    with x j own waiting_in_session [OF j(2)] have "i = j"
      by (intro sys_okD(3) [OF ok i j(1)]) (auto simp: waiting_def)
    with j(2) client_effectD(9) [OF e] show False by (simp add: waiting_def)
  qed
  with client_effectD(3) [OF e, of s] x show "\<exists>x. sm_heap (sv_sm (sh_server sh')) s = Some x \<and> se_id x = t_session_id t"
    by simp
qed


text \<open>What a step of a worker does to the sessions.\<close>

fun delivers :: "wk_pc \<Rightarrow> bool" where
  "delivers (At_reply t a) = True" | "delivers (At_set t a s) = True" | "delivers (At_count t s) = True" | "delivers pc = False"

lemma step_quiet:
  "\<lbrakk>worker_step E i now pc sv = Goes (pc', sv'); \<not> delivers pc\<rbrakk> \<Longrightarrow>
     sv_sm sv' = sv_sm sv \<and> unanswered pc' = unanswered pc \<and> (\<forall>t a s. pc' \<noteq> At_set t a s)"
  by (cases pc)
    (auto simp: Let_def open_step_def size_step_def read_step_def list_step_def meta_step_def free_buffer_def
      split: prod.splits option.splits sum.splits if_splits task_type.splits)

lemma step_sessions:
  assumes "worker_step E i now pc sv = Goes (pc', sv')"
  obtains (same) "sv_sm sv' = sv_sm sv" "unanswered pc' = unanswered pc" "\<And>t a s. pc' \<noteq> At_set t a s"
  | (found) t a s where "pc = At_reply t a" "pc' = At_set t a s" "sv_sm sv' = sv_sm sv"
      "session_get (sv_sm sv) (t_session_id t) = Some s"
  | (gone) t a where "pc = At_reply t a" "pc' = At_free t" "sv_sm sv' = sv_sm sv" "session_get (sv_sm sv) (t_session_id t) = None"
  | (fill) t a s f where "pc = At_set t a s" "pc' = At_count t s" "sv_sm sv' = touched (sv_sm sv) s f" "fills f"
  | (count) t s f where "pc = At_count t s" "pc' = At_free t" "sv_sm sv' = touched (sv_sm sv) s f" "harmless f"
proof (cases "delivers pc")
  case False
  with step_quiet [OF assms] same show ?thesis by blast
next
  case True
  then show ?thesis
  proof (cases rule: delivers.elims(2))
    case (1 t a)
    with assms found gone show ?thesis by (auto split: option.splits)
  next
    case (2 t a s)
    let ?f = "\<lambda>x. x\<lparr>se_response := left_state (response_set (se_response x) (an_status a) (Some (an_message a)) (an_data a) (an_size a))\<rparr>"
    have "fills ?f" by (simp add: fills_def response_set_def)
    with 2 assms fill [of t a s ?f] show ?thesis
      by (auto simp: response_fill_def on_session_touched split: option.splits if_splits)
  next
    case (3 t s)
    let ?f = "\<lambda>x. x\<lparr>se_ops := se_ops x + 1, se_last_activity := now\<rparr>"
    have "harmless ?f" by (simp add: harmless_def)
    with 3 assms count [of t s ?f] show ?thesis
      by (auto simp: session_increment_operations_def on_session_touched split: option.splits if_splits)
  qed
qed

text \<open>What a worker does in a turn: it takes a task, returns, or makes a step in its task.\<close>

lemma fine_turn_cases:
  assumes "fine_turn E i now wk sh = Goes (wk', sh')" "tq_wf (sh_tasks sh)"
  obtains (take) t q where "wk = Some At_idle" "wk' = Some (At_dirs t)" "sh' = sh\<lparr>sh_tasks := q\<rparr>" "tq_wf q"
      "tq_shutdown q = tq_shutdown (sh_tasks sh)" "tq_items (sh_tasks sh) = t # tq_items q"
  | (leave) "wk = Some At_idle" "wk' = None" "sh' = sh" "tq_shutdown (sh_tasks sh)" "tq_items (sh_tasks sh) = []"
  | (work) pc pc' sv where "wk = Some pc" "pc \<noteq> At_idle" "wk' = Some pc'"
      "worker_step E i now pc (sh_server sh) = Goes (pc', sv)" "sh' = sh\<lparr>sh_server := sv\<rparr>"
proof (cases "wk = Some At_idle")
  case True
  show ?thesis
    by (rule tq.pop_cases [OF assms(2)]) (use True assms(1) take leave in \<open>auto simp: fine_turn_def\<close>)
next
  case False
  with assms(1) work show ?thesis by (auto simp: fine_turn_def split: option.splits turn.splits)
qed

lemma fine_client_effect:
  assumes "fine_inv w fi" "i < length (fi_clients fi)" "chance_ok w c (fi_sm fi)"
    and "client_worker sha E c (fi_clients fi ! i) (fi_shared fi) = Goes (ct, sh)"
  shows "client_effect w (fi_clients fi ! i) (fi_shared fi) ct sh"
proof -
  have ok: "sys_ok w (fi_sm fi) (fi_clients fi) (fine_out fi)" using assms(1) by (simp add: fine_inv_def)
  have "turn_ok (client_effect w (fi_clients fi ! i) (fi_shared fi)) (client_worker sha E c (fi_clients fi ! i) (fi_shared fi))"
    by (rule client_turn_ok [OF sys_okD(1) [OF ok] assms(3)]) (rule sys_okD(2) [OF ok assms(2)])
  with assms(4) show ?thesis by simp
qed

lemma fine_client:
  assumes inv: "fine_inv w fi" and i: "i < length (fi_clients fi)" and c: "chance_ok w c (fi_sm fi)"
    and g: "client_worker sha E c (fi_clients fi ! i) (fi_shared fi) = Goes (ct, sh)"
  shows "fine_inv w (fi\<lparr>fi_clients := (fi_clients fi)[i := ct], fi_shared := sh\<rparr>)"
proof -
  let ?fi = "fi\<lparr>fi_clients := (fi_clients fi)[i := ct], fi_shared := sh\<rparr>" and ?ct = "fi_clients fi ! i"
  have ok: "sys_ok w (fi_sm fi) (fi_clients fi) (fine_out fi)" and wf: "tq_wf (sh_tasks (fi_shared fi))"
    using inv by (simp_all add: fine_inv_def)
  note e = fine_client_effect [OF inv i c g]
  note t = client_effect_tasks [OF e wf]
  have out: "fine_out ?fi = fine_out fi + pushed ?ct ct" using t by (simp add: fine_out_def)
  have "whole_upload t" if "t \<in># pushed ?ct ct" for t
  proof -
    have p: "ct_phase ?ct = Ct_push t" using that by (simp add: pushed_iff)
    then have "session_ok (fi_sm fi) ?ct" using sys_okD(2) [OF ok i] by (simp add: in_session_def)
    then obtain s where "task_of ?ct s t" "\<And>b. t_data_buffer t = Some b \<Longrightarrow> length b = unat (t_filesize t)"
      by (rule session_okD) (use p in simp)
    then show ?thesis by (auto simp: whole_upload_def task_of_def upload_data_def)
  qed
  moreover have "addressed (sv_sm (sh_server sh)) (pc_of (fi_workers fi ! j))" if "j < length (fi_workers fi)" for j
    using addressed_client [OF ok i e] unanswered_in [OF that] inv that by (simp add: fine_inv_def)
  ultimately show ?thesis using sys_ok_client [OF ok i e] t inv by (auto simp: fine_inv_def out)
qed

lemma addressed_touched: "\<lbrakk>addressed sm pc; keeps_id f\<rbrakk> \<Longrightarrow> addressed (touched sm a f) pc"
  by (fastforce simp: addressed_def touched_heap keeps_id_def)

lemma fine_worker_keeps:
  assumes inv: "fine_inv w fi" and ok: "sys_ok w (sv_sm (sh_server sh)) (fi_clients fi) (fine_out fi')" and tasks: "tq_wf (sh_tasks sh)"
    and out: "fine_out fi' \<subseteq># fine_out fi" and a: "addressed (sv_sm (sh_server sh)) (pc_of wk)"
    and others: "\<And>pc. addressed (fi_sm fi) pc \<Longrightarrow> addressed (sv_sm (sh_server sh)) pc"
    and fi': "fi' = fi\<lparr>fi_workers := (fi_workers fi)[i := wk], fi_shared := sh\<rparr>"
  shows "fine_inv w fi'"
proof -
  have "addressed (sv_sm (sh_server sh)) (pc_of (((fi_workers fi)[i := wk]) ! j))" if "j < length (fi_workers fi)" for j
    using inv a others that by (cases "j = i") (auto simp: fine_inv_def)
  with inv ok tasks out show ?thesis by (auto simp: fine_inv_def fi' dest: mset_subset_eqD)
qed

lemma fine_worker:
  assumes inv: "fine_inv w fi" and i: "i < length (fi_workers fi)"
    and g: "fine_turn E i now (fi_workers fi ! i) (fi_shared fi) = Goes (wk, sh)"
  shows "fine_inv w (fi\<lparr>fi_workers := (fi_workers fi)[i := wk], fi_shared := sh\<rparr>)"
proof -
  let ?fi = "fi\<lparr>fi_workers := (fi_workers fi)[i := wk], fi_shared := sh\<rparr>"
  have ok: "sys_ok w (fi_sm fi) (fi_clients fi) (fine_out fi)" and wf: "tq_wf (sh_tasks (fi_shared fi))"
    using inv by (simp_all add: fine_inv_def)
  have here: "addressed (fi_sm fi) (pc_of (fi_workers fi ! i))" using inv i by (simp add: fine_inv_def)
  note b = mset_unanswered_update [OF i, of wk] and keeps = fine_worker_keeps [OF inv _ _ _ _ _ refl, of sh i wk]
  from g wf show ?thesis
  proof (cases rule: fine_turn_cases)
    case (take t q)
    with b have "fine_out ?fi = fine_out fi" by (simp add: fine_out_def pc_of_def)
    with ok take show ?thesis by (intro keeps) (simp_all add: addressed_def pc_of_def)
  next
    case leave
    with b have "fine_out ?fi = fine_out fi" by (simp add: fine_out_def pc_of_def)
    with ok wf leave show ?thesis by (intro keeps) (simp_all add: addressed_def pc_of_def)
  next
    case (work pc pc' sv)
    then have out: "fine_out ?fi + mset (unanswered pc) = fine_out fi + mset (unanswered pc')"
      using b by (simp add: fine_out_def pc_of_def)
    have sh: "sv_sm (sh_server sh) = sv_sm sv" "tq_wf (sh_tasks sh)" and wk: "pc_of wk = pc'"
      using work wf by (simp_all add: pc_of_def)
    from work(4) show ?thesis
    proof (cases rule: step_sessions)
      case same
      then have "fine_out ?fi = fine_out fi" "addressed (fi_sm fi) (pc_of wk)" using out by (simp_all add: addressed_def wk)
      with ok sh same(1) show ?thesis by (intro keeps) simp_all
    next
      case (found t a s)
      then obtain x where "sm_heap (fi_sm fi) s = Some x" "se_id x = t_session_id t"
        using session_get_SomeE [OF sm_good_wf [OF sys_okD(1) [OF ok]]] by metis
      with found(2) have "addressed (fi_sm fi) (pc_of wk)" by (simp add: addressed_def wk)
      moreover have "fine_out ?fi = fine_out fi" using out found(1,2) by simp
      ultimately show ?thesis using ok sh found(3) by (intro keeps) simp_all
    next
      case (gone t a)
      then have add: "fine_out fi = add_mset t (fine_out ?fi)" using out by simp
      have "addressed (fi_sm fi) (pc_of wk)" using gone(2) by (simp add: addressed_def wk)
      with sys_ok_drop [OF ok [unfolded add] gone(4)] sh gone(3) add show ?thesis by (intro keeps) simp_all
    next
      case (fill t a s f)
      then have add: "fine_out fi = add_mset t (fine_out ?fi)" using out by simp
      have k: "keeps_id f" using fill(4) by (simp add: fills_def keeps_id_def)
      from here work(1) fill(1) obtain x where "sm_heap (fi_sm fi) s = Some x" "se_id x = t_session_id t"
        by (auto simp: addressed_def pc_of_def)
      from sys_ok_fill [OF ok [unfolded add] this fill(4)] sh fill(3) add addressed_touched [OF _ k] show ?thesis
        by (intro keeps) (simp_all add: addressed_def wk fill(2))
    next
      case (count t s f)
      then have "fine_out ?fi = fine_out fi" using out by simp
      have k: "keeps_id f" using count(4) by (simp add: harmless_def keeps_id_def)
      from sys_ok_harmless [OF ok count(4)] \<open>fine_out ?fi = fine_out fi\<close> sh count(3) addressed_touched [OF _ k] show ?thesis
        by (intro keeps) (simp_all add: addressed_def wk count(2))
    qed
  qed
qed

lemma main_step_keeps:
  assumes "main_step fi mn sh" "tq_wf (sh_tasks (fi_shared fi))"
  shows "sh_server sh = sh_server (fi_shared fi) \<and> tq_wf (sh_tasks sh) \<and>
    tq_items (sh_tasks sh) = tq_items (sh_tasks (fi_shared fi))"
  using assms(1)
proof cases
  case (accept conn)
  with assms(2) tq_shut [OF assms(2)] show ?thesis
    by (auto simp: accept_turn_def begin_shutdown_def split: if_splits sum.splits)
next
  case (push cfd)
  with assms(2) show ?thesis
    by (auto simp: accept_push_turn_def on_net_def Let_def split: if_splits monitor.splits option.splits)
next
  case signal
  with assms(2) tq_shut [OF assms(2)] show ?thesis by (auto simp: int_handler_def Let_def split: if_splits)
qed (use assms(2) in simp_all)

lemma fine_inv_step:
  assumes "fine_step OK w sha E fi ops fi'" "fine_inv w fi"
  shows "fine_inv w fi'"
  using assms(1)
proof cases
  case (client i c ct sh)
  with assms(2) fine_client show ?thesis by blast
next
  case (worker i now wk sh)
  with assms(2) fine_worker show ?thesis by blast
next
  case (main mn sh)
  with assms(2) main_step_keeps [OF main(3)] show ?thesis by (simp add: fine_inv_def fine_out_def)
qed


lemma fine_inv_start:
  assumes "fine_start (server_start E b arg net fs) n k fi"
  shows "fine_inv w fi"
proof -
  from assms obtain sh fd live where s: "server_start E b arg net fs = Started sh fd live"
    "fi = \<lparr>fi_shared = sh, fi_clients = replicate n idle_client, fi_workers = replicate k (Some At_idle),
       fi_main = \<lparr>mn_phase = Mn_accept, mn_keep_running = True, mn_listen_fd = fd, mn_handler_called = False\<rparr>\<rparr>"
    unfolding fine_start_def by blast
  note S = server_started [OF s(1)]
  have "sys_inv w \<lparr>sy_shared = sh, sy_clients = replicate n idle_client, sy_workers = replicate k Wk_idle,
       sy_main = \<lparr>mn_phase = Mn_accept, mn_keep_running = True, mn_listen_fd = fd, mn_handler_called = False\<rparr>\<rparr>"
    using s(1) by (intro sys_inv_start [of E b arg net fs n k]) (auto simp: initial_def)
  then have "sys_ok w (sv_sm (sh_server sh)) (replicate n idle_client) {#}" "tq_wf (sh_tasks sh)"
    by (simp_all add: sys_inv_def outstanding_def S(4) map_replicate_const concat_replicate_trivial)
  moreover have "fine_out fi = {#}"
    by (simp add: s(2) fine_out_def S(4) pc_of_def map_replicate_const concat_replicate_trivial)
  ultimately show ?thesis by (simp add: fine_inv_def s(2) addressed_def pc_of_def)
qed

lemma fine_run_inv:
  assumes "fine_run OK w sha E fi0 tr fi" "fine_start (server_start E b arg net fs) n k fi0"
  shows "fine_inv w fi"
  using assms(1) by induction (use fine_inv_start [OF assms(2)] fine_inv_step in blast)+

section \<open>A run of the server is a run of the pool\<close>

text \<open>Client threads leave the files alone.\<close>

definition same_files :: "fsys \<Rightarrow> 'd client_turn \<Rightarrow> bool" where
  "same_files fs tr \<longleftrightarrow> (\<forall>ct sh. tr = Goes (ct, sh) \<longrightarrow> sv_fs (sh_server sh) = fs)"

lemma same_files_simps [simp]:
  "same_files fs Blocked" "same_files fs Dangling" "same_files fs (Goes (ct, sh)) \<longleftrightarrow> sv_fs (sh_server sh) = fs"
  by (simp_all add: same_files_def)

lemma same_files_calls [intro!]:
  "(\<And>r n. same_files fs (body r (sh\<lparr>sh_net := n\<rparr>))) \<Longrightarrow> same_files fs (on_net fd call sh body)"
  "(\<And>s. same_files fs (body' s)) \<Longrightarrow> same_files fs (with_session ct sh body')"
  "(\<And>sm. same_files fs (body'' (on_sm (\<lambda>_. sm) sh))) \<Longrightarrow> same_files fs (set_session f ct sh body'')"
  "sv_fs (sh_server sh) = fs \<Longrightarrow> same_files fs (client_leave ct sh)"
  by (auto simp: on_net_def with_session_def set_session_def client_leave_def split: option.split)

lemma same_files_parts [intro!]:
  "sv_fs (sh_server sh) = fs \<Longrightarrow> same_files fs (complain m ct sh)"
  "sv_fs (sh_server sh) = fs \<Longrightarrow> same_files fs (auth_accept c m u ct sh)"
  "sv_fs (sh_server sh) = fs \<Longrightarrow> same_files fs (client_submit t ct sh)"
  "sv_fs (sh_server sh) = fs \<Longrightarrow> same_files fs (send_message m ct sh)"
  by (auto simp: complain_def auth_accept_def client_submit_def send_message_def)

lemma same_files_turns:
  assumes "sv_fs (sh_server sh) = fs"
  shows "same_files fs (client_accept c ct sh)" "same_files fs (client_auth_turn sha E c ct sh)"
    "same_files fs (client_file_turn E c ct sh)" "same_files fs (client_recv_turn t ct sh)"
    "same_files fs (client_push_turn t ct sh)" "same_files fs (client_answer_turn ct sh)"
  using assms
  by (auto simp: client_accept_def client_auth_turn_def client_auth_command_def client_recv_def client_file_turn_def
      client_file_command_def client_upload_def client_recv_turn_def free_upload_def client_push_turn_def
      client_answer_turn_def send_response_def Let_def
      split: monitor.split prod.split option.split auth_command.split sum.split file_command.split)

lemma client_files:
  "client_worker sha E c ct sh = Goes (ct', sh') \<Longrightarrow> sv_fs (sh_server sh') = sv_fs (sh_server sh)"
  using same_files_turns [OF refl, of sh] unfolding same_files_def
  by (fastforce simp: client_worker_def split: ct_phase.splits)


definition pool_of :: "'d fine \<Rightarrow> 'd pool" where
  "pool_of fi = \<lparr>po_server = sh_server (fi_shared fi), po_pcs = map pc_of (fi_workers fi)\<rparr>"

lemma fine_pool_worker:
  assumes inv: "fine_inv w fi" and i: "i < length (fi_workers fi)"
    and g: "fine_turn E i now (fi_workers fi ! i) (fi_shared fi) = Goes (wk, sh)" and OK: "\<forall>t. wk = Some (At_dirs t) \<longrightarrow> OK t"
  defines "fi' \<equiv> fi\<lparr>fi_workers := (fi_workers fi)[i := wk], fi_shared := sh\<rparr>"
    and "ops \<equiv> effect (sv_fs (sh_server (fi_shared fi))) (pc_of (fi_workers fi ! i)) (pc_of wk)"
  shows "pool_step (\<lambda>t. OK t \<and> whole_upload t) E (pool_of fi) ops (pool_of fi') \<or> pool_of fi' = pool_of fi \<and> ops = []"
proof -
  have "tq_wf (sh_tasks (fi_shared fi))" using inv by (simp add: fine_inv_def)
  with g show ?thesis
  proof (cases rule: fine_turn_cases)
    case (take t q)
    then have "t \<in># fine_out fi" by (simp add: fine_out_def)
    with inv OK take have "OK t \<and> whole_upload t" by (simp add: fine_inv_def)
    from pool_step.take [of "\<lambda>t. OK t \<and> whole_upload t", OF this, of i "pool_of fi" E] i take show ?thesis
      by (simp add: pool_of_def fi'_def ops_def pc_of_def map_update)
  next
    case leave
    have "map pc_of ((fi_workers fi)[i := None]) = map pc_of (fi_workers fi)"
      using leave i by (simp add: map_update pc_of_def list_update_same_conv)
    with leave show ?thesis by (simp add: pool_of_def fi'_def ops_def pc_of_def)
  next
    case (work pc pc' sv)
    with i pool_step.work [of i "pool_of fi" E now pc' sv "\<lambda>t. OK t \<and> whole_upload t"] show ?thesis
      by (simp add: pool_of_def fi'_def ops_def pc_of_def map_update)
  qed
qed

lemma fine_pool_step:
  assumes step: "fine_step OK w sha E fi ops fi'" and inv: "fine_inv w fi"
  shows "pool_step (\<lambda>t. OK t \<and> whole_upload t) E (pool_of fi) ops (pool_of fi') \<or> pool_of fi' = pool_of fi \<and> ops = []"
  using step
proof cases
  case (client i c ct sh)
  from client_effectD(2) [OF fine_client_effect [OF inv client(3-5)]]
  have lm: "sv_lm (sh_server sh) = sv_lm (sh_server (fi_shared fi))" .
  let ?sv = "sh_server sh"
  have "?sv = (sh_server (fi_shared fi))\<lparr>sv_sm := sv_sm ?sv, sv_db := sv_db ?sv, sv_freed := sv_freed ?sv\<rparr>"
    using lm client_files [OF client(5)] by (intro server.equality) simp_all
  with pool_step.others [where OK = "\<lambda>t. OK t \<and> whole_upload t" and E = E and s = "pool_of fi" and sm = "sv_sm ?sv"
      and db = "sv_db ?sv" and freed = "sv_freed ?sv"] client show ?thesis
    by (simp add: pool_of_def)
next
  case (worker i now wk sh)
  with fine_pool_worker [OF inv worker(3-5)] show ?thesis by simp
next
  case (main mn sh)
  with main_step_keeps [OF main(3)] inv show ?thesis by (simp add: pool_of_def fine_inv_def)
qed

lemma fine_pool:
  assumes "fine_run OK w sha E fi0 tr fi" "fine_start (server_start E b arg net fs) n k fi0"
  shows "pool_run (\<lambda>t. OK t \<and> whole_upload t) E (pool_of fi0) tr (pool_of fi)"
  using assms(1)
proof induction
  case start
  show ?case by (rule pool_run.start)
next
  case (more tr fi ops fi')
  from fine_pool_step [OF more(2) fine_run_inv [OF more(1) assms(2)]] more.IH show ?case
    by (auto intro: pool_run.more)
qed

lemma fine_pool_start:
  assumes "fine_start (server_start E b arg net fs) n k fi"
  shows "pool_start MAX_FILE_LOCKS k (pool_of fi)" "sv_fs (po_server (pool_of fi)) = fs"
proof -
  from assms obtain sh fd live where s: "server_start E b arg net fs = Started sh fd live"
    "fi_shared fi = sh" "fi_workers fi = replicate k (Some At_idle)"
    unfolding fine_start_def by auto
  note S = server_started [OF s(1)]
  show "pool_start MAX_FILE_LOCKS k (pool_of fi)" "sv_fs (po_server (pool_of fi)) = fs"
    using s S(9,10) by (simp_all add: pool_start_def pool_of_def pc_of_def lock_start_def MAX_FILE_LOCKS_def)
qed

end
