(* ===== verification/Fine_Props.thy ===== *)
theory Fine_Props
  imports Fine_System
begin

text \<open>
  What holds of the server when its workers take their steps one at a time: its storage is linearizable, sessions are not
  used after they were freed but for one point, and tasks and answers have one owner. Every
  run of \<open>System\<close>, in which a worker handles a task in one turn, is such a run (\<open>system_is_fine\<close>).
\<close>

section \<open>One turn, many steps\<close>

definition wk_of :: "wk_phase \<Rightarrow> wk_pc option" where
  "wk_of wk = (case wk of Wk_idle \<Rightarrow> Some At_idle | Wk_busy t \<Rightarrow> Some (At_dirs t) | Wk_exit \<Rightarrow> None)"

definition fine_of :: "'d system \<Rightarrow> 'd fine" where
  "fine_of sy = \<lparr>fi_shared = sy_shared sy, fi_clients = sy_clients sy, fi_workers = map wk_of (sy_workers sy), fi_main = sy_main sy\<rparr>"

lemma fine_of_simps [simp]:
  "fi_shared (fine_of sy) = sy_shared sy" "fi_clients (fine_of sy) = sy_clients sy"
  "fi_workers (fine_of sy) = map wk_of (sy_workers sy)" "fi_main (fine_of sy) = sy_main sy"
  by (simp_all add: fine_of_def)

lemma fine_of_initial: "initial st n k sy \<Longrightarrow> fine_start st n k (fine_of sy)"
  by (auto simp: initial_def fine_start_def fine_of_def wk_of_def)

lemma steps_left_le: "steps_left pc \<le> 15"
  by (cases pc) simp_all

lemma worker_step_not_dirs: "worker_step E me now pc sv = Goes (pc', sv') \<Longrightarrow> pc' \<noteq> At_dirs t"
  using worker_step_less [of E me now pc sv pc' sv'] steps_left_le [of pc] by auto

lemma run_task_fine:
  assumes "run_task E i now pc (sh_server (fi_shared fi)) = Goes sv" "fi_workers fi ! i = Some pc"
    "i < length (fi_workers fi)" "fine_run OK w sha E fi0 tr fi"
  shows "\<exists>tr'. fine_run OK w sha E fi0 tr'
    (fi\<lparr>fi_workers := (fi_workers fi)[i := Some At_idle], fi_shared := (fi_shared fi)\<lparr>sh_server := sv\<rparr>\<rparr>)"
  using assms
proof (induction "steps_left pc" arbitrary: pc fi tr rule: less_induct)
  case less
  show ?case
  proof (cases "pc = At_idle")
    case True
    with less.prems have "(fi_workers fi)[i := Some At_idle] = fi_workers fi" "sv = sh_server (fi_shared fi)"
      by (metis list_update_id) (use True less.prems(1) in simp)
    then have "fi\<lparr>fi_workers := (fi_workers fi)[i := Some At_idle], fi_shared := (fi_shared fi)\<lparr>sh_server := sv\<rparr>\<rparr> = fi" by simp
    with less.prems(4) show ?thesis by metis
  next
    case False
    with less.prems(1) obtain pc' sv1 where step: "worker_step E i now pc (sh_server (fi_shared fi)) = Goes (pc', sv1)"
      by (cases "worker_step E i now pc (sh_server (fi_shared fi))") (auto simp: run_stuck)
    let ?fi = "fi\<lparr>fi_workers := (fi_workers fi)[i := Some pc'], fi_shared := (fi_shared fi)\<lparr>sh_server := sv1\<rparr>\<rparr>"
    have "fine_turn E i now (fi_workers fi ! i) (fi_shared fi) = Goes (Some pc', (fi_shared fi)\<lparr>sh_server := sv1\<rparr>)"
      using step False less.prems(2) by (simp add: fine_turn_def)
    from fine_run.more [OF less.prems(4) fine_step.worker [OF less.prems(3) this]] worker_step_not_dirs [OF step]
    obtain tr1 where "fine_run OK w sha E fi0 tr1 ?fi" by blast
    with less.hyps [OF worker_step_less [OF step], of ?fi] less.prems(1,3) run_goes [OF step False] show ?thesis by simp
  qed
qed

lemma fine_main_step:
  assumes "fine_run OK w sha E fi0 tr (fine_of sy)" "main_step (fine_of sy) mn sh"
  shows "\<exists>tr'. fine_run OK w sha E fi0 tr' (fine_of (sy\<lparr>sy_main := mn, sy_shared := sh\<rparr>))"
  using fine_run.more [OF assms(1) fine_step.main [OF assms(2)]] by (auto simp: fine_of_def)

lemma step_is_fine:
  assumes "sys_step w sha E sy sy'" "fine_run OK w sha E fi0 tr (fine_of sy)"
    and "\<forall>t. Wk_busy t \<in> set (sy_workers sy') \<longrightarrow> OK t"
  shows "\<exists>tr'. fine_run OK w sha E fi0 tr' (fine_of sy')"
  using assms(1)
proof cases
  case (client i c ct sh)
  then have "fine_step OK w sha E (fine_of sy) [] (fine_of sy')"
    using fine_step.client [of i "fine_of sy" w c sha E ct sh OK] by (simp add: fine_of_def)
  with fine_run.more [OF assms(2)] show ?thesis by blast
next
  case (worker i now wk sh)
  show ?thesis
  proof (cases "sy_workers sy ! i")
    case Wk_idle
    have "fine_turn E i now (fi_workers (fine_of sy) ! i) (fi_shared (fine_of sy)) = Goes (wk_of wk, sh)"
      using worker(2,3) Wk_idle
      by (auto simp: worker_turn_def fine_turn_def fine_of_def wk_of_def split: monitor.splits prod.splits option.splits if_splits)
    moreover have "OK t" if "wk_of wk = Some (At_dirs t)" for t
    proof -
      have "wk = Wk_busy t" using that by (simp add: wk_of_def split: wk_phase.splits)
      then have "Wk_busy t \<in> set (sy_workers sy')" using worker(1,2) by (simp add: set_update_memI)
      with assms(3) show ?thesis by blast
    qed
    ultimately have "fine_step OK w sha E (fine_of sy) (effect (sv_fs (sh_server (sy_shared sy))) (pc_of (wk_of Wk_idle)) (pc_of (wk_of wk))) (fine_of sy')"
      using fine_step.worker [of i "fine_of sy" E now "wk_of wk" sh OK w sha] worker Wk_idle by (simp add: fine_of_def map_update)
    with fine_run.more [OF assms(2)] show ?thesis by blast
  next
    case (Wk_busy t)
    then obtain sv where sv: "worker_task E i now t (sh_server (sy_shared sy)) = Some sv" "wk = Wk_idle" "sh = (sy_shared sy)\<lparr>sh_server := sv\<rparr>"
      using worker(3) by (auto simp: worker_turn_def split: option.splits)
    then have "run_task E i now (At_dirs t) (sh_server (fi_shared (fine_of sy))) = Goes sv"
      using run_task_eq [of E i now t "sh_server (sy_shared sy)"]
      by (cases "run_task E i now (At_dirs t) (sh_server (sy_shared sy))") (simp_all add: fine_of_def)
    from run_task_fine [OF this _ _ assms(2)] worker Wk_busy sv show ?thesis by (simp add: fine_of_def wk_of_def map_update)
  next
    case Wk_exit
    with worker(3) show ?thesis by (simp add: worker_turn_def)
  qed
next
  case (main_accept conn mn sh)
  with fine_main_step [OF assms(2)] main_step.accept [of "fine_of sy" conn mn sh] show ?thesis by (simp add: fine_of_def)
next
  case (main_push cfd mn sh)
  with fine_main_step [OF assms(2)] main_step.push [of "fine_of sy" cfd mn sh] show ?thesis by (simp add: fine_of_def)
next
  case (main_join_clients mn)
  with fine_main_step [OF assms(2)] main_step.join_clients [of "fine_of sy" mn] show ?thesis by (simp add: fine_of_def)
next
  case (main_join_workers mn)
  have "mn = (sy_main sy)\<lparr>mn_phase := Mn_done\<rparr>" "\<forall>wk \<in> set (fi_workers (fine_of sy)). wk = None"
    using main_join_workers(3) by (auto simp: join_workers_def fine_of_def wk_of_def split: if_splits)
  with main_join_workers fine_main_step [OF assms(2)] main_step.join_workers [of "fine_of sy"] show ?thesis by (simp add: fine_of_def)
next
  case (signal mn sh)
  with fine_main_step [OF assms(2)] main_step.signal [of "fine_of sy" mn sh] show ?thesis by (simp add: fine_of_def)
next
  case (network fd s)
  with fine_main_step [OF assms(2)] main_step.network [of "fine_of sy" fd s] show ?thesis by (simp add: fine_of_def)
qed

lemma tame_is_fine:
  assumes "tame_reach OK w sha E sy0 sy"
  shows "\<exists>tr. fine_run OK w sha E (fine_of sy0) tr (fine_of sy)"
  using assms
proof induction
  case start
  show ?case by (intro exI) (rule fine_run.start)
next
  case (more sy sy')
  then show ?case using step_is_fine by metis
qed

section \<open>Concrete runs\<close>

text \<open>Ann has asked for a listing, and a worker has taken the task.\<close>

lemma asked_fine:
  obtains fi0 tr fi t where "fine_start (server_start ref_engine good_boot None example_net empty_fs) 1 1 fi0"
    "fine_run (\<lambda>t. t_type t = TASK_LIST) w sha ref_engine fi0 tr fi" "fi_clients fi = [ann_at Ct_wait]"
    "fi_workers fi = [Some (At_dirs t)]" "t_session_id t = 1" "t_username t = ''ann''"
    "waiting (fi_sm fi) 1 (ann_at Ct_wait)" "chance_ok w later_chance (fi_sm fi)" "fine_out fi = {#t#}"
proof (rule asked [of empty_fs w sha])
  fix sy0 sy :: "ref_db system" and t
  assume init: "initial (server_start ref_engine good_boot None example_net empty_fs) 1 1 sy0"
    and r: "tame_reach (\<lambda>t. t_type t = TASK_LIST) w sha ref_engine sy0 sy"
    and sy: "sy_clients sy = [ann_at Ct_wait]" "sy_workers sy = [Wk_busy t]" "t_session_id t = 1" "t_username t = ''ann''"
      "waiting (sy_sm sy) 1 (sy_clients sy ! 0)" "chance_ok w later_chance (sy_sm sy)" "outstanding sy = {#t#}"
  obtain tr where "fine_run (\<lambda>t. t_type t = TASK_LIST) w sha ref_engine (fine_of sy0) tr (fine_of sy)"
    using tame_is_fine [OF r] by blast
  with fine_of_initial [OF init] sy show thesis
    by (intro that [of "fine_of sy0" tr "fine_of sy" t]) (simp_all add: wk_of_def fine_out_def outstanding_def pc_of_def)
qed

lemma sys_inv_quiet:
  assumes "sys_inv w sy"
  shows "sm_wf (sy_sm sy)" "lm_idle (sv_lm (sh_server (sy_shared sy)))"
  using assms sm_good_wf [OF sys_okD(1)] by (auto simp: sys_inv_def)

text \<open>Ann has uploaded three bytes.\<close>

definition ann_puts :: "Task \<Rightarrow> bool" where
  "ann_puts t \<longleftrightarrow> t_username t = ''ann'' \<and> t_filename t = ''b.txt''"

definition put_task :: Task where
  "put_task = (new_task (ann_at Ct_file) (ann_in (new_session 1 7 100)))\<lparr>t_type := TASK_UPLOAD, t_filename := ''b.txt'',
     t_filesize := 3, t_data_buffer := Some ''xyz''\<rparr>"

lemma put_task_simps [simp]:
  "t_session_id put_task = 1" "t_username put_task = ''ann''" "t_filename put_task = ''b.txt''" "t_filesize put_task = 3"
  "t_type put_task = TASK_UPLOAD" "t_data_buffer put_task = Some ''xyz''"
  by (simp_all add: put_task_def new_task_def ann_in_def fit_def MAX_USERNAME_LEN_def)

lemma put_line:
  "parse_file (cstr (''UPLOAD b.txt 3'' @ LF # ''xyz'')) = Cmd_upload ''b.txt'' 3"
  "leftover (''UPLOAD b.txt 3'' @ LF # ''xyz'') 3 = ''xyz''"
proof -
  have "show_nat 3 = ''3''" by code_simp
  with parse_upload_line [of "''b.txt''" 3 "LF # ''xyz''"]
  show "parse_file (cstr (''UPLOAD b.txt 3'' @ LF # ''xyz'')) = Cmd_upload ''b.txt'' 3"
    by (simp add: cstr_def is_word_def is_space_def is_digit_def)
  show "leftover (''UPLOAD b.txt 3'' @ LF # ''xyz'') 3 = ''xyz''"
    by (simp add: leftover_def cstr_def)
qed

lemma put_turn:
  assumes "sm_heap (sv_sm (sh_server sh)) 4096 = Some (ann_in (new_session 1 7 100))" "sv_db (sh_server sh) = Some d"
    and "rx (sh_net sh 7) = [Rx_data (''UPLOAD b.txt 3'' @ LF # ''xyz'')]"
    and "fst (user_check_quota ref_engine (Some ''ann'') 3 (Some d))"
  obtains n where "client_worker sha ref_engine later_chance (ann_at Ct_file) sh = Goes (ann_at (Ct_push put_task),
      on_sm (\<lambda>sm. the (reset_response 4096 sm)) ((on_db (snd (user_check_quota ref_engine (Some ''ann'') 3 (Some d)))
        (sh\<lparr>sh_net := n\<rparr>))\<lparr>sh_allocs := sh_allocs sh + 1\<rparr>))"
proof -
  let ?k = "sh_net sh 7"
  obtain d' where q: "user_check_quota ref_engine (Some ''ann'') 3 (Some d) = (True, d')"
    using assms(4) by (cases "user_check_quota ref_engine (Some ''ann'') 3 (Some d)") simp
  have "recv_sys 511 ?k = Some (Inr (''UPLOAD b.txt 3'' @ LF # ''xyz''), ?k\<lparr>rx := []\<rparr>)" using assms(3) by (simp add: recv_sys_def)
  then show thesis using assms(1,2) put_line q
    by (intro that [of "(sh_net sh)(7 := ?k\<lparr>rx := []\<rparr>)"])
      (simp add: client_worker_def client_file_turn_def client_recv_def on_net_def with_session_def ann_in_def
        client_file_command_def client_submit_def set_session_def reset_response_def on_session_touched
        client_upload_def Let_def put_task_def new_task_def later_chance_def example_chance_def)
qed

lemma uploaded:
  obtains fi0 tr fi where "fine_start (server_start ref_engine good_boot None example_net empty_fs) 1 1 fi0"
    "fine_run ann_puts w sha ref_engine fi0 tr fi" "fi_workers fi = [Some At_idle]"
    "file_at (sv_fs (sh_server (fi_shared fi))) [''storage'', ''ann'', ''b.txt''] = Some ''xyz''"
proof (rule logged_in [of empty_fs ann_puts w sha])
  fix sy0 sy :: "ref_db system" and d
  let ?m = "touched (created fresh_manager 1 4096 7 100) 4096 ann_in" and ?line = "''UPLOAD b.txt 3'' @ LF # ''xyz''"
  assume init: "initial (server_start ref_engine good_boot None example_net empty_fs) 1 1 sy0"
    and r: "tame_reach ann_puts w sha ref_engine sy0 sy" and cl: "sy_clients sy = [ann_at Ct_file]"
    and wk: "sy_workers sy = [Wk_idle]" and sm: "sy_sm sy = ?m"
    and tasks: "tq_wf (sh_tasks (sy_shared sy))" "tq_items (sh_tasks (sy_shared sy)) = []"
      "\<not> tq_shutdown (sh_tasks (sy_shared sy))" "tq_cap (sh_tasks (sy_shared sy)) = 128"
    and fs: "sv_fs (sh_server (sy_shared sy)) = empty_fs" and db: "sv_db (sh_server (sy_shared sy)) = Some d"
      "fst (user_check_quota ref_engine (Some ''ann'') 3 (Some d))"
      "fst (user_exists ref_engine (Some ''ann'') (snd (user_check_quota ref_engine (Some ''ann'') 3 (Some d))))"
  let ?d = "snd (user_check_quota ref_engine (Some ''ann'') 3 (Some d))"
  let ?sh1 = "(sy_shared sy)\<lparr>sh_net := (sh_net (sy_shared sy))(7 := \<lparr>rx = [Rx_data ?line], tx = [], sent = ''''\<rparr>)\<rparr>"
  have r1: "tame_reach ann_puts w sha ref_engine sy0 (sy\<lparr>sy_shared := ?sh1\<rparr>)"
    by (rule tame_reach.more [OF r sys_step.network]) (simp add: wk)
  have heap: "sm_heap (sy_sm sy) 4096 = Some (ann_in (new_session 1 7 100))" by (simp add: sm touched_heap created_def)
  obtain n where turn: "client_worker sha ref_engine later_chance (ann_at Ct_file) ?sh1 = Goes (ann_at (Ct_push put_task),
      on_sm (\<lambda>sm. the (reset_response 4096 sm)) ((on_db ?d (?sh1\<lparr>sh_net := n\<rparr>))\<lparr>sh_allocs := sh_allocs ?sh1 + 1\<rparr>))"
    by (rule put_turn [of ?sh1 d sha]) (use heap db in simp_all)
  let ?sh2 = "on_sm (\<lambda>sm. the (reset_response 4096 sm)) ((on_db ?d (?sh1\<lparr>sh_net := n\<rparr>))\<lparr>sh_allocs := sh_allocs ?sh1 + 1\<rparr>)"
  let ?sy2 = "sy\<lparr>sy_clients := [ann_at (Ct_push put_task)], sy_shared := ?sh2\<rparr>"
  have sm2: "sv_sm (sh_server ?sh2) = touched ?m 4096 reset_of"
    using heap by (simp add: sm reset_response_def on_session_touched)
  have c: "chance_ok w later_chance (sy_sm sy)" "chance_ok w later_chance (sy_sm ?sy2)"
    using later_chance_ok [of "\<lambda>s. s" w 0] later_chance_ok [of reset_of w 4096] sm sm2 by (simp_all add: keeps_id_def touched_def)
  have "sys_step w sha ref_engine (sy\<lparr>sy_shared := ?sh1\<rparr>) ?sy2"
    using sys_step.client [of 0 "sy\<lparr>sy_shared := ?sh1\<rparr>" w later_chance sha ref_engine "ann_at (Ct_push put_task)" ?sh2] turn cl c(1)
    by simp
  then have r2: "tame_reach ann_puts w sha ref_engine sy0 ?sy2" by (rule tame_reach.more [OF r1]) (simp add: wk)
  obtain q where r3: "tame_reach ann_puts w sha ref_engine sy0
      (?sy2\<lparr>sy_clients := [ann_at Ct_wait], sy_workers := [Wk_busy put_task], sy_shared := (sy_shared ?sy2)\<lparr>sh_tasks := q\<rparr>\<rparr>)"
    by (rule submitted [OF r2, of put_task]) (use wk c(2) tasks in \<open>simp_all add: ann_puts_def\<close>)
  let ?sy3 = "?sy2\<lparr>sy_clients := [ann_at Ct_wait], sy_workers := [Wk_busy put_task], sy_shared := (sy_shared ?sy2)\<lparr>sh_tasks := q\<rparr>\<rparr>"
  let ?sv = "sh_server (sy_shared ?sy3)"
  have "sys_inv w ?sy3" by (rule sys_reach_inv [OF tame_reach_reach [OF r3] init])
  then have "sm_wf (sv_sm ?sv)" "lm_idle (sv_lm ?sv)" by (rule sys_inv_quiet)+
  then have serve: "can_serve ref_engine put_task ?sv"
    using db fs by (simp add: can_serve_def plain_task_def plain_def dirs_free_def empty_fs_def file_at_def is_dir_def target_def)
  obtain sv where sv: "worker_task ref_engine 0 200 put_task ?sv = Some sv"
    "file_at (sv_fs sv) (target (sv_fs ?sv) put_task) = Some ''xyz''"
    by (rule upload_run [OF serve, of "''xyz''" 0 200]) simp_all
  have "sys_step w sha ref_engine ?sy3 (?sy3\<lparr>sy_workers := [Wk_idle], sy_shared := (sy_shared ?sy3)\<lparr>sh_server := sv\<rparr>\<rparr>)"
    using sys_step.worker [of 0 ?sy3 ref_engine 200 Wk_idle "(sy_shared ?sy3)\<lparr>sh_server := sv\<rparr>" w sha] sv(1)
    by (simp add: worker_turn_def)
  then have "tame_reach ann_puts w sha ref_engine sy0 (?sy3\<lparr>sy_workers := [Wk_idle], sy_shared := (sy_shared ?sy3)\<lparr>sh_server := sv\<rparr>\<rparr>)"
    by (rule tame_reach.more [OF r3]) simp
  from tame_is_fine [OF this] obtain tr where "fine_run ann_puts w sha ref_engine (fine_of sy0) tr
      (fine_of (?sy3\<lparr>sy_workers := [Wk_idle], sy_shared := (sy_shared ?sy3)\<lparr>sh_server := sv\<rparr>\<rparr>))" by blast
  moreover have "target (sv_fs ?sv) put_task = [''storage'', ''ann'', ''b.txt'']" using fs by (simp add: target_def empty_fs_def)
  ultimately show thesis using sv(2) fine_of_initial [OF init] by (intro that) (assumption | simp add: wk_of_def)+
qed

section \<open>Properties\<close>

text \<open>The two models of the server agree: every run of the server in which a worker handles a task in one turn, with the other threads
  coming between turns only, is a run of the server in which the workers take one step at a time and any thread can come
  between, from the same start to the same state.\<close>

theorem system_is_fine:
  assumes "initial (server_start E b arg net fs) n k sy0" "sys_reach w sha E sy0 sy"
  shows "fine_start (server_start E b arg net fs) n k (fine_of sy0) \<and>
    (\<exists>tr. fine_run (\<lambda>t. True) w sha E (fine_of sy0) tr (fine_of sy))"
  using fine_of_initial [OF assms(1)] tame_is_fine [OF reach_tame [OF assms(2)]] by blast

lemma system_is_fine_witness:
  "\<exists>fi0 tr fi t. fine_start (server_start ref_engine good_boot None example_net empty_fs) 1 1 fi0 \<and>
     fine_run (\<lambda>t. True) True id ref_engine fi0 tr fi \<and> fi_clients fi = [ann_at Ct_wait] \<and> fi_workers fi = [Some (At_dirs t)]"
proof -
  obtain sy0 sy t where a: "initial (server_start ref_engine good_boot None example_net empty_fs) 1 1 sy0"
    "sys_reach True id ref_engine sy0 sy" "sy_clients sy = [ann_at Ct_wait]" "sy_workers sy = [Wk_busy t]"
    by (rule asked) blast
  from system_is_fine [OF a(1,2)] obtain tr where
    "fine_start (server_start ref_engine good_boot None example_net empty_fs) 1 1 (fine_of sy0)"
    "fine_run (\<lambda>t. True) True id ref_engine (fine_of sy0) tr (fine_of sy)" by blast
  moreover have "fi_clients (fine_of sy) = [ann_at Ct_wait]" "fi_workers (fine_of sy) = [Some (At_dirs t)]"
    using a(3,4) by (simp_all add: wk_of_def)
  ultimately show ?thesis by blast
qed

text \<open>C1: the storage of the server is linearizable. Client threads, workers and the main thread take their steps in any order;
  still the files behave as an atomic store in which each upload and deletion takes effect at one point and every
  successful download returns, whole, the version that is current at one point: the trace of effects is a legal history of
  the store, and once no upload is between \<open>fopen\<close> and \<open>fclose\<close> the files are what the history leaves. This needs user and
  file names without path components, file calls that do not fail, and lock names that do not collide.\<close>

theorem server_storage_linearizable:
  assumes "fine_start (server_start E b arg net fs) n k fi0" "fine_run OK w sha E fi0 tr fi"
    and "\<And>t. OK t \<Longrightarrow> t_type t \<noteq> TASK_LIST \<Longrightarrow> plain_task t" "collision_free (names OK) MAX_FILE_LOCKS" "fs_script fs = []"
  shows "legal tr (file_at fs) \<and> contents (pool_of fi) = replay tr (file_at fs) \<and>
    ((\<forall>pc \<in> set (po_pcs (pool_of fi)). pending (sv_fs (po_server (pool_of fi))) pc = None) \<longrightarrow>
       file_at (sv_fs (po_server (pool_of fi))) = replay tr (file_at fs))"
proof -
  let ?OK = "\<lambda>t. OK t \<and> whole_upload t"
  note st = fine_pool_start [OF assms(1)]
  have "names ?OK u f \<Longrightarrow> names OK u f" for u f by (auto simp: names_def)
  with assms(4) have "collision_free (names ?OK) MAX_FILE_LOCKS" unfolding collision_free_def by blast
  moreover have "whole_task t" if "?OK t" for t using that assms(3) by (auto simp: whole_task_def whole_upload_def)
  ultimately show ?thesis
    using storage_linearizable [OF st(1) _ _ _ _ _ fine_pool [OF assms(2,1)]] st(2) assms(5) by (simp add: MAX_FILE_LOCKS_def)
qed

lemma server_storage_linearizable_witness:
  "\<exists>fi0 tr fi. fine_run ann_puts False id ref_engine fi0 tr fi \<and> legal tr (file_at empty_fs) \<and>
     file_at empty_fs [''storage'', ''ann'', ''b.txt''] = None \<and>
     replay tr (file_at empty_fs) [''storage'', ''ann'', ''b.txt''] = Some ''xyz''"
proof -
  obtain fi0 tr fi where f: "fine_start (server_start ref_engine good_boot None example_net empty_fs) 1 1 fi0"
    "fine_run ann_puts False id ref_engine fi0 tr fi" "fi_workers fi = [Some At_idle]"
    "file_at (sv_fs (sh_server (fi_shared fi))) [''storage'', ''ann'', ''b.txt''] = Some ''xyz''"
    by (rule uploaded)
  have "plain_task t" if "ann_puts t" for t using that by (simp add: ann_puts_def plain_task_def plain_def)
  moreover have "collision_free (names ann_puts) MAX_FILE_LOCKS"
    by (auto simp: collision_free_def names_def ann_puts_def)
  moreover have "fs_script empty_fs = []" by (simp add: empty_fs_def)
  ultimately have "legal tr (file_at empty_fs)"
    "file_at (sv_fs (po_server (pool_of fi))) = replay tr (file_at empty_fs)"
    using server_storage_linearizable [OF f(1,2)] f(3) by (simp_all add: pool_of_def pc_of_def)
  moreover have "file_at empty_fs [''storage'', ''ann'', ''b.txt''] = None" by (simp add: empty_fs_def file_at_def)
  ultimately show ?thesis using f(2,4) by (metis pool.select_convs(1) pool_of_def)
qed

text \<open>C2: no use after free but one. In every state the server reaches, with the steps of the workers interleaved in any way, no
  client thread uses a session that was freed; and a worker does so only when it counts the operation after it has
  written the answer (\<open>session_increment_operations\<close> in \<open>deliver_response\<close>): until then the client waits, and its session stays.\<close>

theorem sessions_dangle_only_after_answer:
  assumes "fine_start (server_start E b arg net fs) n k fi0" "fine_run OK w sha E fi0 tr fi"
  shows "(\<forall>i < length (fi_clients fi). \<forall>c. chance_ok w c (fi_sm fi) \<longrightarrow>
       client_worker sha E c (fi_clients fi ! i) (fi_shared fi) \<noteq> Dangling) \<and>
     (\<forall>i < length (fi_workers fi). \<forall>now. fine_turn E i now (fi_workers fi ! i) (fi_shared fi) = Dangling \<longrightarrow>
       (\<exists>t s. fi_workers fi ! i = Some (At_count t s)))"
proof -
  have inv: "fine_inv w fi" by (rule fine_run_inv [OF assms(2,1)])
  then have ok: "sys_ok w (fi_sm fi) (fi_clients fi) (fine_out fi)" by (simp add: fine_inv_def)
  have "client_worker sha E c (fi_clients fi ! i) (fi_shared fi) \<noteq> Dangling"
    if "i < length (fi_clients fi)" "chance_ok w c (fi_sm fi)" for i c
    using client_turn_ok [OF sys_okD(1) [OF ok] that(2), of "fi_clients fi ! i" sha E] sys_okD(2) [OF ok that(1)]
    by (auto simp: turn_ok_def)
  moreover have "\<exists>t s. fi_workers fi ! i = Some (At_count t s)"
    if i: "i < length (fi_workers fi)" and d: "fine_turn E i now (fi_workers fi ! i) (fi_shared fi) = Dangling" for i now
  proof -
    from d obtain pc where pc: "fi_workers fi ! i = Some pc" "pc \<noteq> At_idle" "worker_step E i now pc (sh_server (fi_shared fi)) = Dangling"
      by (auto simp: fine_turn_def split: option.splits if_splits monitor.splits prod.splits turn.splits)
    have a: "addressed (fi_sm fi) pc" using inv i pc(1) by (auto simp: fine_inv_def pc_of_def dest: spec [of _ i])
    show ?thesis
      using pc a by (cases pc) (auto simp: Let_def addressed_def response_fill_def on_session_touched split: prod.splits option.splits if_splits)
  qed
  ultimately show ?thesis by blast
qed

lemma sessions_dangle_only_after_answer_witness:
  "\<exists>fi0 tr fi t. fine_run (\<lambda>t. t_type t = TASK_LIST) True id ref_engine fi0 tr fi \<and> fi_workers fi = [Some (At_dirs t)] \<and>
     fi_clients fi = [ann_at Ct_wait] \<and> fine_turn ref_engine 0 102 (Some (At_dirs t)) (fi_shared fi) \<noteq> Dangling \<and>
     client_worker id ref_engine later_chance (ann_at Ct_wait) (fi_shared fi) \<noteq> Dangling"
proof -
  obtain fi0 tr fi t where a: "fine_start (server_start ref_engine good_boot None example_net empty_fs) 1 1 fi0"
    "fine_run (\<lambda>t. t_type t = TASK_LIST) True id ref_engine fi0 tr fi" "fi_clients fi = [ann_at Ct_wait]"
    "fi_workers fi = [Some (At_dirs t)]" "chance_ok True later_chance (fi_sm fi)"
    by (rule asked_fine) blast
  from sessions_dangle_only_after_answer [OF a(1,2)] a(3-5) have
    "client_worker id ref_engine later_chance (ann_at Ct_wait) (fi_shared fi) \<noteq> Dangling"
    "fine_turn ref_engine 0 102 (Some (At_dirs t)) (fi_shared fi) \<noteq> Dangling" by auto
  with a show ?thesis by blast
qed

text \<open>C3: a task and its answer belong to one client, at every point of a worker's handler: every task that is queued or in a
  worker's hands and not answered was sent by a client that is logged in as the user the task names and waits for its
  answer; no other client has the task's identifier and no other task has it, so the answer cannot reach anyone else.\<close>

theorem requests_have_one_owner:
  assumes "fine_start (server_start E b arg net fs) n k fi0" "fine_run OK w sha E fi0 tr fi" "t \<in># fine_out fi"
  shows "size {#u \<in># fine_out fi. t_session_id u = t_session_id t#} = 1 \<and>
    (\<exists>i < length (fi_clients fi). waiting (fi_sm fi) (t_session_id t) (fi_clients fi ! i) \<and>
       sent_by (fi_sm fi) (fi_clients fi ! i) t \<and>
       (\<forall>j < length (fi_clients fi). in_session (fi_clients fi ! j) \<longrightarrow>
          ct_session_id (fi_clients fi ! j) = t_session_id t \<longrightarrow> j = i))"
  by (rule sys_ok_owner [where w = w, OF _ assms(3)]) (use fine_run_inv [OF assms(2,1)] in \<open>simp add: fine_inv_def\<close>)

lemma requests_have_one_owner_witness:
  "\<exists>fi0 tr fi t. fine_run (\<lambda>t. t_type t = TASK_LIST) False id ref_engine fi0 tr fi \<and> fine_out fi = {#t#} \<and>
     t_username t = ''ann'' \<and> waiting (fi_sm fi) (t_session_id t) (ann_at Ct_wait) \<and> sent_by (fi_sm fi) (ann_at Ct_wait) t"
proof -
  obtain fi0 tr fi t where a: "fine_start (server_start ref_engine good_boot None example_net empty_fs) 1 1 fi0"
    "fine_run (\<lambda>t. t_type t = TASK_LIST) False id ref_engine fi0 tr fi" "fi_clients fi = [ann_at Ct_wait]"
    "fi_workers fi = [Some (At_dirs t)]" "t_username t = ''ann''" "fine_out fi = {#t#}"
    by (rule asked_fine) blast
  from requests_have_one_owner [OF a(1,2), of t] a show ?thesis by fastforce
qed

end
