(* ===== verification/Fine_Shutdown.thy ===== *)
theory Fine_Shutdown
  imports Fine_Props
begin

text \<open>
  The end of the server, at the grain of \<open>Fine_System\<close>: which thread owns each upload buffer at every point of its life, and
  what is left when the main thread has joined all threads.
\<close>

section \<open>The books\<close>

definition in_hand :: "wk_pc \<Rightarrow> Task list" where
  "in_hand pc = (case task_at pc of None \<Rightarrow> [] | Some t \<Rightarrow> [t])"

text \<open>The tasks that are queued or in the hands of a worker, answered or not.\<close>

definition fine_tasks :: "'d fine \<Rightarrow> Task multiset" where
  "fine_tasks fi = mset (tq_items (sh_tasks (fi_shared fi))) + mset (concat (map (in_hand \<circ> pc_of) (fi_workers fi)))"

definition upload_owned :: "Task \<Rightarrow> bool" where
  "upload_owned t \<longleftrightarrow> (t_data_buffer t \<noteq> None \<longrightarrow> t_type t = TASK_UPLOAD)"

definition fine_books :: "'d fine \<Rightarrow> bool" where
  "fine_books fi \<longleftrightarrow>
     sh_allocs (fi_shared fi) = sv_freed (sh_server (fi_shared fi)) + sum_list (map held (fi_clients fi)) +
       (\<Sum>t \<in># fine_tasks fi. frees t) \<and>
     (\<forall>t \<in># fine_tasks fi. upload_owned t) \<and>
     (None \<in> set (fi_workers fi) \<longrightarrow>
        tq_shutdown (sh_tasks (fi_shared fi)) \<and> tq_items (sh_tasks (fi_shared fi)) = []) \<and>
     (mn_phase (fi_main fi) \<in> {Mn_join_workers, Mn_done} \<longrightarrow> (\<forall>ct \<in> set (fi_clients fi). ct_phase ct = Ct_exit)) \<and>
     (mn_phase (fi_main fi) = Mn_done \<longrightarrow> (\<forall>wk \<in> set (fi_workers fi). wk = None))"

lemma mset_in_hand_update:
  assumes "i < length ws"
  shows "mset (concat (map (in_hand \<circ> pc_of) (ws[i := wk]))) + mset (in_hand (pc_of (ws ! i))) =
    mset (concat (map (in_hand \<circ> pc_of) ws)) + mset (in_hand (pc_of wk))"
  using assms by (induction ws arbitrary: i) (auto split: nat.split)

lemma pushed_owned:
  assumes "fine_inv w fi" "i < length (fi_clients fi)" "t \<in># pushed (fi_clients fi ! i) ct"
  shows "upload_owned t"
proof -
  have ok: "sys_ok w (fi_sm fi) (fi_clients fi) (fine_out fi)" using assms(1) by (simp add: fine_inv_def)
  have p: "ct_phase (fi_clients fi ! i) = Ct_push t" using assms(3) by (simp add: pushed_iff)
  then have "session_ok (fi_sm fi) (fi_clients fi ! i)" using sys_okD(2) [OF ok assms(2)] by (simp add: in_session_def)
  then obtain s where "task_of (fi_clients fi ! i) s t" by (rule session_okD) (use p in simp)
  then show ?thesis by (auto simp: upload_owned_def task_of_def)
qed

lemma books_client:
  assumes b: "fine_books fi" and inv: "fine_inv w fi" and i: "i < length (fi_clients fi)" and c: "chance_ok w c (fi_sm fi)"
    and g: "client_worker sha E c (fi_clients fi ! i) (fi_shared fi) = Goes (ct, sh)"
  shows "fine_books (fi\<lparr>fi_clients := (fi_clients fi)[i := ct], fi_shared := sh\<rparr>)"
proof -
  let ?fi = "fi\<lparr>fi_clients := (fi_clients fi)[i := ct], fi_shared := sh\<rparr>" and ?ct = "fi_clients fi ! i"
  have wf: "tq_wf (sh_tasks (fi_shared fi))" using inv by (simp add: fine_inv_def)
  note e = fine_client_effect [OF inv i c g] note t = client_effect_tasks [OF e wf]
  have tasks: "fine_tasks ?fi = fine_tasks fi + pushed ?ct ct" using t by (simp add: fine_tasks_def)
  have "?ct \<in> set (fi_clients fi)" "ct_phase ?ct \<noteq> Ct_exit" using i g by (auto simp: client_worker_def)
  then have main: "mn_phase (fi_main fi) \<notin> {Mn_join_workers, Mn_done}" using b by (auto simp: fine_books_def)
  have "sh_allocs sh = sv_freed (sh_server sh) + sum_list (map held ((fi_clients fi)[i := ct])) + (\<Sum>t \<in># fine_tasks ?fi. frees t)"
    using t sum_held_update [OF i, of ct] b by (simp add: tasks fine_books_def)
  with t main b pushed_owned [OF inv i] show ?thesis by (auto simp: fine_books_def tasks)
qed

text \<open>Only the last step of a task frees its buffer.\<close>

lemma step_keeps_buffer:
  "worker_step E i now pc sv = Goes (pc', sv') \<Longrightarrow> (\<exists>t. pc = At_free t) \<or> sv_freed sv' = sv_freed sv \<and> pc' \<noteq> At_idle"
  by (cases pc)
    (auto simp: Let_def open_step_def size_step_def read_step_def list_step_def meta_step_def
      split: prod.splits option.splits sum.splits if_splits task_type.splits)

lemma step_freed:
  assumes "worker_step E i now pc sv = Goes (pc', sv')"
  shows "sv_freed sv' + (\<Sum>t \<leftarrow> in_hand pc'. if t_type t = TASK_UPLOAD then frees t else 0) =
    sv_freed sv + (\<Sum>t \<leftarrow> in_hand pc. if t_type t = TASK_UPLOAD then frees t else 0)"
proof (cases "\<exists>t. pc = At_free t")
  case True
  with assms show ?thesis by (auto simp: in_hand_def frees_def free_buffer_def)
next
  case False
  with step_keeps_buffer [OF assms] step_task [OF assms] show ?thesis by (auto simp: in_hand_def)
qed

lemma owned_sum:
  "(\<And>t. t \<in> set ts \<Longrightarrow> upload_owned t) \<Longrightarrow>
    (\<Sum>t \<leftarrow> ts. if t_type t = TASK_UPLOAD then frees t else 0) = (\<Sum>t \<in># mset ts. frees t)"
  by (induction ts) (auto simp: upload_owned_def frees_def)

lemma in_hand_tasks:
  assumes "i < length (fi_workers fi)" "t \<in> set (in_hand (pc_of (fi_workers fi ! i)))"
  shows "t \<in># fine_tasks fi"
  using assms by (auto simp: fine_tasks_def intro!: bexI [of _ "fi_workers fi ! i"])

lemma books_done: "\<lbrakk>fine_books fi; mn_phase (fi_main fi) = Mn_done; wk \<in> set (fi_workers fi)\<rbrakk> \<Longrightarrow> wk = None"
  by (simp add: fine_books_def)

lemma books_work:
  assumes b: "fine_books fi" and i: "i < length (fi_workers fi)"
    and st: "fi_workers fi ! i = Some pc" "worker_step E i now pc (sh_server (fi_shared fi)) = Goes (pc', sv)"
  shows "fine_books (fi\<lparr>fi_workers := (fi_workers fi)[i := Some pc'], fi_shared := (fi_shared fi)\<lparr>sh_server := sv\<rparr>\<rparr>)"
proof -
  let ?fi = "fi\<lparr>fi_workers := (fi_workers fi)[i := Some pc'], fi_shared := (fi_shared fi)\<lparr>sh_server := sv\<rparr>\<rparr>"
  have phase: "mn_phase (fi_main fi) \<noteq> Mn_done" using books_done [OF b _ nth_mem [OF i]] st(1) by auto
  have out: "fine_tasks ?fi + mset (in_hand pc) = fine_tasks fi + mset (in_hand pc')"
    using mset_in_hand_update [OF i, of "Some pc'"] st by (simp add: fine_tasks_def pc_of_def)
  have own: "upload_owned t" if "t \<in> set (in_hand pc)" for t
    using b in_hand_tasks [OF i, of t] that st(1) by (simp add: fine_books_def pc_of_def)
  have sub: "set (in_hand pc') \<subseteq> set (in_hand pc)" using step_task [OF st(2)] by (auto simp: in_hand_def)
  have freed: "sv_freed sv + (\<Sum>t \<in># mset (in_hand pc'). frees t) =
      sv_freed (sh_server (fi_shared fi)) + (\<Sum>t \<in># mset (in_hand pc). frees t)"
    using step_freed [OF st(2)] owned_sum [of "in_hand pc"] owned_sum [of "in_hand pc'"] own sub by (simp add: subset_iff)
  have sums: "(\<Sum>t \<in># fine_tasks ?fi. frees t) + (\<Sum>t \<in># mset (in_hand pc). frees t) =
      (\<Sum>t \<in># fine_tasks fi. frees t) + (\<Sum>t \<in># mset (in_hand pc'). frees t)"
    using arg_cong [OF out, of "\<lambda>M. \<Sum>t \<in># M. frees t"] by simp
  have "upload_owned t" if "t \<in># fine_tasks ?fi" for t
  proof -
    have "t \<in># fine_tasks fi + mset (in_hand pc')" using that unfolding out [symmetric] by simp
    with own sub b show ?thesis by (auto simp: fine_books_def)
  qed
  moreover have "None \<in> set ((fi_workers fi)[i := Some pc']) \<Longrightarrow> None \<in> set (fi_workers fi)"
    using set_update_subset_insert [of "fi_workers fi" i "Some pc'"] by blast
  ultimately show ?thesis using freed sums b phase by (auto simp: fine_books_def)
qed

lemma books_worker:
  assumes b: "fine_books fi" and inv: "fine_inv w fi" and i: "i < length (fi_workers fi)"
    and g: "fine_turn E i now (fi_workers fi ! i) (fi_shared fi) = Goes (wk, sh)"
  shows "fine_books (fi\<lparr>fi_workers := (fi_workers fi)[i := wk], fi_shared := sh\<rparr>)"
proof -
  let ?fi = "fi\<lparr>fi_workers := (fi_workers fi)[i := wk], fi_shared := sh\<rparr>"
  have wf: "tq_wf (sh_tasks (fi_shared fi))" using inv by (simp add: fine_inv_def)
  note h = mset_in_hand_update [OF i, of wk]
  have phase: "mn_phase (fi_main fi) \<noteq> Mn_done" if "fi_workers fi ! i \<noteq> None"
    using books_done [OF b _ nth_mem [OF i]] that by auto
  have none: "None \<in> set ((fi_workers fi)[i := wk]) \<Longrightarrow> wk = None \<or> None \<in> set (fi_workers fi)"
    using set_update_subset_insert [of "fi_workers fi" i wk] by blast
  from g wf show ?thesis
  proof (cases rule: fine_turn_cases)
    case (take t q)
    with h have "fine_tasks ?fi = fine_tasks fi" by (simp add: fine_tasks_def pc_of_def in_hand_def)
    with take b phase none show ?thesis
      by (auto simp: fine_books_def)
  next
    case leave
    with h have "fine_tasks ?fi = fine_tasks fi" by (simp add: fine_tasks_def pc_of_def)
    with leave b phase show ?thesis by (simp add: fine_books_def)
  next
    case (work pc pc' sv)
    with books_work [OF b i, of pc E now pc' sv] show ?thesis by simp
  qed
qed

text \<open>What a step of the main thread does to the phases and the books.\<close>

lemma main_step_books:
  assumes "main_step fi mn sh" "tq_wf (sh_tasks (fi_shared fi))"
  shows "sh_allocs sh = sh_allocs (fi_shared fi) \<and>
    (tq_shutdown (sh_tasks (fi_shared fi)) \<longrightarrow> tq_shutdown (sh_tasks sh)) \<and>
    (mn_phase mn = mn_phase (fi_main fi) \<or> mn_phase mn \<notin> {Mn_join_workers, Mn_done} \<or>
     mn_phase mn = Mn_join_workers \<and> (\<forall>ct \<in> set (fi_clients fi). ct_phase ct = Ct_exit) \<or>
     mn_phase mn = Mn_done \<and> mn_phase (fi_main fi) = Mn_join_workers \<and> (\<forall>wk \<in> set (fi_workers fi). wk = None))"
  using assms(1)
proof cases
  case (accept conn)
  with tq_shut [OF assms(2)] show ?thesis
    by (auto simp: accept_turn_def begin_shutdown_def split: if_splits sum.splits)
next
  case (push cfd)
  then show ?thesis
    by (auto simp: accept_push_turn_def on_net_def Let_def split: if_splits monitor.splits option.splits)
next
  case join_clients
  then show ?thesis by (auto simp: join_clients_def split: if_splits)
next
  case signal
  with tq_shut [OF assms(2)] show ?thesis by (auto simp: int_handler_def Let_def split: if_splits)
qed simp_all

lemma books_step:
  assumes "fine_step OK w sha E fi ops fi'" "fine_inv w fi" "fine_books fi"
  shows "fine_books fi'"
  using assms(1)
proof cases
  case (client i c ct sh)
  with books_client [OF assms(3,2)] show ?thesis by blast
next
  case (worker i now wk sh)
  with books_worker [OF assms(3,2)] show ?thesis by blast
next
  case (main mn sh)
  have wf: "tq_wf (sh_tasks (fi_shared fi))" using assms(2) by (simp add: fine_inv_def)
  have "fine_tasks fi' = fine_tasks fi" using main main_step_keeps [OF main(3) wf] by (simp add: fine_tasks_def)
  with main assms(3) main_step_keeps [OF main(3) wf] main_step_books [OF main(3) wf] show ?thesis
    by (auto simp: fine_books_def)
qed

lemma books_start:
  assumes "fine_start (server_start E b arg net fs) n k fi"
  shows "fine_books fi"
proof -
  from assms obtain sh fd live where s: "server_start E b arg net fs = Started sh fd live"
    "fi = \<lparr>fi_shared = sh, fi_clients = replicate n idle_client, fi_workers = replicate k (Some At_idle),
       fi_main = \<lparr>mn_phase = Mn_accept, mn_keep_running = True, mn_listen_fd = fd, mn_handler_called = False\<rparr>\<rparr>"
    unfolding fine_start_def by blast
  note S = server_started [OF s(1)]
  have "fine_tasks fi = {#}"
    by (simp add: s(2) fine_tasks_def S(4) pc_of_def in_hand_def map_replicate_const concat_replicate_trivial)
  then show ?thesis by (simp add: fine_books_def s(2) S(5,6) held_def idle_client_def)
qed

lemma fine_run_books:
  assumes "fine_run OK w sha E fi0 tr fi" "fine_start (server_start E b arg net fs) n k fi0"
  shows "fine_books fi"
  using assms(1)
proof induction
  case start
  show ?case by (rule books_start [OF assms(2)])
next
  case (more tr fi ops fi')
  from books_step [OF more(2) fine_run_inv [OF more(1) assms(2)] more.IH] show ?case .
qed

text \<open>When no worker is in a task, no lock is in use.\<close>

lemma idle_locks:
  assumes "pool_run OK E s0 tr s" "pool_start MAX_FILE_LOCKS k s0" "\<forall>pc \<in> set (po_pcs s). pc = At_idle"
  shows "lm_idle (sv_lm (po_server s))"
proof -
  have "lock_reach (names OK) MAX_FILE_LOCKS k (locks_of s)"
    using pool_locks [OF assms(1,2)] by (simp add: MAX_FILE_LOCKS_def)
  then have inv: "lock_inv (locks_of s)" by (rule lock_inv_reach) (simp_all add: MAX_FILE_LOCKS_def)
  have "refs (ls_pcs (locks_of s)) i = 0" for i
    using assms(3) by (auto simp: refs_def locks_of_def filter_empty_conv)
  then show ?thesis using inv
    by (auto simp: lm_idle_def lock_inv_def slot_inv_def lm_wf_def fl_ok_def locks_of_def)
qed

section \<open>Properties\<close>

text \<open>C9: every upload buffer has one owner at every moment: however the threads interleave, the buffers that were allocated are
  those that were freed and those that a client thread holds, that are queued with their task, or that are with the task a
  worker handles; none leaks, and none is freed twice.\<close>

theorem buffers_have_one_owner:
  assumes "fine_start (server_start E b arg net fs) n k fi0" "fine_run OK w sha E fi0 tr fi"
  shows "sh_allocs (fi_shared fi) = sv_freed (sh_server (fi_shared fi)) + sum_list (map held (fi_clients fi)) +
    (\<Sum>t \<in># fine_tasks fi. frees t)"
  using fine_run_books [OF assms(2,1)] by (simp add: fine_books_def)

lemma buffers_have_one_owner_witness:
  "\<exists>fi0 tr fi t. fine_run (\<lambda>t. t_type t = TASK_LIST) True id ref_engine fi0 tr fi \<and> fine_tasks fi = {#t#} \<and>
     sh_allocs (fi_shared fi) = sv_freed (sh_server (fi_shared fi)) + frees t"
proof -
  obtain fi0 tr fi t where a: "fine_start (server_start ref_engine good_boot None example_net empty_fs) 1 1 fi0"
    "fine_run (\<lambda>t. t_type t = TASK_LIST) True id ref_engine fi0 tr fi" "fi_clients fi = [ann_at Ct_wait]"
    "fi_workers fi = [Some (At_dirs t)]" "fine_out fi = {#t#}"
    by (rule asked_fine) blast
  have "fine_tasks fi = {#t#}" using a(4,5) by (simp add: fine_out_def fine_tasks_def in_hand_def pc_of_def)
  moreover have "held (ann_at Ct_wait) = 0" by (simp add: held_def)
  ultimately show ?thesis using buffers_have_one_owner [OF a(1,2)] a(2,3) by auto
qed

text \<open>C10: an orderly shutdown leaves nothing: when the main thread has joined all threads, no task is queued, every upload buffer
  was freed, no file lock is in use, and, while lookups found the sessions, no session is left.\<close>

theorem shutdown_leaves_nothing:
  assumes "fine_start (server_start E b arg net fs) n k fi0" "fine_run OK w sha E fi0 tr fi"
    and "mn_phase (fi_main fi) = Mn_done" "fi_workers fi \<noteq> []"
  shows "tq_items (sh_tasks (fi_shared fi)) = [] \<and> sh_allocs (fi_shared fi) = sv_freed (sh_server (fi_shared fi)) \<and>
    lm_idle (sv_lm (sh_server (fi_shared fi))) \<and> (w \<longrightarrow> (\<forall>a. sm_heap (fi_sm fi) a = None))"
proof -
  have inv: "fine_inv w fi" and b: "fine_books fi"
    using fine_run_inv [OF assms(2,1)] fine_run_books [OF assms(2,1)] by auto
  have out: "\<not> in_session ct" if "ct \<in> set (fi_clients fi)" for ct
    using b assms(3) that by (simp add: fine_books_def in_session_def)
  have none: "wk = None" if "wk \<in> set (fi_workers fi)" for wk
    using b assms(3) that by (simp add: fine_books_def)
  then have "None \<in> set (fi_workers fi)" using assms(4) by (cases "fi_workers fi") auto
  then have items: "tq_items (sh_tasks (fi_shared fi)) = []" using b by (simp add: fine_books_def)
  have idle: "pc_of wk = At_idle" if "wk \<in> set (fi_workers fi)" for wk using none [OF that] by (simp add: pc_of_def)
  then have "concat (map (in_hand \<circ> pc_of) (fi_workers fi)) = []" by (simp add: in_hand_def)
  then have "fine_tasks fi = {#}" by (simp add: fine_tasks_def items)
  moreover have "map held (fi_clients fi) = map (\<lambda>ct. 0) (fi_clients fi)" using out by (intro map_cong) auto
  ultimately have "sh_allocs (fi_shared fi) = sv_freed (sh_server (fi_shared fi))" using b by (simp add: fine_books_def)
  moreover have "\<forall>pc \<in> set (po_pcs (pool_of fi)). pc = At_idle" using idle by (auto simp: pool_of_def)
  with idle_locks [OF fine_pool [OF assms(2,1)] fine_pool_start(1) [OF assms(1)]]
  have "lm_idle (sv_lm (sh_server (fi_shared fi)))" by (simp add: pool_of_def)
  moreover have "sm_heap (fi_sm fi) a = None" if w for a
  proof (rule ccontr)
    assume a: "sm_heap (fi_sm fi) a \<noteq> None"
    have "sys_ok w (fi_sm fi) (fi_clients fi) (fine_out fi)" using inv by (simp add: fine_inv_def)
    from sys_okD(4) [OF this that a] out nth_mem show False by blast
  qed
  ultimately show ?thesis using items by blast
qed

lemma shutdown_leaves_nothing_witness:
  "\<exists>fi0 tr fi. fine_run (\<lambda>t. True) True id ref_engine fi0 tr fi \<and> mn_phase (fi_main fi) = Mn_done \<and> fi_workers fi = [None] \<and>
     sh_allocs (fi_shared fi) = sv_freed (sh_server (fi_shared fi)) \<and> (\<forall>a. sm_heap (fi_sm fi) a = None)"
proof -
  obtain sy0 sy where s: "initial (server_start ref_engine good_boot None example_net empty_fs) 1 1 sy0"
    "sys_reach True id ref_engine sy0 sy" "mn_phase (sy_main sy) = Mn_done" "sy_workers sy = [Wk_exit]"
    by (rule stopped)
  obtain tr where r: "fine_run (\<lambda>t. True) True id ref_engine (fine_of sy0) tr (fine_of sy)"
    using tame_is_fine [OF reach_tame [OF s(2)]] by blast
  from shutdown_leaves_nothing [OF fine_of_initial [OF s(1)] r] s(3,4) r show ?thesis
    by (intro exI [of _ "fine_of sy0"] exI [of _ tr] exI [of _ "fine_of sy"]) (simp add: wk_of_def)
qed

end
