(* ===== verification/Fine_Progress.thy ===== *)
theory Fine_Progress
  imports Fine_Shutdown
begin

text \<open>
  Clients that wait are served: how far the workers get when they alone take turns, and where they stop.
\<close>

section \<open>Progress\<close>

definition fine_work :: "'d fine \<Rightarrow> nat" where
  "fine_work fi = 16 * length (tq_items (sh_tasks (fi_shared fi))) +
     sum_list (map (\<lambda>wk. case wk of None \<Rightarrow> 0 | Some pc \<Rightarrow> Suc (steps_left pc)) (fi_workers fi))"

lemma fine_work_less:
  assumes wf: "tq_wf (sh_tasks (fi_shared fi))" and i: "i < length (fi_workers fi)"
    and g: "fine_turn E i now (fi_workers fi ! i) (fi_shared fi) = Goes (wk, sh)"
  shows "fine_work (fi\<lparr>fi_workers := (fi_workers fi)[i := wk], fi_shared := sh\<rparr>) < fine_work fi"
proof -
  let ?m = "\<lambda>wk. case wk of None \<Rightarrow> 0 | Some pc \<Rightarrow> Suc (steps_left pc)"
  have "?m (fi_workers fi ! i) \<le> sum_list (map ?m (fi_workers fi))" using i by (intro member_le_sum_list) auto
  then have sum: "sum_list (map ?m ((fi_workers fi)[i := wk])) + ?m (fi_workers fi ! i) =
      sum_list (map ?m (fi_workers fi)) + ?m wk"
    using sum_list_update [of i "map ?m (fi_workers fi)" "?m wk"] i by (simp add: map_update)
  have "16 * length (tq_items (sh_tasks sh)) + ?m wk < 16 * length (tq_items (sh_tasks (fi_shared fi))) + ?m (fi_workers fi ! i)"
    using g wf by (cases rule: fine_turn_cases) (auto dest: worker_step_less)
  with sum show ?thesis by (simp add: fine_work_def)
qed

text \<open>A worker with an unanswered task means that some worker can go on.\<close>

lemma busy_goes:
  assumes inv: "fine_inv w fi" and run: "pool_run OK E s0 tr (pool_of fi)" "pool_start MAX_FILE_LOCKS k s0"
    and i: "i < length (fi_workers fi)" "fi_workers fi ! i = Some pc" "pc \<noteq> At_idle" "\<And>t s. pc \<noteq> At_count t s"
  shows "\<exists>j < length (fi_workers fi). \<exists>wk sh. fine_turn E j now (fi_workers fi ! j) (fi_shared fi) = Goes (wk, sh)"
proof (cases "worker_step E i now pc (sh_server (fi_shared fi))")
  case Blocked
  have at: "po_pcs (pool_of fi) ! i = pc" "i < length (po_pcs (pool_of fi))" using i by (simp_all add: pool_of_def pc_of_def)
  have "(0::int) < MAX_FILE_LOCKS" by (simp add: MAX_FILE_LOCKS_def)
  from lock_holder_goes [OF run this order_refl at(2), of now] i(3) Blocked at obtain j where
    j: "j < length (fi_workers fi)" "section_slot (pc_of (fi_workers fi ! j)) \<noteq> None"
    by (auto simp: pool_of_def)
  then obtain p where p: "fi_workers fi ! j = Some p" "section_slot p \<noteq> None" by (cases "fi_workers fi ! j") (auto simp: pc_of_def)
  then have "p \<noteq> At_idle" by auto
  moreover obtain p' sv where "worker_step E j now p (sh_server (fi_shared fi)) = Goes (p', sv)"
    using section_goes [OF p(2), of E j now "sh_server (fi_shared fi)"] by blast
  ultimately show ?thesis using j(1) p(1) by (intro exI [of _ j]) (simp add: fine_turn_def)
next
  case Dangling
  have "addressed (fi_sm fi) pc" using inv i(1,2) by (auto simp: fine_inv_def pc_of_def dest: spec [of _ i])
  moreover have "\<nexists>t s. pc = At_count t s" using i(4) by blast
  ultimately show ?thesis using Dangling
    by (cases pc) (auto simp: Let_def addressed_def response_fill_def on_session_touched split: prod.splits option.splits if_splits)
next
  case (Goes r)
  with i show ?thesis by (intro exI [of _ i]) (cases r, simp add: fine_turn_def)
qed

text \<open>Turns of the workers, one after the other, while the other threads stand still.\<close>

inductive worker_moves :: "'d sqlite \<Rightarrow> 'd fine \<Rightarrow> nat \<Rightarrow> 'd fine \<Rightarrow> bool" for E fi where
  here: "worker_moves E fi 0 fi"
| turn: "worker_moves E fi m fi' \<Longrightarrow> j < length (fi_workers fi') \<Longrightarrow>
    fine_turn E j now (fi_workers fi' ! j) (fi_shared fi') = Goes (wk, sh) \<Longrightarrow>
    worker_moves E fi (Suc m) (fi'\<lparr>fi_workers := (fi_workers fi')[j := wk], fi_shared := sh\<rparr>)"

text \<open>No worker can take a turn.\<close>

definition workers_rest :: "'d sqlite \<Rightarrow> 'd fine \<Rightarrow> bool" where
  "workers_rest E fi \<longleftrightarrow> (\<forall>j < length (fi_workers fi). \<forall>now wk sh.
     fine_turn E j now (fi_workers fi ! j) (fi_shared fi) \<noteq> Goes (wk, sh))"

text \<open>A worker that stands where it counts the operation, after the answer, in a session that was freed.\<close>

definition counts_freed :: "'d fine \<Rightarrow> wk_pc option \<Rightarrow> bool" where
  "counts_freed fi wk \<longleftrightarrow> (\<exists>t s. wk = Some (At_count t s) \<and> sm_heap (fi_sm fi) s = None)"

lemma fine_run_any: "fine_run OK w sha E fi0 tr fi \<Longrightarrow> fine_run (\<lambda>_. True) w sha E fi0 tr fi"
proof (induction rule: fine_run.induct)
  case start
  show ?case by (rule fine_run.start)
next
  case (more tr fi ops fi')
  from more(2) have "fine_step (\<lambda>_. True) w sha E fi ops fi'"
    by cases (auto intro: fine_step.intros)
  with more.IH show ?case by (rule fine_run.more)
qed

lemma moves_run:
  assumes "worker_moves E fi m fi'" "fine_run (\<lambda>_. True) w sha E fi0 tr fi"
  shows "\<exists>tr'. fine_run (\<lambda>_. True) w sha E fi0 tr' fi'"
  using assms(1)
proof induction
  case here
  with assms(2) show ?case by blast
next
  case (turn m fi' j now wk sh)
  then obtain tr' where "fine_run (\<lambda>_. True) w sha E fi0 tr' fi'" by blast
  from fine_run.more [OF this fine_step.worker [OF turn(2,3)]] show ?case by blast
qed

lemma moves_clients: "worker_moves E fi m fi' \<Longrightarrow> fi_clients fi' = fi_clients fi \<and> length (fi_workers fi') = length (fi_workers fi)"
  by (induction rule: worker_moves.induct) simp_all

lemma moves_work:
  assumes "worker_moves E fi m fi'" "fine_run (\<lambda>_. True) w sha E fi0 tr fi" "fine_start (server_start E b arg net fs) n k fi0"
  shows "m + fine_work fi' \<le> fine_work fi"
  using assms(1)
proof induction
  case (turn m fi' j now wk sh)
  obtain tr' where "fine_run (\<lambda>_. True) w sha E fi0 tr' fi'" using moves_run [OF turn(1) assms(2)] by blast
  from fine_run_inv [OF this assms(3)] have "tq_wf (sh_tasks (fi_shared fi'))" by (simp add: fine_inv_def)
  from fine_work_less [OF this turn(2,3)] turn.IH show ?case by simp
qed simp

text \<open>A task without an answer at rest: every worker is where it would use a freed session.\<close>

lemma rest_counts:
  assumes run: "fine_run (\<lambda>_. True) True sha E fi0 tr fi" "fine_start (server_start E b arg net fs) n k fi0"
    and t: "t \<in># fine_out fi" and rest: "workers_rest E fi" and j: "j < length (fi_workers fi)"
  shows "counts_freed fi (fi_workers fi ! j)"
proof -
  note inv = fine_run_inv [OF run] and pool = fine_pool [OF run] fine_pool_start(1) [OF run(2)]
  have wf: "tq_wf (sh_tasks (fi_shared fi))" using inv by (simp add: fine_inv_def)
  have busy: False if "l < length (fi_workers fi)" "fi_workers fi ! l = Some pc" "pc \<noteq> At_idle" "\<And>t s. pc \<noteq> At_count t s" for l pc
    using busy_goes [OF inv pool that, of 0] rest unfolding workers_rest_def by blast
  have queued: "tq_items (sh_tasks (fi_shared fi)) \<noteq> []"
  proof
    assume "tq_items (sh_tasks (fi_shared fi)) = []"
    with t obtain wk where "wk \<in> set (fi_workers fi)" "t \<in> set (unanswered (pc_of wk))"
      by (fastforce simp: fine_out_def)
    then obtain l where l: "l < length (fi_workers fi)" "t \<in> set (unanswered (pc_of (fi_workers fi ! l)))"
      by (metis in_set_conv_nth)
    then obtain p where p: "fi_workers fi ! l = Some p" "t \<in> set (unanswered p)"
      by (cases "fi_workers fi ! l") (auto simp: pc_of_def)
    then have "p \<noteq> At_idle" "\<And>t s. p \<noteq> At_count t s" by auto
    with busy l(1) p(1) show False by blast
  qed
  have "None \<notin> set (fi_workers fi)" using fine_run_books [OF run] queued by (auto simp: fine_books_def)
  then obtain pc where pc: "fi_workers fi ! j = Some pc" using j nth_mem by (metis option.exhaust)
  have "pc \<noteq> At_idle"
  proof
    assume "pc = At_idle"
    have "\<exists>wk sh. fine_turn E j 0 (fi_workers fi ! j) (fi_shared fi) = Goes (wk, sh)"
      by (rule tq.pop_cases [OF wf]) (use queued pc \<open>pc = At_idle\<close> in \<open>auto simp: fine_turn_def\<close>)
    with rest j show False unfolding workers_rest_def by blast
  qed
  with busy [OF j pc] obtain t' s where c: "pc = At_count t' s" by blast
  have "sm_heap (fi_sm fi) s = None"
  proof (rule ccontr)
    assume "sm_heap (fi_sm fi) s \<noteq> None"
    then have "\<exists>wk sh. fine_turn E j 0 (fi_workers fi ! j) (fi_shared fi) = Goes (wk, sh)"
      by (auto simp: pc c fine_turn_def session_increment_operations_def on_session_touched)
    with rest j show False unfolding workers_rest_def by blast
  qed
  with pc c show ?thesis by (simp add: counts_freed_def)
qed

section \<open>Property\<close>

text \<open>C4: a client that waits is not forgotten. Take any state that the server reaches while lookups find the sessions, in which
  client \<open>i\<close> waits, and let the workers take turns from it, in any order, while the other threads stand still. Then the
  client has its answer, or its task is still queued or in a worker's hands and not answered; the number of turns taken and
  what is left of the measure \<open>fine_work\<close> (16 for each queued task and at most 16 for each worker) together are at most
  what the measure was at first; and when no worker can take a turn any more, the client has its answer, with one exception: every worker stands where it
  counts the operation of an earlier answer in a session that was freed meanwhile, a use after free
  (\<open>session_increment_operations\<close> in \<open>deliver_response\<close>) after which nothing is known of the program.\<close>

theorem waiting_clients_progress:
  assumes "fine_start (server_start E b arg net fs) n k fi0" "fine_run OK True sha E fi0 tr fi"
    and "i < length (fi_clients fi)" "waiting (fi_sm fi) (ct_session_id (fi_clients fi ! i)) (fi_clients fi ! i)"
    and "worker_moves E fi m fi'"
  shows "m + fine_work fi' \<le> fine_work fi \<and>
    (answer_ready (fi_sm fi') (fi_clients fi' ! i) \<or>
     (\<exists>t \<in># fine_out fi'. t_session_id t = ct_session_id (fi_clients fi' ! i))) \<and>
    (workers_rest E fi' \<longrightarrow>
       answer_ready (fi_sm fi') (fi_clients fi' ! i) \<or> (\<forall>j < length (fi_workers fi'). counts_freed fi' (fi_workers fi' ! j)))"
proof -
  note run = fine_run_any [OF assms(2)] and cl = moves_clients [OF assms(5)]
  from moves_run [OF assms(5) run] obtain tr' where r: "fine_run (\<lambda>_. True) True sha E fi0 tr' fi'" by blast
  have ok: "sys_ok True (fi_sm fi') (fi_clients fi') (fine_out fi')"
    using fine_run_inv [OF r assms(1)] by (simp add: fine_inv_def)
  have task: "\<exists>t \<in># fine_out fi'. t_session_id t = ct_session_id (fi_clients fi' ! i)"
    if "\<not> answer_ready (fi_sm fi') (fi_clients fi' ! i)"
    using sys_okD(7) [OF ok TrueI, of i] assms(3,4) cl that by (auto simp: waiting_def)
  with rest_counts [OF r assms(1)] moves_work [OF assms(5) run assms(1)] show ?thesis by blast
qed

text \<open>Ann has asked for the list and the one worker is at the start of her task: it comes to rest, and she has her answer.\<close>

lemma workers_come_to_rest:
  assumes "fine_run (\<lambda>_. True) w sha E fi0 tr fi" "fine_start (server_start E b arg net fs) n k fi0"
  shows "\<exists>m fi'. worker_moves E fi m fi' \<and> workers_rest E fi'"
proof (rule ccontr)
  assume *: "\<not> ?thesis"
  have "\<exists>fi'. worker_moves E fi m fi'" for m
  proof (induction m)
    case 0
    show ?case by (blast intro: worker_moves.here)
  next
    case (Suc m)
    then obtain fi' where f: "worker_moves E fi m fi'" by blast
    with * have "\<not> workers_rest E fi'" by blast
    then show ?case using worker_moves.turn [OF f] unfolding workers_rest_def by blast
  qed
  then obtain fi' where "worker_moves E fi (Suc (fine_work fi)) fi'" by blast
  from moves_work [OF this assms] show False by simp
qed

lemma moves_queue:
  assumes "worker_moves E fi m fi'" "fine_run (\<lambda>_. True) w sha E fi0 tr fi" "fine_start (server_start E b arg net fs) n k fi0"
  shows "tq_items (sh_tasks (fi_shared fi)) = [] \<Longrightarrow> tq_items (sh_tasks (fi_shared fi')) = []"
  using assms(1)
proof induction
  case (turn m fi' j now wk sh)
  obtain tr' where "fine_run (\<lambda>_. True) w sha E fi0 tr' fi'" using moves_run [OF turn(1) assms(2)] by blast
  from fine_run_inv [OF this assms(3)] have "tq_wf (sh_tasks (fi_shared fi'))" by (simp add: fine_inv_def)
  with turn(3) show ?case using turn.IH turn.prems by (cases rule: fine_turn_cases) simp_all
qed

lemma waiting_clients_progress_witness:
  "\<exists>fi0 tr fi m fi'. fine_run (\<lambda>t. t_type t = TASK_LIST) True id ref_engine fi0 tr fi \<and> fi_clients fi = [ann_at Ct_wait] \<and>
     \<not> answer_ready (fi_sm fi) (ann_at Ct_wait) \<and> worker_moves ref_engine fi m fi' \<and> answer_ready (fi_sm fi') (ann_at Ct_wait)"
proof -
  obtain fi0 tr fi t where a: "fine_start (server_start ref_engine good_boot None example_net empty_fs) 1 1 fi0"
    "fine_run (\<lambda>t. t_type t = TASK_LIST) True id ref_engine fi0 tr fi" "fi_clients fi = [ann_at Ct_wait]"
    "fi_workers fi = [Some (At_dirs t)]" "waiting (fi_sm fi) 1 (ann_at Ct_wait)" "fine_out fi = {#t#}"
    by (rule asked_fine) blast
  note run = fine_run_any [OF a(2)]
  obtain m fi' where m: "worker_moves ref_engine fi m fi'" "workers_rest ref_engine fi'"
    using workers_come_to_rest [OF run a(1)] by blast
  have cl: "fi_clients fi' = [ann_at Ct_wait]" "length (fi_workers fi') = 1" using moves_clients [OF m(1)] a(3,4) by simp_all
  have "tq_items (sh_tasks (fi_shared fi)) = []" using a(4,6) by (simp add: fine_out_def pc_of_def)
  then have q: "tq_items (sh_tasks (fi_shared fi')) = []" by (rule moves_queue [OF m(1) run a(1)])
  have id: "ct_session_id (ann_at Ct_wait) = 1" using a(5) by (simp add: waiting_def)
  note p = waiting_clients_progress [OF a(1,2) _ _ m(1), of 0]
  have "answer_ready (fi_sm fi') (ann_at Ct_wait)"
  proof (rule ccontr)
    assume n: "\<not> answer_ready (fi_sm fi') (ann_at Ct_wait)"
    with p a(3,5) m(2) cl id have out: "fine_out fi' \<noteq> {#}" and "counts_freed fi' (fi_workers fi' ! 0)" by auto
    then obtain t s where "fi_workers fi' ! 0 = Some (At_count t s)" by (auto simp: counts_freed_def)
    with cl(2) have "fi_workers fi' = [Some (At_count t s)]" by (cases "fi_workers fi'") auto
    with out q show False by (simp add: fine_out_def pc_of_def)
  qed
  with a m(1) show ?thesis by (metis waiting_def)
qed

end
