(* ===== verification/Array_Bounds.thy ===== *)
theory Array_Bounds
  imports System_Props
begin

text \<open>
  The types of C that the model's strings and lists stand for: in every state the server reaches, each name, message
  and buffer fits the array it lives in (\<open>arrays_hold_their_strings\<close>), so that \<open>sscanf\<close>, \<open>strncpy\<close>, \<open>fwrite\<close> and \<open>send\<close> stay
  within bounds.
\<close>

section \<open>Sizes\<close>

text \<open>\<open>char message[512]\<close> with its NUL, and \<open>data_size\<close> bytes of \<open>data\<close>.\<close>

definition response_fits :: "Response \<Rightarrow> bool" where
  "response_fits r \<longleftrightarrow> length (r_message r) < 512 \<and> (\<forall>b. r_data r = Some b \<longrightarrow> r_data_size r \<le> length b)"

definition session_fits :: "Session \<Rightarrow> bool" where
  "session_fits s \<longleftrightarrow> length (se_username s) < MAX_USERNAME_LEN \<and> response_fits (se_response s)"

text \<open>\<open>char username[64]\<close>, \<open>char filename[256]\<close>, and \<open>filesize\<close> bytes of \<open>data_buffer\<close> for an upload.\<close>

definition task_fits :: "Task \<Rightarrow> bool" where
  "task_fits t \<longleftrightarrow> length (t_username t) < MAX_USERNAME_LEN \<and> length (t_filename t) < 256 \<and>
     (t_type t = TASK_UPLOAD \<longrightarrow> (\<exists>b. t_data_buffer t = Some b \<and> length b = unat (t_filesize t)))"

definition heap_fits :: "SessionManager \<Rightarrow> bool" where
  "heap_fits m \<longleftrightarrow> (\<forall>a s. sm_heap m a = Some s \<longrightarrow> session_fits s)"

definition client_fits :: "client \<Rightarrow> bool" where
  "client_fits ct \<longleftrightarrow> (\<forall>t. carried (ct_phase ct) = Some t \<longrightarrow> length (t_filename t) < 256)"

lemma heap_fits_touched: "\<lbrakk>heap_fits m; \<And>s. session_fits s \<Longrightarrow> session_fits (f s)\<rbrakk> \<Longrightarrow> heap_fits (touched m a f)"
  by (auto simp: heap_fits_def touched_heap split: if_splits)

lemma heap_fits_destroy [simp]: "heap_fits m \<Longrightarrow> heap_fits (session_destroy m k)"
  by (auto simp: heap_fits_def session_destroy_def Let_def split: option.splits if_splits)

lemma heap_fits_inactive [simp]: "heap_fits m \<Longrightarrow> heap_fits (session_mark_inactive m k)"
  by (fastforce simp: heap_fits_def session_fits_def session_mark_inactive_def split: option.splits if_splits)

lemma heap_fits_create:
  assumes "heap_fits m" "sm_wf m" "session_create m fd now alloc rm rc mr = (k, m')"
  shows "heap_fits m'"
proof (rule session_create_either [OF assms(2), of fd now alloc rm rc mr])
  fix n assume "session_create m fd now alloc rm rc mr = (0, n)" "n = m \<or> n = m\<lparr>sm_next := sm_next m + 1\<rparr>"
  with assms(1,3) show ?thesis by (auto simp: heap_fits_def)
next
  fix a i assume "session_create m fd now alloc rm rc mr = (sm_next m, created m i a fd now)"
  with assms(1,3) show ?thesis
    by (auto simp: heap_fits_def created_def new_session_def empty_response_def session_fits_def response_fits_def MAX_USERNAME_LEN_def
        split: if_splits)
qed

lemma heap_fits_answered:
  "\<lbrakk>heap_fits m; length msg < 512; case d of None \<Rightarrow> n = 0 | Some b \<Rightarrow> n \<le> length b\<rbrakk> \<Longrightarrow>
     heap_fits (answered now k st msg d n m)"
  by (auto simp: answered_def answer_def session_fits_def response_fits_def response_set_def Let_def
      intro!: heap_fits_touched split: option.split)

section \<open>The turns of a client\<close>

definition turn_fits :: "'d client_turn \<Rightarrow> bool" where
  "turn_fits tr \<longleftrightarrow> (\<forall>ct sh. tr = Goes (ct, sh) \<longrightarrow> heap_fits (sv_sm (sh_server sh)) \<and> client_fits ct)"

lemma turn_fits_simps [simp]:
  "turn_fits Blocked" "turn_fits Dangling"
  "turn_fits (Goes (ct, sh)) \<longleftrightarrow> heap_fits (sv_sm (sh_server sh)) \<and> client_fits ct"
  by (simp_all add: turn_fits_def)

lemma client_fits_simps [simp]:
  "client_fits (ct\<lparr>ct_phase := Ct_next\<rparr>)" "client_fits (ct\<lparr>ct_phase := Ct_exit\<rparr>)" "client_fits (ct\<lparr>ct_phase := Ct_file\<rparr>)"
  "client_fits (ct\<lparr>ct_phase := Ct_wait\<rparr>)" "client_fits (ct\<lparr>ct_phase := Ct_recv t\<rparr>) = (length (t_filename t) < 256)"
  "client_fits (ct\<lparr>ct_phase := Ct_push t\<rparr>) = (length (t_filename t) < 256)"
  by (simp_all add: client_fits_def)

lemma on_net_fits:
  "(\<And>r n. turn_fits (body r (sh\<lparr>sh_net := n\<rparr>))) \<Longrightarrow> turn_fits (on_net fd call sh body)"
  by (auto simp: on_net_def split: option.split)

lemma with_session_fits:
  "\<lbrakk>heap_fits (sv_sm (sh_server sh)); \<And>s. session_fits s \<Longrightarrow> turn_fits (body s)\<rbrakk> \<Longrightarrow> turn_fits (with_session ct sh body)"
  by (auto simp: with_session_def heap_fits_def split: option.split)

lemma complain_fits [intro]:
  "\<lbrakk>heap_fits (sv_sm (sh_server sh)); client_fits ct\<rbrakk> \<Longrightarrow> turn_fits (complain m ct sh)"
  by (auto simp: complain_def intro: on_net_fits)

lemma leave_fits [intro]: "heap_fits (sv_sm (sh_server sh)) \<Longrightarrow> turn_fits (client_leave ct sh)"
  by (simp add: client_leave_def)

lemma submit_fits [intro]:
  assumes "heap_fits (sv_sm (sh_server sh))" "length (t_filename t) < 256"
  shows "turn_fits (client_submit t ct sh)"
  using assms by (auto simp: client_submit_def set_session_def reset_response_def on_session_touched session_fits_def
      response_fits_def intro!: heap_fits_touched split: option.split)

lemma recv_cmd_fits:
  "\<lbrakk>heap_fits (sv_sm (sh_server sh)); \<And>cmd n. turn_fits (body cmd (sh\<lparr>sh_net := n\<rparr>))\<rbrakk> \<Longrightarrow> turn_fits (client_recv ct sh body)"
  unfolding client_recv_def by (rule on_net_fits) (auto split: sum.split)

lemma accept_fits:
  assumes "heap_fits (sv_sm (sh_server sh))" "sm_wf (sv_sm (sh_server sh))" "client_fits ct"
  shows "turn_fits (client_accept c ct sh)"
proof -
  have new: "heap_fits m" if "session_create (sv_sm (sh_server sh)) cfd (ch_now c) (ch_calloc c) (ch_resp_mtx c) (ch_resp_cv c)
      (ch_mtx c) = (k, m)" for cfd k m
    using heap_fits_create [OF assms(1,2) that] .
  show ?thesis
    using assms by (auto simp: client_accept_def Let_def client_fits_def dest!: new intro!: on_net_fits leave_fits
        split: monitor.split option.split prod.split)
qed

lemma auth_fits:
  assumes "heap_fits (sv_sm (sh_server sh))" "client_fits ct"
  shows "turn_fits (client_auth_turn sha E c ct sh)"
proof -
  have go: "turn_fits (auth_accept c m u ct sh')" if "heap_fits (sv_sm (sh_server sh'))" for m u sh'
    unfolding auth_accept_def
    by (rule on_net_fits)
      (use that assms(2) in \<open>auto simp: set_session_def session_set_username_def on_session_touched session_fits_def
        MAX_USERNAME_LEN_def intro!: heap_fits_touched split: option.split\<close>)
  have "turn_fits (client_auth_command sha E c cmd ct (sh\<lparr>sh_net := n\<rparr>))" for cmd n
    unfolding client_auth_command_def
    using assms by (auto simp: Let_def intro!: go complain_fits split: auth_command.split prod.split)
  then show ?thesis
    unfolding client_auth_turn_def
    by (intro with_session_fits [OF assms(1)]) (use assms in \<open>auto intro!: recv_cmd_fits on_net_fits leave_fits\<close>)
qed

lemma parse_file_length:
  "parse_file cmd = Cmd_upload f n \<Longrightarrow> length f < 256" "parse_file cmd = Cmd_download f \<Longrightarrow> length f < 256"
  "parse_file cmd = Cmd_delete f \<Longrightarrow> length f < 256"
proof -
  have "length w < 256" if "scan_word 255 s = Some (w, r)" for s w r using scan_word_bounds [OF that] by simp
  then show "parse_file cmd = Cmd_upload f n \<Longrightarrow> length f < 256" "parse_file cmd = Cmd_download f \<Longrightarrow> length f < 256"
    "parse_file cmd = Cmd_delete f \<Longrightarrow> length f < 256"
    by (auto simp: parse_file_def sscanf_word_size_def sscanf_word_def bind_eq_Some_conv split: if_splits option.splits)
qed

lemma file_fits:
  assumes "heap_fits (sv_sm (sh_server sh))" "client_fits ct"
  shows "turn_fits (client_file_turn E c ct sh)"
proof -
  have "turn_fits (client_file_command E c cmd s ct (sh\<lparr>sh_net := n\<rparr>))" for cmd s n
    unfolding client_file_command_def
    using assms by (auto simp: Let_def client_upload_def new_task_def zero_task_def parse_file_length
        intro!: complain_fits submit_fits on_net_fits split: file_command.split prod.split)
  then show ?thesis
    unfolding client_file_turn_def by (intro recv_cmd_fits with_session_fits) (use assms in auto)
qed

lemma recv_fits:
  assumes "heap_fits (sv_sm (sh_server sh))" "length (t_filename t) < 256"
  shows "turn_fits (client_recv_turn t ct sh)"
  using assms by (auto simp: client_recv_turn_def Let_def free_upload_def intro!: on_net_fits complain_fits submit_fits)

lemma push_fits:
  assumes "heap_fits (sv_sm (sh_server sh))"
  shows "turn_fits (client_push_turn t ct sh)"
  using assms by (auto simp: client_push_turn_def Let_def free_upload_def intro!: complain_fits split: monitor.split)

lemma answer_fits:
  assumes "heap_fits (sv_sm (sh_server sh))"
  shows "turn_fits (client_answer_turn ct sh)"
  unfolding client_answer_turn_def
  using assms by (intro with_session_fits)
    (auto simp: send_response_def send_message_def intro!: on_net_fits leave_fits split: monitor.split option.split)

lemma client_worker_fits:
  assumes "heap_fits (sv_sm (sh_server sh))" "sm_wf (sv_sm (sh_server sh))" "client_fits ct"
  shows "turn_fits (client_worker sha E c ct sh)"
  using accept_fits [OF assms] auth_fits [OF assms(1,3)] file_fits [OF assms(1,3)] recv_fits [OF assms(1)]
    push_fits [OF assms(1)] answer_fits [OF assms(1)] assms(3)
  by (auto simp: client_worker_def client_fits_def split: ct_phase.split)


section \<open>The system\<close>

definition bounds_inv :: "'d system \<Rightarrow> bool" where
  "bounds_inv sy \<longleftrightarrow> heap_fits (sy_sm sy) \<and> (\<forall>ct \<in> set (sy_clients sy). client_fits ct) \<and> (\<forall>t \<in># outstanding sy. task_fits t)"

lemma bounds_client:
  assumes inv: "sys_inv w sy" "bounds_inv sy" and i: "i < length (sy_clients sy)" and c: "chance_ok w c (sy_sm sy)"
    and g: "client_worker sha E c (sy_clients sy ! i) (sy_shared sy) = Goes (ct, sh)"
  shows "bounds_inv (sy\<lparr>sy_clients := (sy_clients sy)[i := ct], sy_shared := sh\<rparr>)"
proof -
  let ?ct = "sy_clients sy ! i"
  have ok: "sys_ok w (sy_sm sy) (sy_clients sy) (outstanding sy)" using inv(1) by (simp add: sys_inv_def)
  have ct: "client_fits ?ct" using inv(2) i by (auto simp: bounds_inv_def)
  have "turn_fits (client_worker sha E c ?ct (sy_shared sy))"
    using client_worker_fits [OF _ sm_good_wf [OF sys_okD(1) [OF ok]] ct] inv(2) by (simp add: bounds_inv_def)
  with g have fits: "heap_fits (sv_sm (sh_server sh))" "client_fits ct" by simp_all
  have "task_fits t" if "t \<in># pushed ?ct ct" for t
  proof -
    have p: "ct_phase ?ct = Ct_push t" using that by (simp add: pushed_iff)
    then have "session_ok (sy_sm sy) ?ct" using sys_okD(2) [OF ok i] by (simp add: in_session_def)
    then obtain s where "task_of ?ct s t" "\<And>b. t_data_buffer t = Some b \<Longrightarrow> length b = unat (t_filesize t)"
      by (rule session_okD) (use p in simp)
    with p ct show ?thesis by (auto simp: task_fits_def task_of_def client_fits_def MAX_USERNAME_LEN_def)
  qed
  with inv(2) fits client_step_effect(2) [OF inv(1) i c g] show ?thesis
    by (auto simp: bounds_inv_def dest: set_update_subset_insert [THEN subsetD])
qed

lemma bounds_worker:
  assumes inv: "sys_inv w sy" "bounds_inv sy" and i: "i < length (sy_workers sy)"
    and g: "worker_turn E i now (sy_workers sy ! i) (sy_shared sy) = Goes (wk, sh)"
  shows "bounds_inv (sy\<lparr>sy_workers := (sy_workers sy)[i := wk], sy_shared := sh\<rparr>)"
proof -
  let ?sy = "sy\<lparr>sy_workers := (sy_workers sy)[i := wk], sy_shared := sh\<rparr>"
  note b = mset_busy_update [OF i, of wk]
  show ?thesis
  proof (cases "sy_workers sy ! i")
    case Wk_idle
    have "tq_wf (sh_tasks (sy_shared sy))" using inv(1) by (simp add: sys_inv_def)
    then have "outstanding ?sy = outstanding sy \<and> sv_sm (sh_server sh) = sy_sm sy"
      by (rule tq.pop_cases) (use g b Wk_idle in \<open>auto simp: worker_turn_def outstanding_def\<close>)
    with inv(2) show ?thesis by (simp add: bounds_inv_def)
  next
    case (Wk_busy t)
    have "sm_wf (sy_sm sy)" "lm_idle (sv_lm (sh_server (sy_shared sy)))"
      using inv(1) by (auto simp: sys_inv_def sys_ok_def sm_good_def)
    from worker_task_done [OF this, of now t E i] obtain sv st m d n where
      r: "worker_task E i now t (sh_server (sy_shared sy)) = Some sv"
        "sv_sm sv = answered now (t_session_id t) st m d n (sy_sm sy)" "length m < 512"
        "case d of None \<Rightarrow> n = 0 | Some b \<Rightarrow> n \<le> length b"
      unfolding task_done_def by blast
    with g Wk_busy have n: "wk = Wk_idle" "sh = (sy_shared sy)\<lparr>sh_server := sv\<rparr>" by (simp_all add: worker_turn_def)
    with Wk_busy b have "outstanding sy = add_mset t (outstanding ?sy)" by (simp add: outstanding_def)
    with inv(2) r n heap_fits_answered show ?thesis by (simp add: bounds_inv_def)
  next
    case Wk_exit
    with g show ?thesis by (simp add: worker_turn_def)
  qed
qed

lemma bounds_step:
  assumes "sys_step w sha E sy sy'" "sys_inv w sy" "bounds_inv sy"
  shows "bounds_inv sy'"
proof -
  have main: "bounds_inv (sy\<lparr>sy_main := mn, sy_shared := sh\<rparr>)"
    if "sv_sm (sh_server sh) = sy_sm sy" "tq_items (sh_tasks sh) = tq_items (sh_tasks (sy_shared sy))" for mn sh
    using assms(3) that by (simp add: bounds_inv_def outstanding_def)
  have wf: "tq_wf (sh_tasks (sy_shared sy))" using assms(2) by (simp add: sys_inv_def)
  from assms(1) show ?thesis
  proof cases
    case (client i c ct sh)
    with assms bounds_client show ?thesis by blast
  next
    case (worker i now wk sh)
    with assms bounds_worker show ?thesis by blast
  next
    case (main_accept conn mn sh)
    with tq_shut [OF wf] show ?thesis
      by (auto simp: accept_turn_def begin_shutdown_def intro!: main split: if_splits sum.splits)
  next
    case (main_push cfd mn sh)
    then show ?thesis
      by (auto simp: accept_push_turn_def on_net_def Let_def intro!: main split: if_splits monitor.splits option.splits)
  next
    case (main_join_clients mn)
    with main [of "sy_shared sy" mn] show ?thesis by simp
  next
    case (main_join_workers mn)
    with main [of "sy_shared sy" mn] show ?thesis by simp
  next
    case (signal mn sh)
    with tq_shut [OF wf] show ?thesis by (auto simp: int_handler_def Let_def intro!: main split: if_splits)
  next
    case (network fd s)
    with main [of "(sy_shared sy)\<lparr>sh_net := (sh_net (sy_shared sy))(fd := s)\<rparr>" "sy_main sy"] show ?thesis by simp
  qed
qed

lemma bounds_start:
  assumes "initial (server_start E b arg net fs) n k sy"
  shows "bounds_inv sy"
proof -
  from assms obtain sh fd live where s: "server_start E b arg net fs = Started sh fd live"
    "sy = \<lparr>sy_shared = sh, sy_clients = replicate n idle_client, sy_workers = replicate k Wk_idle,
       sy_main = \<lparr>mn_phase = Mn_accept, mn_keep_running = True, mn_listen_fd = fd, mn_handler_called = False\<rparr>\<rparr>"
    unfolding initial_def by blast
  note S = server_started [OF s(1)]
  have "sm_heap (sv_sm (sh_server sh)) a = None" for a using init_state [OF S(1)] by simp
  with S(4) show ?thesis
    by (simp add: s(2) bounds_inv_def heap_fits_def outstanding_def map_replicate_const concat_replicate_trivial
        idle_client_def client_fits_def)
qed

text \<open>C8: everything fits the array it is stored in. In every state the server reaches, the user name of every session is
  shorter than its 64 bytes, the message of its response shorter than 512, and the size of its data no more than the
  data; of every task that is queued or being handled the user name is shorter than 64 bytes and the
  file name than 256, and an upload has a buffer with exactly the bytes its size says.\<close>

theorem arrays_hold_their_strings:
  assumes "initial (server_start E b arg net fs) n k sy0" "sys_reach w sha E sy0 sy"
  shows "(\<forall>a s. sm_heap (sy_sm sy) a = Some s \<longrightarrow> length (se_username s) < 64 \<and> length (r_message (se_response s)) < 512 \<and>
       (\<forall>d. r_data (se_response s) = Some d \<longrightarrow> r_data_size (se_response s) \<le> length d)) \<and>
     (\<forall>t \<in># outstanding sy. length (t_username t) < 64 \<and> length (t_filename t) < 256 \<and>
       (t_type t = TASK_UPLOAD \<longrightarrow> (\<exists>d. t_data_buffer t = Some d \<and> length d = unat (t_filesize t))))"
proof -
  have "bounds_inv sy"
    using assms(2)
  proof induction
    case start
    show ?case by (rule bounds_start [OF assms(1)])
  next
    case (more sy sy')
    with bounds_step sys_reach_inv [OF _ assms(1)] show ?case by blast
  qed
  then show ?thesis
    by (auto simp: bounds_inv_def heap_fits_def session_fits_def response_fits_def task_fits_def MAX_USERNAME_LEN_def)
qed

lemma arrays_hold_their_strings_witness:
  "\<exists>sy0 sy t. sys_reach True id ref_engine sy0 sy \<and> t \<in># outstanding sy \<and>
     length (t_username t) < 64 \<and> length (t_filename t) < 256"
proof -
  obtain sy0 sy t where a: "initial (server_start ref_engine good_boot None example_net empty_fs) 1 1 sy0"
    "sys_reach True id ref_engine sy0 sy" "sy_workers sy = [Wk_busy t]"
    by (rule asked) blast
  have "t \<in># outstanding sy" using a(3) by (simp add: outstanding_def)
  with arrays_hold_their_strings [OF a(1,2)] a(2) show ?thesis by blast
qed

end
