(* ===== verification/File_Ops.thy ===== *)
theory File_Ops
  imports File_System Net_Utils Task_Queue
begin

text \<open>
  \<open>src/storage/file_ops.c\<close>: the handlers from before the workers took the file operations over. They are not part of the
  build, and the field \<open>client_fd\<close> they send to is gone from \<open>Task\<close>: here its connection is the argument \<open>k\<close>. A handler
  returns its result, the files and the connection, or \<open>None\<close> when a call on the connection never returns.
\<close>

section \<open>Handlers\<close>

abbreviation STORAGE_ROOT :: string where
  "STORAGE_ROOT \<equiv> ''storage''"

definition ensure_user_dir :: "string \<Rightarrow> fsys \<Rightarrow> fsys" where
  "ensure_user_dir username fs =
     (let path = fit 256 (STORAGE_ROOT @ ''/'' @ username) in fs_mkdir path (fs_mkdir STORAGE_ROOT fs))"

definition old_path :: "Task \<Rightarrow> string" where
  "old_path t = fit 512 (STORAGE_ROOT @ ''/'' @ t_username t @ ''/'' @ t_filename t)"

text \<open>\<open>send\<close> whose result is not looked at.\<close>

definition tell :: "string \<Rightarrow> int \<Rightarrow> fsys \<Rightarrow> sock \<Rightarrow> (int \<times> fsys \<times> sock) option" where
  "tell m rc fs k = map_option (\<lambda>(r, k). (rc, fs, k)) (send_sys m k)"

text \<open>The loop of the upload: \<open>remaining\<close> is a \<open>size_t\<close>, and a \<open>recv\<close> may bring more than remains.\<close>

definition rx_weight :: "rx_event list \<Rightarrow> nat" where
  "rx_weight r = sum_list (map (\<lambda>e. case e of Rx_data b \<Rightarrow> Suc (length b) | _ \<Rightarrow> 1) r)"

lemma recv_sys_weight:
  "\<lbrakk>recv_sys n k = Some (Inr b, k'); b \<noteq> []\<rbrakk> \<Longrightarrow> rx_weight (rx k') < rx_weight (rx k)"
  by (auto simp: recv_sys_def rx_weight_def split: list.splits rx_event.splits if_splits)

function old_recv_loop :: "u64 \<Rightarrow> bytes \<Rightarrow> fsys \<Rightarrow> sock \<Rightarrow> (bytes \<times> fsys \<times> sock) option" where
  "old_recv_loop remaining accepted fs k =
     (if remaining = 0 then Some (accepted, fs, k)
      else case recv_sys 1024 k of
        None \<Rightarrow> None
      | Some (Inl e, k') \<Rightarrow> Some (accepted, fs, k')
      | Some (Inr b, k') \<Rightarrow>
          (if b = [] then Some (accepted, fs, k')
           else let (w, ferr, fs') = fs_fwrite b fs
                in old_recv_loop (remaining - of_nat (length b)) (accepted @ w) fs' k'))"
  by pat_completeness auto
termination
  by (relation "measure (\<lambda>(remaining, accepted, fs, k). rx_weight (rx k))") (auto simp: recv_sys_weight)

declare old_recv_loop.simps [simp del]

definition old_handle_upload :: "Task \<Rightarrow> fsys \<Rightarrow> sock \<Rightarrow> (int \<times> fsys \<times> sock) option" where
  "old_handle_upload t fs k =
     (case fs_fopen_wb (old_path t) (ensure_user_dir (t_username t) fs) of
        (Inl e, fs) \<Rightarrow> tell (''UPLOAD FAILED'' @ [LF]) (- 1) fs k
      | (Inr p, fs) \<Rightarrow>
          Option.bind (old_recv_loop (t_filesize t) [] fs k) (\<lambda>(accepted, fs, k).
            let (rc, fs) = fs_fclose_w p accepted fs in tell (''UPLOAD OK'' @ [LF]) 0 fs k))"

text \<open>\<open>fread\<close> at the position of the stream.\<close>

definition fs_fread_at :: "path \<Rightarrow> nat \<Rightarrow> nat \<Rightarrow> fsys \<Rightarrow> bytes \<times> fsys" where
  "fs_fread_at p off n fs =
     (case io_next fs of
        (Io_ok, fs) \<Rightarrow> (case file_at fs p of None \<Rightarrow> ([], fs) | Some b \<Rightarrow> (take n (drop off b), fs))
      | (Io_error e, fs) \<Rightarrow> ([], fs)
      | (Io_short m, fs) \<Rightarrow> (case file_at fs p of None \<Rightarrow> ([], fs) | Some b \<Rightarrow> (take (min m n) (drop off b), fs)))"

lemma fs_fread_at_less:
  assumes "fs_fread_at p off n fs = (b, fs')" "b \<noteq> []"
  shows "length (the (file_at fs' p)) - (off + length b) < length (the (file_at fs p)) - off"
proof -
  obtain e fs1 where n: "io_next fs = (e, fs1)" by fastforce
  then have "fs_files fs1 = fs_files fs" by simp
  then have f: "file_at fs1 p = file_at fs p" by (simp add: file_at_def)
  from assms n have "fs' = fs1" "\<exists>c m. file_at fs1 p = Some c \<and> b = take m (drop off c)"
    by (auto simp: fs_fread_at_def split: io_event.splits option.splits)
  with assms(2) f show ?thesis by (auto simp: min_def)
qed

function old_send_loop :: "path \<Rightarrow> nat \<Rightarrow> fsys \<Rightarrow> sock \<Rightarrow> (fsys \<times> sock) option" where
  "old_send_loop p off fs k =
     (let (b, fs') = fs_fread_at p off 1024 fs
      in if b = [] then Some (fs', k)
         else case send_sys b k of
           None \<Rightarrow> None
         | Some (r, k') \<Rightarrow> old_send_loop p (off + length b) fs' k')"
  by pat_completeness auto
termination
  by (relation "measure (\<lambda>(p, off, fs, k). length (the (file_at fs p)) - off)") (auto simp: fs_fread_at_less)

declare old_send_loop.simps [simp del]

definition old_handle_download :: "Task \<Rightarrow> fsys \<Rightarrow> sock \<Rightarrow> (int \<times> fsys \<times> sock) option" where
  "old_handle_download t fs k =
     (case fs_fopen_rb (old_path t) fs of
        (Inl e, fs) \<Rightarrow> tell (''DOWNLOAD FAILED'' @ [LF]) (- 1) fs k
      | (Inr p, fs) \<Rightarrow> map_option (\<lambda>(fs, k). (0, fs_fclose_r fs, k)) (old_send_loop p 0 fs k))"

text \<open>\<open>unlink\<close>: files only.\<close>

definition fs_unlink :: "string \<Rightarrow> fsys \<Rightarrow> int \<times> fsys" where
  "fs_unlink s fs =
     (case io_next fs of
        (Io_error e, fs) \<Rightarrow> (- 1, fs)
      | (_, fs) \<Rightarrow>
          (case lookup fs s of
             Inl e \<Rightarrow> (- 1, fs)
           | Inr p \<Rightarrow> if file_at fs p \<noteq> None then (0, unset_file p fs) else (- 1, fs)))"

definition old_handle_delete :: "Task \<Rightarrow> fsys \<Rightarrow> sock \<Rightarrow> (int \<times> fsys \<times> sock) option" where
  "old_handle_delete t fs k =
     (let (rc, fs) = fs_unlink (old_path t) fs
      in if rc = 0 then tell (''DELETE OK'' @ [LF]) 0 fs k else tell (''DELETE FAILED'' @ [LF]) 0 fs k)"

fun old_list_loop :: "string list \<Rightarrow> sock \<Rightarrow> sock option" where
  "old_list_loop [] k = Some k"
| "old_list_loop (name # names) k =
     (if name = ''.'' \<or> name = ''..'' then old_list_loop names k
      else case send_sys (fit 512 (name @ [LF])) k of
        None \<Rightarrow> None
      | Some (r, k') \<Rightarrow> old_list_loop names k')"

definition old_handle_list :: "Task \<Rightarrow> fsys \<Rightarrow> sock \<Rightarrow> (int \<times> fsys \<times> sock) option" where
  "old_handle_list t fs k =
     (let dirpath = fit 256 (STORAGE_ROOT @ ''/'' @ t_username t);
          fs = ensure_user_dir (t_username t) fs
      in case fs_opendir dirpath fs of
           (Inl e, fs) \<Rightarrow> tell (''LIST FAILED'' @ [LF]) (- 1) fs k
         | (Inr p, fs) \<Rightarrow>
             (let (names, fs) = fs_readdir p fs in map_option (\<lambda>k. (0, fs, k)) (old_list_loop names k)))"

section \<open>The loops\<close>

text \<open>An upload that ends early is stored as far as it came, and answered like a complete one.\<close>

lemma old_upload_short:
  assumes "rx k = [Rx_data b, Rx_eof]" "0 < length b" "length b \<le> 1024" "length b < unat n" "fs_script fs = []"
  shows "old_recv_loop n [] fs k = Some (b, fs, k\<lparr>rx := [Rx_eof]\<rparr>)"
proof -
  have "n \<noteq> 0" "b \<noteq> []" using assms by auto
  have "unat (of_nat (length b) :: u64) = length b" using assms(3) by (simp add: unat_of_nat take_bit_nat_eq_self)
  with assms(4) have m: "n - of_nat (length b) \<noteq> 0" by auto
  show ?thesis
    using assms \<open>n \<noteq> 0\<close> \<open>b \<noteq> []\<close> m
    by (simp add: old_recv_loop.simps [of n] old_recv_loop.simps [of "n - of_nat (length b)"] recv_sys_def fs_fwrite_def io_next_def)
qed

text \<open>When the last \<open>recv\<close> brings more than remains, the count wraps and the loop goes on to the end of the stream: the
  next command of the client becomes part of the file.\<close>

lemma old_upload_overrun:
  assumes "rx k = [Rx_data ''abcLIST'', Rx_data ''QUIT'', Rx_eof]" "fs_script fs = []"
  shows "old_recv_loop 3 [] fs k = Some (''abcLISTQUIT'', fs, k\<lparr>rx := [Rx_eof]\<rparr>)"
  using assms by (simp add: old_recv_loop.simps recv_sys_def fs_fwrite_def io_next_def)

text \<open>A download sends the file, chunk by chunk, when every \<open>send\<close> takes its chunk.\<close>

lemma old_download_sends:
  assumes "file_at fs p = Some c" "fs_script fs = []" "tx k = replicate m (Tx_room 1024)" "length c \<le> off + 1024 * m"
  shows "\<exists>j. old_send_loop p off fs k = Some (fs, k\<lparr>tx := replicate j (Tx_room 1024), sent := sent k @ drop off c\<rparr>)"
  using assms(3,4)
proof (induction m arbitrary: off k)
  case 0
  then show ?case
    using assms(1,2) by (intro exI [of _ 0]) (cases k, simp add: old_send_loop.simps [of p off] fs_fread_at_def io_next_def)
next
  case (Suc m)
  show ?case
  proof (cases "drop off c = []")
    case True
    with Suc.prems assms(1,2) show ?thesis
      by (intro exI [of _ "Suc m"]) (cases k, simp add: old_send_loop.simps [of p off] fs_fread_at_def io_next_def)
  next
    case False
    let ?b = "take 1024 (drop off c)"
    let ?k = "k\<lparr>tx := replicate m (Tx_room 1024), sent := sent k @ ?b\<rparr>"
    have "drop off c = ?b @ drop (off + length ?b) c"
      using append_take_drop_id [of 1024 "drop off c"] by (auto simp: min_def add.commute)
    moreover have bound: "length c \<le> off + length ?b + 1024 * m" using Suc.prems(2) by (auto simp: min_def)
    obtain j where "old_send_loop p (off + length ?b) fs ?k =
        Some (fs, ?k\<lparr>tx := replicate j (Tx_room 1024), sent := sent ?k @ drop (off + length ?b) c\<rparr>)"
      using Suc.IH [of ?k, OF _ bound] by (simp del: length_take) blast
    moreover have "old_send_loop p off fs k = old_send_loop p (off + length ?b) fs ?k"
      using False Suc.prems(1) assms(1,2) by (simp add: old_send_loop.simps [of p off] fs_fread_at_def io_next_def send_sys_def)
    ultimately show ?thesis by (intro exI [of _ j]) (simp del: drop_drop)
  qed
qed

end
