(* ===== verification/Client_Props.thy ===== *)
theory Client_Props
  imports System_Props Storage_Props
begin

text \<open>
  What a client gets from its thread: it is logged in only by credentials that were accepted, the data of an upload
  is what followed its command however the network cut it.
\<close>

section \<open>Logging in\<close>

lemma on_net_goes:
  assumes "on_net fd call sh body = Goes r"
  obtains x k where "call (sh_net sh fd) = Some (x, k)" "body x (sh\<lparr>sh_net := (sh_net sh)(fd := k)\<rparr>) = Goes r"
  using assms by (auto simp: on_net_def split: option.splits)

lemma client_recv_goes:
  assumes "client_recv ct sh body = Goes r"
  obtains (left) k where "client_leave ct (sh\<lparr>sh_net := (sh_net sh)(ct_fd ct := k)\<rparr>) = Goes r"
  | (came) b k where "recv_sys 511 (sh_net sh (ct_fd ct)) = Some (Inr b, k)" "b \<noteq> []"
      "body b (sh\<lparr>sh_net := (sh_net sh)(ct_fd ct := k)\<rparr>) = Goes r"
  using assms unfolding client_recv_def
proof (rule on_net_goes)
  fix x k
  assume x: "recv_sys 511 (sh_net sh (ct_fd ct)) = Some (x, k)"
    and "(case x of Inl e \<Rightarrow> client_leave ct (sh\<lparr>sh_net := (sh_net sh)(ct_fd ct := k)\<rparr>)
      | Inr cmd \<Rightarrow> if cmd = [] then client_leave ct (sh\<lparr>sh_net := (sh_net sh)(ct_fd ct := k)\<rparr>)
          else body cmd (sh\<lparr>sh_net := (sh_net sh)(ct_fd ct := k)\<rparr>)) = Goes r"
  with left [of k] came [of _ k] show thesis by (cases x) (auto split: if_splits)
qed

lemma leave_keeps_out:
  assumes "client_leave ct sh = Goes (ct', sh')" "sm_wf (sv_sm (sh_server sh))"
    "sm_heap (sv_sm (sh_server sh)) a = Some s" "se_id s = ct_session_id ct" "\<not> se_auth s"
    "sm_heap (sv_sm (sh_server sh')) a = Some s'"
  shows "\<not> se_auth s'"
proof -
  let ?m = "sv_sm (sh_server sh)" let ?k = "ct_session_id ct"
  have g: "sm_good False ?m" using assms(2) by (simp add: sm_good_def)
  have e: "sv_sm (sh_server sh') = session_destroy (session_mark_inactive ?m ?k) ?k"
    using assms(1) by (auto simp: client_leave_def)
  note l = leave_outcome [OF g assms(3,4), folded e]
  have "find_slot ?m ?k = None" by (rule ccontr) (use l(3) assms(6) in simp)
  then have "sv_sm (sh_server sh') = ?m"
    by (cases "?k = 0") (simp_all add: e session_mark_inactive_def session_destroy_missing session_destroy_def)
  with assms show ?thesis by simp
qed

lemma complain_goes: "complain m ct sh = Goes (ct', sh') \<Longrightarrow> ct' = ct \<and> sv_sm (sh_server sh') = sv_sm (sh_server sh)"
  unfolding complain_def by (erule on_net_goes) auto

lemma auth_accept_goes:
  assumes "auth_accept c m u ct sh = Goes (ct', sh')" "sm_wf (sv_sm (sh_server sh))"
    "sm_heap (sv_sm (sh_server sh)) (ct_session ct) = Some s" "se_id s = ct_session_id ct" "\<not> se_auth s"
    "sm_heap (sv_sm (sh_server sh')) (ct_session ct) = Some s'" "se_auth s'"
  shows "ct' = ct \<and> se_username s' = fit MAX_USERNAME_LEN u \<and> sv_db (sh_server sh') = sv_db (sh_server sh)"
proof -
  from assms(1) obtain rc :: int and k where k: "(if rc \<noteq> 0 then client_leave ct (sh\<lparr>sh_net := (sh_net sh)(ct_fd ct := k)\<rparr>)
      else set_session (\<lambda>a. session_set_username a u (ch_now c)) ct (sh\<lparr>sh_net := (sh_net sh)(ct_fd ct := k)\<rparr>)
        (\<lambda>sh. Goes (ct, sh))) = Goes (ct', sh')"
    unfolding auth_accept_def by (auto elim!: on_net_goes)
  have "rc = 0"
    using k leave_keeps_out [of ct "sh\<lparr>sh_net := (sh_net sh)(ct_fd ct := k)\<rparr>" ct' sh' "ct_session ct" s s'] assms(2-7)
    by (auto split: if_splits)
  with k assms(3,6) show ?thesis
    by (auto simp: set_session_def session_set_username_def on_session_touched touched_heap)
qed

text \<open>C14: nobody gets past the login without credentials: if a turn of the thread leaves the session of a client
  authenticated that was not, then in that turn bytes were received on the client's connection, and their first line, up to a
  NUL byte or a line feed, is a signup or a login that the accounts accepted with the name and the password in it; the session has
  the name that was given, cut to the length of its field.\<close>

theorem login_needs_credentials:
  assumes "client_auth_turn sha E c ct sh = Goes (ct', sh')" "sm_wf (sv_sm (sh_server sh))"
    and "sm_heap (sv_sm (sh_server sh)) (ct_session ct) = Some s" "se_id s = ct_session_id ct" "\<not> se_auth s"
    and "sm_heap (sv_sm (sh_server sh')) (ct_session ct) = Some s'" "se_auth s'"
  shows "ct' = ct \<and> (\<exists>b k cmd u p. recv_sys 511 (sh_net sh (ct_fd ct)) = Some (Inr b, k) \<and> b \<noteq> [] \<and>
    cmd = takeWhile (\<lambda>x. x \<noteq> LF) (cstr b) \<and>
    (parse_auth cmd = Cmd_signup u p \<and> user_signup sha E (Some u) (Some p) (sv_db (sh_server sh)) = (0, sv_db (sh_server sh')) \<or>
     parse_auth cmd = Cmd_login u p \<and> user_login sha E (Some u) (Some p) (sv_db (sh_server sh)) = (0, sv_db (sh_server sh'))) \<and>
    se_username s' = fit MAX_USERNAME_LEN u)"
proof -
  from assms(1,3,5) have "client_recv ct sh (\<lambda>cmd sh. client_auth_command sha E c (takeWhile (\<lambda>x. x \<noteq> LF) (cstr cmd)) ct sh)
      = Goes (ct', sh')" by (simp add: client_auth_turn_def with_session_def)
  then obtain k b where b: "recv_sys 511 (sh_net sh (ct_fd ct)) = Some (Inr b, k)" "b \<noteq> []"
    "client_auth_command sha E c (takeWhile (\<lambda>x. x \<noteq> LF) (cstr b)) ct (sh\<lparr>sh_net := (sh_net sh)(ct_fd ct := k)\<rparr>) = Goes (ct', sh')"
  proof (rule client_recv_goes)
    fix k assume "client_leave ct (sh\<lparr>sh_net := (sh_net sh)(ct_fd ct := k)\<rparr>) = Goes (ct', sh')"
    from leave_keeps_out [OF this, of "ct_session ct" s s'] assms(2-7) show thesis by simp
  qed blast
  let ?sh = "sh\<lparr>sh_net := (sh_net sh)(ct_fd ct := k)\<rparr>"
  obtain cmd where line: "cmd = takeWhile (\<lambda>x. x \<noteq> LF) (cstr b)" by blast
  with b(3) have cmd: "client_auth_command sha E c cmd ct ?sh = Goes (ct', sh')" by simp
  have came: ?thesis if "ct' = ct \<and> (\<exists>u p.
    (parse_auth cmd = Cmd_signup u p \<and> user_signup sha E (Some u) (Some p) (sv_db (sh_server sh)) = (0, sv_db (sh_server sh')) \<or>
     parse_auth cmd = Cmd_login u p \<and> user_login sha E (Some u) (Some p) (sv_db (sh_server sh)) = (0, sv_db (sh_server sh'))) \<and>
    se_username s' = fit MAX_USERNAME_LEN u)"
    using that b(1,2) line by blast
  have no: "complain m ct (on_db db ?sh) \<noteq> Goes (ct', sh')" "complain m ct ?sh \<noteq> Goes (ct', sh')" for m db
    using complain_goes [of m ct "on_db db ?sh" ct' sh'] complain_goes [of m ct ?sh ct' sh'] assms(3,5-7) by auto
  have acc: "auth_accept c m u ct (on_db db ?sh) = Goes (ct', sh') \<Longrightarrow>
      ct' = ct \<and> se_username s' = fit MAX_USERNAME_LEN u \<and> sv_db (sh_server sh') = db" for m u db
    using auth_accept_goes [of c m u ct "on_db db ?sh" ct' sh' s s'] assms(2-7) by simp
  show ?thesis
  proof (cases "parse_auth cmd")
    case (Cmd_signup u p)
    obtain rc db where r: "user_signup sha E (Some u) (Some p) (sv_db (sh_server sh)) = (rc, db)" by fastforce
    from cmd no have "rc = 0" "auth_accept c (''SIGNUP OK'' @ [LF]) u ct (on_db db ?sh) = Goes (ct', sh')"
      by (auto simp: client_auth_command_def Cmd_signup r Let_def split: if_splits)
    with acc [OF this(2)] Cmd_signup r show ?thesis by (intro came) blast
  next
    case (Cmd_login u p)
    obtain rc db where r: "user_login sha E (Some u) (Some p) (sv_db (sh_server sh)) = (rc, db)" by fastforce
    from cmd no have "rc = 0" "auth_accept c (''LOGIN OK'' @ [LF]) u ct (on_db db ?sh) = Goes (ct', sh')"
      by (auto simp: client_auth_command_def Cmd_login r Let_def split: if_splits)
    with acc [OF this(2)] Cmd_login r show ?thesis by (intro came) blast
  next
    case Cmd_not_auth
    with cmd no show ?thesis by (simp add: client_auth_command_def)
  qed
qed

lemma login_needs_credentials_witness:
  "\<exists>sy0 sy ct sh b cmd u p. sys_reach True id ref_engine sy0 sy \<and>
     client_auth_turn id ref_engine later_chance (sy_clients sy ! 0) (sy_shared sy) = Goes (ct, sh) \<and>
     fst (the (recv_sys 511 (sh_net (sy_shared sy) 7))) = Inr b \<and> cmd = takeWhile (\<lambda>x. x \<noteq> LF) (cstr b) \<and>
     (parse_auth cmd = Cmd_signup u p \<or> parse_auth cmd = Cmd_login u p) \<and> fit MAX_USERNAME_LEN u = ''ann''"
proof (rule connected [of empty_fs "\<lambda>t. True" True id ref_engine])
  fix sy0 sy :: "ref_db system"
  assume tame: "tame_reach (\<lambda>t. True) True id ref_engine sy0 sy" and cl: "sy_clients sy = [\<lparr>ct_phase = Ct_auth, ct_fd = 7, ct_session_id = 1, ct_session = 4096\<rparr>]"
    and sm: "sy_sm sy = created fresh_manager 1 4096 7 100"
    and net: "sh_net (sy_shared sy) 7 = (example_net 7)\<lparr>tx := replicate 4 (Tx_room 1000), sent := welcome_msg\<rparr>"
    and db: "sv_db (sh_server (sy_shared sy)) = Some fresh_db" and init: "initial (server_start ref_engine good_boot None example_net empty_fs) 1 1 sy0"
  note r = tame_reach_reach [OF tame]
  let ?ct = "\<lparr>ct_phase = Ct_auth, ct_fd = 7, ct_session_id = 1, ct_session = 4096\<rparr>" let ?sh = "sy_shared sy"
  have heap: "sm_heap (sy_sm sy) 4096 = Some (new_session 1 7 100)" by (simp add: sm created_def)
  have wf: "sm_wf (sy_sm sy)" using sys_reach_inv [OF r init] by (simp add: sys_inv_def sys_ok_def sm_good_def)
  obtain d where sg: "user_signup id ref_engine (Some ''ann'') (Some ''pw'') (Some fresh_db) = (0, Some d)"
    using example_signup by blast
  let ?f = "\<lambda>s. s\<lparr>se_username := ''ann'', se_auth := True, se_authenticated_at := 101, se_last_activity := 101\<rparr>"
  obtain n1 where 1: "client_worker id ref_engine later_chance ?ct ?sh =
      Goes (?ct, on_sm (\<lambda>sm. touched sm 4096 ?f) ((on_db (Some d) ?sh)\<lparr>sh_net := n1\<rparr>))"
    by (rule signup_turn [of ?sh ?ct "new_session 1 7 100" "sh_net ?sh 7" "[Rx_data (''LIST'' @ [LF])]"
          "replicate 3 (Tx_room 1000)" id ref_engine "Some d" later_chance])
      (use heap net sg db in \<open>simp_all add: new_session_def example_net_def later_chance_def example_chance_def replicate_few\<close>)
  let ?sh1 = "on_sm (\<lambda>sm. touched sm 4096 ?f) ((on_db (Some d) ?sh)\<lparr>sh_net := n1\<rparr>)"
  have t: "client_auth_turn id ref_engine later_chance ?ct ?sh = Goes (?ct, ?sh1)"
    using 1 by (simp add: client_worker_def)
  have h1: "sm_heap (sv_sm (sh_server ?sh1)) 4096 = Some (?f (new_session 1 7 100))" by (simp add: touched_heap heap)
  from login_needs_credentials [OF t wf, of "new_session 1 7 100" "?f (new_session 1 7 100)"] heap h1
  obtain b k cmd u p where "recv_sys 511 (sh_net ?sh 7) = Some (Inr b, k)" "cmd = takeWhile (\<lambda>x. x \<noteq> LF) (cstr b)"
    "parse_auth cmd = Cmd_signup u p \<or> parse_auth cmd = Cmd_login u p" "''ann'' = fit MAX_USERNAME_LEN u"
    by (auto simp: new_session_def)
  with r t cl show ?thesis by (metis fst_conv nth_Cons_0 option.sel)
qed

section \<open>Uploading\<close>

text \<open>The task of an upload, with the data received so far.\<close>

definition upload_task :: "client \<Rightarrow> Session \<Rightarrow> string \<Rightarrow> u64 \<Rightarrow> bytes \<Rightarrow> Task" where
  "upload_task ct s f n d = (new_task ct s)\<lparr>t_type := TASK_UPLOAD, t_filename := f, t_filesize := n, t_data_buffer := Some d\<rparr>"

lemma leftover_line:
  "NUL \<notin> set l \<Longrightarrow> LF \<notin> set l \<Longrightarrow> r = [] \<or> hd r \<noteq> NUL \<Longrightarrow> leftover (l @ LF # r) n = take n r"
  by (auto simp: leftover_def cstr_line strchr_append)

text \<open>Data that arrived with the command and start with a NUL byte are lost.\<close>

lemma leftover_drops_NUL: "NUL \<notin> set l \<Longrightarrow> LF \<notin> set l \<Longrightarrow> leftover (l @ LF # NUL # r) n = []"
  by (simp add: leftover_def cstr_line strchr_append)

lemma recv_full_enough:
  assumes "0 < n" "n \<le> length (stream_of (rx k))" "no_empty_segment (rx k)"
  obtains k' where "recv_full n k = Some (int n, take n (stream_of (rx k)), k')" "stream_of (rx k') = drop n (stream_of (rx k))"
    "sent k' = sent k" "tx k' = tx k"
  using recv_loop_enough [OF assms(2,3), of "[]"] assms by (auto simp: recv_full_def)

definition cleared :: "Session \<Rightarrow> Session" where
  "cleared s = s\<lparr>se_response := (se_response s)\<lparr>r_ready := False, r_status := RESPONSE_SUCCESS, r_message := '''',
     r_data := None, r_data_size := 0\<rparr>\<rparr>"

lemma keeps_id_cleared [simp]: "keeps_id cleared"
  by (simp add: keeps_id_def cleared_def)

lemma client_submit_goes:
  assumes "sm_heap (sv_sm (sh_server sh)) (ct_session ct) = Some s"
  shows "client_submit t ct sh = Goes (ct\<lparr>ct_phase := Ct_push t\<rparr>, on_sm (\<lambda>sm. touched sm (ct_session ct) cleared) sh)"
  using assms by (simp add: client_submit_def set_session_def reset_response_def on_session_touched cleared_def [abs_def])

text \<open>The turns of an upload: the command with the data that came with it, and the rest of the data.\<close>

lemma upload_turn:
  assumes r: "recv_sys 511 (sh_net sh (ct_fd ct)) = Some (Inr (l @ LF # r), k)" and l: "NUL \<notin> set l" "LF \<notin> set l"
    and x: "r = [] \<or> hd r \<noteq> NUL" and p: "parse_file (cstr (l @ LF # r)) = Cmd_upload f n"
    and s: "sm_heap (sv_sm (sh_server sh)) (ct_session ct) = Some s"
    and quota: "user_check_quota E (Some (se_username s)) n (sv_db (sh_server sh)) = (True, db)"
    and mem: "ch_malloc c" "unat n < 2 ^ 63"
  defines "sh1 \<equiv> (on_db db (sh\<lparr>sh_net := (sh_net sh)(ct_fd ct := k)\<rparr>))\<lparr>sh_allocs := sh_allocs sh + 1\<rparr>"
  shows "client_file_turn E c ct sh =
    (if length r < unat n then Goes (ct\<lparr>ct_phase := Ct_recv (upload_task ct s f n r)\<rparr>, sh1)
     else Goes (ct\<lparr>ct_phase := Ct_push (upload_task ct s f n (take (unat n) r))\<rparr>, on_sm (\<lambda>sm. touched sm (ct_session ct) cleared) sh1))"
  using r p s quota mem leftover_line [OF l x, of "unat n"] client_submit_goes [of sh1 ct s]
  by (simp add: client_file_turn_def client_recv_def on_net_def with_session_def client_file_command_def
      client_upload_def upload_task_def Let_def sh1_def)

lemma upload_recv_turn:
  assumes s: "sm_heap (sv_sm (sh_server sh)) (ct_session ct) = Some x"
    and m: "length r < unat n" "unat n \<le> length (r @ stream_of (rx (sh_net sh (ct_fd ct))))"
    and k: "no_empty_segment (rx (sh_net sh (ct_fd ct)))"
  obtains k' where "client_recv_turn (upload_task ct s f n r) (ct\<lparr>ct_phase := Ct_recv (upload_task ct s f n r)\<rparr>) sh =
      Goes (ct\<lparr>ct_phase := Ct_push (upload_task ct s f n (take (unat n) (r @ stream_of (rx (sh_net sh (ct_fd ct))))))\<rparr>,
        on_sm (\<lambda>sm. touched sm (ct_session ct) cleared) (sh\<lparr>sh_net := (sh_net sh)(ct_fd ct := k')\<rparr>))"
    "r @ stream_of (rx (sh_net sh (ct_fd ct))) = take (unat n) (r @ stream_of (rx (sh_net sh (ct_fd ct)))) @ stream_of (rx k')"
    "sent k' = sent (sh_net sh (ct_fd ct))" "tx k' = tx (sh_net sh (ct_fd ct))"
proof -
  let ?k = "sh_net sh (ct_fd ct)" let ?m = "unat n - length r" let ?ct = "ct\<lparr>ct_phase := Ct_recv (upload_task ct s f n r)\<rparr>"
  have "0 < ?m" "?m \<le> length (stream_of (rx ?k))" using m by simp_all
  then obtain k' where k': "recv_full ?m ?k = Some (int ?m, take ?m (stream_of (rx ?k)), k')"
    "stream_of (rx k') = drop ?m (stream_of (rx ?k))" "sent k' = sent ?k" "tx k' = tx ?k"
    by (rule recv_full_enough [OF _ _ k])
  have i: "int (length r) < uint n" using m(1) by (simp only: uint_nat of_nat_less_iff)
  have "int ?m = uint n - int (length r)" using of_nat_diff [OF less_imp_le [OF m(1)], where 'a = int] by simp
  with i m(1) k'(1) s client_submit_goes [of "sh\<lparr>sh_net := (sh_net sh)(ct_fd ct := k')\<rparr>" ?ct x
      "upload_task ct s f n (r @ take ?m (stream_of (rx ?k)))"]
  have "client_recv_turn (upload_task ct s f n r) ?ct sh =
      Goes (ct\<lparr>ct_phase := Ct_push (upload_task ct s f n (take (unat n) (r @ stream_of (rx ?k))))\<rparr>,
        on_sm (\<lambda>sm. touched sm (ct_session ct) cleared) (sh\<lparr>sh_net := (sh_net sh)(ct_fd ct := k')\<rparr>))"
    by (simp add: client_recv_turn_def on_net_def upload_task_def Let_def)
  then show thesis by (rule that) (use k' m(1) in simp_all)
qed

text \<open>When the first segment ends before the line feed, the command is read without it, and the line feed, which comes next
  in the stream, is taken for the first byte of the data: the stored file is shifted by one and its last byte is left for
  the next command.\<close>

lemma leftover_no_line: "NUL \<notin> set l \<Longrightarrow> LF \<notin> set l \<Longrightarrow> leftover l n = []"
proof -
  assume l: "NUL \<notin> set l" "LF \<notin> set l"
  then have "cstr l = l" by (intro cstr_id) simp
  moreover have "strchr LF l = None" using l(2) by (simp add: strchr_None)
  ultimately show ?thesis by (simp add: leftover_def)
qed

lemma split_line_shifts_data:
  fixes sh :: "'d shared" and l :: bytes and n :: u64
  assumes r: "recv_sys 511 (sh_net sh (ct_fd ct)) = Some (Inr l, k)" "l \<noteq> []" and l: "NUL \<notin> set l" "LF \<notin> set l"
    and p: "parse_file l = Cmd_upload f n" and s: "sm_heap (sv_sm (sh_server sh)) (ct_session ct) = Some s"
    and quota: "user_check_quota E (Some (se_username s)) n (sv_db (sh_server sh)) = (True, db)"
    and mem: "ch_malloc c" "0 < unat n" "unat n < 2 ^ 63"
    and data: "stream_of (rx k) = LF # b" "unat n = length b" "no_empty_segment (rx k)"
  shows "\<exists>sh1 sh2. client_file_turn E c ct sh = Goes (ct\<lparr>ct_phase := Ct_recv (upload_task ct s f n [])\<rparr>, sh1) \<and>
    client_recv_turn (upload_task ct s f n []) (ct\<lparr>ct_phase := Ct_recv (upload_task ct s f n [])\<rparr>) sh1 =
      Goes (ct\<lparr>ct_phase := Ct_push (upload_task ct s f n (LF # butlast b))\<rparr>, sh2) \<and>
    stream_of (rx (sh_net sh2 (ct_fd ct))) = [last b]"
proof -
  let ?sh = "(on_db db (sh\<lparr>sh_net := (sh_net sh)(ct_fd ct := k)\<rparr>))\<lparr>sh_allocs := sh_allocs sh + 1\<rparr>"
  have "cstr l = l" using l by (intro cstr_id) simp
  with r p s quota mem leftover_no_line [OF l, of "unat n"]
  have 1: "client_file_turn E c ct sh = Goes (ct\<lparr>ct_phase := Ct_recv (upload_task ct s f n [])\<rparr>, ?sh)"
    by (simp add: client_file_turn_def client_recv_def on_net_def with_session_def client_file_command_def client_upload_def
        upload_task_def Let_def)
  obtain k' where 2: "client_recv_turn (upload_task ct s f n []) (ct\<lparr>ct_phase := Ct_recv (upload_task ct s f n [])\<rparr>) ?sh =
      Goes (ct\<lparr>ct_phase := Ct_push (upload_task ct s f n (take (unat n) ([] @ stream_of (rx (sh_net ?sh (ct_fd ct))))))\<rparr>,
        on_sm (\<lambda>sm. touched sm (ct_session ct) cleared) (?sh\<lparr>sh_net := (sh_net ?sh)(ct_fd ct := k')\<rparr>))"
    "[] @ stream_of (rx (sh_net ?sh (ct_fd ct))) = take (unat n) ([] @ stream_of (rx (sh_net ?sh (ct_fd ct)))) @ stream_of (rx k')"
    by (rule upload_recv_turn [of ?sh ct s "[]" n s f]) (use s mem data in simp_all)
  have b: "b \<noteq> []" using data(2) mem(2) by auto
  then have "take (unat n) (LF # b) = LF # butlast b" using data(2) by (cases "length b") (auto simp: butlast_conv_take)
  moreover have "stream_of (rx k') = [last b]"
  proof -
    have "LF # b = (LF # butlast b) @ stream_of (rx k')" using 2(2) data(1) calculation by simp
    with b show ?thesis by (metis append_Cons append_butlast_last_id list.inject same_append_eq)
  qed
  ultimately show ?thesis using 1 2(1) data(1)
    by (intro exI [of _ ?sh] exI [of _ "on_sm (\<lambda>sm. touched sm (ct_session ct) cleared) (?sh\<lparr>sh_net := (sh_net ?sh)(ct_fd ct := k')\<rparr>)"]) simp
qed

text \<open>C11: the data of an upload are exactly the announced number of bytes that follow the command's line in the
  stream, however the rest of it is cut. The first segment holds the whole line with its line feed, within the 511 bytes of
  the call, and the data that come with it do not start with a NUL byte; the quota check passes, the buffer is allocated, the size
  is below \<open>2 ^ 63\<close>, and the client sends at least as many bytes as it announced. If these come with the command,
  the task is submitted with them; otherwise what is missing is received in a later turn, with
  whatever the other threads did in between to anything but this connection and session, and the task is submitted with
  the announced number of bytes. (The two conditions on the first segment are needed: \<open>split_line_shifts_data\<close>,
  \<open>leftover_drops_NUL\<close>.)\<close>

theorem upload_data_exact:
  fixes sh :: "'d shared"
  assumes r: "recv_sys 511 (sh_net sh (ct_fd ct)) = Some (Inr (l @ LF # r), k)" and l: "NUL \<notin> set l" "LF \<notin> set l"
    and x: "r = [] \<or> hd r \<noteq> NUL" and p: "parse_file (cstr (l @ LF # r)) = Cmd_upload f n"
    and s: "sm_heap (sv_sm (sh_server sh)) (ct_session ct) = Some s"
    and quota: "user_check_quota E (Some (se_username s)) n (sv_db (sh_server sh)) = (True, db)"
    and mem: "ch_malloc c" "unat n < 2 ^ 63"
    and enough: "unat n \<le> length (r @ stream_of (rx k))" "no_empty_segment (rx k)"
  shows "\<exists>sh1. if unat n \<le> length r
    then client_file_turn E c ct sh = Goes (ct\<lparr>ct_phase := Ct_push (upload_task ct s f n (take (unat n) r))\<rparr>, sh1)
    else client_file_turn E c ct sh = Goes (ct\<lparr>ct_phase := Ct_recv (upload_task ct s f n r)\<rparr>, sh1) \<and>
      (\<forall>sh2 :: 'd shared. sh_net sh2 (ct_fd ct) = sh_net sh1 (ct_fd ct) \<longrightarrow>
        sm_heap (sv_sm (sh_server sh2)) (ct_session ct) \<noteq> None \<longrightarrow>
        (\<exists>sh3. client_recv_turn (upload_task ct s f n r) (ct\<lparr>ct_phase := Ct_recv (upload_task ct s f n r)\<rparr>) sh2 =
           Goes (ct\<lparr>ct_phase := Ct_push (upload_task ct s f n (take (unat n) (r @ stream_of (rx k))))\<rparr>, sh3)))"
proof (cases "unat n \<le> length r")
  case True
  with upload_turn [OF r l x p s quota mem] show ?thesis by auto
next
  case False
  let ?sh1 = "(on_db db (sh\<lparr>sh_net := (sh_net sh)(ct_fd ct := k)\<rparr>))\<lparr>sh_allocs := sh_allocs sh + 1\<rparr>"
  have "\<exists>sh3. client_recv_turn (upload_task ct s f n r) (ct\<lparr>ct_phase := Ct_recv (upload_task ct s f n r)\<rparr>) sh2 =
      Goes (ct\<lparr>ct_phase := Ct_push (upload_task ct s f n (take (unat n) (r @ stream_of (rx k))))\<rparr>, sh3)"
    if "sh_net sh2 (ct_fd ct) = k" "sm_heap (sv_sm (sh_server sh2)) (ct_session ct) \<noteq> None" for sh2 :: "'d shared"
  proof -
    from that(2) obtain y where "sm_heap (sv_sm (sh_server sh2)) (ct_session ct) = Some y" by auto
    then show ?thesis by (rule upload_recv_turn [of sh2 ct y r n s f]) (use False enough that(1) in auto)
  qed
  with upload_turn [OF r l x p s quota mem] False show ?thesis by (intro exI [of _ ?sh1]) auto
qed

text \<open>Logged in as ann, on a connection that delivers an upload in three segments.\<close>

definition ann_client :: client where
  "ann_client = \<lparr>ct_phase = Ct_file, ct_fd = 7, ct_session_id = 1, ct_session = 4096\<rparr>"

definition ann_session :: Session where
  "ann_session = (new_session 1 7 100)\<lparr>se_username := ''ann'', se_auth := True\<rparr>"

definition ann_shared :: "sock \<Rightarrow> ref_db shared" where
  "ann_shared k = \<lparr>sh_fds = \<lparr>cq_fds = [0, 0], cq_capacity = 2, cq_head = 0, cq_tail = 0, cq_size = 0, cq_shutdown = False\<rparr>,
     sh_tasks = \<lparr>tq_tasks = [zero_task, zero_task], tq_capacity = 2, tq_head = 0, tq_tail = 0, tq_size = 0, tq_shutdown = False\<rparr>,
     sh_server = (small_server [])\<lparr>sv_sm := touched two_sessions 4096 (\<lambda>s. s\<lparr>se_username := ''ann'', se_auth := True\<rparr>)\<rparr>,
     sh_net = (\<lambda>fd. k), sh_closed = [], sh_allocs = 0\<rparr>"

definition upload_sock :: sock where
  "upload_sock = \<lparr>rx = [Rx_data (''UPLOAD c.txt 5'' @ LF # ''ab''), Rx_data ''c'', Rx_data ''defg''], tx = [], sent = ''''\<rparr>"

lemma ann_heap: "sm_heap (sv_sm (sh_server (ann_shared k))) 4096 = Some ann_session"
  by (simp add: ann_shared_def ann_session_def touched_heap two_sessions_simps)

lemma upload_data_exact_witness:
  "\<exists>sh1 sh3. client_file_turn ref_engine example_chance ann_client (ann_shared upload_sock) =
       Goes (ann_client\<lparr>ct_phase := Ct_recv (upload_task ann_client ann_session ''c.txt'' 5 ''ab'')\<rparr>, sh1) \<and>
     client_recv_turn (upload_task ann_client ann_session ''c.txt'' 5 ''ab'')
       (ann_client\<lparr>ct_phase := Ct_recv (upload_task ann_client ann_session ''c.txt'' 5 ''ab'')\<rparr>)
       ((ann_shared upload_sock)\<lparr>sh_net := sh_net sh1\<rparr>) =
       Goes (ann_client\<lparr>ct_phase := Ct_push (upload_task ann_client ann_session ''c.txt'' 5 ''abcde'')\<rparr>, sh3)"
proof -
  let ?sh = "ann_shared upload_sock" let ?k = "upload_sock\<lparr>rx := [Rx_data ''c'', Rx_data ''defg'']\<rparr>"
  have net: "sh_net ?sh (ct_fd ann_client) = upload_sock" by (simp add: ann_shared_def)
  have r: "recv_sys 511 (sh_net ?sh (ct_fd ann_client)) = Some (Inr (''UPLOAD c.txt 5'' @ LF # ''ab''), ?k)"
    unfolding net by (simp add: upload_sock_def recv_sys_def)
  have p: "parse_file (cstr (''UPLOAD c.txt 5'' @ LF # ''ab'')) = Cmd_upload ''c.txt'' 5"
  proof -
    have "show_nat 5 = ''5''" by code_simp
    with parse_upload_line [of "''c.txt''" 5 "LF # ''ab''"] show ?thesis
      by (simp add: cstr_def is_word_def is_space_def is_digit_def)
  qed
  have l: "NUL \<notin> set ''UPLOAD c.txt 5''" "LF \<notin> set ''UPLOAD c.txt 5''" "''ab'' = [] \<or> hd ''ab'' \<noteq> NUL" by simp_all
  have s: "sm_heap (sv_sm (sh_server ?sh)) (ct_session ann_client) = Some ann_session"
    by (simp add: ann_heap ann_client_def)
  have "fst (user_check_quota ref_engine (Some ''ann'') 5 (Some (ann_db [])))"
    by (simp add: user_check_quota_def db_check_quota_def db_get_user_quota_def ref_run DEFAULT_QUOTA_LIMIT_def)
  then obtain db where q: "user_check_quota ref_engine (Some (se_username ann_session)) 5 (sv_db (sh_server ?sh)) = (True, db)"
    by (cases "user_check_quota ref_engine (Some ''ann'') 5 (Some (ann_db []))") (simp add: ann_session_def ann_shared_def small_server_def)
  have "unat (5 :: u64) \<le> length (''ab'' @ stream_of (rx ?k))" "no_empty_segment (rx ?k)" "ch_malloc example_chance"
    by (simp_all add: no_empty_segment_def example_chance_def)
  from upload_data_exact [OF r l p s q this(3) _ this(1,2)] obtain sh1 where 1:
    "client_file_turn ref_engine example_chance ann_client ?sh =
       Goes (ann_client\<lparr>ct_phase := Ct_recv (upload_task ann_client ann_session ''c.txt'' 5 ''ab'')\<rparr>, sh1)"
    "\<And>sh2 :: ref_db shared. sh_net sh2 (ct_fd ann_client) = sh_net sh1 (ct_fd ann_client) \<Longrightarrow>
       sm_heap (sv_sm (sh_server sh2)) (ct_session ann_client) \<noteq> None \<Longrightarrow>
       \<exists>sh3. client_recv_turn (upload_task ann_client ann_session ''c.txt'' 5 ''ab'')
         (ann_client\<lparr>ct_phase := Ct_recv (upload_task ann_client ann_session ''c.txt'' 5 ''ab'')\<rparr>) sh2 =
         Goes (ann_client\<lparr>ct_phase := Ct_push (upload_task ann_client ann_session ''c.txt'' 5 ''abcde'')\<rparr>, sh3)"
    by auto
  from 1(2) [of "?sh\<lparr>sh_net := sh_net sh1\<rparr>"] 1(1) s show ?thesis by auto
qed

end
