(* ===== verification/Client_Input.thy ===== *)
theory Client_Input
  imports Prelude
begin

text \<open>
  What \<open>src/client/client_ui.c\<close> reads from the keyboard. A console is what will be typed, the end-of-file flag of
  \<open>stdin\<close>, and the calls of the user interface that were made, in order (\<open>Client_UI\<close> says what each of them prints).
  What is typed is a list of keys; a pause separates what is already in the input buffer when the program discards
  it from what is typed later. A read that finds the list empty blocks for good and the function returns \<open>None\<close>.
  \<open>stdin\<close> is a terminal, so that the calls that switch its mode succeed.
\<close>

section \<open>The console\<close>

datatype key = Key char | Key_pause | Key_eof

datatype ui_call =
  Ui_splash_screen | Ui_splash_clear | Ui_banner | Ui_connecting string string | Ui_connected
| Ui_connection_error string | Ui_auth_menu | Ui_ask_username | Ui_ask_password | Ui_star | Ui_erase | Ui_newline
| Ui_auth_result bool string | Ui_session_header string | Ui_prompt | Ui_help | Ui_upload_start string int
| Ui_upload_progress int int | Ui_upload_result bool string int | Ui_download_start string
| Ui_download_progress int int | Ui_download_result bool string int | Ui_delete_result bool string string
| Ui_file_list_header | Ui_file_list_empty | Ui_error string | Ui_warning string | Ui_info string
| Ui_usage_error string | Ui_session_end | Ui_goodbye | Ui_raw string

record console =
  co_keys :: "key list"
  co_eof :: bool
  co_out :: "ui_call list"

definition say :: "ui_call \<Rightarrow> console \<Rightarrow> console" where
  "say u co = co\<lparr>co_out := co_out co @ [u]\<rparr>"

section \<open>Standard input\<close>

text \<open>\<open>getchar\<close>: \<open>None\<close> inside is \<open>EOF\<close>.\<close>

fun next_key :: "key list \<Rightarrow> (char option \<times> key list) option" where
  "next_key [] = None"
| "next_key (Key c # r) = Some (Some c, r)"
| "next_key (Key_pause # r) = next_key r"
| "next_key (Key_eof # r) = Some (None, r)"

definition getchar :: "console \<Rightarrow> (char option \<times> console) option" where
  "getchar co =
     (if co_eof co then Some (None, co)
      else case next_key (co_keys co) of
        None \<Rightarrow> None
      | Some (Some c, r) \<Rightarrow> Some (Some c, co\<lparr>co_keys := r\<rparr>)
      | Some (None, r) \<Rightarrow> Some (None, co\<lparr>co_keys := r, co_eof := True\<rparr>))"

text \<open>\<open>fgets(buf, k + 1, stdin)\<close>: the line with its newline, or what fits of it; \<open>None\<close> inside is \<open>NULL\<close>.\<close>

fun fgets_loop :: "nat \<Rightarrow> string \<Rightarrow> console \<Rightarrow> (string option \<times> console) option" where
  "fgets_loop 0 acc co = Some (Some acc, co)"
| "fgets_loop (Suc k) acc co =
     (case getchar co of
        None \<Rightarrow> None
      | Some (None, co) \<Rightarrow> Some (if acc = [] then None else Some acc, co)
      | Some (Some c, co) \<Rightarrow> if c = LF then Some (Some (acc @ [c]), co) else fgets_loop k (acc @ [c]) co)"

definition fgets :: "nat \<Rightarrow> console \<Rightarrow> (string option \<times> console) option" where
  "fgets n co = fgets_loop (n - 1) [] co"

text \<open>\<open>s[strcspn(s, "\n")] = 0\<close>, as a string.\<close>

definition chomp :: "string \<Rightarrow> string" where
  "chomp s = takeWhile (\<lambda>c. c \<noteq> LF) (cstr s)"

text \<open>\<open>clear_input_buffer\<close>: the reads do not block while it runs, so that what has been typed so far is dropped.\<close>

fun typed_later :: "key list \<Rightarrow> key list" where
  "typed_later [] = []"
| "typed_later (Key c # r) = typed_later r"
| "typed_later (Key_pause # r) = r"
| "typed_later (Key_eof # r) = r"

definition clear_input_buffer :: "console \<Rightarrow> console" where
  "clear_input_buffer co = co\<lparr>co_keys := typed_later (co_keys co), co_eof := False\<rparr>"

section \<open>Prompts\<close>

text \<open>The splash screen waits for a key.\<close>

definition ui_show_splash_screen :: "console \<Rightarrow> console option" where
  "ui_show_splash_screen co =
     (case getchar (say Ui_splash_screen co) of
        None \<Rightarrow> None
      | Some (c, co) \<Rightarrow> Some (say Ui_splash_clear (clear_input_buffer co)))"

definition ui_show_auth_menu :: "console \<Rightarrow> (int \<times> console) option" where
  "ui_show_auth_menu co =
     (case fgets 10 (say Ui_auth_menu co) of
        None \<Rightarrow> None
      | Some (None, co) \<Rightarrow> Some (3, co)
      | Some (Some choice, co) \<Rightarrow>
          (let choice = chomp choice
           in if choice = ''1'' then Some (1, co)
              else if choice = ''2'' then Some (2, co)
              else if choice = ''3'' then Some (3, co)
              else Some (- 1, co)))"

definition ui_prompt_username :: "nat \<Rightarrow> console \<Rightarrow> (string option \<times> console) option" where
  "ui_prompt_username bufsize co =
     (case fgets bufsize (say Ui_ask_username co) of
        None \<Rightarrow> None
      | Some (None, co) \<Rightarrow> Some (None, co)
      | Some (Some username, co) \<Rightarrow> Some (Some (chomp username), co))"

lemma next_key_shrinks: "next_key ks = Some (c, r) \<Longrightarrow> length r < length ks"
  by (induction ks rule: next_key.induct) (auto simp: less_Suc_eq)

lemma getchar_shrinks: "getchar co = Some (Some c, co') \<Longrightarrow> length (co_keys co') < length (co_keys co)"
  by (auto simp: getchar_def split: if_splits option.splits dest!: next_key_shrinks)

lemma getchar_keeps: "getchar co = Some (c, co') \<Longrightarrow> length (co_keys co') \<le> length (co_keys co) \<and> co_out co' = co_out co"
  by (auto simp: getchar_def split: if_splits option.splits dest!: next_key_shrinks)

lemma say_keys [simp]: "co_keys (say u co) = co_keys co" "co_eof (say u co) = co_eof co" "co_out (say u co) = co_out co @ [u]"
  by (simp_all add: say_def)

text \<open>The loop that reads a password, with what has been read; \<open>None\<close> inside: the prompt was left with Ctrl-C or at
  the end of the input.\<close>

function password_loop :: "nat \<Rightarrow> string \<Rightarrow> console \<Rightarrow> (string option \<times> console) option" where
  "password_loop bufsize password co =
     (if \<not> length password < bufsize - 1 then Some (Some password, co)
      else case getchar co of
        None \<Rightarrow> None
      | Some (None, co') \<Rightarrow> Some (None, co')
      | Some (Some c, co') \<Rightarrow>
          (if c = LF \<or> c = CHR 0x0D then Some (Some password, co')
           else if c = CHR 0x7F \<or> c = CHR 0x08 then
             (if 0 < length password then password_loop bufsize (butlast password) (say Ui_erase co')
              else password_loop bufsize password co')
           else if c = CHR 0x03 then Some (None, co')
           else if 32 \<le> (of_char c :: nat) \<and> (of_char c :: nat) \<le> 126 then
             password_loop bufsize (password @ [c]) (say Ui_star co')
           else password_loop bufsize password co'))"
  by pat_completeness auto
termination
  by (relation "measure (\<lambda>(bufsize, password, co). length (co_keys co))") (auto dest: getchar_shrinks)

declare password_loop.simps [simp del]

text \<open>\<open>while (getchar() != '\n' && !feof(stdin));\<close>\<close>

function skip_line :: "console \<Rightarrow> console option" where
  "skip_line co =
     (case getchar co of
        None \<Rightarrow> None
      | Some (c, co') \<Rightarrow> if c = Some LF \<or> co_eof co' then Some co' else skip_line co')"
  by pat_completeness auto
termination
proof (relation "measure (\<lambda>co. length (co_keys co))")
  fix co c co' and p :: "char option \<times> console"
  assume "getchar co = Some p" "(c, co') = p" "\<not> (c = Some LF \<or> co_eof co')"
  then show "(co', co) \<in> measure (\<lambda>co. length (co_keys co))"
    by (auto simp: getchar_def split: if_splits option.splits dest!: next_key_shrinks)
qed simp

declare skip_line.simps [simp del]

definition ui_prompt_password :: "nat \<Rightarrow> console \<Rightarrow> (string option \<times> console) option" where
  "ui_prompt_password bufsize co =
     (case password_loop bufsize [] (say Ui_ask_password co) of
        None \<Rightarrow> None
      | Some (None, co) \<Rightarrow>
          (case skip_line (say Ui_newline co) of
             None \<Rightarrow> None
           | Some co \<Rightarrow> Some (None, co\<lparr>co_eof := False\<rparr>))
      | Some (Some password, co) \<Rightarrow> Some (Some password, clear_input_buffer (say Ui_newline co)))"

end
