(* ===== verification/Client_App.thy ===== *)
theory Client_App
  imports Client_Input Commands Net_Utils File_System
begin

text \<open>
  The command-line client, \<open>src/client/client.c\<close>: connecting, authentication, the file commands and the interactive
  loop, over a console, the connection and the client's file system. A function that blocks for good returns \<open>None\<close>.
  A stack buffer is read before or beyond what was written to it, so the handlers take what the stack holds there
  (\<open>stack\<close>). \<open>strerror\<close> is a parameter.
\<close>

section \<open>State\<close>

record app =
  ap_co :: console
  ap_sock :: sock
  ap_fs :: fsys

definition BUFFER_SIZE :: nat where "BUFFER_SIZE = 8192"

definition CMD_BUFFER_SIZE :: nat where "CMD_BUFFER_SIZE = 512"

abbreviation on_co :: "(console \<Rightarrow> console) \<Rightarrow> app \<Rightarrow> app" where
  "on_co f ap \<equiv> ap\<lparr>ap_co := f (ap_co ap)\<rparr>"

definition show_ui :: "ui_call \<Rightarrow> app \<Rightarrow> app" where
  "show_ui u ap = on_co (say u) ap"

section \<open>Connecting\<close>

text \<open>The addresses \<open>getaddrinfo\<close> gives: for each, what \<open>socket\<close> returns and whether \<open>connect\<close> succeeds.\<close>

fun connect_loop :: "(int \<times> bool) list \<Rightarrow> int" where
  "connect_loop [] = - 1"
| "connect_loop ((sockfd, connected) # rp) =
     (if sockfd = - 1 then connect_loop rp else if connected then sockfd else connect_loop rp)"

definition connect_to_server :: "int \<Rightarrow> (int \<times> bool) list \<Rightarrow> int" where
  "connect_to_server s res = (if s \<noteq> 0 then - 1 else connect_loop res)"

section \<open>Messages\<close>

text \<open>One \<open>send\<close>; \<open>recv\<close> of at most \<open>n\<close> bytes.\<close>

definition app_send :: "bytes \<Rightarrow> app \<Rightarrow> ((errno + nat) \<times> app) option" where
  "app_send b ap = map_option (\<lambda>(r, k). (r, ap\<lparr>ap_sock := k\<rparr>)) (send_sys b (ap_sock ap))"

definition app_recv :: "nat \<Rightarrow> app \<Rightarrow> ((errno + bytes) \<times> app) option" where
  "app_recv n ap = map_option (\<lambda>(r, k). (r, ap\<lparr>ap_sock := k\<rparr>)) (recv_sys n (ap_sock ap))"

text \<open>A buffer after \<open>b\<close> was stored in it.\<close>

definition stored :: "bytes \<Rightarrow> bytes \<Rightarrow> bytes" where
  "stored b buf = b @ drop (length b) buf"

definition recv_response :: "bytes \<Rightarrow> nat \<Rightarrow> app \<Rightarrow> (int \<times> bytes \<times> app) option" where
  "recv_response buffer bufsize ap =
     (case app_recv (bufsize - 1) ap of
        None \<Rightarrow> None
      | Some (Inl e, ap) \<Rightarrow> Some (- 1, buffer, ap)
      | Some (Inr b, ap) \<Rightarrow>
          Some (int (length b), if b \<noteq> [] then stored (b @ [NUL]) buffer else buffer, ap))"

section \<open>Authentication\<close>

datatype 'a round = Again | Over 'a

text \<open>A pass of the loop over the menu. The result is the user name.\<close>

definition auth_round :: "bytes \<Rightarrow> app \<Rightarrow> (string option round \<times> app) option" where
  "auth_round response ap =
     (case ui_show_auth_menu (ap_co ap) of
        None \<Rightarrow> None
      | Some (choice, co) \<Rightarrow>
          if choice = 3 \<or> choice < 0 then Some (Over None, ap\<lparr>ap_co := co\<rparr>)
          else case ui_prompt_username 64 co of
            None \<Rightarrow> None
          | Some (None, co) \<Rightarrow> Some (Over None, ap\<lparr>ap_co := co\<rparr>)
          | Some (Some username, co) \<Rightarrow>
              (case ui_prompt_password 256 co of
                 None \<Rightarrow> None
               | Some (None, co) \<Rightarrow> Some (Over None, ap\<lparr>ap_co := co\<rparr>)
               | Some (Some password, co) \<Rightarrow>
                   (let command = fit CMD_BUFFER_SIZE
                          ((if choice = 1 then ''SIGNUP '' else ''LOGIN '') @ username @ '' '' @ password @ [LF])
                    in case app_send command (ap\<lparr>ap_co := co\<rparr>) of
                      None \<Rightarrow> None
                    | Some (_, ap) \<Rightarrow>
                        (case recv_response response BUFFER_SIZE ap of
                           None \<Rightarrow> None
                         | Some (bytes, response, ap) \<Rightarrow>
                             if 0 < bytes then
                               (let success = (strstr ''SIGNUP OK'' (cstr response) \<noteq> None \<or>
                                               strstr ''LOGIN OK'' (cstr response) \<noteq> None);
                                    ap = show_ui (Ui_auth_result success (cstr response)) ap
                                in if success then
                                     (case recv_response response BUFFER_SIZE ap of
                                        None \<Rightarrow> None
                                      | Some (_, _, ap) \<Rightarrow> Some (Over (Some (fit 64 username)), ap))
                                   else Some (Again, ap))
                             else Some (Over None, show_ui (Ui_error ''Connection lost'') ap)))))"

lemma fgets_loop_keys: "fgets_loop k acc co = Some (r, co') \<Longrightarrow> length (co_keys co') \<le> length (co_keys co)"
proof (induction k acc co rule: fgets_loop.induct)
  case (2 k acc co)
  then show ?case
    by (force split: option.splits if_splits dest: getchar_keeps getchar_shrinks)
qed simp

lemma fgets_keys:
  assumes "fgets n co = Some (Some l, co')" "1 < n"
  shows "length (co_keys co') < length (co_keys co)"
proof -
  from assms obtain k where "n - 1 = Suc k" by (cases "n - 1") auto
  with assms show ?thesis
    by (force simp: fgets_def split: option.splits if_splits dest: getchar_shrinks fgets_loop_keys)
qed

lemma prompt_keys:
  "ui_show_auth_menu co = Some (c, co') \<Longrightarrow> c \<noteq> 3 \<Longrightarrow> length (co_keys co') < length (co_keys co)"
  by (auto simp: ui_show_auth_menu_def Let_def split: option.splits if_splits dest!: fgets_keys)

lemma typed_later_keys: "length (typed_later ks) \<le> length ks"
  by (induction ks rule: typed_later.induct) auto

lemma clear_keys: "length (co_keys (clear_input_buffer co)) \<le> length (co_keys co)"
  by (simp add: clear_input_buffer_def typed_later_keys)

lemma username_keys:
  "ui_prompt_username n co = Some (r, co') \<Longrightarrow> length (co_keys co') \<le> length (co_keys co)"
  by (auto simp: ui_prompt_username_def fgets_def split: option.splits dest!: fgets_loop_keys)

lemma password_loop_keys:
  "password_loop n p co = Some (r, co') \<Longrightarrow> length (co_keys co') \<le> length (co_keys co)"
proof (induction n p co rule: password_loop.induct)
  case (1 n p co)
  show ?case
  proof (cases "length p < n - 1")
    case False
    with "1.prems" show ?thesis by (simp add: password_loop.simps)
  next
    case True
    with "1.prems" obtain c co1 where g: "getchar co = Some (c, co1)" by (auto simp: password_loop.simps [of n p co] split: option.splits)
    have le: "length (co_keys co1) \<le> length (co_keys co)" using getchar_keeps [OF g] by simp
    show ?thesis
    proof (cases c)
      case None
      with "1.prems" True g le show ?thesis by (simp add: password_loop.simps [of n p co])
    next
      case (Some x)
      with "1.prems" True g le "1.IH" [OF _ g [unfolded Some] refl refl] show ?thesis
        by (auto simp: password_loop.simps [of n p co] split: if_splits)
    qed
  qed
qed

lemma skip_line_keys: "skip_line co = Some co' \<Longrightarrow> length (co_keys co') \<le> length (co_keys co)"
proof (induction co rule: skip_line.induct)
  case (1 co)
  from "1.prems" obtain c co1 where g: "getchar co = Some (c, co1)" by (auto simp: skip_line.simps [of co] split: option.splits)
  with "1.prems" "1.IH" [OF g refl] getchar_keeps [OF g] show ?case
    by (auto simp: skip_line.simps [of co] split: if_splits)
qed

lemma password_keys:
  assumes "ui_prompt_password n co = Some (r, co')"
  shows "length (co_keys co') \<le> length (co_keys co)"
proof -
  from assms obtain p co1 where p: "password_loop n [] (say Ui_ask_password co) = Some (p, co1)"
    by (auto simp: ui_prompt_password_def split: option.splits)
  note le = password_loop_keys [OF p]
  show ?thesis
  proof (cases p)
    case None
    with assms p obtain co2 where "skip_line (say Ui_newline co1) = Some co2" "co_keys co' = co_keys co2"
      by (auto simp: ui_prompt_password_def split: option.splits)
    with skip_line_keys [OF this(1)] le show ?thesis by simp
  next
    case (Some w)
    with assms p clear_keys [of "say Ui_newline co1"] le show ?thesis by (auto simp: ui_prompt_password_def)
  qed
qed

lemma app_net_keys:
  "app_send b ap = Some (r, ap') \<Longrightarrow> ap_co ap' = ap_co ap \<and> ap_fs ap' = ap_fs ap"
  "app_recv n ap = Some (r', ap') \<Longrightarrow> ap_co ap' = ap_co ap \<and> ap_fs ap' = ap_fs ap"
  "recv_response buf n ap = Some (m, buf', ap') \<Longrightarrow> ap_co ap' = ap_co ap \<and> ap_fs ap' = ap_fs ap"
  by (auto simp: app_send_def app_recv_def recv_response_def split: option.splits sum.splits)

lemma auth_round_shrinks:
  assumes "auth_round response ap = Some (Again, ap')"
  shows "length (co_keys (ap_co ap')) < length (co_keys (ap_co ap))"
  using assms
  by (auto simp: auth_round_def Let_def show_ui_def split: option.splits if_splits
      dest!: prompt_keys username_keys password_keys app_net_keys)

text \<open>The loop runs until it is over: every pass that is followed by another has read a line of the menu.\<close>

function auth_loop :: "bytes \<Rightarrow> app \<Rightarrow> (string option \<times> app) option" where
  "auth_loop response ap =
     (case auth_round response ap of
        None \<Rightarrow> None
      | Some (Over r, ap') \<Rightarrow> Some (r, ap')
      | Some (Again, ap') \<Rightarrow> auth_loop response ap')"
  by pat_completeness auto
termination
  by (relation "measure (\<lambda>(response, ap). length (co_keys (ap_co ap)))") (auto dest: auth_round_shrinks)

declare auth_loop.simps [simp del]

text \<open>\<open>authenticate\<close>: the welcome is read and not shown.\<close>

definition authenticate :: "bytes \<Rightarrow> app \<Rightarrow> (string option \<times> app) option" where
  "authenticate stack ap =
     (case recv_response stack BUFFER_SIZE ap of
        None \<Rightarrow> None
      | Some (bytes, response, ap) \<Rightarrow> auth_loop response ap)"

section \<open>Uploading\<close>

text \<open>The part of a path after its last slash.\<close>

definition path_basename :: "string \<Rightarrow> string" where
  "path_basename filename =
     (if CHR ''/'' \<in> set filename then rev (takeWhile (\<lambda>c. c \<noteq> CHR ''/'') (rev filename)) else filename)"

text \<open>\<open>fread\<close> of the part of a file that was not read yet; a file that is a directory has none.\<close>

definition fread_rest :: "nat \<Rightarrow> bytes \<Rightarrow> fsys \<Rightarrow> bytes \<times> fsys" where
  "fread_rest n rest fs =
     (case io_next fs of
        (Io_ok, fs) \<Rightarrow> (take n rest, fs)
      | (Io_error e, fs) \<Rightarrow> ([], fs)
      | (Io_short k, fs) \<Rightarrow> (take (min k n) rest, fs))"

text \<open>The loop over the file; the result is the number of bytes sent, or \<open>None\<close> inside when a send failed.\<close>

function upload_loop :: "(errno \<Rightarrow> string) \<Rightarrow> int \<Rightarrow> bytes \<Rightarrow> int \<Rightarrow> app \<Rightarrow> (int option \<times> app) option" where
  "upload_loop strerror filesize rest total_sent ap =
     (case fread_rest 4096 rest (ap_fs ap) of
        (buf, fs) \<Rightarrow>
          if buf = [] then Some (Some total_sent, ap\<lparr>ap_fs := fs\<rparr>)
          else case app_send buf (ap\<lparr>ap_fs := fs\<rparr>) of
            None \<Rightarrow> None
          | Some (Inl e, ap) \<Rightarrow>
              (let ap = show_ui (Ui_error (fit 512 (''Error sending file data: '' @ strerror e))) ap
               in Some (None, ap\<lparr>ap_fs := fs_fclose_r (ap_fs ap)\<rparr>))
          | Some (Inr n, ap) \<Rightarrow>
              upload_loop strerror filesize (drop (length buf) rest) (total_sent + int n)
                (show_ui (Ui_upload_progress (total_sent + int n) filesize) ap))"
  by pat_completeness auto
termination
  by (relation "measure (\<lambda>(strerror, filesize, rest, total_sent, ap). length rest)")
    (auto simp: fread_rest_def split: prod.splits io_event.splits)

declare upload_loop.simps [simp del]

text \<open>The size \<open>ftell\<close> reports after the seek to the end, and what is left to read after the seek back.\<close>

definition file_size :: "path \<Rightarrow> fsys \<Rightarrow> int \<times> bytes \<times> fsys" where
  "file_size p fs =
     (let contents = (case file_at fs p of None \<Rightarrow> [] | Some b \<Rightarrow> b);
          (seek_end, fs) = fs_fseek p fs;
          (filesize, fs) = (if seek_end = 0 then fs_ftell_end p fs
                            else case io_next fs of (Io_error e, fs) \<Rightarrow> (- 1, fs) | (_, fs) \<Rightarrow> (0, fs));
          (seek_set, fs) = fs_fseek p fs
      in (filesize, if seek_set = 0 \<or> seek_end \<noteq> 0 then contents else [], fs))"

definition handle_upload :: "(errno \<Rightarrow> string) \<Rightarrow> bytes \<Rightarrow> string \<Rightarrow> app \<Rightarrow> app option" where
  "handle_upload strerror stack filename ap =
     (case fs_fopen_rb filename (ap_fs ap) of
        (Inl e, fs) \<Rightarrow>
          Some (show_ui (Ui_error (fit 512 (''Cannot open file '' @ [CHR 0x27] @ filename @ [CHR 0x27] @ '': '' @ strerror e)))
            (ap\<lparr>ap_fs := fs\<rparr>))
      | (Inr fp, fs) \<Rightarrow>
          (let (filesize, contents, fs) = file_size fp fs;
               basename = path_basename filename;
               ap = show_ui (Ui_upload_start basename filesize) (ap\<lparr>ap_fs := fs\<rparr>);
               cmd = fit CMD_BUFFER_SIZE (''UPLOAD '' @ basename @ '' '' @ show_int filesize @ [LF])
           in case app_send cmd ap of
             None \<Rightarrow> None
           | Some (_, ap) \<Rightarrow>
               (case upload_loop strerror filesize contents 0 (show_ui (Ui_upload_progress 0 filesize) ap) of
                  None \<Rightarrow> None
                | Some (None, ap) \<Rightarrow> Some ap
                | Some (Some total_sent, ap) \<Rightarrow>
                    (case recv_response stack BUFFER_SIZE (ap\<lparr>ap_fs := fs_fclose_r (ap_fs ap)\<rparr>) of
                       None \<Rightarrow> None
                     | Some (bytes, response, ap) \<Rightarrow>
                         (let success = (0 < bytes \<and> strstr ''UPLOAD OK'' (cstr response) \<noteq> None)
                          in Some (on_co clear_input_buffer
                               (show_ui (Ui_upload_result success (cstr response) total_sent) ap)))))))"

section \<open>Downloading\<close>

lemma recv_sys_shrinks:
  "recv_sys n s = Some (Inr b, s') \<Longrightarrow> b \<noteq> [] \<Longrightarrow>
     sum_list (map (\<lambda>e. case e of Rx_data b \<Rightarrow> length b + 1 | _ \<Rightarrow> 1) (rx s')) <
     sum_list (map (\<lambda>e. case e of Rx_data b \<Rightarrow> length b + 1 | _ \<Rightarrow> 1) (rx s))"
  by (auto simp: recv_sys_def split: list.splits rx_event.splits if_splits)

definition rx_left :: "app \<Rightarrow> nat" where
  "rx_left ap = sum_list (map (\<lambda>e. case e of Rx_data b \<Rightarrow> length b + 1 | _ \<Rightarrow> 1) (rx (ap_sock ap)))"

lemma app_recv_shrinks: "app_recv n ap = Some (Inr b, ap') \<Longrightarrow> b \<noteq> [] \<Longrightarrow> rx_left ap' < rx_left ap"
  by (auto simp: app_recv_def rx_left_def dest: recv_sys_shrinks)

text \<open>What follows when the file cannot be created: the answer is read until it looks like a message.\<close>

function drain_response :: "bytes \<Rightarrow> app \<Rightarrow> app option" where
  "drain_response buf ap =
     (case app_recv BUFFER_SIZE ap of
        None \<Rightarrow> None
      | Some (Inl e, ap') \<Rightarrow> Some ap'
      | Some (Inr b, ap') \<Rightarrow>
          (if b = [] then Some ap'
           else if strstr ''DOWNLOAD'' (cstr (stored b buf)) \<noteq> None \<or> strstr ''ERROR'' (cstr (stored b buf)) \<noteq> None
           then Some ap'
           else drain_response (stored b buf) ap'))"
  by pat_completeness auto
termination
  by (relation "measure (\<lambda>(buf, ap). rx_left ap)") (auto dest: app_recv_shrinks)

declare drain_response.simps [simp del]

text \<open>The first of the three markers that the buffer holds, in the order the code looks for them.\<close>

definition end_marker :: "string \<Rightarrow> nat option" where
  "end_marker s =
     (case strstr ([LF] @ ''DOWNLOAD OK'') s of
        Some i \<Rightarrow> Some i
      | None \<Rightarrow> (case strstr ''DOWNLOAD FAILED'' s of
          Some i \<Rightarrow> Some i
        | None \<Rightarrow> strstr ''ERROR'' s))"

text \<open>The loop: the server's message if the end was found, the bytes written to the stream and counted.\<close>

function download_loop :: "bytes \<Rightarrow> bytes \<Rightarrow> int \<Rightarrow> app \<Rightarrow> (string option \<times> bytes \<times> int \<times> app) option" where
  "download_loop buf written total_received ap =
     (case app_recv BUFFER_SIZE ap of
        None \<Rightarrow> None
      | Some (Inl e, ap') \<Rightarrow> Some (None, written, total_received, ap')
      | Some (Inr b, ap') \<Rightarrow>
          (if b = [] then Some (None, written, total_received, ap')
           else case end_marker (cstr (stored b buf)) of
             Some data_len \<Rightarrow>
               (let (out, fs) = (if 0 < data_len
                      then (case fs_fwrite (take data_len (stored b buf)) (ap_fs ap') of (w, err, fs) \<Rightarrow> (w, fs))
                      else ([], ap_fs ap'))
                in Some (Some (drop data_len (cstr (stored b buf))), written @ out, total_received + int data_len,
                     ap'\<lparr>ap_fs := fs\<rparr>))
           | None \<Rightarrow>
               (case fs_fwrite b (ap_fs ap') of
                  (w, err, fs) \<Rightarrow>
                    download_loop (stored b buf) (written @ w) (total_received + int (length b))
                      (show_ui (Ui_download_progress (total_received + int (length b)) 0) (ap'\<lparr>ap_fs := fs\<rparr>)))))"
  by pat_completeness auto
termination
  by (relation "measure (\<lambda>(buf, written, total_received, ap). rx_left ap)")
    (auto simp: rx_left_def show_ui_def dest!: app_recv_shrinks)

declare download_loop.simps [simp del]

definition handle_download :: "(errno \<Rightarrow> string) \<Rightarrow> bytes \<Rightarrow> string \<Rightarrow> app \<Rightarrow> app option" where
  "handle_download strerror stack filename ap =
     (case app_send (fit CMD_BUFFER_SIZE (''DOWNLOAD '' @ filename @ [LF])) ap of
        None \<Rightarrow> None
      | Some (_, ap) \<Rightarrow>
          (let ap = show_ui (Ui_download_start filename) ap
           in case fs_fopen_wb filename (ap_fs ap) of
             (Inl e, fs) \<Rightarrow>
               drain_response stack
                 (show_ui (Ui_error (fit 512 (''Cannot create file '' @ [CHR 0x27] @ filename @ [CHR 0x27] @ '': '' @ strerror e)))
                   (ap\<lparr>ap_fs := fs\<rparr>))
           | (Inr fp, fs) \<Rightarrow>
               (case download_loop stack [] 0 (show_ui (Ui_download_progress 0 0) (ap\<lparr>ap_fs := fs\<rparr>)) of
                  None \<Rightarrow> None
                | Some (server_message, written, total_received, ap) \<Rightarrow>
                    (let ap = ap\<lparr>ap_fs := snd (fs_fclose_w fp written (ap_fs ap))\<rparr>;
                         result = (case server_message of
                             None \<Rightarrow> Ui_download_result False ''Connection closed unexpectedly'' total_received
                           | Some msg \<Rightarrow> Ui_download_result
                               (0 < total_received \<and> strstr ''DOWNLOAD OK'' msg \<noteq> None) msg total_received)
                     in Some (on_co clear_input_buffer (show_ui result ap))))))"

section \<open>The other commands\<close>

definition handle_delete :: "bytes \<Rightarrow> string \<Rightarrow> app \<Rightarrow> app option" where
  "handle_delete stack filename ap =
     (case app_send (fit CMD_BUFFER_SIZE (''DELETE '' @ filename @ [LF])) ap of
        None \<Rightarrow> None
      | Some (_, ap) \<Rightarrow>
          (case recv_response stack BUFFER_SIZE ap of
             None \<Rightarrow> None
           | Some (bytes, response, ap) \<Rightarrow>
               (let success = (0 < bytes \<and> strstr ''DELETE OK'' (cstr response) \<noteq> None)
                in Some (show_ui (Ui_delete_result success filename (cstr response)) ap))))"

definition handle_list :: "bytes \<Rightarrow> app \<Rightarrow> app option" where
  "handle_list stack ap =
     (case app_send (''LIST'' @ [LF]) ap of
        None \<Rightarrow> None
      | Some (_, ap) \<Rightarrow>
          (case recv_response stack BUFFER_SIZE ap of
             None \<Rightarrow> None
           | Some (bytes, response, ap) \<Rightarrow>
               Some (if 0 < bytes then
                       (if strstr ''No files'' (cstr response) \<noteq> None \<or> length (cstr response) < 5
                        then show_ui Ui_file_list_empty (show_ui Ui_file_list_header ap)
                        else show_ui (Ui_raw [LF]) (show_ui (Ui_raw (cstr response)) (show_ui Ui_file_list_header ap)))
                     else ap)))"

section \<open>The interactive session\<close>

text \<open>\<open>sscanf(line, "%63s %255s", command, arg1)\<close> over two empty strings.\<close>

definition scan_command :: "string \<Rightarrow> string \<times> string" where
  "scan_command line =
     (case scan_word 63 line of
        None \<Rightarrow> ('''', '''')
      | Some (command, s) \<Rightarrow>
          (case scan_word 255 (skip_space s) of None \<Rightarrow> (command, '''') | Some (arg1, s) \<Rightarrow> (command, arg1)))"

text \<open>A command that needs an argument.\<close>

definition with_arg :: "string \<Rightarrow> string \<Rightarrow> (string \<Rightarrow> app \<Rightarrow> app option) \<Rightarrow> app \<Rightarrow> app option" where
  "with_arg arg1 usage handler ap = (if length arg1 = 0 then Some (show_ui (Ui_usage_error usage) ap) else handler arg1 ap)"

definition quit_session :: "app \<Rightarrow> app option" where
  "quit_session ap =
     map_option snd (app_send (''QUIT'' @ [LF]) (show_ui (Ui_info ''Sending QUIT command...'') ap))"

text \<open>What one line of input does, and whether the loop goes on.\<close>

definition session_command :: "(errno \<Rightarrow> string) \<Rightarrow> bytes \<Rightarrow> string \<Rightarrow> app \<Rightarrow> (unit round \<times> app) option" where
  "session_command strerror stack line ap =
     (let (command, arg1) = scan_command line; again = map_option (Pair Again)
      in if command = ''help'' then Some (Again, show_ui Ui_help ap)
         else if command = ''upload'' then again (with_arg arg1 ''upload <filename>'' (handle_upload strerror stack) ap)
         else if command = ''download'' then again (with_arg arg1 ''download <filename>'' (handle_download strerror stack) ap)
         else if command = ''delete'' then again (with_arg arg1 ''delete <filename>'' (handle_delete stack) ap)
         else if command = ''list'' then again (handle_list stack ap)
         else if command = ''quit'' \<or> command = ''exit'' then map_option (Pair (Over ())) (quit_session ap)
         else Some (Again, show_ui (Ui_error (fit 512 (''Unknown command: '' @ [CHR 0x27] @ command @ [CHR 0x27] @
           ''. Type '' @ [CHR 0x27] @ ''help'' @ [CHR 0x27] @ '' for available commands.''))) ap))"

definition session_round :: "(errno \<Rightarrow> string) \<Rightarrow> bytes \<Rightarrow> app \<Rightarrow> (unit round \<times> app) option" where
  "session_round strerror stack ap =
     (case fgets CMD_BUFFER_SIZE (say Ui_prompt (ap_co ap)) of
        None \<Rightarrow> None
      | Some (None, co) \<Rightarrow> Some (Over (), ap\<lparr>ap_co := co\<rparr>)
      | Some (Some line, co) \<Rightarrow>
          (let line = chomp line; ap = ap\<lparr>ap_co := co\<rparr>
           in if length line = 0 then Some (Again, ap) else session_command strerror stack line ap))"

lemma show_ui_keys [simp]: "co_keys (ap_co (show_ui u ap)) = co_keys (ap_co ap)" "ap_fs (show_ui u ap) = ap_fs ap"
  "ap_sock (show_ui u ap) = ap_sock ap"
  by (simp_all add: show_ui_def)

lemma upload_loop_keys:
  "upload_loop e n rest t ap = Some (r, ap') \<Longrightarrow> co_keys (ap_co ap') = co_keys (ap_co ap)"
proof (induction e n rest t ap rule: upload_loop.induct)
  case (1 e n rest t ap)
  obtain buf fs where f: "fread_rest 4096 rest (ap_fs ap) = (buf, fs)" by fastforce
  show ?case
  proof (cases "buf = []")
    case True
    with "1.prems" f show ?thesis by (auto simp: upload_loop.simps [of e n rest t ap])
  next
    case False
    with "1.prems" f obtain x ap1 where s: "app_send buf (ap\<lparr>ap_fs := fs\<rparr>) = Some (x, ap1)"
      by (auto simp: upload_loop.simps [of e n rest t ap] split: option.splits)
    have k: "ap_co ap1 = ap_co ap" using app_net_keys(1) [OF s] by simp
    show ?thesis
    proof (cases x)
      case (Inl err)
      with "1.prems" f False s k show ?thesis by (auto simp: upload_loop.simps [of e n rest t ap] Let_def show_ui_def)
    next
      case (Inr m)
      with "1.prems" f False s k "1.IH" [OF f [symmetric] False s [unfolded Inr] refl refl] show ?thesis
        by (auto simp: upload_loop.simps [of e n rest t ap])
    qed
  qed
qed

lemma drain_response_keys: "drain_response buf ap = Some ap' \<Longrightarrow> ap_co ap' = ap_co ap"
proof (induction buf ap rule: drain_response.induct)
  case (1 buf ap)
  then obtain x ap1 where s: "app_recv BUFFER_SIZE ap = Some (x, ap1)"
    by (auto simp: drain_response.simps [of buf ap] split: option.splits)
  have k: "ap_co ap1 = ap_co ap" using app_net_keys(2) [OF s] by simp
  show ?case
  proof (cases x)
    case (Inl e)
    with "1.prems" s k show ?thesis by (simp add: drain_response.simps [of buf ap])
  next
    case (Inr b)
    with "1.prems" s k "1.IH" [OF s [unfolded Inr] refl refl] show ?thesis
      by (auto simp: drain_response.simps [of buf ap] split: if_splits)
  qed
qed

lemma download_loop_keys:
  "download_loop buf w t ap = Some (m, w', t', ap') \<Longrightarrow> co_keys (ap_co ap') = co_keys (ap_co ap)"
proof (induction buf w t ap rule: download_loop.induct)
  case (1 buf w t ap)
  then obtain x ap1 where s: "app_recv BUFFER_SIZE ap = Some (x, ap1)"
    by (auto simp: download_loop.simps [of buf w t ap] split: option.splits)
  have k: "ap_co ap1 = ap_co ap" using app_net_keys(2) [OF s] by simp
  show ?case
  proof (cases x)
    case (Inl e)
    with "1.prems" s k show ?thesis by (simp add: download_loop.simps [of buf w t ap])
  next
    case (Inr b)
    show ?thesis
    proof (cases "b = [] \<or> end_marker (cstr (stored b buf)) \<noteq> None")
      case True
      with "1.prems" s k Inr show ?thesis
        by (auto simp: download_loop.simps [of buf w t ap] Let_def split: if_splits prod.splits option.splits)
    next
      case False
      obtain v e fs where f: "fs_fwrite b (ap_fs ap1) = (v, e, fs)" by (metis prod_cases3)
      from False "1.prems" s k Inr f "1.IH" [OF s [unfolded Inr] refl refl] show ?thesis
        by (auto simp: download_loop.simps [of buf w t ap])
    qed
  qed
qed

lemma clear_ui_keys:
  "co_keys (ap_co ap') = co_keys (ap_co ap) \<Longrightarrow>
     length (co_keys (clear_input_buffer (ap_co (show_ui u ap')))) \<le> length (co_keys (ap_co ap))"
  using clear_keys [of "ap_co (show_ui u ap')"] by simp

lemma handle_upload_keys:
  assumes "handle_upload e stack f ap = Some ap'"
  shows "length (co_keys (ap_co ap')) \<le> length (co_keys (ap_co ap))"
proof -
  obtain o' fs where o: "fs_fopen_rb f (ap_fs ap) = (o', fs)" by fastforce
  show ?thesis
  proof (cases o')
    case (Inl x)
    with assms o show ?thesis by (auto simp: handle_upload_def)
  next
    case (Inr fp)
    obtain n c fs' where "file_size fp fs = (n, c, fs')" by (metis prod_cases3)
    with assms o Inr show ?thesis
      by (auto simp: handle_upload_def Let_def split: option.splits
          dest!: app_net_keys upload_loop_keys intro!: clear_ui_keys)
  qed
qed

lemma handle_download_keys:
  assumes "handle_download e stack f ap = Some ap'"
  shows "length (co_keys (ap_co ap')) \<le> length (co_keys (ap_co ap))"
proof -
  from assms obtain x ap1 where s: "app_send (fit CMD_BUFFER_SIZE (''DOWNLOAD '' @ f @ [LF])) ap = Some (x, ap1)"
    by (auto simp: handle_download_def split: option.splits)
  have k: "ap_co ap1 = ap_co ap" using app_net_keys(1) [OF s] by simp
  obtain o' fs where o: "fs_fopen_wb f (ap_fs ap1) = (o', fs)" by fastforce
  show ?thesis
  proof (cases o')
    case (Inl y)
    with assms s k o show ?thesis
      by (auto simp: handle_download_def show_ui_def dest!: drain_response_keys)
  next
    case (Inr fp)
    with assms s k o show ?thesis
      by (auto simp: handle_download_def Let_def split: option.splits
          dest!: download_loop_keys intro!: clear_ui_keys)
  qed
qed

lemma handle_delete_keys: "handle_delete stack f ap = Some ap' \<Longrightarrow> co_keys (ap_co ap') = co_keys (ap_co ap)"
  by (auto simp: handle_delete_def Let_def split: option.splits dest!: app_net_keys)

lemma handle_list_keys: "handle_list stack ap = Some ap' \<Longrightarrow> co_keys (ap_co ap') = co_keys (ap_co ap)"
  by (auto simp: handle_list_def split: option.splits if_splits dest!: app_net_keys)

lemmas handler_keys = handle_upload_keys handle_download_keys handle_delete_keys handle_list_keys

lemma with_arg_keys:
  "with_arg a usage h ap = Some ap' \<Longrightarrow> (\<And>a ap ap'. h a ap = Some ap' \<Longrightarrow> length (co_keys (ap_co ap')) \<le> length (co_keys (ap_co ap))) \<Longrightarrow>
     length (co_keys (ap_co ap')) \<le> length (co_keys (ap_co ap))"
  by (auto simp: with_arg_def split: if_splits)

lemma session_command_keys:
  assumes "session_command e stack line ap = Some (Again, ap')"
  shows "length (co_keys (ap_co ap')) \<le> length (co_keys (ap_co ap))"
proof -
  have w: "with_arg a u (handle_upload e stack) ap = Some ap' \<Longrightarrow> length (co_keys (ap_co ap')) \<le> length (co_keys (ap_co ap))"
    "with_arg a u (handle_download e stack) ap = Some ap' \<Longrightarrow> length (co_keys (ap_co ap')) \<le> length (co_keys (ap_co ap))"
    "with_arg a u (handle_delete stack) ap = Some ap' \<Longrightarrow> length (co_keys (ap_co ap')) \<le> length (co_keys (ap_co ap))" for a u
    by (erule with_arg_keys, simp add: handler_keys)+
  from assms show ?thesis
    by (auto simp: session_command_def Let_def split: prod.splits if_splits dest: w handle_list_keys)
qed

lemma session_round_shrinks:
  assumes "session_round e stack ap = Some (Again, ap')"
  shows "length (co_keys (ap_co ap')) < length (co_keys (ap_co ap))"
proof -
  from assms obtain line co where l: "fgets CMD_BUFFER_SIZE (say Ui_prompt (ap_co ap)) = Some (Some line, co)"
    by (auto simp: session_round_def split: option.splits)
  have "length (co_keys co) < length (co_keys (ap_co ap))" using fgets_keys [OF l] by (simp add: CMD_BUFFER_SIZE_def)
  moreover have "length (co_keys (ap_co ap')) \<le> length (co_keys co)"
    using assms l session_command_keys [of e stack "chomp line" "ap\<lparr>ap_co := co\<rparr>" ap']
    by (auto simp: session_round_def Let_def split: if_splits)
  ultimately show ?thesis by simp
qed

text \<open>Every pass reads a line, so the session ends when the input does.\<close>

function session_loop :: "(errno \<Rightarrow> string) \<Rightarrow> bytes \<Rightarrow> app \<Rightarrow> app option" where
  "session_loop strerror stack ap =
     (case session_round strerror stack ap of
        None \<Rightarrow> None
      | Some (Over r, ap') \<Rightarrow> Some ap'
      | Some (Again, ap') \<Rightarrow> session_loop strerror stack ap')"
  by pat_completeness auto
termination
  by (relation "measure (\<lambda>(strerror, stack, ap). length (co_keys (ap_co ap)))") (auto dest: session_round_shrinks)

declare session_loop.simps [simp del]

definition interactive_session :: "(errno \<Rightarrow> string) \<Rightarrow> bytes \<Rightarrow> string \<Rightarrow> app \<Rightarrow> app option" where
  "interactive_session strerror stack username ap =
     map_option (show_ui Ui_session_end) (session_loop strerror stack (show_ui (Ui_session_header username) ap))"

section \<open>The program\<close>

text \<open>\<open>main\<close> with its arguments, what \<open>getaddrinfo\<close> and the connection attempts return, and the exit code.\<close>

definition client_main :: "(errno \<Rightarrow> string) \<Rightarrow> bytes \<Rightarrow> string list \<Rightarrow> int \<Rightarrow> (int \<times> bool) list \<Rightarrow> app \<Rightarrow> (int \<times> app) option" where
  "client_main strerror stack args s res ap =
     (case args of
        host # port # _ \<Rightarrow>
          (case ui_show_splash_screen (ap_co ap) of
             None \<Rightarrow> None
           | Some co \<Rightarrow>
               (let ap = show_ui (Ui_connecting host port) (show_ui Ui_banner (ap\<lparr>ap_co := co\<rparr>))
                in if connect_to_server s res < 0
                   then Some (1, show_ui (Ui_connection_error ''Unable to connect'') ap)
                   else case authenticate stack (show_ui Ui_connected ap) of
                     None \<Rightarrow> None
                   | Some (None, ap) \<Rightarrow> Some (1, show_ui Ui_goodbye ap)
                   | Some (Some username, ap) \<Rightarrow>
                       map_option (\<lambda>ap. (0, show_ui Ui_goodbye ap)) (interactive_session strerror stack username ap)))
      | _ \<Rightarrow> Some (1, ap))"

end
