(* ===== verification/Client_App_Props.thy ===== *)
theory Client_App_Props
  imports Client_App
begin

text \<open>
  The client's side of the protocol: what is typed is what is sent, what is sent is what the server reads, and
  what the server answers is what is saved.
\<close>

section \<open>The password prompt\<close>

text \<open>The effect of a key on the password typed so far.\<close>

definition type_key :: "string \<Rightarrow> char \<Rightarrow> string" where
  "type_key password c =
     (if c = CHR 0x7F \<or> c = CHR 0x08 then butlast password
      else if 32 \<le> (of_char c :: nat) \<and> (of_char c :: nat) \<le> 126 then password @ [c]
      else password)"

definition ends_prompt :: "char \<Rightarrow> bool" where
  "ends_prompt c \<longleftrightarrow> c = LF \<or> c = CHR 0x0D \<or> c = CHR 0x03"

lemma length_type_key: "length (type_key p c) \<le> Suc (length p)"
  by (auto simp: type_key_def)

lemma getchar_Key: "\<not> co_eof co \<Longrightarrow> co_keys co = Key c # ks \<Longrightarrow> getchar co = Some (Some c, co\<lparr>co_keys := ks\<rparr>)"
  by (simp add: getchar_def)

lemma password_loop_key:
  assumes "length p < n - 1" "\<not> co_eof co" "co_keys co = Key c # ks" "\<not> ends_prompt c"
  shows "\<exists>out. password_loop n p co = password_loop n (type_key p c) (co\<lparr>co_keys := ks, co_out := out\<rparr>)"
proof -
  let ?co = "co\<lparr>co_keys := ks\<rparr>"
  have L: "password_loop n p co =
      (if c = CHR 0x7F \<or> c = CHR 0x08 then password_loop n (butlast p) (if p = [] then ?co else say Ui_erase ?co)
       else if 32 \<le> (of_char c :: nat) \<and> (of_char c :: nat) \<le> 126 then password_loop n (p @ [c]) (say Ui_star ?co)
       else password_loop n p ?co)"
    by (subst password_loop.simps) (use assms getchar_Key [OF assms(2,3)] in \<open>simp add: ends_prompt_def\<close>)
  have e: "?co = ?co\<lparr>co_out := co_out co\<rparr>" "say u ?co = ?co\<lparr>co_out := co_out co @ [u]\<rparr>" for u
    by (simp_all add: say_def)
  have W: "\<exists>out. password_loop n q ?co = password_loop n q (?co\<lparr>co_out := out\<rparr>)"
    "\<exists>out. password_loop n q (say u ?co) = password_loop n q (?co\<lparr>co_out := out\<rparr>)" for q u
    by (rule exI [of _ "co_out co"], simp) (rule exI [of _ "co_out co @ [u]"], simp only: e(2))
  show ?thesis unfolding L type_key_def using W by (auto split: if_splits)
qed

text \<open>The characters that are typed, with or without pauses between them.\<close>

fun typed :: "key list \<Rightarrow> string" where
  "typed [] = []"
| "typed (Key c # ks) = c # typed ks"
| "typed (k # ks) = typed ks"

lemma getchar_pause: "\<not> co_eof co \<Longrightarrow> co_keys co = Key_pause # ks \<Longrightarrow> getchar co = getchar (co\<lparr>co_keys := ks\<rparr>)"
  by (cases co) (auto simp: getchar_def split: option.split)

lemma password_loop_pause:
  assumes "length p < n - 1" "\<not> co_eof co" "co_keys co = Key_pause # ks"
  shows "password_loop n p co = password_loop n p (co\<lparr>co_keys := ks\<rparr>)"
proof -
  have "getchar co = getchar (co\<lparr>co_keys := ks\<rparr>)" using assms(2,3) by (rule getchar_pause)
  with assms(1) show ?thesis
    by (subst (1 2) password_loop.simps) (simp only: simp_thms if_False)
qed

lemma room_later:
  assumes "\<forall>m \<le> length (c # cs). length (foldl type_key p (take m (c # cs))) < n"
  shows "\<forall>m \<le> length cs. length (foldl type_key (type_key p c) (take m cs)) < n"
proof (intro allI impI)
  fix m assume "m \<le> length cs"
  with assms [rule_format, of "Suc m"] show "length (foldl type_key (type_key p c) (take m cs)) < n" by simp
qed

lemma password_loop_edits:
  assumes "\<forall>m \<le> length (typed ks). length (foldl type_key p (take m (typed ks))) < n - 1"
    and "\<not> co_eof co" "co_keys co = ks @ r" "Key_eof \<notin> set ks" "\<forall>c \<in> set (typed ks). \<not> ends_prompt c"
  shows "\<exists>out. password_loop n p co = password_loop n (foldl type_key p (typed ks)) (co\<lparr>co_keys := r, co_out := out\<rparr>)"
  using assms
proof (induction ks arbitrary: p co)
  case Nil
  then have "co\<lparr>co_keys := r, co_out := co_out co\<rparr> = co" by (cases co) simp
  then show ?case by (metis foldl_Nil typed.simps(1))
next
  case (Cons k ks)
  from Cons.prems(1) [rule_format, of 0] have room: "length p < n - 1" by simp
  show ?case
  proof (cases k)
    case (Key c)
    have "co_keys co = Key c # ks @ r" "\<not> ends_prompt c" using Cons.prems Key by auto
    from password_loop_key [OF room Cons.prems(2) this] obtain out where
      out: "password_loop n p co = password_loop n (type_key p c) (co\<lparr>co_keys := ks @ r, co_out := out\<rparr>)" ..
    have "\<forall>m \<le> length (typed ks). length (foldl type_key (type_key p c) (take m (typed ks))) < n - 1"
      by (rule room_later) (use Cons.prems(1) Key in simp)
    from Cons.IH [OF this, of "co\<lparr>co_keys := ks @ r, co_out := out\<rparr>"] Cons.prems out Key show ?thesis by auto
  next
    case Key_pause
    with password_loop_pause [OF room Cons.prems(2)] Cons.prems(3)
    have "password_loop n p co = password_loop n p (co\<lparr>co_keys := ks @ r\<rparr>)" by simp
    with Cons.IH [of p "co\<lparr>co_keys := ks @ r\<rparr>"] Cons.prems Key_pause show ?thesis by auto
  qed (use Cons.prems in simp)
qed

lemma skip_line_typed:
  assumes "\<not> co_eof co" "co_keys co = ks @ Key LF # r" "Key_eof \<notin> set ks" "LF \<notin> set (typed ks)"
  shows "skip_line co = Some (co\<lparr>co_keys := r\<rparr>)"
  using assms
proof (induction ks arbitrary: co)
  case Nil
  then show ?case by (simp add: skip_line.simps [of co] getchar_def)
next
  case (Cons k ks)
  show ?case
  proof (cases k)
    case (Key c)
    with Cons.prems have "getchar co = Some (Some c, co\<lparr>co_keys := ks @ Key LF # r\<rparr>)" "c \<noteq> LF" by (auto simp: getchar_def)
    with Cons.IH [of "co\<lparr>co_keys := ks @ Key LF # r\<rparr>"] Cons.prems Key show ?thesis
      by (simp add: skip_line.simps [of co])
  next
    case Key_pause
    with Cons.prems have "getchar co = getchar (co\<lparr>co_keys := ks @ Key LF # r\<rparr>)" by (intro getchar_pause) simp_all
    then have "skip_line co = skip_line (co\<lparr>co_keys := ks @ Key LF # r\<rparr>)" by (subst (1 2) skip_line.simps) (simp only:)
    with Cons.IH [of "co\<lparr>co_keys := ks @ Key LF # r\<rparr>"] Cons.prems Key_pause show ?thesis by simp
  qed (use Cons.prems in simp)
qed

text \<open>C35: the password prompt is a line editor with three ends. Let the user type \<open>ks\<close>, with pauses or without, and then the
  key \<open>e\<close>; let none of \<open>ks\<close> be Enter (line feed or carriage return) or Ctrl-C (the character 3), let the input not end, and
  let the password, after every key of \<open>ks\<close>, be shorter than the buffer allows. With \<open>p\<close> the result of applying the keys
  one after the other, erase keys included: if \<open>e\<close> is Enter, the password is \<open>p\<close>; if \<open>e\<close> is another key that fills the
  buffer, the prompt ends without Enter with the password \<open>p\<close> and that key; in both cases what was typed ahead is dropped.
  If \<open>e\<close> is Ctrl-C, there is no password, and what follows it up to the next line feed is dropped.\<close>

theorem password_prompt_edits:
  assumes "\<not> co_eof co" "co_keys co = ks @ Key e # r" "Key_eof \<notin> set ks" "\<forall>c \<in> set (typed ks). \<not> ends_prompt c"
    and "\<forall>m \<le> length (typed ks). length (foldl type_key [] (take m (typed ks))) < n - 1"
  defines "p \<equiv> foldl type_key [] (typed ks)"
  shows "(e = LF \<or> e = CHR 0x0D \<longrightarrow>
      (\<exists>co'. ui_prompt_password n co = Some (Some p, co') \<and> co_keys co' = typed_later r)) \<and>
    (\<not> ends_prompt e \<and> length (type_key p e) = n - 1 \<longrightarrow>
      (\<exists>co'. ui_prompt_password n co = Some (Some (type_key p e), co') \<and> co_keys co' = typed_later r)) \<and>
    (\<forall>ls r'. e = CHR 0x03 \<and> r = ls @ Key LF # r' \<and> Key_eof \<notin> set ls \<and> LF \<notin> set (typed ls) \<longrightarrow>
      (\<exists>co'. ui_prompt_password n co = Some (None, co') \<and> co_keys co' = r'))"
proof -
  let ?co = "say Ui_ask_password co"
  obtain out where L: "password_loop n [] ?co = password_loop n p (?co\<lparr>co_keys := Key e # r, co_out := out\<rparr>)"
    using password_loop_edits [of ks "[]" n ?co "Key e # r"] assms by auto
  let ?at = "?co\<lparr>co_keys := Key e # r, co_out := out\<rparr>"
  have room: "length p < n - 1" using assms(5) [rule_format, of "length (typed ks)"] by (simp add: p_def)
  have g: "getchar ?at = Some (Some e, ?at\<lparr>co_keys := r\<rparr>)" using assms(1) by (simp add: getchar_def)
  have enter: "ui_prompt_password n co = Some (Some p, clear_input_buffer (say Ui_newline (?at\<lparr>co_keys := r\<rparr>)))"
    if "e = LF \<or> e = CHR 0x0D"
    unfolding ui_prompt_password_def L using room g that by (simp add: password_loop.simps [of n p ?at])
  have fill: "\<exists>out. ui_prompt_password n co = Some (Some (type_key p e), clear_input_buffer (say Ui_newline (?at\<lparr>co_keys := r, co_out := out\<rparr>)))"
    if "\<not> ends_prompt e" "length (type_key p e) = n - 1"
  proof -
    have "\<exists>out. password_loop n p ?at = password_loop n (type_key p e) (?at\<lparr>co_keys := r, co_out := out\<rparr>)"
      by (rule password_loop_key [OF room _ _ that(1)]) (use assms(1) in simp_all)
    then obtain out where "password_loop n p ?at = password_loop n (type_key p e) (?at\<lparr>co_keys := r, co_out := out\<rparr>)" ..
    with that(2) show ?thesis unfolding ui_prompt_password_def L by (auto simp: password_loop.simps [of n "type_key p e"])
  qed
  have cancel: "ui_prompt_password n co = Some (None, (say Ui_newline (?at\<lparr>co_keys := r\<rparr>))\<lparr>co_keys := r', co_eof := False\<rparr>)"
    if "e = CHR 0x03" "r = ls @ Key LF # r'" "Key_eof \<notin> set ls" "LF \<notin> set (typed ls)" for ls r'
  proof -
    have "password_loop n p ?at = Some (None, ?at\<lparr>co_keys := r\<rparr>)" by (subst password_loop.simps) (use room g that(1) in simp)
    moreover have "skip_line (say Ui_newline (?at\<lparr>co_keys := r\<rparr>)) = Some ((say Ui_newline (?at\<lparr>co_keys := r\<rparr>))\<lparr>co_keys := r'\<rparr>)"
      by (rule skip_line_typed [OF _ _ that(3,4)]) (use assms(1) that(2) in simp_all)
    ultimately show ?thesis unfolding ui_prompt_password_def L by simp
  qed
  show ?thesis
  proof (intro conjI impI allI)
    show "\<exists>co'. ui_prompt_password n co = Some (Some p, co') \<and> co_keys co' = typed_later r" if "e = LF \<or> e = CHR 0x0D"
      using enter [OF that] by (simp add: clear_input_buffer_def)
    show "\<exists>co'. ui_prompt_password n co = Some (Some (type_key p e), co') \<and> co_keys co' = typed_later r"
      if "\<not> ends_prompt e \<and> length (type_key p e) = n - 1"
      using fill that by (auto simp: clear_input_buffer_def)
    show "\<exists>co'. ui_prompt_password n co = Some (None, co') \<and> co_keys co' = r'"
      if "e = CHR 0x03 \<and> r = ls @ Key LF # r' \<and> Key_eof \<notin> set ls \<and> LF \<notin> set (typed ls)" for ls r'
      using cancel [of ls r'] that by simp
  qed
qed

lemma few_prefixes: "(\<forall>m \<le> Suc n. P m) \<longleftrightarrow> P 0 \<and> (\<forall>m \<le> n. P (Suc m))"
  by (metis Suc_le_mono le0 not0_implies_Suc)

lemma password_prompt_edits_witness:
  "(\<exists>co'. ui_prompt_password 256 \<lparr>co_keys = map Key (''pq'' @ [CHR 0x7F] @ ''w'') @ Key LF # [Key CHR ''x''], co_eof = False, co_out = []\<rparr>
     = Some (Some ''pw'', co') \<and> co_keys co' = []) \<and>
   (\<exists>co'. ui_prompt_password 3 \<lparr>co_keys = [Key CHR ''p'', Key_pause] @ Key CHR ''w'' # [Key CHR 0x7F], co_eof = False, co_out = []\<rparr>
     = Some (Some ''pw'', co') \<and> co_keys co' = []) \<and>
   (\<exists>co'. ui_prompt_password 256 \<lparr>co_keys = [Key CHR ''p''] @ Key CHR 0x03 # [Key CHR ''x''] @ Key LF # [Key CHR ''1''], co_eof = False, co_out = []\<rparr>
     = Some (None, co') \<and> co_keys co' = [Key CHR ''1''])"
proof -
  let ?co = "\<lambda>ks. \<lparr>co_keys = ks, co_eof = False, co_out = []\<rparr>"
  note p = password_prompt_edits [of "?co (ks @ Key e # r)" ks e r for ks e r, simplified console.simps]
  let ?cs = "''pq'' @ [CHR 0x7F] @ ''w''"
  have 1: "\<exists>co'. ui_prompt_password 256 (?co (map Key ?cs @ Key LF # [Key CHR ''x''])) = Some (Some ''pw'', co') \<and> co_keys co' = []"
    using p [of "map Key ?cs" LF "[Key CHR ''x'']" 256] by (simp add: ends_prompt_def type_key_def few_prefixes)
  have 2: "\<exists>co'. ui_prompt_password 3 (?co ([Key CHR ''p'', Key_pause] @ Key CHR ''w'' # [Key CHR 0x7F])) = Some (Some ''pw'', co') \<and> co_keys co' = []"
    using p [of "[Key CHR ''p'', Key_pause]" "CHR ''w''" "[Key CHR 0x7F]" 3] by (simp add: ends_prompt_def type_key_def few_prefixes)
  have "\<forall>ls r'. CHR 0x03 = CHR 0x03 \<and> [Key CHR ''x''] @ Key LF # [Key CHR ''1''] = ls @ Key LF # r' \<and> Key_eof \<notin> set ls \<and> LF \<notin> set (typed ls) \<longrightarrow>
      (\<exists>co'. ui_prompt_password 256 (?co ([Key CHR ''p''] @ Key CHR 0x03 # [Key CHR ''x''] @ Key LF # [Key CHR ''1''])) = Some (None, co') \<and> co_keys co' = r')"
    using p [of "[Key CHR ''p'']" "CHR 0x03" "[Key CHR ''x''] @ Key LF # [Key CHR ''1'']" 256]
    by (simp add: ends_prompt_def type_key_def few_prefixes)
  from this [rule_format, of "[Key CHR ''x'']" "[Key CHR ''1'']"]
  have 3: "\<exists>co'. ui_prompt_password 256 (?co ([Key CHR ''p''] @ Key CHR 0x03 # [Key CHR ''x''] @ Key LF # [Key CHR ''1''])) = Some (None, co') \<and>
      co_keys co' = [Key CHR ''1'']" by simp
  from 1 2 3 show ?thesis by blast
qed

section \<open>Uploads\<close>

text \<open>A connection that takes the next \<open>n\<close> messages whole.\<close>

definition takes_all :: "nat \<Rightarrow> sock \<Rightarrow> bool" where
  "takes_all n s \<longleftrightarrow> n \<le> length (tx s) \<and> (\<forall>i < n. \<exists>k \<ge> 4096. tx s ! i = Tx_room k)"

lemma takes_all_send:
  assumes "takes_all (Suc n) (ap_sock ap)" "length b \<le> 4096"
  obtains ap' where "app_send b ap = Some (Inr (length b), ap')" "takes_all n (ap_sock ap')"
    "sent (ap_sock ap') = sent (ap_sock ap) @ b" "rx (ap_sock ap') = rx (ap_sock ap)" "ap_co ap' = ap_co ap" "ap_fs ap' = ap_fs ap"
proof -
  from assms(1) obtain k r where t: "tx (ap_sock ap) = Tx_room k # r" "4096 \<le> k"
    by (cases "tx (ap_sock ap)") (auto simp: takes_all_def)
  moreover have "\<exists>k \<ge> 4096. r ! i = Tx_room k" if "i < n" for i
    using assms(1) t(1) that by (auto simp: takes_all_def dest!: spec [of _ "Suc i"])
  ultimately show thesis
    using assms by (intro that [of "ap\<lparr>ap_sock := (ap_sock ap)\<lparr>tx := r, sent := sent (ap_sock ap) @ b\<rparr>\<rparr>"])
      (auto simp: app_send_def send_sys_def takes_all_def)
qed

lemma takes_all_le: "takes_all n s \<Longrightarrow> m \<le> n \<Longrightarrow> takes_all m s"
  by (auto simp: takes_all_def)

lemma fread_rest_script: "fs_script fs = [] \<Longrightarrow> fread_rest n rest fs = (take n rest, fs)"
  by (simp add: fread_rest_def io_next_def)

lemma upload_loop_sends:
  assumes "takes_all (length rest) (ap_sock ap)" "fs_script (ap_fs ap) = []"
  shows "\<exists>ap'. upload_loop e n rest t ap = Some (Some (t + int (length rest)), ap') \<and>
    sent (ap_sock ap') = sent (ap_sock ap) @ rest \<and> rx (ap_sock ap') = rx (ap_sock ap) \<and> ap_fs ap' = ap_fs ap"
  using assms
proof (induction e n rest t ap rule: upload_loop.induct)
  case (1 e n rest t ap)
  have f: "fread_rest 4096 rest (ap_fs ap) = (take 4096 rest, ap_fs ap)" using "1.prems"(2) by (rule fread_rest_script)
  have same: "ap\<lparr>ap_fs := ap_fs ap\<rparr> = ap" by (cases ap) simp
  show ?case
  proof (cases rest)
    case Nil
    with f same show ?thesis by (simp add: upload_loop.simps)
  next
    case (Cons x xs)
    then have ne: "take 4096 rest \<noteq> []" by simp
    have "takes_all (Suc (length xs)) (ap_sock ap)" using "1.prems"(1) Cons by simp
    then obtain ap1 where s: "app_send (take 4096 rest) ap = Some (Inr (length (take 4096 rest)), ap1)"
      "takes_all (length xs) (ap_sock ap1)" "sent (ap_sock ap1) = sent (ap_sock ap) @ take 4096 rest"
      "rx (ap_sock ap1) = rx (ap_sock ap)" "ap_co ap1 = ap_co ap" "ap_fs ap1 = ap_fs ap"
      by (rule takes_all_send [where b = "take 4096 rest"]) simp_all
    have s': "app_send (take 4096 rest) (ap\<lparr>ap_fs := ap_fs ap\<rparr>) = Some (Inr (length (take 4096 rest)), ap1)"
      using s(1) same by simp
    have l: "length (drop (length (take 4096 rest)) rest) \<le> length xs" using Cons by simp
    let ?m = "length (take 4096 rest)"
    let ?ap = "show_ui (Ui_upload_progress (t + int ?m) n) ap1"
    obtain ap' where r: "upload_loop e n (drop ?m rest) (t + int ?m) ?ap =
        Some (Some (t + int ?m + int (length (drop ?m rest))), ap')"
      "sent (ap_sock ap') = sent (ap_sock ?ap) @ drop ?m rest" "rx (ap_sock ap') = rx (ap_sock ?ap)" "ap_fs ap' = ap_fs ?ap"
      using "1.IH" [OF f [symmetric] ne s' refl refl] takes_all_le [OF s(2) l] s "1.prems"(2) by auto
    have "upload_loop e n rest t ap = upload_loop e n (drop ?m rest) (t + int ?m) ?ap"
      by (subst upload_loop.simps) (simp only: f prod.case ne s' option.case sum.case if_False)
    moreover have "t + int ?m + int (length (drop ?m rest)) = t + int (length rest)" by simp
    moreover have "sent (ap_sock ap') = sent (ap_sock ap) @ rest" using r(2) s(3) by (simp add: min_def)
    ultimately show ?thesis using r s by auto
  qed
qed

lemma show_nat_plain: "NUL \<notin> set (show_nat n)" "LF \<notin> set (show_nat n)"
  using show_nat_digits [of n] by (auto simp: is_digit_def)

lemma path_basename_set: "set (path_basename f) \<subseteq> set f"
  by (auto simp: path_basename_def dest: set_takeWhileD)

lemma recv_response_reply:
  assumes "rx (ap_sock ap) = Rx_data reply # r" "reply \<noteq> []" "length reply < n"
  obtains ap' where "recv_response buf n ap = Some (int (length reply), stored (reply @ [NUL]) buf, ap')"
    "ap_fs ap' = ap_fs ap" "ap_co ap' = ap_co ap" "sent (ap_sock ap') = sent (ap_sock ap)" "rx (ap_sock ap') = r"
  using assms by (intro that [of "ap\<lparr>ap_sock := (ap_sock ap)\<lparr>rx := r\<rparr>\<rparr>"])
    (auto simp: recv_response_def app_recv_def recv_sys_def)

definition upload_line :: "string \<Rightarrow> nat \<Rightarrow> string" where
  "upload_line f n = ''UPLOAD '' @ path_basename f @ '' '' @ show_nat n"

text \<open>The line that announces an upload is read by the server's parser.\<close>

lemma upload_line_plain:
  assumes "is_word (path_basename f)" "NUL \<notin> set f"
  shows "NUL \<notin> set (upload_line f n)" "LF \<notin> set (upload_line f n)"
proof -
  have "is_space LF" by simp
  then show "NUL \<notin> set (upload_line f n)" "LF \<notin> set (upload_line f n)"
    using assms show_nat_plain [of n] path_basename_set [of f] by (auto simp: upload_line_def is_word_def)
qed

lemma upload_line_parses:
  assumes "is_word (path_basename f)" "length (path_basename f) \<le> 255" "NUL \<notin> set f" "n < 2 ^ 63"
  shows "parse_file (cstr (upload_line f n @ LF # b)) = Cmd_upload (path_basename f) (of_nat n)"
proof -
  have "cstr (upload_line f n @ LF # b) = upload_line f n @ LF # cstr b" by (rule cstr_line [OF upload_line_plain(1) [OF assms(1,3)]])
  moreover have "is_space LF" "\<not> is_digit LF" by (simp_all add: is_digit_def)
  ultimately show ?thesis
    using parse_upload_line [OF assms(1,2), of n "LF # cstr b"] assms(4) by (simp add: upload_line_def)
qed

lemma handle_upload_answer:
  assumes fs: "fs_script (ap_fs ap) = []" "lookup (ap_fs ap) f = Inr p" "file_at (ap_fs ap) p = Some b" "length b < 2 ^ 63"
    and name: "length (path_basename f) \<le> 255"
    and net: "takes_all (length b + 1) (ap_sock ap)" "rx (ap_sock ap) = Rx_data reply # r" "reply \<noteq> []" "length reply < BUFFER_SIZE"
  shows "\<exists>ap'. handle_upload strerror stack f ap = Some ap' \<and>
    sent (ap_sock ap') = sent (ap_sock ap) @ upload_line f (length b) @ LF # b \<and> rx (ap_sock ap') = r \<and>
    last (co_out (ap_co ap')) = Ui_upload_result (strstr ''UPLOAD OK'' (cstr (stored (reply @ [NUL]) stack)) \<noteq> None)
      (cstr (stored (reply @ [NUL]) stack)) (int (length b))"
proof -
  let ?line = "upload_line f (length b)"
  have "length (show_nat (length b)) \<le> 19" using fs(4) by (intro length_show_nat) auto
  then have fits: "fit CMD_BUFFER_SIZE (''UPLOAD '' @ path_basename f @ '' '' @ show_int (int (length b)) @ [LF]) = ?line @ [LF]"
    and len: "length (?line @ [LF]) \<le> 4096"
    using name by (simp_all add: fit_def CMD_BUFFER_SIZE_def show_int_def upload_line_def)
  have open': "fs_fopen_rb f (ap_fs ap) = (Inr p, ap_fs ap)" "file_size p (ap_fs ap) = (int (length b), b, ap_fs ap)"
    using fs by (simp_all add: fs_fopen_rb_def io_next_def file_size_def fs_fseek_def fs_ftell_end_def)
  have same: "ap\<lparr>ap_fs := ap_fs ap\<rparr> = ap" by (cases ap) simp
  let ?ap = "show_ui (Ui_upload_start (path_basename f) (int (length b))) ap"
  obtain ap1 where s1: "app_send (?line @ [LF]) ?ap = Some (Inr (length (?line @ [LF])), ap1)" "takes_all (length b) (ap_sock ap1)"
    "sent (ap_sock ap1) = sent (ap_sock ap) @ ?line @ [LF]" "rx (ap_sock ap1) = rx (ap_sock ap)" "ap_fs ap1 = ap_fs ap"
    using takes_all_send [OF _ len, of "length b" ?ap] net(1) by auto
  obtain ap2 where s2: "upload_loop strerror (int (length b)) b 0 (show_ui (Ui_upload_progress 0 (int (length b))) ap1) =
      Some (Some (int (length b)), ap2)" "sent (ap_sock ap2) = sent (ap_sock ap1) @ b" "rx (ap_sock ap2) = rx (ap_sock ap)"
    using upload_loop_sends [of b "show_ui (Ui_upload_progress 0 (int (length b))) ap1" strerror "int (length b)" 0] s1 fs(1) by auto
  obtain ap3 where s3: "recv_response stack BUFFER_SIZE (ap2\<lparr>ap_fs := fs_fclose_r (ap_fs ap2)\<rparr>) =
      Some (int (length reply), stored (reply @ [NUL]) stack, ap3)" "sent (ap_sock ap3) = sent (ap_sock ap2)" "rx (ap_sock ap3) = r"
    by (rule recv_response_reply [of "ap2\<lparr>ap_fs := fs_fclose_r (ap_fs ap2)\<rparr>" reply r BUFFER_SIZE stack])
      (use s2(3) net in simp_all)
  have "handle_upload strerror stack f ap = Some (on_co clear_input_buffer (show_ui (Ui_upload_result
      (0 < int (length reply) \<and> strstr ''UPLOAD OK'' (cstr (stored (reply @ [NUL]) stack)) \<noteq> None)
      (cstr (stored (reply @ [NUL]) stack)) (int (length b))) ap3))"
    by (simp only: handle_upload_def open' prod.case sum.case Let_def same fits s1(1) option.case s2(1) s3(1))
  with s1 s2 s3 net(3) show ?thesis by (simp add: clear_input_buffer_def show_ui_def)
qed

text \<open>What the client uploads is what the server reads: with a connection that takes what is sent, an upload sends
  one line that the server's parser reads as the upload of that name and size, and after it exactly the bytes of
  the file.\<close>

theorem client_upload_understood:
  assumes fs: "fs_script (ap_fs ap) = []" "lookup (ap_fs ap) f = Inr p" "file_at (ap_fs ap) p = Some b" "length b < 2 ^ 63"
    and name: "is_word (path_basename f)" "length (path_basename f) \<le> 255" "NUL \<notin> set f"
    and net: "takes_all (length b + 1) (ap_sock ap)" "rx (ap_sock ap) = Rx_data reply # r" "reply \<noteq> []" "length reply < BUFFER_SIZE"
  shows "\<exists>ap'. handle_upload strerror stack f ap = Some ap' \<and>
    sent (ap_sock ap') = sent (ap_sock ap) @ upload_line f (length b) @ LF # b \<and>
    NUL \<notin> set (upload_line f (length b)) \<and> LF \<notin> set (upload_line f (length b)) \<and>
    parse_file (cstr (upload_line f (length b) @ LF # b)) = Cmd_upload (path_basename f) (of_nat (length b)) \<and>
    unat (of_nat (length b) :: u64) = length b"
proof -
  have "unat (of_nat (length b) :: u64) = length b" using fs(4) by (simp add: unat_of_nat)
  with handle_upload_answer [OF fs name(2) net, of strerror stack] upload_line_plain [OF name(1,3)]
    upload_line_parses [OF name fs(4)] show ?thesis by blast
qed

definition upload_app :: app where
  "upload_app = \<lparr>ap_co = \<lparr>co_keys = [], co_eof = False, co_out = []\<rparr>,
     ap_sock = \<lparr>rx = [Rx_data (''UPLOAD OK'' @ [LF])], tx = replicate 8 (Tx_room 5000), sent = ''''\<rparr>,
     ap_fs = \<lparr>fs_cwd = [], fs_files = [([''d'', ''a.txt''], ''hello'')], fs_dirs = [[''d'']], fs_script = []\<rparr>\<rparr>"

lemma client_upload_understood_witness:
  "\<exists>ap'. handle_upload (\<lambda>e. '''') [] ''d/a.txt'' upload_app = Some ap' \<and>
     sent (ap_sock ap') = upload_line ''d/a.txt'' (length ''hello'') @ LF # ''hello'' \<and>
     parse_file (cstr (upload_line ''d/a.txt'' (length ''hello'') @ LF # ''hello'')) = Cmd_upload ''a.txt'' 5"
proof -
  have f: "fs_script (ap_fs upload_app) = []" "lookup (ap_fs upload_app) ''d/a.txt'' = Inr [''d'', ''a.txt'']"
    "file_at (ap_fs upload_app) [''d'', ''a.txt''] = Some ''hello''" "length ''hello'' < 2 ^ 63"
    by (simp_all add: upload_app_def lookup_def file_at_def is_dir_def)
  have b: "path_basename ''d/a.txt'' = ''a.txt''" by (simp add: path_basename_def)
  have n: "is_word (path_basename ''d/a.txt'')" "length (path_basename ''d/a.txt'') \<le> 255" "NUL \<notin> set ''d/a.txt''"
    by (simp_all add: b is_word_def is_space_def)
  have t: "takes_all (length ''hello'' + 1) (ap_sock upload_app)" "rx (ap_sock upload_app) = Rx_data (''UPLOAD OK'' @ [LF]) # []"
    by (simp_all add: upload_app_def takes_all_def)
  have e: "sent (ap_sock upload_app) = ''''" "(''UPLOAD OK'' @ [LF]) \<noteq> []" "length (''UPLOAD OK'' @ [LF]) < BUFFER_SIZE"
    "(of_nat (length ''hello'') :: u64) = 5"
    by (simp_all add: upload_app_def BUFFER_SIZE_def)
  from client_upload_understood [OF f n t e(2,3), of "\<lambda>e. ''''" "[]"] show ?thesis
    unfolding e(1,4) b by auto
qed

section \<open>Downloads\<close>

abbreviation download_ok :: string where
  "download_ok \<equiv> [LF] @ ''DOWNLOAD OK'' @ [LF]"

text \<open>No segment looks like the end, also not with what an earlier one left behind it in the buffer.\<close>

fun no_marker :: "bytes \<Rightarrow> bytes list \<Rightarrow> bool" where
  "no_marker buf [] = True"
| "no_marker buf (s # ss) = (end_marker (cstr (stored s buf)) = None \<and> no_marker (stored s buf) ss)"

lemma fwrite_script: "fs_script fs = [] \<Longrightarrow> fs_fwrite b fs = (b, False, fs)"
  by (simp add: fs_fwrite_def io_next_def)

lemma app_recv_segment:
  assumes "rx (ap_sock ap) = Rx_data b # r" "length b \<le> n"
  shows "app_recv n ap = Some (Inr b, ap\<lparr>ap_sock := (ap_sock ap)\<lparr>rx := r\<rparr>\<rparr>)"
  using assms by (simp add: app_recv_def recv_sys_def)

lemma download_loop_segments:
  assumes "rx (ap_sock ap) = map Rx_data segs @ r" "\<forall>s \<in> set segs. s \<noteq> [] \<and> length s \<le> BUFFER_SIZE"
    and "no_marker buf segs" "fs_script (ap_fs ap) = []"
  shows "\<exists>buf' ap'. download_loop buf w t ap = download_loop buf' (w @ concat segs) (t + int (length (concat segs))) ap' \<and>
    rx (ap_sock ap') = r \<and> sent (ap_sock ap') = sent (ap_sock ap) \<and> ap_fs ap' = ap_fs ap"
  using assms
proof (induction segs arbitrary: buf w t ap)
  case Nil
  then show ?case by auto
next
  case (Cons s segs)
  let ?ap1 = "ap\<lparr>ap_sock := (ap_sock ap)\<lparr>rx := map Rx_data segs @ r\<rparr>\<rparr>"
  let ?ap2 = "show_ui (Ui_download_progress (t + int (length s)) 0) ?ap1"
  have "app_recv BUFFER_SIZE ap = Some (Inr s, ?ap1)" using Cons.prems by (intro app_recv_segment) auto
  moreover have "?ap1\<lparr>ap_fs := ap_fs ?ap1\<rparr> = ?ap1" by (cases ap) simp
  ultimately have "download_loop buf w t ap = download_loop (stored s buf) (w @ s) (t + int (length s)) ?ap2"
    using Cons.prems by (subst download_loop.simps) (simp add: fwrite_script)
  moreover obtain buf' ap' where "download_loop (stored s buf) (w @ s) (t + int (length s)) ?ap2 =
      download_loop buf' ((w @ s) @ concat segs) (t + int (length s) + int (length (concat segs))) ap'"
    "rx (ap_sock ap') = r" "sent (ap_sock ap') = sent (ap_sock ?ap2)" "ap_fs ap' = ap_fs ?ap2"
    using Cons.IH [of ?ap2 "stored s buf" "w @ s" "t + int (length s)"] Cons.prems by auto
  ultimately show ?case by (intro exI [of _ buf'] exI [of _ ap']) (simp add: add.assoc)
qed

lemma end_marker_found:
  assumes "NUL \<notin> set d" "strstr ([LF] @ ''DOWNLOAD OK'') (d @ download_ok) = Some (length d)"
  obtains x where "end_marker (cstr (stored (d @ download_ok) buf)) = Some (length d)"
    "drop (length d) (cstr (stored (d @ download_ok) buf)) = download_ok @ x" "strstr ''DOWNLOAD OK'' (download_ok @ x) \<noteq> None"
proof -
  let ?x = "cstr (drop (length (d @ download_ok)) buf)"
  have c: "cstr (stored (d @ download_ok) buf) = d @ download_ok @ ?x"
  proof -
    have "cstr (a @ b) = a @ cstr b" if "NUL \<notin> set a" for a b
      using that by (induction a) (auto simp: cstr_def)
    from this [of "d @ download_ok"] show ?thesis using assms(1) by (simp add: stored_def)
  qed
  have "strstr ''DOWNLOAD OK'' download_ok \<noteq> None" by code_simp
  then have "strstr ''DOWNLOAD OK'' (download_ok @ ?x) \<noteq> None" using strstr_append by blast
  moreover have "end_marker (d @ download_ok @ ?x) = Some (length d)"
    using strstr_append [OF assms(2), of ?x] by (simp add: end_marker_def)
  ultimately show thesis using c by (intro that [of ?x]) simp_all
qed

lemma download_loop_end:
  assumes "rx (ap_sock ap) = Rx_data (d @ download_ok) # r" "length (d @ download_ok) \<le> BUFFER_SIZE"
    and "NUL \<notin> set d" "strstr ([LF] @ ''DOWNLOAD OK'') (d @ download_ok) = Some (length d)" "fs_script (ap_fs ap) = []"
  obtains msg ap' where "download_loop buf w t ap = Some (Some msg, w @ d, t + int (length d), ap')"
    "ap_fs ap' = ap_fs ap" "ap_sock ap' = (ap_sock ap)\<lparr>rx := r\<rparr>" "strstr ''DOWNLOAD OK'' msg \<noteq> None"
proof -
  obtain x where x: "end_marker (cstr (stored (d @ download_ok) buf)) = Some (length d)"
    "drop (length d) (cstr (stored (d @ download_ok) buf)) = download_ok @ x" "strstr ''DOWNLOAD OK'' (download_ok @ x) \<noteq> None"
    by (rule end_marker_found [OF assms(3,4)])
  let ?ap = "ap\<lparr>ap_sock := (ap_sock ap)\<lparr>rx := r\<rparr>\<rparr>"
  have out: "(if 0 < length d then case fs_fwrite (take (length d) (stored (d @ download_ok) buf)) (ap_fs ?ap) of (w, err, fs) \<Rightarrow> (w, fs)
      else ([], ap_fs ?ap)) = (d, ap_fs ?ap)"
    using fwrite_script [OF assms(5), of d] by (cases d) (simp_all add: stored_def)
  have "download_loop buf w t ap = Some (Some (download_ok @ x), w @ d, t + int (length d), ?ap\<lparr>ap_fs := ap_fs ?ap\<rparr>)"
    by (subst download_loop.simps)
      (simp only: app_recv_segment [OF assms(1,2)] option.case prod.case sum.case append_is_Nil_conv x(1,2) out Let_def list.distinct
        if_False simp_thms)
  from that [OF this _ _ x(3)] show thesis by simp
qed

lemma handle_download_answer:
  assumes net: "tx (ap_sock ap) = Tx_room k # ts" "rx (ap_sock ap) = map Rx_data segs @ Rx_data (d @ download_ok) # r"
    and segs: "\<forall>s \<in> set segs. s \<noteq> [] \<and> length s \<le> BUFFER_SIZE" "length (d @ download_ok) \<le> BUFFER_SIZE" "no_marker stack segs"
    and d: "NUL \<notin> set d" "strstr ([LF] @ ''DOWNLOAD OK'') (d @ download_ok) = Some (length d)"
    and fs: "fs_script (ap_fs ap) = []" "lookup (ap_fs ap) f = Inr p" "\<not> is_dir (ap_fs ap) p"
  shows "\<exists>ap' msg. handle_download strerror stack f ap = Some ap' \<and> file_at (ap_fs ap') p = Some (concat segs @ d) \<and>
    rx (ap_sock ap') = r \<and> sent (ap_sock ap') = sent (ap_sock ap) @ take k (fit CMD_BUFFER_SIZE (''DOWNLOAD '' @ f @ [LF])) \<and>
    last (co_out (ap_co ap')) = Ui_download_result (0 < int (length (concat segs @ d))) msg (int (length (concat segs @ d)))"
proof -
  obtain x ap0 where s0: "app_send (fit CMD_BUFFER_SIZE (''DOWNLOAD '' @ f @ [LF])) ap = Some (x, ap0)"
    "rx (ap_sock ap0) = rx (ap_sock ap)" "ap_fs ap0 = ap_fs ap"
    "sent (ap_sock ap0) = sent (ap_sock ap) @ take k (fit CMD_BUFFER_SIZE (''DOWNLOAD '' @ f @ [LF]))"
    using net(1) by (auto simp: app_send_def send_sys_def)
  let ?start = "show_ui (Ui_download_start f) ap0" let ?fs = "set_file p [] (ap_fs ap)"
  have o: "fs_fopen_wb f (ap_fs ?start) = (Inr p, ?fs)" using fs s0(3) by (simp add: fs_fopen_wb_def io_next_def)
  let ?ap1 = "show_ui (Ui_download_progress 0 0) (?start\<lparr>ap_fs := ?fs\<rparr>)" let ?n = "int (length (concat segs @ d))"
  obtain buf' ap2 where 1: "download_loop stack [] 0 ?ap1 = download_loop buf' (concat segs) (int (length (concat segs))) ap2"
    "rx (ap_sock ap2) = Rx_data (d @ download_ok) # r" "ap_fs ap2 = ?fs" "sent (ap_sock ap2) = sent (ap_sock ap0)"
    using download_loop_segments [of ?ap1 segs "Rx_data (d @ download_ok) # r" stack "[]" 0] net(2) s0 segs fs(1) by auto
  obtain msg ap3 where 2: "download_loop buf' (concat segs) (int (length (concat segs))) ap2 = Some (Some msg, concat segs @ d, ?n, ap3)"
    "ap_fs ap3 = ?fs" "ap_sock ap3 = (ap_sock ap2)\<lparr>rx := r\<rparr>" "strstr ''DOWNLOAD OK'' msg \<noteq> None"
    using download_loop_end [OF 1(2) segs(2) d(1,2), of buf' "concat segs" "int (length (concat segs))"] 1(3) fs(1) by auto
  let ?ap4 = "ap3\<lparr>ap_fs := snd (fs_fclose_w p (concat segs @ d) (ap_fs ap3))\<rparr>"
  have "handle_download strerror stack f ap = Some (on_co clear_input_buffer (show_ui (Ui_download_result (0 < ?n) msg ?n) ?ap4))"
    by (simp only: handle_download_def s0(1) option.case prod.case Let_def o sum.case 1(1) 2(1)) (use 2(4) in simp)
  moreover have "file_at (ap_fs ?ap4) p = Some (concat segs @ d)"
    using fs(1) by (simp add: 2(2) fs_fclose_w_def io_next_def file_at_set_file)
  ultimately show ?thesis using 1(4) 2(3) s0(4) by (auto simp: clear_input_buffer_def show_ui_def)
qed

text \<open>C15: what the server sends is what the client saves. Suppose that no call on the client's files fails, the file can be
  created, the command is sent, and the answer arrives in segments of at most the buffer's size such that no segment before
  the last looks like its end (with what earlier ones left behind it in the buffer), the last has no NUL byte before the final message, and
  the final message is where the end marker occurs in it first. Then the client's file holds exactly the bytes before the
  final message, and their number is reported: as a complete download if there are any, but as a failure if the file is
  empty.\<close>

theorem client_download_saves:
  assumes net: "tx (ap_sock ap) = Tx_room k # ts" "rx (ap_sock ap) = map Rx_data segs @ Rx_data (d @ download_ok) # r"
    and segs: "\<forall>s \<in> set segs. s \<noteq> [] \<and> length s \<le> BUFFER_SIZE" "length (d @ download_ok) \<le> BUFFER_SIZE" "no_marker stack segs"
    and d: "NUL \<notin> set d" "strstr ([LF] @ ''DOWNLOAD OK'') (d @ download_ok) = Some (length d)"
    and fs: "fs_script (ap_fs ap) = []" "lookup (ap_fs ap) f = Inr p" "\<not> is_dir (ap_fs ap) p"
  shows "\<exists>ap' msg. handle_download strerror stack f ap = Some ap' \<and> file_at (ap_fs ap') p = Some (concat segs @ d) \<and>
    last (co_out (ap_co ap')) = Ui_download_result (concat segs @ d \<noteq> []) msg (int (length (concat segs @ d)))"
proof -
  have "0 < int (length (concat segs @ d)) \<longleftrightarrow> concat segs @ d \<noteq> []" by (simp only: of_nat_0_less_iff length_greater_0_conv)
  with handle_download_answer [OF net segs d(1,2) fs, of strerror] show ?thesis by simp blast
qed

text \<open>An answer in two segments.\<close>

definition download_app :: app where
  "download_app = \<lparr>ap_co = \<lparr>co_keys = [], co_eof = False, co_out = []\<rparr>,
     ap_sock = \<lparr>rx = [Rx_data ''some '', Rx_data (''text'' @ download_ok)], tx = [Tx_room 5000], sent = ''''\<rparr>,
     ap_fs = \<lparr>fs_cwd = [], fs_files = [], fs_dirs = [], fs_script = []\<rparr>\<rparr>"

lemma client_download_saves_witness:
  "\<exists>ap'. handle_download (\<lambda>e. '''') (replicate 20 NUL) ''t.txt'' download_app = Some ap' \<and>
     file_at (ap_fs ap') [''t.txt''] = Some ''some text''"
proof -
  have n: "tx (ap_sock download_app) = Tx_room 5000 # []"
    "rx (ap_sock download_app) = map Rx_data [''some ''] @ Rx_data (''text'' @ download_ok) # []"
    by (simp_all add: download_app_def)
  have s: "\<forall>s \<in> set [''some '']. s \<noteq> [] \<and> length s \<le> BUFFER_SIZE" "length (''text'' @ download_ok) \<le> BUFFER_SIZE"
    by (simp_all add: BUFFER_SIZE_def)
  have m: "no_marker (replicate 20 NUL) [''some '']" by code_simp
  have d: "NUL \<notin> set ''text''" "strstr ([LF] @ ''DOWNLOAD OK'') (''text'' @ download_ok) = Some (length ''text'')"
    by (simp, code_simp)
  have f: "fs_script (ap_fs download_app) = []" "lookup (ap_fs download_app) ''t.txt'' = Inr [''t.txt'']"
    "\<not> is_dir (ap_fs download_app) [''t.txt'']"
    by (simp_all add: download_app_def lookup_def is_dir_def)
  from client_download_saves [OF n s m d f, of "\<lambda>e. ''''"] show ?thesis by auto
qed

text \<open>What goes wrong otherwise: a file that contains the word \<open>ERROR\<close> is cut there, an empty file is reported as
  a failure, and a marker after a NUL byte is not found.\<close>

lemma error_in_data: "end_marker (cstr (''log: ERROR 7'' @ download_ok)) = Some 12"
  by code_simp

lemma empty_download_fails:
  assumes "rx (ap_sock ap) = Rx_data download_ok # r" "tx (ap_sock ap) = Tx_room k # ts"
    and "fs_script (ap_fs ap) = []" "lookup (ap_fs ap) f = Inr p" "\<not> is_dir (ap_fs ap) p"
  shows "\<exists>ap' msg. handle_download strerror stack f ap = Some ap' \<and> last (co_out (ap_co ap')) = Ui_download_result False msg 0"
proof -
  have "strstr ([LF] @ ''DOWNLOAD OK'') ([] @ download_ok) = Some (length [])" by code_simp
  with handle_download_answer [of ap k ts "[]" "[]" r stack f p strerror] assms show ?thesis by (auto simp: BUFFER_SIZE_def)
qed

lemma binary_marker_missed: "end_marker (cstr (stored (NUL # d @ download_ok) buf)) = None"
  by (simp add: stored_def cstr_def end_marker_def starts_with_def)

text \<open>The server sends the answer to a login and the menu in two calls. When both arrive in one segment, the client has
  read the menu with the answer and then waits for it for ever.\<close>

lemma menu_with_answer_blocks:
  assumes "ui_show_auth_menu (ap_co ap) = Some (2, co1)" "ui_prompt_username 64 co1 = Some (Some u, co2)"
    and "ui_prompt_password 256 co2 = Some (Some p, co3)" "tx (ap_sock ap) = Tx_room k # ts"
    and "rx (ap_sock ap) = [Rx_data (''LOGIN OK'' @ LF # menu)]" "length menu < 8000"
  shows "auth_round response ap = None"
proof -
  let ?answer = "''LOGIN OK'' @ LF # menu"
  obtain n ap1 where send: "app_send (fit CMD_BUFFER_SIZE (''LOGIN '' @ u @ '' '' @ p @ [LF])) (ap\<lparr>ap_co := co3\<rparr>) = Some (n, ap1)"
    "rx (ap_sock ap1) = [Rx_data ?answer]"
    using assms(4,5) by (simp add: app_send_def send_sys_def)
  obtain ap2 where recv: "recv_response response BUFFER_SIZE ap1 = Some (int (length ?answer), stored (?answer @ [NUL]) response, ap2)"
    "rx (ap_sock ap2) = []"
    using recv_response_reply [of ap1 ?answer "[]" BUFFER_SIZE response] send(2) assms(6) by (auto simp: BUFFER_SIZE_def)
  have found: "strstr ''LOGIN OK'' (cstr (stored (?answer @ [NUL]) response)) \<noteq> None"
    by (simp add: stored_def cstr_def starts_with_def)
  have "recv_response b BUFFER_SIZE (show_ui x ap2) = None" for b x
    using recv(2) by (simp add: recv_response_def app_recv_def recv_sys_def)
  with assms(1-3) send(1) recv(1) found show ?thesis by (simp add: auth_round_def Let_def)
qed

end
