(* ===== verification/End_To_End.thy ===== *)
theory End_To_End
  imports Client_Props Client_App_Props
begin

text \<open>
  The client program and the server together: what the user uploads is the file on the server, and what the user
  downloads is the server's file, with the bytes of both connections accounted for on both sides.
\<close>

section \<open>Answers\<close>







section \<open>Turns of one client and one worker\<close>

lemma chance_ok_touched [simp]: "keeps_id f \<Longrightarrow> chance_ok w c (touched m a f) = chance_ok w c m"
  by (auto simp: chance_ok_def touched_heap window_def)











section \<open>Downloads\<close>





section \<open>Uploads\<close>



section \<open>The client program and the server\<close>













end
