(* ===== verification/Tui.thy ===== *)
theory Tui
  imports Prelude "HOL-Library.State_Monad"
begin

text \<open>
  The terminal library of the client, \<open>src/client/tui.c\<close> and \<open>tui.h\<close>. A terminal is the part of the environment
  the library looks at (\<open>TERM\<close>, \<open>NO_COLOR\<close>, the window size \<open>ioctl\<close> reports), the two static variables of
  \<open>tui.c\<close> and the bytes written so far; a function of the library is a computation in the state monad over it, in
  the order of the calls of \<open>printf\<close>. The POSIX branch of the conditional compilation is modelled. A \<open>double\<close> is a
  non-negative fraction with the rounding of every operation written out.
\<close>

section \<open>Escape sequences\<close>

abbreviation ESC :: char where
  "ESC \<equiv> CHR 0x1B"

abbreviation CR :: char where
  "CR \<equiv> CHR 0x0D"

definition csi :: "string \<Rightarrow> string" where
  "csi s = ESC # CHR ''['' # s"

definition TUI_COLOR_RED :: string where "TUI_COLOR_RED = csi ''31m''"
definition TUI_COLOR_GREEN :: string where "TUI_COLOR_GREEN = csi ''32m''"
definition TUI_COLOR_YELLOW :: string where "TUI_COLOR_YELLOW = csi ''33m''"
definition TUI_COLOR_CYAN :: string where "TUI_COLOR_CYAN = csi ''36m''"
definition TUI_COLOR_WHITE :: string where "TUI_COLOR_WHITE = csi ''37m''"
definition TUI_COLOR_BRIGHT_BLACK :: string where "TUI_COLOR_BRIGHT_BLACK = csi ''90m''"
definition TUI_COLOR_BRIGHT_BLUE :: string where "TUI_COLOR_BRIGHT_BLUE = csi ''94m''"
definition TUI_COLOR_BRIGHT_CYAN :: string where "TUI_COLOR_BRIGHT_CYAN = csi ''96m''"
definition TUI_COLOR_BRIGHT_WHITE :: string where "TUI_COLOR_BRIGHT_WHITE = csi ''97m''"
definition TUI_STYLE_RESET :: string where "TUI_STYLE_RESET = csi ''0m''"
definition TUI_STYLE_BOLD :: string where "TUI_STYLE_BOLD = csi ''1m''"
definition TUI_STYLE_DIM :: string where "TUI_STYLE_DIM = csi ''2m''"
definition TUI_STYLE_ITALIC :: string where "TUI_STYLE_ITALIC = csi ''3m''"
definition TUI_CURSOR_HOME :: string where "TUI_CURSOR_HOME = csi ''H''"
definition TUI_CURSOR_HIDE :: string where "TUI_CURSOR_HIDE = csi ''?25l''"
definition TUI_CURSOR_SHOW :: string where "TUI_CURSOR_SHOW = csi ''?25h''"
definition TUI_CLEAR_SCREEN :: string where "TUI_CLEAR_SCREEN = csi ''2J''"
definition TUI_CLEAR_LINE :: string where "TUI_CLEAR_LINE = csi ''2K''"

lemmas TUI_defs =
  TUI_COLOR_RED_def TUI_COLOR_GREEN_def TUI_COLOR_YELLOW_def TUI_COLOR_CYAN_def TUI_COLOR_WHITE_def
  TUI_COLOR_BRIGHT_BLACK_def TUI_COLOR_BRIGHT_BLUE_def TUI_COLOR_BRIGHT_CYAN_def TUI_COLOR_BRIGHT_WHITE_def
  TUI_STYLE_RESET_def TUI_STYLE_BOLD_def TUI_STYLE_DIM_def TUI_STYLE_ITALIC_def TUI_CURSOR_HOME_def
  TUI_CURSOR_HIDE_def TUI_CURSOR_SHOW_def TUI_CLEAR_SCREEN_def TUI_CLEAR_LINE_def

section \<open>The terminal\<close>

record tty =
  tt_term :: "string option"
  tt_no_color :: "string option"
  tt_columns :: "int option"
  tui_initialized :: bool
  tui_color_enabled :: bool
  tt_out :: string

type_synonym 'a tui = "(tty, 'a) state"

definition put :: "string \<Rightarrow> unit tui" where
  "put s = State_Monad.update (\<lambda>t. t\<lparr>tt_out := tt_out t @ s\<rparr>)"

text \<open>\<open>if (tui_color_enabled) printf(a); else printf(b);\<close>\<close>

definition put_color :: "string \<Rightarrow> string \<Rightarrow> unit tui" where
  "put_color a b = do { t \<leftarrow> State_Monad.get; put (if tui_color_enabled t then a else b) }"

text \<open>\<open>%*s\<close> and \<open>%-*s\<close>; a negative width is the flag \<open>-\<close> and a positive width.\<close>

definition pad_left :: "int \<Rightarrow> string \<Rightarrow> string" where
  "pad_left w s =
     (if w < 0 then s @ replicate (nat (- w) - length s) (CHR '' '') else replicate (nat w - length s) (CHR '' '') @ s)"

definition pad_right :: "int \<Rightarrow> string \<Rightarrow> string" where
  "pad_right w s = s @ replicate (nat \<bar>w\<bar> - length s) (CHR '' '')"

definition tui_init :: "bool tui" where
  "tui_init = do {
     t \<leftarrow> State_Monad.get;
     if tui_initialized t then State_Monad.return True
     else do {
       State_Monad.set (t\<lparr>tui_initialized := True,
         tui_color_enabled :=
           (if tt_no_color t \<noteq> None \<and> tt_no_color t \<noteq> Some [] then False
            else if tt_term t = None \<or> tt_term t = Some ''dumb'' then False
            else tui_color_enabled t)\<rparr>);
       State_Monad.return True } }"

text \<open>\<open>if (!tui_initialized) tui_init();\<close>\<close>

definition tui_ready :: "unit tui" where
  "tui_ready = do {
     t \<leftarrow> State_Monad.get;
     if \<not> tui_initialized t then do { _ \<leftarrow> tui_init; State_Monad.return () } else State_Monad.return () }"

definition tui_has_color_support :: "bool tui" where
  "tui_has_color_support = do { tui_ready; t \<leftarrow> State_Monad.get; State_Monad.return (tui_color_enabled t) }"

definition tui_reset :: "unit tui" where
  "tui_reset = put_color TUI_STYLE_RESET []"

definition tui_get_terminal_width :: "int tui" where
  "tui_get_terminal_width = do {
     t \<leftarrow> State_Monad.get;
     State_Monad.return (case tt_columns t of Some w \<Rightarrow> w | None \<Rightarrow> 80) }"

section \<open>Formatted output\<close>

definition tui_print_color :: "string \<Rightarrow> string \<Rightarrow> unit tui" where
  "tui_print_color color text = do { tui_ready; put_color color []; put text; put_color TUI_STYLE_RESET [] }"

definition tui_print_styled :: "string \<Rightarrow> string \<Rightarrow> string \<Rightarrow> unit tui" where
  "tui_print_styled color style text =
     do { tui_ready; put_color (style @ color) []; put text; put_color TUI_STYLE_RESET [] }"

datatype tui_status =
  TUI_STATUS_SUCCESS | TUI_STATUS_ERROR | TUI_STATUS_WARNING | TUI_STATUS_INFO | TUI_STATUS_NEUTRAL

text \<open>The icons are single characters in UTF-8: check mark, ballot cross, warning sign, information sign, bullet.\<close>

fun status_icon :: "tui_status \<Rightarrow> string" where
  "status_icon TUI_STATUS_SUCCESS = [CHR 0xE2, CHR 0x9C, CHR 0x93]"
| "status_icon TUI_STATUS_ERROR = [CHR 0xE2, CHR 0x9C, CHR 0x97]"
| "status_icon TUI_STATUS_WARNING = [CHR 0xE2, CHR 0x9A, CHR 0xA0]"
| "status_icon TUI_STATUS_INFO = [CHR 0xE2, CHR 0x84, CHR 0xB9]"
| "status_icon TUI_STATUS_NEUTRAL = [CHR 0xE2, CHR 0x80, CHR 0xA2]"

fun status_color :: "tui_status \<Rightarrow> string" where
  "status_color TUI_STATUS_SUCCESS = TUI_COLOR_GREEN"
| "status_color TUI_STATUS_ERROR = TUI_COLOR_RED"
| "status_color TUI_STATUS_WARNING = TUI_COLOR_YELLOW"
| "status_color TUI_STATUS_INFO = TUI_COLOR_CYAN"
| "status_color TUI_STATUS_NEUTRAL = TUI_COLOR_WHITE"

definition tui_print_status :: "tui_status \<Rightarrow> string \<Rightarrow> unit tui" where
  "tui_print_status status text =
     do { tui_ready;
          put_color (TUI_STYLE_BOLD @ status_color status @ status_icon status @ '' '') (status_icon status @ '' '');
          put text;
          put_color TUI_STYLE_RESET [];
          put [LF] }"

section \<open>Layout\<close>

definition tui_separator :: "int \<Rightarrow> char \<Rightarrow> unit tui" where
  "tui_separator width char =
     do { tui_ready;
          width \<leftarrow> (if width \<le> 0 then tui_get_terminal_width else State_Monad.return width);
          put_color TUI_COLOR_BRIGHT_BLACK [];
          put (replicate (nat width) char);
          put_color TUI_STYLE_RESET [];
          put [LF] }"

definition tui_header :: "string \<Rightarrow> int \<Rightarrow> unit tui" where
  "tui_header title width =
     do { tui_ready;
          width \<leftarrow> (if width \<le> 0 then tui_get_terminal_width else State_Monad.return width);
          tui_separator width (CHR ''='');
          put (pad_left (max 0 ((width - int (length title) - 2) div 2)) []);
          put_color (TUI_STYLE_BOLD @ TUI_COLOR_CYAN) [];
          put ('' '' @ title @ '' '');
          put_color TUI_STYLE_RESET [];
          put [LF];
          tui_separator width (CHR ''='') }"

definition tui_menu_option :: "int \<Rightarrow> string \<Rightarrow> string option \<Rightarrow> unit tui" where
  "tui_menu_option number text description =
     do { tui_ready;
          put_color (TUI_STYLE_BOLD @ TUI_COLOR_CYAN @ show_int number @ ''.'' @ TUI_STYLE_RESET @ '' '')
            (show_int number @ ''. '');
          put_color TUI_COLOR_WHITE [];
          put text;
          put_color TUI_STYLE_RESET [];
          (case description of
             None \<Rightarrow> State_Monad.return ()
           | Some d \<Rightarrow> put_color ('' '' @ TUI_COLOR_BRIGHT_BLACK @ ''- '' @ d @ TUI_STYLE_RESET) ('' - '' @ d));
          put [LF] }"

definition tui_key_value :: "string \<Rightarrow> string \<Rightarrow> int \<Rightarrow> unit tui" where
  "tui_key_value k v key_width =
     do { tui_ready;
          put_color (TUI_COLOR_BRIGHT_BLACK @ pad_right key_width k @ '':'' @ TUI_STYLE_RESET @ '' '')
            (pad_right key_width k @ '': '');
          put_color (TUI_STYLE_BOLD @ v @ TUI_STYLE_RESET) v;
          put [LF] }"

text \<open>The lines of a box: the characters U+2500 to U+2524 in UTF-8.\<close>

definition box_char :: "char \<Rightarrow> string" where
  "box_char c = [CHR 0xE2, CHR 0x94, c]"

definition box_line :: "int \<Rightarrow> string" where
  "box_line width = concat (replicate (nat (width - 2)) (box_char (CHR 0x80)))"

definition box_row :: "string \<Rightarrow> string \<Rightarrow> int \<Rightarrow> unit tui" where
  "box_row style s width =
     do { put (box_char (CHR 0x82) @ '' '');
          put_color (TUI_STYLE_RESET @ style @ pad_right (width - 4) s @ TUI_COLOR_BRIGHT_BLACK) (pad_right (width - 4) s);
          put ('' '' @ box_char (CHR 0x82) @ [LF]) }"

fun box_rows :: "string list \<Rightarrow> int \<Rightarrow> unit tui" where
  "box_rows [] width = State_Monad.return ()"
| "box_rows (s # content) width = do { box_row [] s width; box_rows content width }"

definition tui_box :: "string option \<Rightarrow> string list \<Rightarrow> int \<Rightarrow> unit tui" where
  "tui_box title content width =
     do { tui_ready;
          w \<leftarrow> tui_get_terminal_width;
          let width = (if width \<le> 0 then w - 4 else width) in
          do { put_color TUI_COLOR_BRIGHT_BLACK [];
               put (box_char (CHR 0x8C) @ box_line width @ box_char (CHR 0x90) @ [LF]);
               (case title of
                  None \<Rightarrow> State_Monad.return ()
                | Some s \<Rightarrow>
                    do { box_row TUI_STYLE_BOLD s width;
                         put (box_char (CHR 0x9C) @ box_line width @ box_char (CHR 0xA4) @ [LF]) });
               box_rows content width;
               put (box_char (CHR 0x94) @ box_line width @ box_char (CHR 0x98));
               put_color TUI_STYLE_RESET [];
               put [LF] } }"

definition tui_clear_screen :: "unit tui" where
  "tui_clear_screen = do { tui_ready; put_color (TUI_CLEAR_SCREEN @ TUI_CURSOR_HOME) [LF, LF, LF] }"

definition tui_clear_line :: "unit tui" where
  "tui_clear_line = do { tui_ready; put_color (CR # TUI_CLEAR_LINE) [CR] }"

definition tui_cursor_up :: "int \<Rightarrow> unit tui" where
  "tui_cursor_up n = do { tui_ready; put_color (if 0 < n then csi (show_int n @ ''A'') else []) [] }"

definition tui_cursor_show :: "unit tui" where
  "tui_cursor_show = do { tui_ready; put_color TUI_CURSOR_SHOW [] }"

definition tui_cursor_hide :: "unit tui" where
  "tui_cursor_hide = do { tui_ready; put_color TUI_CURSOR_HIDE [] }"

section \<open>Sizes\<close>

text \<open>
  A \<open>double\<close> that is not negative: numerator and denominator. \<open>fl p q\<close> is the fraction \<open>p / q\<close> rounded to 53
  significant bits, ties to even; the numbers that occur here are far from overflow and from the subnormal range.
\<close>

type_synonym double = "nat \<times> nat"

fun bit_size :: "nat \<Rightarrow> nat" where
  "bit_size n = (if n = 0 then 0 else Suc (bit_size (n div 2)))"

declare bit_size.simps [simp del]

definition round_div :: "nat \<Rightarrow> nat \<Rightarrow> nat" where
  "round_div p q = (let n = p div q; r = p mod q in if 2 * r < q \<or> (2 * r = q \<and> even n) then n else Suc n)"

definition fl :: "nat \<Rightarrow> nat \<Rightarrow> double" where
  "fl p q =
     (if p = 0 then (0, 1)
      else
        let k = 53 + int (bit_size q) - int (bit_size p);
            shift = (if p * 2 ^ nat k < 2 ^ 53 * (q * 2 ^ nat (- k)) then k else k - 1)
        in if 0 \<le> shift then (round_div (p * 2 ^ nat shift) q, 2 ^ nat shift)
           else (round_div p (q * 2 ^ nat (- shift)) * 2 ^ nat (- shift), 1))"

definition of_size :: "u64 \<Rightarrow> double" where
  "of_size n = fl (unat n) 1"

fun fl_div :: "double \<Rightarrow> double \<Rightarrow> double" where
  "fl_div (a, b) (c, d) = fl (a * d) (b * c)"

fun fl_times :: "double \<Rightarrow> nat \<Rightarrow> double" where
  "fl_times (a, b) n = fl (a * n) b"

fun at_least :: "nat \<Rightarrow> nat \<Rightarrow> double \<Rightarrow> bool" where
  "at_least p q (a, b) = (p * b \<le> q * a)"

text \<open>\<open>%.1f\<close>: the nearest tenth, a tie to the even one.\<close>

fun show_tenths :: "double \<Rightarrow> string" where
  "show_tenths (a, b) = (let k = round_div (10 * a) b in show_nat (k div 10) @ [CHR ''.'', digit (k mod 10)])"

definition units :: "string list" where
  "units = [''B'', ''KB'', ''MB'', ''GB'', ''TB'']"

function unit_loop :: "double \<Rightarrow> nat \<Rightarrow> double \<times> nat" where
  "unit_loop s unit_index =
     (if at_least 1024 1 s \<and> unit_index < 4 then unit_loop (fl_div s (1024, 1)) (unit_index + 1) else (s, unit_index))"
  by pat_completeness auto
termination by (relation "measure (\<lambda>(s, i). 4 - i)") auto

declare unit_loop.simps [simp del]

definition tui_format_bytes :: "u64 \<Rightarrow> nat \<Rightarrow> string" where
  "tui_format_bytes bytes bufsize =
     (let (s, unit_index) = unit_loop (of_size bytes) 0
      in if unit_index = 0 then fit bufsize (show_nat (unat bytes) @ '' '' @ units ! unit_index)
         else fit bufsize (show_tenths s @ '' '' @ units ! unit_index))"

section \<open>The progress bar\<close>

record tui_progress =
  pr_current :: u64
  pr_total :: u64
  pr_width :: int
  pr_fill_char :: char
  pr_empty_char :: char
  pr_show_percent :: bool
  pr_show_numbers :: bool

definition tui_progress_create :: "u64 \<Rightarrow> u64 \<Rightarrow> tui_progress" where
  "tui_progress_create current whole =
     \<lparr>pr_current = current, pr_total = whole, pr_width = 40, pr_fill_char = CHR ''#'', pr_empty_char = CHR ''-'',
      pr_show_percent = True, pr_show_numbers = True\<rparr>"

definition percent_of :: "tui_progress \<Rightarrow> double" where
  "percent_of p =
     (let percent = fl_div (of_size (pr_current p)) (of_size (pr_total p))
      in if at_least 1 1 percent then (1, 1) else percent)"

text \<open>\<open>(int)(percent * progress->width)\<close>: towards zero.\<close>

definition filled_of :: "tui_progress \<Rightarrow> int" where
  "filled_of p = (case fl_times (percent_of p) (nat \<bar>pr_width p\<bar>) of (a, b) \<Rightarrow> sgn (pr_width p) * int (a div b))"

definition tui_progress_bar :: "tui_progress \<Rightarrow> unit tui" where
  "tui_progress_bar p =
     do { tui_ready;
          if pr_total p = 0 then put (''['' @ pad_left (pr_width p) [] @ ''] 0%'' @ [LF])
          else
            do { put ''['';
                 put_color (if at_least 1 1 (percent_of p) then TUI_COLOR_GREEN
                            else if at_least 1 2 (percent_of p) then TUI_COLOR_CYAN
                            else TUI_COLOR_YELLOW) [];
                 put (replicate (nat (filled_of p)) (pr_fill_char p));
                 put_color TUI_STYLE_RESET [];
                 put_color TUI_COLOR_BRIGHT_BLACK [];
                 put (replicate (nat (pr_width p - filled_of p)) (pr_empty_char p));
                 put_color TUI_STYLE_RESET [];
                 put '']'';
                 (if pr_show_percent p then put ('' '' @ pad_left 5 (show_tenths (fl_times (percent_of p) 100)) @ ''%'')
                  else State_Monad.return ());
                 (if pr_show_numbers p
                  then put ('' ('' @ tui_format_bytes (pr_current p) 32 @ '' / '' @ tui_format_bytes (pr_total p) 32 @ '')'')
                  else State_Monad.return ()) } }"

end
