(* ===== verification/Client_UI.thy ===== *)
theory Client_UI
  imports Tui Client_Input
begin

text \<open>
  What the user interface of the client prints (\<open>src/client/client_ui.c\<close>): every function over the terminal library,
  and \<open>ui_show\<close>, which gives each call that \<open>Client_Input\<close> and \<open>Client_App\<close> record the computation that prints it. The
  half of a prompt that reads the keyboard is in \<open>Client_Input\<close>; the call of \<open>clear_input_buffer\<close> at the end of
  \<open>ui_show_upload_result\<close> and \<open>ui_show_download_result\<close>, which changes the input only, is made by their callers in
  \<open>Client_App\<close>.
\<close>

section \<open>The screens\<close>

definition BANNER_WIDTH :: int where "BANNER_WIDTH = 60"

definition PROMPT_PREFIX :: string where "PROMPT_PREFIX = ''stash> ''"

text \<open>The letters of the two pictures, written with one character each: U+2588 is \<open>#\<close>, U+2550 is \<open>=\<close>, U+2551 is
  \<open>!\<close>, and the corners U+2554, U+2557, U+255A and U+255D are \<open>r\<close>, \<open>7\<close>, \<open>L\<close> and \<open>J\<close>.\<close>

definition art_char :: "char \<Rightarrow> string" where
  "art_char c =
     (if c = CHR ''#'' then [CHR 0xE2, CHR 0x96, CHR 0x88]
      else if c = CHR ''='' then [CHR 0xE2, CHR 0x95, CHR 0x90]
      else if c = CHR ''!'' then [CHR 0xE2, CHR 0x95, CHR 0x91]
      else if c = CHR ''r'' then [CHR 0xE2, CHR 0x95, CHR 0x94]
      else if c = CHR ''7'' then [CHR 0xE2, CHR 0x95, CHR 0x97]
      else if c = CHR ''L'' then [CHR 0xE2, CHR 0x95, CHR 0x9A]
      else if c = CHR ''J'' then [CHR 0xE2, CHR 0x95, CHR 0x9D]
      else [c])"

definition art :: "string \<Rightarrow> string" where
  "art s = concat (map art_char s)"

definition padding :: string where
  "padding = replicate 20 (CHR '' '')"

definition art_line :: "string \<Rightarrow> unit tui" where
  "art_line s = tui_print_styled TUI_COLOR_CYAN TUI_STYLE_BOLD (padding @ art s @ [LF])"

definition splash_text :: "unit tui" where
  "splash_text =
     do { _ \<leftarrow> tui_init;
          put (TUI_CLEAR_SCREEN @ TUI_CURSOR_HOME);
          put [LF, LF, LF];
          art_line '' ######7 ########7 #####7  ######7##7  ##7'';
          art_line ''##r====J L==##r==J##r==##7##r====J##!  ##!'';
          art_line ''L#####7     ##!   #######!L#####7 #######!'';
          art_line '' L===##7    ##!   ##r==##! L===##7##r==##!'';
          art_line ''######rJ    ##!   ##!  ##!######rJ##!  ##!'';
          art_line ''L=====J     L=J   L=J  L=JL=====J L=J  L=J'';
          put [LF];
          art_line ''      ######7##7     ##7'';
          art_line ''     ##r====J##!     ##!'';
          art_line ''     ##!     ##!     ##!'';
          art_line ''     ##!     ##!     ##!'';
          art_line ''     L######7#######7##!'';
          art_line ''      L=====JL======JL=J'';
          put [LF, LF];
          tui_print_styled TUI_COLOR_BRIGHT_WHITE TUI_STYLE_DIM
            (padding @ ''           Multi-threaded File Storage System'' @ [LF]);
          put [LF, LF];
          tui_print_styled TUI_COLOR_YELLOW TUI_STYLE_ITALIC (padding @ ''          Press any key to continue...'' @ [LF]) }"

definition splash_clear :: "unit tui" where
  "splash_clear = put (TUI_CLEAR_SCREEN @ TUI_CURSOR_HOME)"

definition banner_line :: "string \<Rightarrow> unit tui" where
  "banner_line s = tui_print_styled TUI_COLOR_CYAN TUI_STYLE_BOLD (s @ [LF])"

definition ui_show_banner :: "unit tui" where
  "ui_show_banner =
     do { _ \<leftarrow> tui_init;
          put [LF];
          banner_line (art (''r'' @ replicate 60 (CHR ''='') @ ''7''));
          banner_line (art (''!'' @ replicate 60 (CHR '' '') @ ''!''));
          banner_line (art ''!'' @ ''                 STASHCLI - FILE STORAGE                    '' @ art ''!'');
          banner_line (art (''!'' @ replicate 60 (CHR '' '') @ ''!''));
          banner_line (art (''L'' @ replicate 60 (CHR ''='') @ ''J''));
          put [LF] }"

definition ui_show_connecting :: "string \<Rightarrow> string \<Rightarrow> unit tui" where
  "ui_show_connecting host port = tui_print_status TUI_STATUS_INFO (''Connecting to '' @ host @ '':'' @ port @ ''...'')"

definition ui_show_connected :: "unit tui" where
  "ui_show_connected = do { tui_print_status TUI_STATUS_SUCCESS ''Connected successfully!''; put [LF] }"

definition ui_show_connection_error :: "string \<Rightarrow> unit tui" where
  "ui_show_connection_error message = tui_print_status TUI_STATUS_ERROR (''Connection failed: '' @ message)"

definition auth_menu_text :: "unit tui" where
  "auth_menu_text =
     do { put [LF];
          tui_header ''AUTHENTICATION'' BANNER_WIDTH;
          put [LF];
          tui_menu_option 1 ''SIGNUP'' (Some ''Create a new account'');
          tui_menu_option 2 ''LOGIN'' (Some ''Sign in to existing account'');
          tui_menu_option 3 ''QUIT'' (Some ''Exit the application'');
          put [LF];
          tui_print_color TUI_COLOR_YELLOW ''Enter your choice: '' }"

definition ui_show_auth_result :: "bool \<Rightarrow> string \<Rightarrow> unit tui" where
  "ui_show_auth_result success message =
     do { put [LF]; tui_print_status (if success then TUI_STATUS_SUCCESS else TUI_STATUS_ERROR) message }"

definition ui_show_session_header :: "string option \<Rightarrow> unit tui" where
  "ui_show_session_header username =
     do { put [LF];
          tui_separator BANNER_WIDTH (CHR ''='');
          tui_print_styled TUI_COLOR_GREEN TUI_STYLE_BOLD
            (case username of
               Some u \<Rightarrow> ''   Welcome, '' @ u @ ''! Session started.'' @ [LF]
             | None \<Rightarrow> ''   Session started.'' @ [LF]);
          tui_separator BANNER_WIDTH (CHR ''='');
          put [LF];
          tui_print_color TUI_COLOR_BRIGHT_BLACK (''Type '' @ [CHR 0x27] @ ''help'' @ [CHR 0x27] @ '' for available commands'' @ [LF]);
          put [LF] }"

definition ui_show_prompt :: "unit tui" where
  "ui_show_prompt = tui_print_color TUI_COLOR_BRIGHT_CYAN PROMPT_PREFIX"

definition help_line :: "string \<Rightarrow> string \<Rightarrow> unit tui" where
  "help_line command explanation =
     do { put ''    ''; tui_print_color TUI_COLOR_GREEN command; put (explanation @ [LF]) }"

definition ui_show_help :: "unit tui" where
  "ui_show_help =
     do { put [LF];
          tui_header ''AVAILABLE COMMANDS'' BANNER_WIDTH;
          put [LF];
          tui_print_styled TUI_COLOR_CYAN TUI_STYLE_BOLD (''  File Operations:'' @ [LF]);
          help_line ''upload <filename>'' ''      - Upload a file to server'';
          help_line ''download <filename>'' ''    - Download a file from server'';
          help_line ''delete <filename>'' ''      - Delete a file from server'';
          help_line ''list'' ''                  - List all your files'';
          put [LF];
          tui_print_styled TUI_COLOR_CYAN TUI_STYLE_BOLD (''  Session:'' @ [LF]);
          help_line ''help'' ''                  - Show this help message'';
          help_line ''quit'' ''                  - Exit the client'';
          put [LF];
          tui_separator BANNER_WIDTH (CHR ''-'');
          put [LF] }"

section \<open>Files\<close>

definition quoted :: "string \<Rightarrow> string" where
  "quoted s = [CHR 0x27] @ s @ [CHR 0x27]"

definition ui_show_upload_start :: "string \<Rightarrow> u64 \<Rightarrow> unit tui" where
  "ui_show_upload_start filename filesize =
     do { put [LF];
          tui_print_color TUI_COLOR_BRIGHT_BLUE [CHR 0xE2, CHR 0x96, CHR 0xBA, CHR '' ''];
          put ''Uploading '';
          tui_print_styled TUI_COLOR_WHITE TUI_STYLE_BOLD (quoted filename);
          put ('' ('' @ tui_format_bytes filesize 32 @ '')'' @ [LF]) }"

definition ui_show_upload_progress :: "u64 \<Rightarrow> u64 \<Rightarrow> unit tui" where
  "ui_show_upload_progress current whole =
     do { tui_cursor_up 1;
          tui_clear_line;
          put ''  '';
          tui_progress_bar (tui_progress_create current whole\<lparr>pr_width := 30\<rparr>);
          put [LF] }"

definition ui_show_upload_result :: "bool \<Rightarrow> string \<Rightarrow> u64 \<Rightarrow> unit tui" where
  "ui_show_upload_result success message bytes_sent =
     do { tui_cursor_up 1;
          tui_clear_line;
          put [CR];
          (if success then tui_print_status TUI_STATUS_SUCCESS (''Upload complete ('' @ tui_format_bytes bytes_sent 32 @ '')'')
           else tui_print_status TUI_STATUS_ERROR (''Upload failed: '' @ message));
          put [LF] }"

definition ui_show_download_start :: "string \<Rightarrow> unit tui" where
  "ui_show_download_start filename =
     do { put [LF];
          tui_print_color TUI_COLOR_BRIGHT_BLUE [CHR 0xE2, CHR 0x96, CHR 0xBC, CHR '' ''];
          put ''Downloading '';
          tui_print_styled TUI_COLOR_WHITE TUI_STYLE_BOLD (quoted filename);
          put [LF] }"

definition ui_show_download_progress :: "u64 \<Rightarrow> u64 \<Rightarrow> unit tui" where
  "ui_show_download_progress current whole =
     (if 0 < whole then ui_show_upload_progress current whole
      else do { tui_cursor_up 1;
                tui_clear_line;
                put (''  Received: '' @ tui_format_bytes current 32 @ [LF]) })"

definition ui_show_download_result :: "bool \<Rightarrow> string \<Rightarrow> u64 \<Rightarrow> unit tui" where
  "ui_show_download_result success message bytes_received =
     do { tui_cursor_up 1;
          tui_clear_line;
          put [CR];
          (if success then tui_print_status TUI_STATUS_SUCCESS (''Download complete ('' @ tui_format_bytes bytes_received 32 @ '')'')
           else tui_print_status TUI_STATUS_ERROR (''Download failed: '' @ message));
          put [LF] }"

definition ui_show_delete_result :: "bool \<Rightarrow> string \<Rightarrow> string \<Rightarrow> unit tui" where
  "ui_show_delete_result success filename message =
     do { (if success
           then do { tui_print_status TUI_STATUS_SUCCESS (''Deleted '' @ quoted filename);
                     (if 0 < length message then tui_print_color TUI_COLOR_BRIGHT_BLACK (''  Server: '' @ message)
                      else State_Monad.return ()) }
           else tui_print_status TUI_STATUS_ERROR (''Failed to delete '' @ quoted filename @ '': '' @ message));
          put [LF] }"

definition ui_show_file_list_header :: "unit tui" where
  "ui_show_file_list_header =
     do { put [LF];
          tui_header ''YOUR FILES'' BANNER_WIDTH;
          put [LF];
          tui_print_styled TUI_COLOR_CYAN TUI_STYLE_BOLD
            (''  '' @ pad_right 40 ''FILENAME'' @ ''  '' @ pad_left 10 ''SIZE'' @ [LF]);
          tui_separator BANNER_WIDTH (CHR ''-'') }"

definition ui_show_file_entry :: "string \<Rightarrow> u64 \<Rightarrow> unit tui" where
  "ui_show_file_entry filename filesize =
     do { put ''  '';
          tui_print_color TUI_COLOR_WHITE (pad_right 40 filename);
          put ''  '';
          tui_print_color TUI_COLOR_YELLOW (pad_left 10 (tui_format_bytes filesize 32));
          put [LF] }"

definition ui_show_file_list_footer :: "int \<Rightarrow> u64 \<Rightarrow> u64 \<Rightarrow> u64 \<Rightarrow> unit tui" where
  "ui_show_file_list_footer total_files total_size quota_used quota_total =
     do { put [LF];
          tui_separator BANNER_WIDTH (CHR ''-'');
          put ''  '';
          tui_print_color TUI_COLOR_BRIGHT_BLACK ''Total: '';
          tui_print_styled TUI_COLOR_WHITE TUI_STYLE_BOLD
            (show_int total_files @ '' file'' @ (if total_files = 1 then [] else ''s''));
          put ''  '';
          tui_print_color TUI_COLOR_BRIGHT_BLACK ''Size: '';
          tui_print_styled TUI_COLOR_YELLOW TUI_STYLE_BOLD (tui_format_bytes total_size 32);
          put [LF];
          put ''  '';
          tui_print_color TUI_COLOR_BRIGHT_BLACK ''Quota: '';
          tui_progress_bar (tui_progress_create quota_used quota_total\<lparr>pr_width := 25, pr_show_numbers := False\<rparr>);
          put ('' '' @ tui_format_bytes quota_used 32 @ '' / '' @ tui_format_bytes quota_total 32 @ [LF]);
          put [LF] }"

definition ui_show_file_list_empty :: "unit tui" where
  "ui_show_file_list_empty =
     do { put [LF]; tui_print_color TUI_COLOR_BRIGHT_BLACK (''  (No files yet)'' @ [LF]); put [LF] }"

section \<open>Messages\<close>

text \<open>The text is formatted into a buffer of 512 bytes first.\<close>

definition ui_show_error :: "string \<Rightarrow> unit tui" where
  "ui_show_error text = tui_print_status TUI_STATUS_ERROR (fit 512 text)"

definition ui_show_warning :: "string \<Rightarrow> unit tui" where
  "ui_show_warning text = tui_print_status TUI_STATUS_WARNING (fit 512 text)"

definition ui_show_info :: "string \<Rightarrow> unit tui" where
  "ui_show_info text = tui_print_status TUI_STATUS_INFO (fit 512 text)"

definition ui_show_usage_error :: "string \<Rightarrow> unit tui" where
  "ui_show_usage_error usage =
     do { tui_print_status TUI_STATUS_ERROR ''Invalid usage'';
          put ''  '';
          tui_print_color TUI_COLOR_BRIGHT_BLACK ''Usage: '';
          tui_print_color TUI_COLOR_GREEN usage;
          put [LF] }"

definition ui_show_session_end :: "unit tui" where
  "ui_show_session_end =
     do { put [LF];
          tui_separator BANNER_WIDTH (CHR ''='');
          tui_print_styled TUI_COLOR_YELLOW TUI_STYLE_BOLD (''   Session ended.'' @ [LF]);
          tui_separator BANNER_WIDTH (CHR ''='') }"

definition ui_show_goodbye :: "unit tui" where
  "ui_show_goodbye =
     do { put [LF];
          tui_print_styled TUI_COLOR_CYAN TUI_STYLE_BOLD (''   Thank you for using StashCLI!'' @ [LF]);
          put [LF] }"

section \<open>What a call prints\<close>

text \<open>The sizes the client passes are \<open>long\<close>, the parameters are \<open>size_t\<close>.\<close>

fun ui_show :: "ui_call \<Rightarrow> unit tui" where
  "ui_show Ui_splash_screen = splash_text"
| "ui_show Ui_splash_clear = splash_clear"
| "ui_show Ui_banner = ui_show_banner"
| "ui_show (Ui_connecting host port) = ui_show_connecting host port"
| "ui_show Ui_connected = ui_show_connected"
| "ui_show (Ui_connection_error message) = ui_show_connection_error message"
| "ui_show Ui_auth_menu = auth_menu_text"
| "ui_show Ui_ask_username = tui_print_color TUI_COLOR_CYAN ''Username: ''"
| "ui_show Ui_ask_password = tui_print_color TUI_COLOR_CYAN ''Password: ''"
| "ui_show Ui_star = put ''*''"
| "ui_show Ui_erase = put [CHR 0x08, CHR '' '', CHR 0x08]"
| "ui_show Ui_newline = put [LF]"
| "ui_show (Ui_auth_result success message) = ui_show_auth_result success message"
| "ui_show (Ui_session_header username) = ui_show_session_header (Some username)"
| "ui_show Ui_prompt = ui_show_prompt"
| "ui_show Ui_help = ui_show_help"
| "ui_show (Ui_upload_start filename filesize) = ui_show_upload_start filename (word_of_int filesize)"
| "ui_show (Ui_upload_progress current whole) = ui_show_upload_progress (word_of_int current) (word_of_int whole)"
| "ui_show (Ui_upload_result success message bytes) = ui_show_upload_result success message (word_of_int bytes)"
| "ui_show (Ui_download_start filename) = ui_show_download_start filename"
| "ui_show (Ui_download_progress current whole) = ui_show_download_progress (word_of_int current) (word_of_int whole)"
| "ui_show (Ui_download_result success message bytes) = ui_show_download_result success message (word_of_int bytes)"
| "ui_show (Ui_delete_result success filename message) = ui_show_delete_result success filename message"
| "ui_show Ui_file_list_header = ui_show_file_list_header"
| "ui_show Ui_file_list_empty = ui_show_file_list_empty"
| "ui_show (Ui_error text) = ui_show_error text"
| "ui_show (Ui_warning text) = ui_show_warning text"
| "ui_show (Ui_info text) = ui_show_info text"
| "ui_show (Ui_usage_error usage) = ui_show_usage_error usage"
| "ui_show Ui_session_end = ui_show_session_end"
| "ui_show Ui_goodbye = ui_show_goodbye"
| "ui_show (Ui_raw text) = put text"

fun ui_show_all :: "ui_call list \<Rightarrow> unit tui" where
  "ui_show_all [] = State_Monad.return ()"
| "ui_show_all (u # us) = do { ui_show u; ui_show_all us }"

text \<open>The terminal at the start of the program, and what it has received after some calls.\<close>

definition start_tty :: "string option \<Rightarrow> string option \<Rightarrow> int option \<Rightarrow> tty" where
  "start_tty term no_color columns =
     \<lparr>tt_term = term, tt_no_color = no_color, tt_columns = columns, tui_initialized = False, tui_color_enabled = True,
      tt_out = []\<rparr>"

definition screen :: "string option \<Rightarrow> string option \<Rightarrow> int option \<Rightarrow> ui_call list \<Rightarrow> string" where
  "screen term no_color columns us =
     tt_out (snd (run_state (do { _ \<leftarrow> tui_init; ui_show_all us }) (start_tty term no_color columns)))"

end
