(* ===== verification/Client_UI_Props.thy ===== *)
theory Client_UI_Props
  imports Client_UI
begin

text \<open>
  Colours are decoration: the calls of the user interface print, on a terminal with colours, the same text as on one
  without, up to escape sequences. The relation \<open>alike\<close>
  between the two terminals is kept by every function (the collection \<open>plain_intros\<close>), so that the property follows
  the structure of the code.
\<close>

section \<open>The text behind the escape sequences\<close>

text \<open>After \<open>ESC [\<close>: parameter and intermediate bytes, up to the final byte.\<close>

definition after_csi :: "string \<Rightarrow> string" where
  "after_csi s =
     (case s of
        c # r \<Rightarrow> if c = CHR ''['' then tl (dropWhile (\<lambda>c. \<not> (64 \<le> (of_char c :: nat) \<and> of_char c \<le> (126 :: nat))) r) else s
      | [] \<Rightarrow> [])"

lemma length_after_csi: "length (after_csi s) \<le> length s"
proof (cases s)
  case (Cons c r)
  have "length (dropWhile P r) \<le> length r" for P by (simp add: length_dropWhile_le)
  then show ?thesis using Cons by (auto simp: after_csi_def intro: le_trans [OF diff_le_self] le_SucI)
qed (simp add: after_csi_def)

function visible :: "string \<Rightarrow> string" where
  "visible [] = []"
| "visible (c # s) = (if c = ESC then visible (after_csi s) else c # visible s)"
  by pat_completeness auto
termination by (relation "measure length") (auto simp: le_imp_less_Suc length_after_csi)

named_theorems plain_simps \<open>what an escape sequence leaves on the screen\<close>
named_theorems plain_intros \<open>functions that treat the two terminals alike\<close>

lemma visible_text [plain_simps]: "ESC \<notin> set s \<Longrightarrow> visible (s @ r) = s @ visible r"
  by (induction s) auto

lemma visible_csi [plain_simps]:
  "visible (TUI_COLOR_RED @ r) = visible r" "visible (TUI_COLOR_GREEN @ r) = visible r"
  "visible (TUI_COLOR_YELLOW @ r) = visible r" "visible (TUI_COLOR_CYAN @ r) = visible r"
  "visible (TUI_COLOR_WHITE @ r) = visible r" "visible (TUI_COLOR_BRIGHT_BLACK @ r) = visible r"
  "visible (TUI_COLOR_BRIGHT_BLUE @ r) = visible r" "visible (TUI_COLOR_BRIGHT_CYAN @ r) = visible r"
  "visible (TUI_COLOR_BRIGHT_WHITE @ r) = visible r" "visible (TUI_STYLE_RESET @ r) = visible r"
  "visible (TUI_STYLE_BOLD @ r) = visible r" "visible (TUI_STYLE_DIM @ r) = visible r"
  "visible (TUI_STYLE_ITALIC @ r) = visible r" "visible (TUI_CLEAR_LINE @ r) = visible r"
  by (simp_all add: TUI_defs csi_def after_csi_def)

lemma visible_status [plain_simps]: "visible (status_color s @ r) = visible r"
  by (cases s) (simp_all add: plain_simps)

lemma plain_icon [simp]: "ESC \<notin> set (status_icon s)"
  by (cases s) simp_all

lemma digit_plain [simp]: "k < 10 \<Longrightarrow> digit k \<noteq> ESC" "k < 10 \<Longrightarrow> ESC \<noteq> digit k"
proof -
  assume k: "k < 10"
  then have "(of_char (digit k) :: nat) \<noteq> of_char ESC" by simp
  then show "digit k \<noteq> ESC" "ESC \<noteq> digit k" by metis+
qed

lemma plain_number [simp]: "ESC \<notin> set (show_nat n)"
  by (induction n rule: show_nat.induct) (subst show_nat.simps, simp)

lemma plain_int [simp]: "ESC \<notin> set (show_int n)"
  by (simp add: show_int_def)

lemma visible_cursor_up [plain_simps]: "visible (csi ''1A'' @ r) = visible r"
  by (simp add: csi_def after_csi_def)

section \<open>Two terminals\<close>

definition alike :: "tty \<Rightarrow> tty \<Rightarrow> bool" where
  "alike s t \<longleftrightarrow>
     tui_initialized s \<and> tui_initialized t \<and> tui_color_enabled s \<and> \<not> tui_color_enabled t \<and>
     tt_columns s = tt_columns t \<and> ESC \<notin> set (tt_out t) \<and>
     (\<forall>r. visible (tt_out s @ r) = tt_out t @ visible r)"

definition plain :: "'a tui \<Rightarrow> bool" where
  "plain m \<longleftrightarrow>
     (\<forall>s t. alike s t \<longrightarrow> fst (run_state m s) = fst (run_state m t) \<and> alike (snd (run_state m s)) (snd (run_state m t)))"

lemma plain_bind [plain_intros]: "plain m \<Longrightarrow> (\<And>x. plain (f x)) \<Longrightarrow> plain (m \<bind> f)"
  by (auto simp: plain_def split: prod.splits) (metis fst_conv snd_conv)+

lemma plain_return [plain_intros]: "plain (State_Monad.return x)"
  by (simp add: plain_def)

lemma plain_put_color [plain_intros]:
  "\<lbrakk>\<And>r. visible (a @ r) = b @ visible r; ESC \<notin> set b\<rbrakk> \<Longrightarrow> plain (put_color a b)"
  by (auto simp: plain_def put_color_def put_def alike_def State_Monad.update_def)

lemma plain_put [plain_intros]: "ESC \<notin> set s \<Longrightarrow> plain (put s)"
  by (auto simp: plain_def put_def alike_def State_Monad.update_def visible_text)

lemma plain_if [plain_intros]: "\<lbrakk>c \<Longrightarrow> plain m; \<not> c \<Longrightarrow> plain n\<rbrakk> \<Longrightarrow> plain (if c then m else n)"
  by simp

lemma plain_ready [plain_intros]: "plain tui_ready" "plain tui_init"
  by (auto simp: plain_def tui_ready_def tui_init_def alike_def)

lemma plain_width [plain_intros]: "plain tui_get_terminal_width"
  by (simp add: plain_def tui_get_terminal_width_def alike_def)

lemma plain_option [plain_intros]:
  "\<lbrakk>x = None \<Longrightarrow> plain m; \<And>y. x = Some y \<Longrightarrow> plain (f y)\<rbrakk> \<Longrightarrow> plain (case x of None \<Rightarrow> m | Some y \<Rightarrow> f y)"
  by (cases x) auto

section \<open>The terminal library\<close>

lemma plain_padded [simp]:
  "ESC \<in> set (pad_left w s) \<longleftrightarrow> ESC \<in> set s" "ESC \<in> set (pad_right w s) \<longleftrightarrow> ESC \<in> set s"
  by (auto simp: pad_left_def pad_right_def)

lemma plain_tenths [simp]: "ESC \<notin> set (show_tenths x)"
  by (cases x) (simp add: Let_def)

lemma unit_loop_index: "\<lbrakk>unit_loop x i = (y, j); i \<le> 4\<rbrakk> \<Longrightarrow> i \<le> j \<and> j \<le> 4"
proof (induction x i rule: unit_loop.induct)
  case (1 s i)
  then show ?case by (subst (asm) unit_loop.simps) (auto split: if_splits)
qed

lemma plain_format_bytes [simp]: "ESC \<notin> set (tui_format_bytes n k)"
proof -
  obtain y j where y: "unit_loop (of_size n) 0 = (y, j)" by fastforce
  then have "j \<in> {0, 1, 2, 3, 4}" using unit_loop_index [OF y] by auto
  then have "ESC \<notin> set (units ! j)" by (auto simp: units_def)
  with y show ?thesis by (auto simp: tui_format_bytes_def fit_def dest!: in_set_takeD)
qed

lemma plain_print [plain_intros]:
  "\<lbrakk>\<And>r. visible (color @ r) = visible r; ESC \<notin> set text\<rbrakk> \<Longrightarrow> plain (tui_print_color color text)"
  "\<lbrakk>\<And>r. visible (color @ r) = visible r; \<And>r. visible (style @ r) = visible r; ESC \<notin> set text\<rbrakk> \<Longrightarrow>
    plain (tui_print_styled color style text)"
  "ESC \<notin> set text \<Longrightarrow> plain (tui_print_status status text)"
  unfolding tui_print_color_def tui_print_styled_def tui_print_status_def
  by (intro plain_intros; simp add: plain_simps)+

lemma plain_separator [plain_intros]: "c \<noteq> ESC \<Longrightarrow> plain (tui_separator w c)"
  unfolding tui_separator_def by (intro plain_intros; simp add: plain_simps)

lemma plain_header [plain_intros]: "ESC \<notin> set title \<Longrightarrow> plain (tui_header title w)"
  unfolding tui_header_def by (intro plain_intros; simp add: plain_simps)

lemma plain_menu_option [plain_intros]:
  "\<lbrakk>ESC \<notin> set text; \<And>d. description = Some d \<Longrightarrow> ESC \<notin> set d\<rbrakk> \<Longrightarrow> plain (tui_menu_option n text description)"
  unfolding tui_menu_option_def by (intro plain_intros; simp add: plain_simps)

lemma plain_key_value [plain_intros]: "\<lbrakk>ESC \<notin> set k; ESC \<notin> set v\<rbrakk> \<Longrightarrow> plain (tui_key_value k v w)"
  unfolding tui_key_value_def by (intro plain_intros; simp add: plain_simps)

lemma digit_1: "digit (Suc 0) = CHR ''1''"
  by (simp add: digit_def char_of_def bit_iff_odd)

lemma plain_cursor [plain_intros]: "plain (tui_cursor_up 1)" "plain tui_clear_line"
  unfolding tui_cursor_up_def tui_clear_line_def
  by (intro plain_intros; simp add: plain_simps show_int_def show_nat.simps digit_1)+

lemma plain_progress_bar [plain_intros]:
  "\<lbrakk>pr_fill_char p \<noteq> ESC; pr_empty_char p \<noteq> ESC\<rbrakk> \<Longrightarrow> plain (tui_progress_bar p)"
  unfolding tui_progress_bar_def by (intro plain_intros; simp add: plain_simps)

section \<open>The screens\<close>

text \<open>The texts of a call that the user interface does not choose.\<close>

fun ui_texts :: "ui_call \<Rightarrow> string list" where
  "ui_texts (Ui_connecting host port) = [host, port]"
| "ui_texts (Ui_connection_error message) = [message]"
| "ui_texts (Ui_auth_result success message) = [message]"
| "ui_texts (Ui_session_header username) = [username]"
| "ui_texts (Ui_upload_start filename filesize) = [filename]"
| "ui_texts (Ui_upload_result success message bytes) = [message]"
| "ui_texts (Ui_download_start filename) = [filename]"
| "ui_texts (Ui_download_result success message bytes) = [message]"
| "ui_texts (Ui_delete_result success filename message) = [filename, message]"
| "ui_texts (Ui_error text) = [text]"
| "ui_texts (Ui_warning text) = [text]"
| "ui_texts (Ui_info text) = [text]"
| "ui_texts (Ui_usage_error usage) = [usage]"
| "ui_texts (Ui_raw text) = [text]"
| "ui_texts _ = []"

definition splash :: "ui_call \<Rightarrow> bool" where
  "splash u \<longleftrightarrow> u = Ui_splash_screen \<or> u = Ui_splash_clear"

lemma plain_art: "ESC \<notin> set s \<Longrightarrow> ESC \<notin> set (art s)"
  by (auto simp: art_def art_char_def)

lemma plain_banner [plain_intros]: "plain ui_show_banner"
  unfolding ui_show_banner_def banner_line_def by (intro plain_intros; simp add: plain_simps plain_art)

lemma plain_session [plain_intros]:
  "plain auth_menu_text" "ESC \<notin> set u \<Longrightarrow> plain (ui_show_session_header (Some u))" "plain ui_show_prompt" "plain ui_show_help"
  "plain ui_show_session_end" "plain ui_show_goodbye"
  unfolding auth_menu_text_def ui_show_session_header_def ui_show_prompt_def ui_show_help_def help_line_def
    ui_show_session_end_def ui_show_goodbye_def
  by (intro plain_intros; auto simp: plain_simps PROMPT_PREFIX_def)+

lemma plain_progress [plain_intros]: "plain (ui_show_upload_progress n k)" "plain (ui_show_download_progress n k)"
  unfolding ui_show_download_progress_def ui_show_upload_progress_def
  by (intro plain_intros; simp add: plain_simps tui_progress_create_def)+

lemma plain_transfer [plain_intros]:
  "ESC \<notin> set f \<Longrightarrow> plain (ui_show_upload_start f n)" "ESC \<notin> set f \<Longrightarrow> plain (ui_show_download_start f)"
  "ESC \<notin> set s \<Longrightarrow> plain (ui_show_upload_result ok s n)" "ESC \<notin> set s \<Longrightarrow> plain (ui_show_download_result ok s n)"
  "\<lbrakk>ESC \<notin> set f; ESC \<notin> set s\<rbrakk> \<Longrightarrow> plain (ui_show_delete_result ok f s)"
  "plain ui_show_file_list_header" "plain ui_show_file_list_empty" "ESC \<notin> set f \<Longrightarrow> plain (ui_show_file_entry f n)"
  "plain (ui_show_file_list_footer i n q k)"
  unfolding ui_show_upload_start_def ui_show_download_start_def ui_show_upload_result_def ui_show_download_result_def
    ui_show_delete_result_def ui_show_file_list_header_def ui_show_file_list_empty_def quoted_def
    ui_show_file_entry_def ui_show_file_list_footer_def
  by (intro plain_intros; simp add: plain_simps tui_progress_create_def)+

lemma plain_fit: "ESC \<notin> set s \<Longrightarrow> ESC \<notin> set (fit k s)"
  by (auto simp: fit_def dest: in_set_takeD)

lemma plain_call: "\<lbrakk>\<not> splash u; \<forall>s\<in>set (ui_texts u). ESC \<notin> set s\<rbrakk> \<Longrightarrow> plain (ui_show u)"
  by (cases u)
    (auto simp: splash_def ui_show_connecting_def ui_show_connected_def ui_show_connection_error_def
      ui_show_auth_result_def ui_show_error_def ui_show_warning_def ui_show_info_def ui_show_usage_error_def
      plain_simps plain_fit intro!: plain_intros)

lemma plain_calls:
  "(\<And>u. u \<in> set us \<Longrightarrow> \<not> splash u \<and> (\<forall>s\<in>set (ui_texts u). ESC \<notin> set s)) \<Longrightarrow> plain (ui_show_all us)"
  by (induction us) (auto intro!: plain_intros plain_call)

lemma screen_eq:
  "screen term no_color w us = tt_out (snd (run_state (ui_show_all us) (snd (run_state tui_init (start_tty term no_color w)))))"
  by (simp add: screen_def split_beta)

text \<open>C33: colours are decoration. Take any calls of the user interface other than the splash screen, with texts that
  hold no escape character themselves. On a terminal on which the library decides for colours (\<open>TERM\<close> set and not
  \<open>dumb\<close>, \<open>NO_COLOR\<close> unset or empty) the text that remains of the output without its escape sequences is, byte for
  byte, what a terminal of the same width receives on which it decides against them; and that one never receives an
  escape character.\<close>

theorem colours_are_decoration:
  assumes coloured: "term \<noteq> None" "term \<noteq> Some ''dumb''" "no_color = None \<or> no_color = Some []"
    and dull: "no_color' \<noteq> None \<and> no_color' \<noteq> Some [] \<or> term' = None \<or> term' = Some ''dumb''"
    and calls: "\<And>u. u \<in> set us \<Longrightarrow> \<not> splash u \<and> (\<forall>s\<in>set (ui_texts u). ESC \<notin> set s)"
  shows "visible (screen term no_color w us) = screen term' no_color' w us \<and> ESC \<notin> set (screen term' no_color' w us)"
proof -
  let ?s = "start_tty term no_color w" and ?t = "start_tty term' no_color' w"
  have "alike (snd (run_state tui_init ?s)) (snd (run_state tui_init ?t))"
    using coloured dull by (auto simp: tui_init_def start_tty_def alike_def)
  with plain_calls [OF calls]
  have "alike (snd (run_state (ui_show_all us) (snd (run_state tui_init ?s))))
    (snd (run_state (ui_show_all us) (snd (run_state tui_init ?t))))"
    by (simp add: plain_def)
  then have *: "\<And>r. visible (screen term no_color w us @ r) = screen term' no_color' w us @ visible r"
    "ESC \<notin> set (screen term' no_color' w us)"
    by (simp_all add: screen_eq alike_def)
  from *(1) [of "[]"] *(2) show ?thesis by simp
qed

theorem colours_are_decoration_witness:
  "visible (screen (Some ''xterm'') None None [Ui_banner, Ui_error ''no'']) = screen None None None [Ui_banner, Ui_error ''no'']"
  by (rule colours_are_decoration [of "Some ''xterm''" None None None "[Ui_banner, Ui_error ''no'']" None, THEN conjunct1])
    (auto simp: splash_def)

lemma splash_ignores_colours: "ESC \<in> set (screen None (Some ''1'') w [Ui_splash_clear])"
  by (simp add: screen_def splash_clear_def put_def State_Monad.update_def tui_init_def start_tty_def TUI_defs csi_def)

end
