(* ===== verification/Tui_Props.thy ===== *)
theory Tui_Props
  imports Tui
begin

text \<open>
  What the terminal library prints for a size and for a progress. The rounding of \<open>double\<close> is analysed once
  (\<open>fl_cases\<close>, \<open>fl_exact\<close>, \<open>fl_le_pow2\<close>): a size below 2 to the 53 is exact in every step of the unit loop, and the
  rounding never crosses a power of two.
\<close>

section \<open>Rounding\<close>

lemma bit_size_bounds: "0 < n \<Longrightarrow> 2 ^ bit_size n \<le> 2 * n \<and> n < 2 ^ bit_size n"
proof (induction n rule: bit_size.induct)
  case (1 n)
  show ?case
  proof (cases "n div 2 = 0")
    case True
    with "1.prems" have "n = 1" by simp
    then show ?thesis by (simp add: bit_size.simps)
  next
    case False
    with 1 have "2 ^ bit_size (n div 2) \<le> 2 * (n div 2)" "n div 2 < 2 ^ bit_size (n div 2)" by auto
    with "1.prems" show ?thesis by (auto simp: bit_size.simps [of n])
  qed
qed

lemma round_div_exact: "0 < q \<Longrightarrow> round_div (m * q) q = m"
  by (simp add: round_div_def)

lemma round_div_le: "\<lbrakk>0 < q; p \<le> m * q\<rbrakk> \<Longrightarrow> round_div p q \<le> m"
proof -
  assume q: "0 < q" and p: "p \<le> m * q"
  then have "p div q \<le> m" using div_le_mono [OF p, of q] by simp
  moreover have "p mod q = 0" if "p div q = m"
    using p that by (metis add_le_same_cancel1 div_mult_mod_eq le_zero_eq)
  ultimately show ?thesis using q by (cases "p div q = m") (auto simp: round_div_def Let_def)
qed

lemma round_div_near: "0 < q \<Longrightarrow> 2 * \<bar>int p - int (round_div p q) * int q\<bar> \<le> int q"
proof -
  assume q: "0 < q"
  have "int p = int (p div q) * int q + int (p mod q)" by (metis div_mult_mod_eq of_nat_add of_nat_mult)
  moreover have "p mod q < q" using q by simp
  ultimately show ?thesis by (auto simp: round_div_def Let_def algebra_simps abs_if)
qed

lemma fl_cases:
  assumes "0 < p" "0 < q"
  obtains (fine) s where "fl p q = (round_div (p * 2 ^ s) q, 2 ^ s)" "2 ^ 52 * q \<le> p * 2 ^ s"
  | (coarse) t where "fl p q = (round_div p (q * 2 ^ t) * 2 ^ t, 1)" "2 ^ 53 * q \<le> p" "2 ^ 52 * (q * 2 ^ t) \<le> p"
proof -
  let ?k = "53 + int (bit_size q) - int (bit_size p)"
  define shift where "shift = (if p * 2 ^ nat ?k < 2 ^ 53 * (q * 2 ^ nat (- ?k)) then ?k else ?k - 1)"
  have p: "2 ^ bit_size p \<le> 2 * p" and q: "q < 2 ^ bit_size q" using assms bit_size_bounds by auto
  have fl: "fl p q = (if 0 \<le> shift then (round_div (p * 2 ^ nat shift) q, 2 ^ nat shift)
      else (round_div p (q * 2 ^ nat (- shift)) * 2 ^ nat (- shift), 1))"
    using assms by (simp add: fl_def shift_def Let_def)
  show thesis
  proof (cases "0 \<le> ?k")
    case True
    then have "bit_size p + nat ?k = 53 + bit_size q" by simp
    then have "(2::nat) ^ 53 * 2 ^ bit_size q = 2 ^ bit_size p * 2 ^ nat ?k" by (metis power_add)
    also have "\<dots> \<le> 2 * (p * 2 ^ nat ?k)" using p by simp
    finally have big: "2 ^ 52 * q \<le> p * 2 ^ nat ?k" using q by simp
    consider "shift = ?k" | "shift = ?k - 1" "0 < ?k" "2 ^ 53 * q \<le> p * 2 ^ nat ?k" | "shift = - 1" "?k = 0" "2 ^ 53 * q \<le> p"
    proof (cases "p * 2 ^ nat ?k < 2 ^ 53 * q")
      case True
      with \<open>0 \<le> ?k\<close> that(1) show ?thesis by (simp add: shift_def)
    next
      case False
      with True that(2,3) show ?thesis by (cases "?k = 0") (auto simp: shift_def)
    qed
    then show thesis
    proof cases
      case 1
      with True big fl fine show thesis by simp
    next
      case 2
      then have "(2::nat) ^ nat ?k = 2 * 2 ^ nat (?k - 1)" by (metis Suc_nat_eq_nat_zadd1 diff_add_cancel power_Suc diff_ge_0_iff_ge zless_imp_add1_zle add.commute add_0)
      with 2 fl fine [of "nat shift"] show thesis by simp
    next
      case 3
      with fl coarse [of 1] show thesis by simp
    qed
  next
    case False
    define t where "t = nat (- ?k)"
    from False have t: "bit_size p = 53 + bit_size q + t" by (simp add: t_def)
    have "(2::nat) ^ 52 * (q * 2 ^ t) * 2 < 2 ^ 53 * 2 ^ bit_size q * 2 ^ t" using q by simp
    also have "\<dots> = 2 ^ bit_size p" by (simp add: t power_add)
    also note p
    finally have big: "2 ^ 52 * (q * 2 ^ t) \<le> p" by simp
    have "(2::nat) ^ 53 * (q * 2 ^ t) \<le> 2 ^ 52 * (q * 2 ^ (t + 1))" by simp
    show thesis
    proof (cases "shift = ?k")
      case True
      have "2 ^ 53 * q \<le> 2 ^ 52 * (q * 2 ^ t)" using False by (cases t) (auto simp: t_def)
      from coarse [OF _ le_trans [OF this big] big] True False fl show thesis by (simp add: t_def)
    next
      case no: False
      then have s: "shift = - int (t + 1)" "2 ^ 53 * (q * 2 ^ t) \<le> p"
        using False by (auto simp: shift_def t_def not_less split: if_splits)
      have "2 ^ 53 * q * 1 \<le> 2 ^ 53 * q * 2 ^ t" by (intro mult_le_mono) auto
      from le_trans [OF this] s(2) have "2 ^ 53 * q \<le> p" by (simp add: ac_simps)
      with s fl coarse [of "t + 1"] show thesis by (simp add: nat_add_distrib)
    qed
  qed
qed

text \<open>A fraction that has a representation of 53 bits is not rounded.\<close>

lemma fl_exact:
  assumes "0 < q" "n < 2 ^ 53" "p * 2 ^ e = n * q" "fl p q = (a, b)"
  shows "0 < b \<and> a * 2 ^ e = n * b"
proof (cases "n = 0")
  case True
  with assms show ?thesis by (auto simp: fl_def)
next
  case False
  with assms have p: "0 < p" by (metis gr0I mult_is_0 nat_neq_iff)
  from p assms(1) show ?thesis
  proof (cases rule: fl_cases)
    case (fine s)
    have "e \<le> s"
    proof (rule ccontr)
      assume "\<not> e \<le> s"
      then obtain d where e: "e = s + Suc d" using less_iff_Suc_add by (metis not_le add_Suc_right)
      have "2 ^ 53 * q * 1 \<le> 2 ^ 53 * q * (2::nat) ^ d" by (intro mult_le_mono) auto
      also have "\<dots> = (2 * (2 ^ 52 * q)) * 2 ^ d" by simp
      also have "\<dots> \<le> 2 * (p * 2 ^ s) * 2 ^ d" using fine(2) by simp
      also have "\<dots> = n * q" using assms(3) by (simp add: e power_add algebra_simps)
      finally have "2 ^ 53 * q \<le> n * q" by simp
      then show False using assms(1,2) by (simp only: mult_le_cancel2) simp
    qed
    then obtain d where s: "s = e + d" using le_Suc_ex by blast
    have "p * 2 ^ s = (n * 2 ^ d) * q" using assms(3) by (simp add: s power_add algebra_simps)
    then have "round_div (p * 2 ^ s) q = n * 2 ^ d" using assms(1) by (simp only: round_div_exact)
    with fine(1) assms(4) have "a = n * 2 ^ d" "b = 2 ^ s" by auto
    then show ?thesis by (simp add: s power_add)
  next
    case (coarse t)
    have "2 ^ 53 * q * 1 \<le> p * 2 ^ e" using coarse(2) by (intro mult_le_mono) auto
    with assms show ?thesis by simp
  qed
qed

text \<open>Rounding does not cross a power of two.\<close>

lemma fl_le_pow2:
  assumes "0 < q" "p \<le> 2 ^ c * q" "fl p q = (a, b)"
  shows "0 < b \<and> a \<le> 2 ^ c * b"
proof (cases "p = 0")
  case True
  with assms show ?thesis by (auto simp: fl_def)
next
  case False
  then have "0 < p" by simp
  from this assms(1) show ?thesis
  proof (cases rule: fl_cases)
    case (fine s)
    have "p * 2 ^ s \<le> (2 ^ c * 2 ^ s) * q" using assms(2) by simp
    with fine assms round_div_le [of q "p * 2 ^ s" "2 ^ c * 2 ^ s"] show ?thesis by auto
  next
    case (coarse t)
    from le_trans [OF coarse(3) assms(2)] have "(2::nat) ^ t * 2 ^ 52 * q \<le> 2 ^ c * q" by (simp add: ac_simps)
    then have "(2::nat) ^ t * 2 ^ 52 \<le> 2 ^ c" using assms(1) by (simp only: mult_le_cancel2)
    then have "(2::nat) ^ (t + 52) \<le> 2 ^ c" by (simp only: power_add)
    then have "t \<le> c" by (simp only: power_increasing_iff)
    then obtain d where c: "c = t + d" using le_Suc_ex by blast
    have "p \<le> 2 ^ d * (q * 2 ^ t)" using assms(2) by (simp add: c power_add algebra_simps)
    with assms(1) round_div_le [of "q * 2 ^ t" p "2 ^ d"] have "round_div p (q * 2 ^ t) \<le> 2 ^ d" by simp
    with coarse assms(3) show ?thesis by (auto simp: c power_add)
  qed
qed

section \<open>Sizes\<close>

lemma of_size_exact: "\<lbrakk>unat n < 2 ^ 53; of_size n = (a, b)\<rbrakk> \<Longrightarrow> 0 < b \<and> a = unat n * b"
  using fl_exact [of 1 "unat n" "unat n" 0 a b] by (simp add: of_size_def)

lemma of_size_le: "of_size n = (a, b) \<Longrightarrow> 0 < b \<and> a \<le> 2 ^ 64 * b"
  using fl_le_pow2 [of 1 "unat n" 64 a b] unsigned_less [of n, where 'a = nat] by (simp add: of_size_def)

text \<open>The unit loop divides by 1024 as long as the size is that large, and at most four times.\<close>

lemma unit_loop_exact:
  assumes "n < 2 ^ 53" "0 < b" "a * 1024 ^ i = n * b" "i \<le> 4" "1024 ^ i \<le> n \<or> i = 0" "unit_loop (a, b) i = (y, j)"
  shows "0 < snd y \<and> fst y * 1024 ^ j = n * snd y \<and> i \<le> j \<and> j \<le> 4 \<and> (1024 ^ j \<le> n \<or> j = 0) \<and> (n < 1024 ^ (j + 1) \<or> j = 4)"
  using assms(2-)
proof (induction "(a, b)" i arbitrary: a b rule: unit_loop.induct)
  case (1 i a b)
  have large: "1024 * b \<le> a \<longleftrightarrow> 1024 ^ (i + 1) \<le> n"
  proof -
    have "1024 * b \<le> a \<longleftrightarrow> (1024 * b) * 1024 ^ i \<le> a * 1024 ^ i" by (simp only: mult_le_cancel2) simp
    also have "\<dots> \<longleftrightarrow> 1024 ^ (i + 1) * b \<le> n * b" by (simp add: "1.prems"(2) ac_simps)
    also have "\<dots> \<longleftrightarrow> 1024 ^ (i + 1) \<le> n" using "1.prems"(1) by (simp only: mult_le_cancel2) simp
    finally show ?thesis .
  qed
  show ?case
  proof (cases "1024 * b \<le> a \<and> i < 4")
    case True
    obtain a' b' where fl: "fl a (b * 1024) = (a', b')" by fastforce
    have "a * 2 ^ (10 * (i + 1)) = n * (b * 1024)" using "1.prems"(2) by (simp add: power_mult power_add)
    from fl_exact [OF _ assms(1) this fl] "1.prems"(1) have f: "0 < b'" "a' * 1024 ^ (i + 1) = n * b'"
      by (simp_all add: power_mult power_add)
    have "0 < snd y \<and> fst y * 1024 ^ j = n * snd y \<and> i + 1 \<le> j \<and> j \<le> 4 \<and> (1024 ^ j \<le> n \<or> j = 0) \<and>
      (n < 1024 ^ (j + 1) \<or> j = 4)"
      using True fl f large "1.prems"(5) by (intro "1.hyps" [of a' b']) (auto simp: unit_loop.simps [of "(a, b)" i])
    then show ?thesis by auto
  next
    case False
    with "1.prems" large show ?thesis by (auto simp: unit_loop.simps [of "(a, b)" i])
  qed
qed

lemma unit_loop_le:
  "\<lbrakk>0 < b; a \<le> 2 ^ (64 - 10 * i) * b; i \<le> 4; unit_loop (a, b) i = (y, j)\<rbrakk> \<Longrightarrow>
    0 < snd y \<and> j \<le> 4 \<and> fst y \<le> 2 ^ (64 - 10 * j) * snd y \<and> (fst y < 1024 * snd y \<or> j = 4)"
proof (induction "(a, b)" i arbitrary: a b rule: unit_loop.induct)
  case (1 i a b)
  show ?case
  proof (cases "1024 * b \<le> a \<and> i < 4")
    case True
    obtain a' b' where fl: "fl a (b * 1024) = (a', b')" by fastforce
    have "64 - 10 * i = 64 - 10 * (i + 1) + 10" using True by simp
    then have "(2::nat) ^ (64 - 10 * i) = 2 ^ (64 - 10 * (i + 1)) * 2 ^ 10" by (metis power_add)
    then have "a \<le> 2 ^ (64 - 10 * (i + 1)) * (b * 1024)" using "1.prems"(2) by simp
    from fl_le_pow2 [OF _ this fl] "1.prems"(1) have f: "0 < b'" "a' \<le> 2 ^ (64 - 10 * (i + 1)) * b'" by simp_all
    show ?thesis
      using True fl f "1.prems" by (intro "1.hyps" [of a' b']) (auto simp: unit_loop.simps [of "(a, b)" i])
  next
    case False
    with "1.prems" show ?thesis by (auto simp: unit_loop.simps [of "(a, b)" i])
  qed
qed

text \<open>The text always fits the buffers of 32 bytes: it has at most 13 characters.\<close>

lemma format_bytes_fits:
  assumes "of_size n = (a, b)" "unit_loop (a, b) 0 = (y, j)"
  shows "length (if j = 0 then show_nat (unat n) @ '' '' @ units ! j else show_tenths y @ '' '' @ units ! j) \<le> 22"
proof -
  obtain c d where y: "y = (c, d)" by fastforce
  from of_size_le [OF assms(1)] unit_loop_le [OF _ _ _ assms(2)] y
  have d: "0 < d" "j \<le> 4" "c \<le> 2 ^ (64 - 10 * j) * d" "c < 1024 * d \<or> j = 4" by auto
  have "c \<le> 2 ^ 24 * d" using d(3,4) by auto
  then have "round_div (10 * c) d \<le> 10 * 2 ^ 24" by (intro round_div_le d) simp
  then have "length (show_nat (round_div (10 * c) d div 10)) \<le> 8" by (intro length_show_nat) auto
  moreover have "length (show_nat (unat n)) \<le> 20"
    using unsigned_less [of n, where 'a = nat] by (intro length_show_nat) auto
  moreover have "j \<in> {0, 1, 2, 3, 4}" using d(2) by auto
  ultimately show ?thesis by (auto simp: y Let_def units_def)
qed

text \<open>C34: a size of at least one kilobyte and less than 2 to the 53 bytes is printed in the largest unit that does not
  exceed it, up to terabytes, as the decimal fraction with one digit that is nearest to the exact quotient: no step of the
  floating-point computation loses anything before the last rounding.\<close>

theorem format_bytes_nearest:
  assumes "unat n < 2 ^ 53" "1 \<le> j" "j \<le> 4" "1024 ^ j \<le> unat n" "unat n < 1024 ^ (j + 1) \<or> j = 4"
  shows "\<exists>k. tui_format_bytes n 32 = show_nat (k div 10) @ [CHR ''.'', digit (k mod 10)] @ '' '' @ units ! j \<and>
    2 * \<bar>10 * uint n - int k * 1024 ^ j\<bar> \<le> 1024 ^ j"
proof -
  obtain a b where s: "of_size n = (a, b)" by fastforce
  obtain c d i where loop: "unit_loop (a, b) 0 = ((c, d), i)" by (metis surj_pair)
  from of_size_exact [OF assms(1) s] unit_loop_exact [OF assms(1) _ _ _ _ loop]
  have y: "0 < d" "c * 1024 ^ i = unat n * d" "i \<le> 4" "1024 ^ i \<le> unat n \<or> i = 0" "unat n < 1024 ^ (i + 1) \<or> i = 4"
    by auto
  have "i = j"
  proof (rule linorder_cases)
    assume "i < j"
    then have "(1024::nat) ^ (i + 1) \<le> 1024 ^ j" by (intro power_increasing) auto
    with y(5) assms(3,4) \<open>i < j\<close> show ?thesis by simp
  next
    assume "j < i"
    then have "(1024::nat) ^ (j + 1) \<le> 1024 ^ i" by (intro power_increasing) auto
    with y(3,4) assms(5) \<open>j < i\<close> show ?thesis by simp
  qed
  let ?k = "round_div (10 * c) d"
  have "int c * 1024 ^ j = uint n * int d"
    using y(2) \<open>i = j\<close> by (metis of_nat_mult of_nat_power of_nat_numeral uint_nat)
  then have "(10 * uint n - int ?k * 1024 ^ j) * int d = (int (10 * c) - int ?k * int d) * 1024 ^ j"
    by (simp add: algebra_simps)
  then have "\<bar>10 * uint n - int ?k * 1024 ^ j\<bar> * int d = \<bar>int (10 * c) - int ?k * int d\<bar> * 1024 ^ j"
    by (drule_tac arg_cong [of _ _ abs]) (simp only: abs_mult power_abs abs_of_nat abs_numeral)
  then have "2 * \<bar>10 * uint n - int ?k * 1024 ^ j\<bar> * int d = 2 * \<bar>int (10 * c) - int ?k * int d\<bar> * 1024 ^ j"
    by (simp only: mult.assoc)
  also have "\<dots> \<le> int d * 1024 ^ j" using round_div_near [OF y(1), of "10 * c"] by (intro mult_right_mono) auto
  also have "\<dots> = 1024 ^ j * int d" by (rule mult.commute)
  finally have "2 * \<bar>10 * uint n - int ?k * 1024 ^ j\<bar> * int d \<le> 1024 ^ j * int d" .
  then have "2 * \<bar>10 * uint n - int ?k * 1024 ^ j\<bar> \<le> 1024 ^ j" using y(1) by (simp only: mult_le_cancel_right)
  then show ?thesis using assms(2) \<open>i = j\<close> format_bytes_fits [OF s loop]
    by (intro exI [of _ ?k]) (simp add: tui_format_bytes_def s loop Let_def fit_short)
qed

theorem format_bytes_nearest_witness:
  "\<exists>k. tui_format_bytes 1536 32 = show_nat (k div 10) @ [CHR ''.'', digit (k mod 10)] @ '' '' @ units ! 1 \<and>
    2 * \<bar>10 * uint (1536 :: u64) - int k * 1024 ^ 1\<bar> \<le> 1024 ^ 1"
  by (rule format_bytes_nearest) simp_all

section \<open>The progress bar\<close>

lemma round_div_pos: "\<lbrakk>0 < q; 2 ^ 52 * q \<le> p\<rbrakk> \<Longrightarrow> 0 < round_div p q"
proof -
  assume q: "0 < q" and p: "2 ^ 52 * q \<le> p"
  from div_le_mono [OF p, of q] q have "2 ^ 52 \<le> p div q" by (simp only: nonzero_mult_div_cancel_right)
  then show ?thesis by (simp add: round_div_def Let_def)
qed

lemma fl_pos: "\<lbrakk>0 < p; 0 < q; fl p q = (a, b)\<rbrakk> \<Longrightarrow> 0 < a \<and> 0 < b"
  by (cases rule: fl_cases [of p q]) (auto simp: round_div_pos)

lemma fl_le_small:
  assumes "0 < q" "p \<le> m * q" "m < 2 ^ 53" "fl p q = (a, b)"
  shows "0 < b \<and> a \<le> m * b"
proof (cases "p = 0")
  case True
  with assms show ?thesis by (auto simp: fl_def)
next
  case False
  then have "0 < p" by simp
  from this assms(1) show ?thesis
  proof (cases rule: fl_cases)
    case (fine s)
    have "p * 2 ^ s \<le> (m * 2 ^ s) * q" using assms(2) by simp
    with fine assms round_div_le [of q "p * 2 ^ s" "m * 2 ^ s"] show ?thesis by auto
  next
    case (coarse t)
    from le_trans [OF coarse(2) assms(2)] assms(1) have "2 ^ 53 \<le> m" by (simp only: mult_le_cancel2)
    with assms(3) show ?thesis by simp
  qed
qed

text \<open>The bar is as wide as it was asked to be, whatever is reported as progress.\<close>

lemma filled_bounds:
  assumes "pr_total p \<noteq> 0" "0 \<le> pr_width p" "pr_width p < 2 ^ 31"
  shows "0 \<le> filled_of p \<and> filled_of p \<le> pr_width p"
proof -
  obtain a b where t: "of_size (pr_total p) = (a, b)" by fastforce
  have "unat (pr_total p) \<noteq> 0" using assms(1) by (simp add: unat_eq_zero)
  with t fl_pos [of "unat (pr_total p)" 1 a b] have "0 < a" by (simp add: of_size_def)
  obtain c d where c: "of_size (pr_current p) = (c, d)" by fastforce
  with of_size_le have "0 < d" by blast
  obtain e f where ef: "fl (c * b) (d * a) = (e, f)" by fastforce
  have "0 < f" using fl_pos [OF _ _ ef] ef \<open>0 < a\<close> \<open>0 < d\<close> by (cases "c * b = 0") (auto simp: fl_def)
  obtain g h where gh: "percent_of p = (g, h)" by fastforce
  then have "0 < h" "g \<le> h"
    using ef t c \<open>0 < f\<close> by (auto simp: percent_of_def Let_def split: if_splits)
  obtain k l where kl: "fl (g * nat (pr_width p)) h = (k, l)" by fastforce
  have "nat (pr_width p) < 2 ^ 53" using assms(2,3) by simp
  from fl_le_small [OF \<open>0 < h\<close> _ this kl] \<open>g \<le> h\<close> have "0 < l" "k \<le> nat (pr_width p) * l"
    by (simp_all add: mult.commute)
  then have "k div l \<le> nat (pr_width p)" using div_le_mono [of k "nat (pr_width p) * l" l] by simp
  with assms(2) gh kl show ?thesis by (auto simp: filled_of_def sgn_if)
qed

end
